(* ===== verification/Prelude.thy ===== *)
theory Prelude
  imports Complex_Main "HOL-Library.Word"
begin

text \<open>
  The vocabulary every component of the VM32 model shares: the machine integers of the
  C sources, the faults a C execution can run into, the little-endian byte views of
  integers, and generic lemmas on words and lists.  The \<open>named_theorems\<close> collections
  below are filled by the component theories.
\<close>

named_theorems vm_frame
  \<open>which fields of the machine state an operation leaves alone\<close>
named_theorems wf_intros
  \<open>operations preserve the well-formedness invariant of the machine state\<close>
named_theorems res_simps
  \<open>unfolding of the result combinators\<close>

unbundle bit_operations_syntax

type_synonym u8 = "8 word"
type_synonym u32 = "32 word"
type_synonym u64 = "64 word"

section \<open>Faults and results\<close>

text \<open>
  What can go wrong in a C function of the sources: undefined behaviour (an access outside
  the memory block, \<open>memcpy\<close> on overlapping blocks, a conversion of a floating value that
  does not fit, signed overflow, use of a null pointer) and the two ways the code stops the
  process (\<open>assert\<close> and \<open>exit(1)\<close> on a failed allocation).  \<open>Out_Of_Fuel\<close> belongs to the
  model alone: it marks a nested resize deeper than the fuel given.
\<close>

datatype fault =
    Out_Of_Bounds
  | Overlapping_Copy
  | Bad_Conversion
  | Signed_Overflow
  | Null_Pointer
  | Assertion_Failed
  | Allocation_Failed
  | Out_Of_Fuel

type_synonym 'a res = "fault + 'a"

definition bindR :: "'a res \<Rightarrow> ('a \<Rightarrow> 'b res) \<Rightarrow> 'b res" where
  "bindR r f = (case r of Inl e \<Rightarrow> Inl e | Inr x \<Rightarrow> f x)"

lemma bindR_simps [simp]:
  "bindR (Inl e) f = Inl e"
  "bindR (Inr x) f = f x"
  by (simp_all add: bindR_def)

lemma bindR_Inr_iff [res_simps]:
  "bindR r f = Inr y \<longleftrightarrow> (\<exists>x. r = Inr x \<and> f x = Inr y)"
  by (cases r) auto

lemma bindR_Inl_iff [res_simps]:
  "bindR r f = Inl e \<longleftrightarrow> r = Inl e \<or> (\<exists>x. r = Inr x \<and> f x = Inl e)"
  by (cases r) auto

lemma bindR_cong [fundef_cong]:
  "r = r' \<Longrightarrow> (\<And>x. r' = Inr x \<Longrightarrow> f x = g x) \<Longrightarrow> bindR r f = bindR r' g"
  by (cases r') auto

lemma option_eq_by_Some: "(\<And>v. a = Some v \<longleftrightarrow> b = Some v) \<Longrightarrow> a = b"
  by (metis not_Some_eq)

section \<open>Words\<close>

lemma xor_left_cancel: "c XOR a = c XOR b \<longleftrightarrow> a = (b :: 'a::len word)"
proof
  assume "c XOR a = c XOR b"
  then have "c XOR (c XOR a) = c XOR (c XOR b)" by (rule arg_cong)
  then show "a = b" by (simp flip: xor.assoc)
qed simp

lemma xor_right_cancel: "a XOR c = b XOR c \<longleftrightarrow> a = (b :: 'a::len word)"
  by (simp add: xor.commute [of _ c] xor_left_cancel)

lemma xor_zero_iff: "a XOR b = 0 \<longleftrightarrow> a = (b :: 'a::len word)"
  using xor_left_cancel [of b a b] by (simp add: xor.commute)

lemma not_bit_beyond: "LENGTH('a) \<le> n \<Longrightarrow> \<not> bit (w :: 'a::len word) n"
  using bit_imp_le_length by (metis leD)

lemma bit_u8_less: "bit (b :: u8) n \<Longrightarrow> n < 8"
  using not_bit_beyond [of n b] by (simp add: not_le [symmetric]) blast

lemma unat_u32_less: "unat (w :: u32) < 4294967296"
  using unsigned_less [of w, where 'a = nat] by simp

lemma unat_u8_less: "unat (w :: u8) < 256"
  using unsigned_less [of w, where 'a = nat] by simp

lemma unat_u64_less: "unat (w :: u64) < 18446744073709551616"
  using unsigned_less [of w, where 'a = nat] by simp

lemma ucast_u8_u32 [simp]: "ucast (ucast (b :: u8) :: u32) = b"
  by (rule bit_word_eqI) (auto simp: bit_simps)

lemma ucast_u8_inject: "ucast (b :: u8) = (ucast b' :: u32) \<longleftrightarrow> b = b'"
  by (metis ucast_u8_u32)

section \<open>Bytes of machine integers\<close>

text \<open>The bytes of a 32-bit and of a 64-bit integer in memory order (little endian).\<close>

definition le32 :: "u32 \<Rightarrow> u8 list" where
  "le32 w = [ucast w, ucast (drop_bit 8 w), ucast (drop_bit 16 w), ucast (drop_bit 24 w)]"

definition le64 :: "u64 \<Rightarrow> u8 list" where
  "le64 w = map (\<lambda>i. ucast (drop_bit (8 * i) w)) [0..<8]"

definition of_le32 :: "u8 \<Rightarrow> u8 \<Rightarrow> u8 \<Rightarrow> u8 \<Rightarrow> u32" where
  "of_le32 b0 b1 b2 b3 =
     ucast b0 OR push_bit 8 (ucast b1) OR push_bit 16 (ucast b2) OR push_bit 24 (ucast b3)"

lemma length_le32 [simp]: "length (le32 w) = 4"
  by (simp add: le32_def)

lemma length_le64 [simp]: "length (le64 w) = 8"
  by (simp add: le64_def)

lemma of_le32_le32:
  "of_le32 (ucast w) (ucast (drop_bit 8 w)) (ucast (drop_bit 16 w)) (ucast (drop_bit 24 w)) = w"
proof (rule bit_word_eqI)
  fix n
  assume "n < LENGTH(32)"
  then consider "n < 8" | "8 \<le> n" "n < 16" | "16 \<le> n" "n < 24" | "24 \<le> n" "n < 32"
    by fastforce
  then show "bit (of_le32 (ucast w) (ucast (drop_bit 8 w)) (ucast (drop_bit 16 w))
      (ucast (drop_bit 24 w))) n = bit w n"
    by cases (auto simp: of_le32_def bit_simps)
qed

text \<open>The four bytes do not overlap, so the disjunctions are exclusive.\<close>

lemma of_le32_xor:
  "of_le32 b0 b1 b2 b3 =
     ucast b0 XOR push_bit 8 (ucast b1) XOR push_bit 16 (ucast b2) XOR push_bit 24 (ucast b3)"
  (is "_ = ?r")
proof (rule bit_word_eqI)
  fix n
  have hi: "\<not> bit b n" if "8 \<le> n" for b :: u8 and n
    using that bit_u8_less by fastforce
  assume "n < LENGTH(32)"
  then consider "n < 8" | "8 \<le> n" "n < 16" | "16 \<le> n" "n < 24" | "24 \<le> n" "n < 32"
    by fastforce
  then show "bit (of_le32 b0 b1 b2 b3) n = bit ?r n"
    by cases (simp_all add: of_le32_def bit_simps hi)
qed

lemma le32_of_le32 [simp]: "le32 (of_le32 b0 b1 b2 b3) = [b0, b1, b2, b3]"
  unfolding of_le32_def le32_def
  by (auto intro!: bit_word_eqI simp: bit_simps not_bit_beyond)

lemma le32_inject [simp]: "le32 v = le32 w \<longleftrightarrow> v = w"
proof
  assume "le32 v = le32 w"
  then have "of_le32 (ucast v) (ucast (drop_bit 8 v)) (ucast (drop_bit 16 v)) (ucast (drop_bit 24 v))
    = of_le32 (ucast w) (ucast (drop_bit 8 w)) (ucast (drop_bit 16 w)) (ucast (drop_bit 24 w))"
    by (simp only: le32_def list.inject)
  then show "v = w"
    by (simp only: of_le32_le32)
qed simp

end
