(* ===== verification/Hashing.thy ===== *)
theory Hashing
  imports Prelude
begin

text \<open>
  The checksums of \<open>hashing.c\<close>: table driven CRC32 (\<open>crc32\<close>, \<open>crc32_begin\<close>,
  \<open>crc32_update\<close>, \<open>crc32_finalize\<close>), FNV-1a (\<open>fnv1a32\<close> and its three streaming
  functions), the selector \<open>hash_buffer\<close> and \<open>verify_data_integrity\<close>.  A buffer
  \<open>(data, length)\<close> is the list of its bytes.  The static table \<open>crc32_table\<close> is filled
  by \<open>crc32_init_table\<close> before its first use by every function that reads it, so the model
  uses the filled table.

  The lemmas show that the table driven step is the bitwise polynomial division, that the
  streaming functions compose, and (through the locale \<open>byte_checksum\<close>, interpreted for
  both algorithms) that a change confined to one byte always changes the checksum; for
  CRC32 the same holds for a change confined to one 32-bit word.
\<close>

section \<open>CRC32\<close>

definition crc32_polynomial :: u32 where
  "crc32_polynomial = 0xEDB88320"

text \<open>The body of the inner loop of \<open>crc32_init_table\<close>.\<close>

definition crc32_bit :: "u32 \<Rightarrow> u32" where
  "crc32_bit crc =
     (if crc AND 1 \<noteq> 0 then drop_bit 1 crc XOR crc32_polynomial else drop_bit 1 crc)"

definition crc32_entry :: "u32 \<Rightarrow> u32" where
  "crc32_entry i = (crc32_bit ^^ 8) i"

definition crc32_table :: "u32 list" where
  "crc32_table = map (\<lambda>i. crc32_entry (of_nat i)) [0..<256]"

text \<open>One iteration of the loop over the bytes of \<open>crc32\<close> and \<open>crc32_update\<close>.\<close>

definition crc32_step :: "u32 \<Rightarrow> u8 \<Rightarrow> u32" where
  "crc32_step crc b =
     (let idx = (ucast ((crc XOR ucast b) AND 0xFF) :: u8)
      in drop_bit 8 crc XOR crc32_table ! unat idx)"

definition crc32_begin :: u32 where
  "crc32_begin = 0xFFFFFFFF"

definition crc32_update :: "u32 \<Rightarrow> u8 list \<Rightarrow> u32" where
  "crc32_update crc data = foldl crc32_step crc data"

definition crc32_finalize :: "u32 \<Rightarrow> u32" where
  "crc32_finalize crc = crc XOR 0xFFFFFFFF"

definition crc32 :: "u8 list \<Rightarrow> u32" where
  "crc32 data = foldl crc32_step 0xFFFFFFFF data XOR 0xFFFFFFFF"

section \<open>FNV-1a\<close>

definition fnv1a32_begin :: u32 where
  "fnv1a32_begin = 2166136261"

definition fnv1a32_step :: "u32 \<Rightarrow> u8 \<Rightarrow> u32" where
  "fnv1a32_step hash b = (hash XOR ucast b) * 16777619"

definition fnv1a32_update :: "u32 \<Rightarrow> u8 list \<Rightarrow> u32" where
  "fnv1a32_update hash data = foldl fnv1a32_step hash data"

definition fnv1a32_finalize :: "u32 \<Rightarrow> u32" where
  "fnv1a32_finalize hash = hash"

definition fnv1a32 :: "u8 list \<Rightarrow> u32" where
  "fnv1a32 data =
     (let h = fnv1a32_begin;
          h = fnv1a32_update h data
      in fnv1a32_finalize h)"

section \<open>Selection and verification\<close>

text \<open>
  \<open>hash_algorithm_t\<close>.  A C enum object may hold other integers; \<open>HASH_OTHER\<close> stands for
  them, so that the \<open>default\<close> branches have inputs.
\<close>

datatype hash_algorithm = HASH_SIMPLE_FNV1A | HASH_CRC32 | HASH_OTHER int

definition hash_buffer :: "u8 list \<Rightarrow> hash_algorithm \<Rightarrow> u32" where
  "hash_buffer data algo =
     (case algo of
        HASH_CRC32 \<Rightarrow> crc32 data
      | HASH_SIMPLE_FNV1A \<Rightarrow> fnv1a32 data
      | HASH_OTHER _ \<Rightarrow> crc32 data)"

definition hash_algorithm_to_string :: "hash_algorithm \<Rightarrow> string" where
  "hash_algorithm_to_string algo =
     (case algo of
        HASH_CRC32 \<Rightarrow> ''crc32''
      | HASH_SIMPLE_FNV1A \<Rightarrow> ''fnv1a''
      | HASH_OTHER _ \<Rightarrow> ''unknown'')"

definition verify_data_integrity :: "u8 list \<Rightarrow> u32 \<Rightarrow> bool" where
  "verify_data_integrity data expected_crc \<longleftrightarrow> crc32 data = expected_crc"

section \<open>The interface of a byte-wise checksum\<close>

text \<open>
  What both algorithms share: a state updated byte by byte, where the step loses neither
  the previous state nor the byte, and a final step that loses nothing.
\<close>

locale byte_checksum =
  fixes start :: u32
    and step :: "u32 \<Rightarrow> u8 \<Rightarrow> u32"
    and final :: "u32 \<Rightarrow> u32"
  assumes step_state: "step c b = step c' b \<Longrightarrow> c = c'"
    and step_byte: "step c b = step c b' \<Longrightarrow> b = b'"
    and final_inject: "final c = final c' \<Longrightarrow> c = c'"
begin

lemma foldl_state: "foldl step c xs = foldl step c' xs \<longleftrightarrow> c = c'"
  by (induction xs arbitrary: c c') (auto dest: step_state)

lemma single_byte:
  "final (foldl step start (xs @ a # ys)) = final (foldl step start (xs @ b # ys)) \<longleftrightarrow> a = b"
  by (auto simp: foldl_state dest!: final_inject dest: step_byte)

lemma single_update:
  assumes "i < length xs"
  shows "final (foldl step start (xs[i := b])) = final (foldl step start xs) \<longleftrightarrow> b = xs ! i"
proof -
  have "xs = take i xs @ xs ! i # drop (Suc i) xs"
    using assms by (simp add: id_take_nth_drop)
  then show ?thesis
    using assms single_byte [of "take i xs" b "drop (Suc i) xs" "xs ! i"]
    by (simp add: upd_conv_take_nth_drop)
qed

end

section \<open>The polynomial step\<close>

lemma crc32_bit_alt:
  "crc32_bit c = drop_bit 1 c XOR (if bit c 0 then crc32_polynomial else 0)"
  by (auto simp: crc32_bit_def and_one_eq bit_0 mod_2_eq_odd)

lemma crc32_bit_xor: "crc32_bit (x XOR y) = crc32_bit x XOR crc32_bit y"
  unfolding crc32_bit_alt
  by (auto simp: bit_simps ac_simps intro!: bit_word_eqI)

lemma crc32_bits_xor: "(crc32_bit ^^ n) (x XOR y) = (crc32_bit ^^ n) x XOR (crc32_bit ^^ n) y"
  by (induction n) (simp_all add: crc32_bit_xor)

lemma crc32_bit_top: "bit (crc32_bit c) 31 = bit c 0"
proof -
  have "bit crc32_polynomial 31"
    by (simp add: crc32_polynomial_def)
  then show ?thesis
    unfolding crc32_bit_alt by (simp add: bit_simps not_bit_beyond)
qed

lemma crc32_bit_zero:
  assumes "crc32_bit c = 0"
  shows "c = 0"
proof -
  from assms crc32_bit_top [of c] have "\<not> bit c 0" by simp
  with assms have "drop_bit 1 c = 0" by (simp add: crc32_bit_alt)
  show ?thesis
  proof (rule bit_word_eqI)
    fix n assume "n < LENGTH(32)"
    from \<open>drop_bit 1 c = 0\<close> have "\<not> bit (drop_bit 1 c) (n - 1)" by simp
    then show "bit c n = bit (0 :: u32) n"
      using \<open>\<not> bit c 0\<close> by (cases n) (simp_all add: bit_simps)
  qed
qed

lemma crc32_bits_zero: "(crc32_bit ^^ n) c = 0 \<Longrightarrow> c = 0"
  by (induction n) (auto dest: crc32_bit_zero)

lemma crc32_bits_inject: "(crc32_bit ^^ n) x = (crc32_bit ^^ n) y \<longleftrightarrow> x = y"
proof
  assume "(crc32_bit ^^ n) x = (crc32_bit ^^ n) y"
  then have "(crc32_bit ^^ n) (x XOR y) = 0"
    by (simp add: crc32_bits_xor)
  then have "x XOR y = 0"
    by (rule crc32_bits_zero)
  then show "x = y"
    by (simp only: xor_zero_iff)
qed simp

lemma crc32_bits_push:
  assumes "n \<le> 8"
  shows "(crc32_bit ^^ n) (push_bit 8 x) = push_bit (8 - n) (take_bit 24 x)"
  using assms
proof (induction n)
  case 0
  show ?case by (auto simp: bit_simps intro!: bit_word_eqI)
next
  case (Suc n)
  then have "(crc32_bit ^^ Suc n) (push_bit 8 x) = crc32_bit (push_bit (8 - n) (take_bit 24 x))"
    by simp
  also have "\<dots> = drop_bit 1 (push_bit (8 - n) (take_bit 24 x))"
    using Suc.prems by (simp add: crc32_bit_alt bit_simps)
  also have "\<dots> = push_bit (8 - Suc n) (take_bit 24 x)"
    using Suc.prems by (auto simp: bit_simps Suc_diff_Suc intro!: bit_word_eqI)
  finally show ?case .
qed

lemma length_crc32_table [simp]: "length crc32_table = 256"
  by (simp add: crc32_table_def)

lemma crc32_table_nth: "crc32_table ! unat (i :: u8) = crc32_entry (ucast i)"
proof -
  have "unat i < 256" using unsigned_less [of i] by simp
  then show ?thesis
    by (simp add: crc32_table_def of_nat_unat)
qed

text \<open>The table driven step is eight steps of the bitwise division.\<close>

lemma crc32_step_bitwise: "crc32_step crc b = (crc32_bit ^^ 8) (crc XOR ucast b)"
proof -
  let ?x = "crc XOR ucast b"
  have split: "?x = take_bit 8 ?x XOR push_bit 8 (drop_bit 8 crc)"
    by (auto simp: bit_simps not_bit_beyond intro!: bit_word_eqI)
  have hi: "(crc32_bit ^^ 8) (push_bit 8 (drop_bit 8 crc)) = drop_bit 8 crc"
  proof -
    have "take_bit 24 (drop_bit 8 crc) = drop_bit 8 crc"
      using bit_imp_le_length by (fastforce simp: bit_simps intro!: bit_word_eqI)
    then show ?thesis using crc32_bits_push [of 8 "drop_bit 8 crc"] by simp
  qed
  have idx: "ucast (ucast (?x AND 0xFF) :: u8) = take_bit 8 ?x"
  proof -
    have mask: "(0xFF :: u32) = mask 8" by (simp add: mask_eq_exp_minus_1)
    show ?thesis
      unfolding mask by (auto simp: bit_simps simp del: mask_numeral intro!: bit_word_eqI)
  qed
  have "crc32_step crc b = drop_bit 8 crc XOR (crc32_bit ^^ 8) (take_bit 8 ?x)"
    by (simp only: crc32_step_def Let_def crc32_table_nth crc32_entry_def idx)
  also have "\<dots> = (crc32_bit ^^ 8) (take_bit 8 ?x XOR push_bit 8 (drop_bit 8 crc))"
    by (simp only: crc32_bits_xor hi word_bw_comms)
  also have "\<dots> = (crc32_bit ^^ 8) ?x"
    by (simp only: split [symmetric])
  finally show ?thesis .
qed

lemma crc32_finalize_inject: "crc32_finalize c = crc32_finalize c' \<Longrightarrow> c = c'"
  by (simp only: crc32_finalize_def xor_right_cancel)

interpretation crc: byte_checksum crc32_begin crc32_step crc32_finalize
proof unfold_locales
  fix c c' b b'
  show "c = c'" if "crc32_step c b = crc32_step c' b"
  proof -
    from that have "c XOR ucast b = c' XOR ucast b"
      by (simp only: crc32_step_bitwise crc32_bits_inject)
    then show ?thesis by (simp only: xor_right_cancel)
  qed
  show "b = b'" if "crc32_step c b = crc32_step c b'"
    using that
    by (simp only: crc32_step_bitwise crc32_bits_inject xor_left_cancel ucast_u8_inject)
  show "c = c'" if "crc32_finalize c = crc32_finalize c'"
    using that by (rule crc32_finalize_inject)
qed

lemma fnv_prime_cancel:
  assumes "x * 16777619 = (y * 16777619 :: u32)"
  shows "x = y"
proof -
  have inv: "16777619 * 899433627 = (1 :: u32)" by simp
  from assms have "x * 16777619 * 899433627 = y * 16777619 * 899433627" by simp
  then show ?thesis by (simp only: mult.assoc inv mult_1_right)
qed

interpretation fnv: byte_checksum fnv1a32_begin fnv1a32_step fnv1a32_finalize
proof unfold_locales
  fix c c' b b'
  show "c = c'" if "fnv1a32_step c b = fnv1a32_step c' b"
  proof -
    from that have "c XOR ucast b = c' XOR ucast b"
      unfolding fnv1a32_step_def by (rule fnv_prime_cancel)
    then show ?thesis by (simp only: xor_right_cancel)
  qed
  show "b = b'" if "fnv1a32_step c b = fnv1a32_step c b'"
  proof -
    from that have "c XOR ucast b = c XOR ucast b'"
      unfolding fnv1a32_step_def by (rule fnv_prime_cancel)
    then show ?thesis by (simp only: xor_left_cancel ucast_u8_inject)
  qed
  show "c = c'" if "fnv1a32_finalize c = fnv1a32_finalize c'"
    using that by (simp add: fnv1a32_finalize_def)
qed

section \<open>Streaming and the whole-buffer functions\<close>

lemma crc32_update_append: "crc32_update c (xs @ ys) = crc32_update (crc32_update c xs) ys"
  by (simp add: crc32_update_def)

lemma crc32_alt: "crc32 xs = crc32_finalize (crc32_update crc32_begin xs)"
  by (simp add: crc32_def crc32_finalize_def crc32_update_def crc32_begin_def)

lemma fnv1a32_alt: "fnv1a32 xs = fnv1a32_finalize (foldl fnv1a32_step fnv1a32_begin xs)"
  by (simp add: fnv1a32_def fnv1a32_update_def)

lemma crc32_update_inject: "crc32_update c xs = crc32_update c' xs \<longleftrightarrow> c = c'"
  by (simp add: crc32_update_def crc.foldl_state)

section \<open>Four bytes at once\<close>

lemma crc32_bits_byte: "(crc32_bit ^^ 8) (push_bit 8 (ucast (b :: u8))) = ucast b"
proof -
  have "take_bit 24 (ucast b :: u32) = ucast b"
    using bit_u8_less by (fastforce simp: bit_simps intro!: bit_word_eqI)
  then show ?thesis using crc32_bits_push [of 8 "ucast b"] by simp
qed

lemma crc32_bits_push8: "(crc32_bit ^^ 8) (push_bit (8 + n) (ucast (b :: u8))) = push_bit n (ucast b)"
  if "n \<le> 16"
proof -
  have "take_bit 24 (push_bit n (ucast b) :: u32) = push_bit n (ucast b)"
    using that bit_u8_less by (fastforce simp: bit_simps intro!: bit_word_eqI)
  then show ?thesis
    using crc32_bits_push [of 8 "push_bit n (ucast b)"] by (simp add: push_bit_push_bit)
qed

lemma crc32_step_shifted:
  assumes "k \<le> 3"
  shows "crc32_step ((crc32_bit ^^ (8 * k)) c) b
    = (crc32_bit ^^ (8 * Suc k)) (c XOR push_bit (8 * k) (ucast b))"
proof -
  have push: "(crc32_bit ^^ (8 * k)) (push_bit (8 * k) (ucast b)) = ucast b"
    using assms
  proof (induction k)
    case (Suc k)
    have "(crc32_bit ^^ (8 * Suc k)) (push_bit (8 * Suc k) (ucast b))
        = (crc32_bit ^^ (8 * k)) ((crc32_bit ^^ 8) (push_bit (8 + 8 * k) (ucast b)))"
      by (simp only: mult_Suc_right add.commute [of 8 "8 * k"] funpow_add o_apply)
    then show ?case using Suc by (simp add: crc32_bits_push8)
  qed simp
  have "crc32_step ((crc32_bit ^^ (8 * k)) c) b
      = (crc32_bit ^^ 8) ((crc32_bit ^^ (8 * k)) (c XOR push_bit (8 * k) (ucast b)))"
    by (simp only: crc32_step_bitwise crc32_bits_xor push)
  then show ?thesis
    by (simp only: mult_Suc_right funpow_add o_apply)
qed

lemma crc32_update_word: "crc32_update c (le32 w) = (crc32_bit ^^ 32) (c XOR w)"
proof -
  define b0 :: u8 where "b0 = ucast w"
  define b1 :: u8 where "b1 = ucast (drop_bit 8 w)"
  define b2 :: u8 where "b2 = ucast (drop_bit 16 w)"
  define b3 :: u8 where "b3 = ucast (drop_bit 24 w)"
  have le: "le32 w = [b0, b1, b2, b3]"
    by (simp add: le32_def b0_def b1_def b2_def b3_def)
  have w: "w = of_le32 b0 b1 b2 b3"
    by (simp only: b0_def b1_def b2_def b3_def of_le32_le32)
  define c1 where "c1 = c XOR ucast b0"
  define c2 where "c2 = c1 XOR push_bit 8 (ucast b1)"
  define c3 where "c3 = c2 XOR push_bit 16 (ucast b2)"
  have "crc32_step c b0 = (crc32_bit ^^ 8) c1"
    using crc32_step_shifted [of 0 c b0] by (simp add: c1_def)
  moreover have "crc32_step ((crc32_bit ^^ 8) c1) b1 = (crc32_bit ^^ 16) c2"
    using crc32_step_shifted [of 1 c1 b1] by (simp add: c2_def)
  moreover have "crc32_step ((crc32_bit ^^ 16) c2) b2 = (crc32_bit ^^ 24) c3"
    using crc32_step_shifted [of 2 c2 b2] by (simp add: c3_def)
  moreover have "crc32_step ((crc32_bit ^^ 24) c3) b3
      = (crc32_bit ^^ 32) (c3 XOR push_bit 24 (ucast b3))"
    using crc32_step_shifted [of 3 c3 b3] by simp
  ultimately have "crc32_update c (le32 w) = (crc32_bit ^^ 32) (c3 XOR push_bit 24 (ucast b3))"
    by (simp only: crc32_update_def le foldl.simps)
  then show ?thesis by (simp only: c3_def c2_def c1_def w of_le32_xor xor.assoc)
qed

lemma crc32_word_inject: "crc32 (xs @ le32 v @ ys) = crc32 (xs @ le32 w @ ys) \<longleftrightarrow> v = w"
proof
  assume "crc32 (xs @ le32 v @ ys) = crc32 (xs @ le32 w @ ys)"
  then have "crc32_update (crc32_update crc32_begin xs) (le32 v)
      = crc32_update (crc32_update crc32_begin xs) (le32 w)"
    by (simp only: crc32_alt crc32_update_append crc32_update_inject
        crc32_finalize_def xor_right_cancel)
  then have "crc32_update crc32_begin xs XOR v = crc32_update crc32_begin xs XOR w"
    by (simp only: crc32_update_word crc32_bits_inject)
  then show "v = w"
    by (simp only: xor_left_cancel)
qed simp

lemma hash_buffer_byte:
  "hash_buffer (xs @ a # ys) algo = hash_buffer (xs @ b # ys) algo \<longleftrightarrow> a = b"
  using crc.single_byte [of xs a ys b] fnv.single_byte [of xs a ys b]
  by (cases algo) (simp_all add: hash_buffer_def crc32_alt crc32_update_def fnv1a32_alt)

text \<open>Evaluation of one byte, and the published check value of CRC-32: the checksum of the
  ASCII digits 1 to 9.\<close>

lemma crc32_byte_unfold:
  "(crc32_bit ^^ 8) c = crc32_bit (crc32_bit (crc32_bit (crc32_bit
     (crc32_bit (crc32_bit (crc32_bit (crc32_bit c)))))))"
  by (simp add: eval_nat_numeral)

lemmas crc32_eval =
  crc32_step_bitwise crc32_byte_unfold crc32_bit_def crc32_polynomial_def

lemma crc32_check_value: "crc32 [49, 50, 51, 52, 53, 54, 55, 56, 57] = 0xCBF43926"
  by (simp add: crc32_def crc32_eval)

section \<open>Properties\<close>

text \<open>
  C33 (equivalence).  The table driven \<open>crc32\<close> computes the bitwise division by the
  reflected polynomial \<open>0xEDB88320\<close>, eight one-bit steps for every byte.\<close>

theorem crc32_bitwise_reference:
  "crc32 data = foldl (\<lambda>c b. (crc32_bit ^^ 8) (c XOR ucast b)) 0xFFFFFFFF data XOR 0xFFFFFFFF"
proof -
  have "crc32_step = (\<lambda>c b. (crc32_bit ^^ 8) (c XOR ucast b))"
    by (intro ext) (rule crc32_step_bitwise)
  then show ?thesis by (simp only: crc32_def)
qed

text \<open>Feeding a buffer in pieces of any lengths through \<open>crc32_begin\<close>,
  \<open>crc32_update\<close> and \<open>crc32_finalize\<close> gives the checksum of the whole buffer.\<close>

theorem crc32_streaming:
  "crc32_finalize (foldl crc32_update crc32_begin pieces) = crc32 (concat pieces)"
proof -
  have "foldl crc32_update c pieces = crc32_update c (concat pieces)" for c
    by (induction pieces arbitrary: c) (simp_all add: crc32_update_append, simp add: crc32_update_def)
  then show ?thesis by (simp add: crc32_alt)
qed

text \<open>
  C34 (safety).  A buffer in which one 32-bit word (an instruction, a register) was
  replaced has the same CRC32 only if the word is unchanged: \<open>verify_data_integrity\<close> rejects
  every corruption confined to one word.\<close>

theorem crc32_detects_word_change:
  "verify_data_integrity (xs @ le32 v @ ys) (crc32 (xs @ le32 w @ ys)) \<longleftrightarrow> v = w"
  by (simp only: verify_data_integrity_def crc32_word_inject)

text \<open>Whatever algorithm \<open>hash_buffer\<close> is asked for, changing one byte of the
  buffer changes the hash.\<close>

theorem hash_buffer_detects_byte_change:
  "hash_buffer (xs @ a # ys) algo = hash_buffer (xs @ b # ys) algo \<longleftrightarrow> a = b"
  by (rule hash_buffer_byte)

end
