(* ===== verification/HashTable.thy ===== *)
theory HashTable
  imports Hashing
begin

text \<open>
  The open addressing hash table of \<open>hashing.c\<close> (\<open>hash_table_t\<close>): linear probing over a
  power-of-two array of bins, tombstones, and resizing by the load factor.  Keys and values
  are generic; a \<open>key_type\<close> carries the hash function and the comparison.  The functions that
  copy and free (\<open>cpy\<close>, \<open>del\<close>) are the identity on the values modelled here.

  The double comparisons \<open>used / size > 0.5\<close> and \<open>active / size < 0.125\<close> are exact (32-bit
  integers, a power of two as divisor) and are written on natural numbers.  \<open>calloc\<close> may
  fail: the parameter \<open>ca\<close> says for which numbers of bins it succeeds, and a failure is the
  \<open>exit(1)\<close> of \<open>init_table\<close>.  \<open>insert_internal\<close> and \<open>init_table\<close> call each other; the
  recursion is bounded by fuel, and two levels are enough (\<open>insert_internal_ok\<close>,
  \<open>resize_ok\<close>).

  The lemmas show that the table implements a finite map: \<open>ht_map\<close> abstracts a table to the
  map it stores, \<open>ht_inv\<close> is the invariant every operation keeps.  They are collected in the
  interface \<open>map_table\<close>, which is what the tables of the virtual machine rely on.
\<close>

section \<open>Data\<close>

record 'k key_type =
  kt_hash :: "'k \<Rightarrow> u32"
  kt_cmp :: "'k \<Rightarrow> 'k \<Rightarrow> bool"

text \<open>
  \<open>hash_bin_t\<close>.  The pointers \<open>key\<close> and \<open>val\<close> are always written together; \<open>None\<close> is the
  pair of null pointers of a bin that was never used.
\<close>

record ('k, 'v) hash_bin =
  in_probe :: bool
  is_empty :: bool
  bin_hash_key :: u32
  bin_data :: "('k \<times> 'v) option"

record ('k, 'v) hash_table =
  bins :: "('k, 'v) hash_bin list"
  tbl_size :: u32
  used :: u32
  active :: u32
  tbl_key_type :: "'k key_type"

section \<open>Operations\<close>

definition probe :: "u32 \<Rightarrow> u32 \<Rightarrow> u32 \<Rightarrow> u32" where
  "probe hash_key i m = (hash_key + i) AND (m - 1)"

definition is_active_bin :: "('k, 'v) hash_bin \<Rightarrow> bool" where
  "is_active_bin bin \<longleftrightarrow> in_probe bin \<and> \<not> is_empty bin"

definition key_in_bin :: "('k, 'v) hash_table \<Rightarrow> ('k, 'v) hash_bin \<Rightarrow> u32 \<Rightarrow> 'k \<Rightarrow> bool" where
  "key_in_bin table bin hash_key key \<longleftrightarrow>
     is_active_bin bin \<and> bin_hash_key bin = hash_key \<and>
     (case bin_data bin of
        Some (k, _) \<Rightarrow> kt_cmp (tbl_key_type table) k key
      | None \<Rightarrow> False)"

text \<open>The loop of \<open>find_key\<close> and \<open>find_empty\<close>: the index of the first bin along the probe
  sequence that satisfies the test.\<close>

function probe_search ::
  "(('k, 'v) hash_bin \<Rightarrow> bool) \<Rightarrow> ('k, 'v) hash_table \<Rightarrow> u32 \<Rightarrow> nat \<Rightarrow> nat option" where
  "probe_search P table hash_key i =
     (if i < unat (tbl_size table) then
        let j = unat (probe hash_key (of_nat i) (tbl_size table))
        in if P (bins table ! j) then Some j else probe_search P table hash_key (Suc i)
      else None)"
  by pat_completeness auto
termination
  by (relation "measure (\<lambda>(P, table, hash_key, i). unat (tbl_size table) - i)") auto

declare probe_search.simps [simp del]

text \<open>The result \<open>None\<close> is the \<open>assert(false)\<close> after the loop.\<close>

definition find_key :: "('k, 'v) hash_table \<Rightarrow> u32 \<Rightarrow> 'k \<Rightarrow> nat option" where
  "find_key table hash_key key =
     probe_search (\<lambda>bin. \<not> in_probe bin \<or> key_in_bin table bin hash_key key) table hash_key 0"

definition find_empty :: "('k, 'v) hash_table \<Rightarrow> u32 \<Rightarrow> nat option" where
  "find_empty table hash_key = probe_search is_empty table hash_key 0"

definition free_bin :: "('k, 'v) hash_table \<Rightarrow> nat \<Rightarrow> ('k, 'v) hash_table" where
  "free_bin table j =
     (let bin = bins table ! j
      in if is_active_bin bin
         then table\<lparr>bins := (bins table)[j := bin\<lparr>is_empty := True\<rparr>],
                    active := active table - 1\<rparr>
         else table)"

definition store_in_bin ::
  "('k, 'v) hash_table \<Rightarrow> nat \<Rightarrow> u32 \<Rightarrow> 'k \<Rightarrow> 'v \<Rightarrow> ('k, 'v) hash_table" where
  "store_in_bin table j hash_key key val =
     (let bin = bins table ! j;
          t1 = table\<lparr>active := active table + (if is_empty bin then 1 else 0),
                     used := used table + (if in_probe bin then 0 else 1)\<rparr>;
          t2 = free_bin t1 j
      in t2\<lparr>bins := (bins t2)[j := \<lparr>in_probe = True, is_empty = False,
                                    bin_hash_key = hash_key, bin_data = Some (key, val)\<rparr>]\<rparr>)"

definition empty_bin :: "('k, 'v) hash_bin" where
  "empty_bin = \<lparr>in_probe = False, is_empty = True, bin_hash_key = 0, bin_data = None\<rparr>"

text \<open>The loop of \<open>init_table\<close> that moves the old bins; \<open>ins\<close> is \<open>hash_table_insert_internal\<close>.\<close>

fun reinsert ::
  "(('k, 'v) hash_table \<Rightarrow> u32 \<Rightarrow> 'k \<Rightarrow> 'v \<Rightarrow> ('k, 'v) hash_table res)
   \<Rightarrow> ('k, 'v) hash_table \<Rightarrow> ('k, 'v) hash_bin list \<Rightarrow> ('k, 'v) hash_table res" where
  "reinsert ins table [] = Inr table"
| "reinsert ins table (bin # old) =
     (if \<not> is_empty bin then
        (case bin_data bin of
           Some (k, v) \<Rightarrow>
             bindR (ins table (bin_hash_key bin) k v) (\<lambda>table'. reinsert ins table' old)
         | None \<Rightarrow> Inl Null_Pointer)
      else reinsert ins table old)"

definition init_table ::
  "(u32 \<Rightarrow> bool) \<Rightarrow> (('k, 'v) hash_table \<Rightarrow> u32 \<Rightarrow> 'k \<Rightarrow> 'v \<Rightarrow> ('k, 'v) hash_table res)
   \<Rightarrow> ('k, 'v) hash_table \<Rightarrow> u32 \<Rightarrow> ('k, 'v) hash_bin list \<Rightarrow> ('k, 'v) hash_table res" where
  "init_table ca ins table n old =
     (if \<not> ca n then Inl Allocation_Failed
      else reinsert ins
             (table\<lparr>bins := replicate (unat n) empty_bin,
                    tbl_size := n, used := 0, active := 0\<rparr>) old)"

definition resize ::
  "(u32 \<Rightarrow> bool) \<Rightarrow> (('k, 'v) hash_table \<Rightarrow> u32 \<Rightarrow> 'k \<Rightarrow> 'v \<Rightarrow> ('k, 'v) hash_table res)
   \<Rightarrow> ('k, 'v) hash_table \<Rightarrow> u32 \<Rightarrow> ('k, 'v) hash_table res" where
  "resize ca ins table new_size = init_table ca ins table new_size (bins table)"

definition above_load_max :: "('k, 'v) hash_table \<Rightarrow> bool" where
  "above_load_max table \<longleftrightarrow> unat (tbl_size table) < 2 * unat (used table)"

definition below_load_min :: "('k, 'v) hash_table \<Rightarrow> bool" where
  "below_load_min table \<longleftrightarrow> 8 * unat (active table) < unat (tbl_size table)"

primrec insert_internal ::
  "(u32 \<Rightarrow> bool) \<Rightarrow> nat \<Rightarrow> ('k, 'v) hash_table \<Rightarrow> u32 \<Rightarrow> 'k \<Rightarrow> 'v \<Rightarrow> ('k, 'v) hash_table res" where
  "insert_internal ca 0 = (\<lambda>table hash_key key val. Inl Out_Of_Fuel)"
| "insert_internal ca (Suc depth) = (\<lambda>table hash_key key val.
     (case find_key table hash_key key of
        None \<Rightarrow> Inl Assertion_Failed
      | Some b \<Rightarrow>
          (case (if \<not> in_probe (bins table ! b) then find_empty table hash_key else Some b) of
             None \<Rightarrow> Inl Assertion_Failed
           | Some j \<Rightarrow>
               (let table' = store_in_bin table j hash_key key val
                in if above_load_max table'
                   then resize ca (insert_internal ca depth) table' (tbl_size table' * 2)
                   else Inr table'))))"

definition MIN_TABLE_SIZE :: u32 where
  "MIN_TABLE_SIZE = 8"

definition resize_depth :: nat where
  "resize_depth = 2"

text \<open>\<open>malloc_ok\<close> says whether the allocation of the table header succeeds.\<close>

definition hash_table_create ::
  "(u32 \<Rightarrow> bool) \<Rightarrow> bool \<Rightarrow> 'k key_type \<Rightarrow> ('k, 'v) hash_table option res" where
  "hash_table_create ca malloc_ok kt =
     (if \<not> malloc_ok then Inr None
      else bindR
        (init_table ca (insert_internal ca resize_depth)
          \<lparr>bins = [], tbl_size = 0, used = 0, active = 0, tbl_key_type = kt\<rparr> MIN_TABLE_SIZE [])
        (\<lambda>table. Inr (Some table)))"

text \<open>The bins as \<open>hash_table_destroy\<close> leaves them before the arrays are freed.\<close>

definition hash_table_destroy :: "('k, 'v) hash_table \<Rightarrow> ('k, 'v) hash_table" where
  "hash_table_destroy table = foldl free_bin table [0..<unat (tbl_size table)]"

definition hash_table_insert ::
  "(u32 \<Rightarrow> bool) \<Rightarrow> ('k, 'v) hash_table \<Rightarrow> 'k \<Rightarrow> 'v \<Rightarrow> ('k, 'v) hash_table res" where
  "hash_table_insert ca table key val =
     insert_internal ca resize_depth table (kt_hash (tbl_key_type table) key) key val"

definition hash_table_lookup :: "('k, 'v) hash_table \<Rightarrow> 'k \<Rightarrow> 'v option res" where
  "hash_table_lookup table key =
     (case find_key table (kt_hash (tbl_key_type table) key) key of
        None \<Rightarrow> Inl Assertion_Failed
      | Some j \<Rightarrow>
          Inr (if in_probe (bins table ! j) then map_option snd (bin_data (bins table ! j))
               else None))"

definition hash_table_delete ::
  "(u32 \<Rightarrow> bool) \<Rightarrow> ('k, 'v) hash_table \<Rightarrow> 'k \<Rightarrow> ('k, 'v) hash_table res" where
  "hash_table_delete ca table key =
     (case find_key table (kt_hash (tbl_key_type table) key) key of
        None \<Rightarrow> Inl Assertion_Failed
      | Some j \<Rightarrow>
          (let table' = free_bin table j
           in if MIN_TABLE_SIZE < tbl_size table' \<and> below_load_min table'
              then resize ca (insert_internal ca resize_depth) table' (tbl_size table' div 2)
              else Inr table'))"

definition hash_table_contains :: "('k, 'v) hash_table \<Rightarrow> 'k \<Rightarrow> bool res" where
  "hash_table_contains table key =
     bindR (hash_table_lookup table key) (\<lambda>r. Inr (r \<noteq> None))"

definition hash_table_size :: "('k, 'v) hash_table \<Rightarrow> u32" where
  "hash_table_size table = active table"

section \<open>Key types of the virtual machine\<close>

definition uint32_key_type :: "u32 key_type" where
  "uint32_key_type = \<lparr>kt_hash = (\<lambda>k. crc32 (le32 k)), kt_cmp = (=)\<rparr>"

text \<open>A C string is the list of its bytes without the terminator.\<close>

definition string_key_type :: "u8 list key_type" where
  "string_key_type = \<lparr>kt_hash = crc32, kt_cmp = (=)\<rparr>"

text \<open>A pointer is its 64-bit address; the table neither copies nor frees what it points to.\<close>

definition ptr_key_type :: "u64 key_type" where
  "ptr_key_type = \<lparr>kt_hash = (\<lambda>p. crc32 (le64 p)), kt_cmp = (=)\<rparr>"

section \<open>Abstraction and invariant\<close>

definition bin_entry :: "('k, 'v) hash_bin \<Rightarrow> ('k \<times> 'v) option" where
  "bin_entry bin = (if is_active_bin bin then bin_data bin else None)"

definition entries :: "('k, 'v) hash_bin list \<Rightarrow> ('k \<times> 'v) list" where
  "entries bs = List.map_filter bin_entry bs"

text \<open>The finite map a table stands for.\<close>

definition ht_map :: "('k, 'v) hash_table \<Rightarrow> 'k \<Rightarrow> 'v option" where
  "ht_map table = map_of (entries (bins table))"

text \<open>The index of the \<open>i\<close>-th probe in a table of \<open>m\<close> bins.\<close>

definition slot :: "nat \<Rightarrow> u32 \<Rightarrow> nat \<Rightarrow> nat" where
  "slot m hash_key i = (unat hash_key + i) mod m"

definition probed :: "('k, 'v) hash_table \<Rightarrow> nat set" where
  "probed table = {j. j < length (bins table) \<and> in_probe (bins table ! j)}"

definition holds :: "('k, 'v) hash_table \<Rightarrow> nat \<Rightarrow> 'k \<Rightarrow> bool" where
  "holds table j key \<longleftrightarrow> (\<exists>v. bin_entry (bins table ! j) = Some (key, v))"

definition bin_ok :: "'k key_type \<Rightarrow> ('k, 'v) hash_bin \<Rightarrow> bool" where
  "bin_ok kt bin \<longleftrightarrow>
     (is_empty bin \<or>
       in_probe bin \<and> (\<exists>k v. bin_data bin = Some (k, v) \<and> bin_hash_key bin = kt_hash kt k))"

text \<open>The key in a bin is reached from its hash through bins that are all in a probe chain.\<close>

definition chained :: "('k, 'v) hash_table \<Rightarrow> u32 \<Rightarrow> nat \<Rightarrow> bool" where
  "chained table hash_key j \<longleftrightarrow>
     (\<exists>i < length (bins table). slot (length (bins table)) hash_key i = j \<and>
        (\<forall>i' < i. in_probe (bins table ! slot (length (bins table)) hash_key i')))"

definition ht_core :: "('k, 'v) hash_table \<Rightarrow> bool" where
  "ht_core table \<longleftrightarrow>
     (\<exists>e. 3 \<le> e \<and> e \<le> 31 \<and> unat (tbl_size table) = 2 ^ e) \<and>
     length (bins table) = unat (tbl_size table) \<and>
     kt_cmp (tbl_key_type table) = (=) \<and>
     (\<forall>bin \<in> set (bins table). bin_ok (tbl_key_type table) bin) \<and>
     (\<forall>i < length (bins table). \<forall>j < length (bins table). \<forall>k.
        holds table i k \<longrightarrow> holds table j k \<longrightarrow> i = j) \<and>
     (\<forall>j < length (bins table). \<forall>k. holds table j k \<longrightarrow>
        chained table (kt_hash (tbl_key_type table) k) j) \<and>
     unat (used table) = card (probed table)"

text \<open>Between operations at most half of the bins are in a probe chain.\<close>

definition ht_inv :: "('k, 'v) hash_table \<Rightarrow> bool" where
  "ht_inv table \<longleftrightarrow> ht_core table \<and> 2 * unat (used table) \<le> unat (tbl_size table)"

text \<open>The table may grow once more without the 32-bit size overflowing.\<close>

definition ht_room :: "('k, 'v) hash_table \<Rightarrow> bool" where
  "ht_room table \<longleftrightarrow> unat (tbl_size table) < 2 ^ 31"

section \<open>Probing\<close>

lemma unat_probe:
  assumes "unat m = 2 ^ e" and "e \<le> 31" and "i < 2 ^ e"
  shows "unat (probe h (of_nat i) m) = slot (unat m) h i"
proof -
  have m: "m = 2 ^ e"
    using assms(1,2) by (metis of_nat_unat of_nat_numeral of_nat_power ucast_id)
  have "(2 :: nat) ^ e < 2 ^ 32"
    using assms(2) by (intro power_strict_increasing) auto
  with assms(3) have i: "i mod 2 ^ 32 = i" by simp
  have "m - 1 = mask e" unfolding m by (simp add: mask_eq_exp_minus_1)
  then have "unat (probe h (of_nat i) m) = unat (h + of_nat i) mod 2 ^ e"
    by (simp add: probe_def flip: take_bit_eq_mask take_bit_eq_mod unsigned_take_bit_eq)
  also have "\<dots> = (unat h + i) mod 2 ^ 32 mod 2 ^ e"
    using i by (simp add: unat_word_ariths unsigned_of_nat take_bit_eq_mod)
  also have "\<dots> = (unat h + i) mod 2 ^ e"
    using assms(2) by (intro mod_mod_cancel le_imp_power_dvd) simp
  finally show ?thesis using assms(1) by (simp add: slot_def)
qed

lemma slot_less: "0 < m \<Longrightarrow> slot m h i < m"
  by (simp add: slot_def)

lemma slot_surj:
  assumes "j < m"
  shows "\<exists>i < m. slot m h i = j"
proof (intro exI conjI)
  let ?i = "(j + (m - unat h mod m)) mod m"
  from assms have "0 < m" by simp
  then show "?i < m" by simp
  have "slot m h ?i = (unat h mod m + (j + (m - unat h mod m))) mod m"
    unfolding slot_def by (metis mod_add_eq mod_mod_trivial)
  also have "unat h mod m + (j + (m - unat h mod m)) = j + m"
    using mod_less_divisor [OF \<open>0 < m\<close>, of "unat h"] by linarith
  finally show "slot m h ?i = j" using assms by simp
qed

text \<open>The search returns the first hit of the probe sequence.\<close>

lemma probe_search_first:
  assumes "unat (tbl_size t) = 2 ^ e" "e \<le> 31" "i0 \<le> i" "i < unat (tbl_size t)"
    and "P (bins t ! slot (unat (tbl_size t)) h i)"
  shows "\<exists>i' \<ge> i0. i' < unat (tbl_size t) \<and> P (bins t ! slot (unat (tbl_size t)) h i') \<and>
    (\<forall>i''. i0 \<le> i'' \<and> i'' < i' \<longrightarrow> \<not> P (bins t ! slot (unat (tbl_size t)) h i'')) \<and>
    probe_search P t h i0 = Some (slot (unat (tbl_size t)) h i')"
  using assms
proof (induction P t h i0 rule: probe_search.induct)
  case (1 P t h i0)
  let ?m = "unat (tbl_size t)"
  have i0: "i0 < ?m" using "1.prems" by simp
  with "1.prems" have slot: "unat (probe h (of_nat i0) (tbl_size t)) = slot ?m h i0"
    by (intro unat_probe) auto
  show ?case
  proof (cases "P (bins t ! slot ?m h i0)")
    case True
    then show ?thesis
      using i0 by (intro exI [of _ i0]) (auto simp: probe_search.simps [of P t h i0] slot)
  next
    case False
    with "1.prems" have "Suc i0 \<le> i" by (metis Suc_leI le_neq_implies_less)
    with False "1.IH" [OF i0 refl] "1.prems" slot obtain i' where i': "Suc i0 \<le> i'" "i' < ?m"
      "P (bins t ! slot ?m h i')"
      "\<forall>i''. Suc i0 \<le> i'' \<and> i'' < i' \<longrightarrow> \<not> P (bins t ! slot ?m h i'')"
      "probe_search P t h (Suc i0) = Some (slot ?m h i')"
      by auto
    have "\<not> P (bins t ! slot ?m h i'')" if "i0 \<le> i''" "i'' < i'" for i''
      using that i'(4) False by (cases "i'' = i0") auto
    then show ?thesis
      using i' i0 False by (intro exI [of _ i']) (simp add: probe_search.simps [of P t h i0] slot)
  qed
qed

section \<open>Consequences of the invariant\<close>

lemma ht_coreD:
  assumes "ht_core t"
  shows "\<exists>e. 3 \<le> e \<and> e \<le> 31 \<and> unat (tbl_size t) = 2 ^ e"
    and "length (bins t) = unat (tbl_size t)"
    and "kt_cmp (tbl_key_type t) = (=)"
    and "j < length (bins t) \<Longrightarrow> bin_ok (tbl_key_type t) (bins t ! j)"
    and "i < length (bins t) \<Longrightarrow> j < length (bins t) \<Longrightarrow> holds t i k \<Longrightarrow> holds t j k \<Longrightarrow> i = j"
    and "j < length (bins t) \<Longrightarrow> holds t j k \<Longrightarrow> chained t (kt_hash (tbl_key_type t) k) j"
    and "unat (used t) = card (probed t)"
  using assms unfolding ht_core_def by (auto simp: all_set_conv_all_nth)

lemma finite_probed [simp]: "finite (probed t)"
  by (simp add: probed_def)

lemma free_bin_exists:
  assumes "ht_core t" and "unat (used t) < unat (tbl_size t)"
  shows "\<exists>j < length (bins t). \<not> in_probe (bins t ! j)"
proof (rule ccontr)
  assume "\<not> ?thesis"
  then have "probed t = {..<length (bins t)}" by (auto simp: probed_def)
  with assms show False using ht_coreD(2,7) [OF assms(1)] by simp
qed

lemma bin_entry_Some:
  "bin_entry b = Some (k, v) \<longleftrightarrow> in_probe b \<and> \<not> is_empty b \<and> bin_data b = Some (k, v)"
  by (auto simp: bin_entry_def is_active_bin_def)

lemma holds_in_probe: "holds t j k \<Longrightarrow> in_probe (bins t ! j)"
  by (auto simp: holds_def bin_entry_Some)

lemma key_in_bin_holds:
  assumes "ht_core t" and "j < length (bins t)"
  shows "key_in_bin t (bins t ! j) (kt_hash (tbl_key_type t) k) k \<longleftrightarrow> holds t j k"
  using ht_coreD(3) [OF assms(1)] ht_coreD(4) [OF assms]
  by (auto simp: key_in_bin_def holds_def bin_entry_Some is_active_bin_def bin_ok_def)

lemma probe_search_total:
  assumes "ht_core t" and "j < length (bins t)" and "P (bins t ! j)"
  obtains i where "i < length (bins t)" "P (bins t ! slot (length (bins t)) h i)"
    "\<forall>i' < i. \<not> P (bins t ! slot (length (bins t)) h i')"
    "probe_search P t h 0 = Some (slot (length (bins t)) h i)"
proof -
  from ht_coreD(1) [OF assms(1)] obtain e where e: "unat (tbl_size t) = 2 ^ e" "e \<le> 31" by auto
  from slot_surj [OF assms(2), of h] obtain i where "i < length (bins t)"
    "slot (length (bins t)) h i = j" by blast
  with assms have "i < unat (tbl_size t)" "P (bins t ! slot (unat (tbl_size t)) h i)"
    by (simp_all add: ht_coreD(2))
  from probe_search_first [where P = P and h = h, OF e le0 this] that show ?thesis
    by (auto simp: ht_coreD(2) [OF assms(1)])
qed

text \<open>\<open>find_key\<close> finds the bin that holds the key, or, when the key is absent, a bin outside
  every probe chain; the assertion after its loop is never reached.\<close>

lemma find_key_cases:
  assumes core: "ht_core t" and free: "unat (used t) < unat (tbl_size t)"
  obtains (found) j where "find_key t (kt_hash (tbl_key_type t) k) k = Some j"
      "j < length (bins t)" "holds t j k"
    | (absent) j where "find_key t (kt_hash (tbl_key_type t) k) k = Some j"
      "j < length (bins t)" "\<not> in_probe (bins t ! j)" "\<forall>j < length (bins t). \<not> holds t j k"
proof -
  let ?h = "kt_hash (tbl_key_type t) k" and ?m = "length (bins t)"
  let ?P = "\<lambda>bin. \<not> in_probe bin \<or> key_in_bin t bin ?h k"
  obtain j0 where j0: "j0 < ?m" "\<not> in_probe (bins t ! j0)"
    using free_bin_exists [OF assms] by blast
  obtain i where i: "i < ?m" "?P (bins t ! slot ?m ?h i)"
    "\<forall>i' < i. \<not> ?P (bins t ! slot ?m ?h i')" "find_key t ?h k = Some (slot ?m ?h i)"
    unfolding find_key_def
    by (rule probe_search_total [OF core j0(1), of ?P ?h]) (use j0 in blast)+
  have less: "slot ?m ?h i'' < ?m" for i''
    using i(1) by (intro slot_less) linarith
  show ?thesis
  proof (cases "in_probe (bins t ! slot ?m ?h i)")
    case True
    with i(2) have "holds t (slot ?m ?h i) k"
      using key_in_bin_holds [OF core less] by blast
    then show ?thesis using found [OF i(4) less] by blast
  next
    case False
    have "\<not> holds t j k" if j: "j < ?m" for j
    proof
      assume "holds t j k"
      from ht_coreD(6) [OF core j this] obtain i' where i': "i' < ?m" "slot ?m ?h i' = j"
        "\<forall>i'' < i'. in_probe (bins t ! slot ?m ?h i'')"
        unfolding chained_def by blast
      consider "i' < i" | "i' = i" | "i < i'" by linarith
      then show False
      proof cases
        case 1
        with i(3) have "\<not> key_in_bin t (bins t ! j) ?h k" using i'(2) by blast
        with \<open>holds t j k\<close> show ?thesis using key_in_bin_holds [OF core j] by blast
      next
        case 2
        with \<open>holds t j k\<close> False i'(2) show ?thesis by (metis holds_in_probe)
      next
        case 3
        with i'(3) False show ?thesis by blast
      qed
    qed
    then show ?thesis using absent [OF i(4) less False] by blast
  qed
qed

text \<open>\<open>find_empty\<close> finds an empty bin, and the bins before it are in a probe chain.\<close>

lemma find_empty_ok:
  assumes core: "ht_core t" and free: "unat (used t) < unat (tbl_size t)"
  obtains j where "find_empty t h = Some j" "j < length (bins t)" "is_empty (bins t ! j)"
    "chained t h j"
proof -
  let ?m = "length (bins t)"
  obtain j0 where j0: "j0 < ?m" "\<not> in_probe (bins t ! j0)"
    using free_bin_exists [OF assms] by blast
  then have "is_empty (bins t ! j0)"
    using ht_coreD(4) [OF core] by (auto simp: bin_ok_def)
  from probe_search_total [where P = is_empty and h = h, OF core j0(1) this]
  obtain i where i: "i < ?m" "is_empty (bins t ! slot ?m h i)"
    "\<forall>i' < i. \<not> is_empty (bins t ! slot ?m h i')" "find_empty t h = Some (slot ?m h i)"
    unfolding find_empty_def by blast
  have less: "slot ?m h i'' < ?m" for i''
    using i(1) by (intro slot_less) linarith
  have "\<forall>i' < i. in_probe (bins t ! slot ?m h i')"
    using i(3) ht_coreD(4) [OF core less] by (auto simp: bin_ok_def)
  then have "chained t h (slot ?m h i)" using i(1) by (auto simp: chained_def)
  then show ?thesis using that [OF i(4) less i(2)] by blast
qed

section \<open>Storing\<close>

definition new_bin :: "u32 \<Rightarrow> 'k \<Rightarrow> 'v \<Rightarrow> ('k, 'v) hash_bin" where
  "new_bin h k v =
     \<lparr>in_probe = True, is_empty = False, bin_hash_key = h, bin_data = Some (k, v)\<rparr>"

lemma store_in_bin_fields [simp]:
  "bins (store_in_bin t j h k v) = (bins t)[j := new_bin h k v]"
  "tbl_size (store_in_bin t j h k v) = tbl_size t"
  "tbl_key_type (store_in_bin t j h k v) = tbl_key_type t"
  "used (store_in_bin t j h k v) = used t + (if in_probe (bins t ! j) then 0 else 1)"
  by (simp_all add: store_in_bin_def free_bin_def Let_def new_bin_def)

lemma bin_entry_new_bin [simp]: "bin_entry (new_bin h k v) = Some (k, v)"
  by (simp add: new_bin_def bin_entry_Some)

lemma in_probe_new_bin [simp]: "in_probe (new_bin h k v)"
  by (simp add: new_bin_def)

lemma holds_update:
  assumes "j < length (bins t)"
  shows "holds (store_in_bin t j h k v) i k' \<longleftrightarrow> (if i = j then k' = k else holds t i k')"
  using assms by (auto simp: holds_def nth_list_update)

lemma probed_store:
  assumes "j < length (bins t)"
  shows "probed (store_in_bin t j h k v) = insert j (probed t)"
  using assms by (auto simp: probed_def nth_list_update)

lemma chained_store:
  assumes "j < length (bins t)" and "chained t h' i"
  shows "chained (store_in_bin t j h k v) h' i"
  using assms by (fastforce simp: chained_def nth_list_update)

text \<open>A bin may be given to a key when no other bin holds the key and the bin is on its
  probe chain.\<close>

lemma ht_core_store:
  assumes core: "ht_core t" and j: "j < length (bins t)"
    and other: "\<forall>i < length (bins t). i \<noteq> j \<longrightarrow> \<not> holds t i k"
    and chain: "chained t (kt_hash (tbl_key_type t) k) j"
    and room: "unat (used t) < unat (tbl_size t)"
  shows "ht_core (store_in_bin t j (kt_hash (tbl_key_type t) k) k v)" (is "ht_core ?t")
proof -
  have len: "length (bins ?t) = length (bins t)" by simp
  have ok: "\<forall>bin \<in> set (bins ?t). bin_ok (tbl_key_type ?t) bin"
  proof
    fix bin assume "bin \<in> set (bins ?t)"
    then have "bin = new_bin (kt_hash (tbl_key_type t) k) k v \<or> bin \<in> set (bins t)"
      using set_update_subset_insert by fastforce
    then show "bin_ok (tbl_key_type ?t) bin"
      using core by (auto simp: ht_core_def bin_ok_def new_bin_def)
  qed
  have uniq: "i = i'" if "i < length (bins t)" "i' < length (bins t)" "holds ?t i k'" "holds ?t i' k'"
    for i i' k'
    using that other ht_coreD(5) [OF core]
    by (auto simp: holds_update [OF j] split: if_splits)
  have ch: "chained ?t (kt_hash (tbl_key_type ?t) k') i" if "i < length (bins t)" "holds ?t i k'" for i k'
    using that chain ht_coreD(6) [OF core] chained_store [OF j]
    by (auto simp: holds_update [OF j] split: if_splits)
  have "unat (used ?t) = card (probed ?t)"
  proof (cases "in_probe (bins t ! j)")
    case True
    then have "insert j (probed t) = probed t"
      using j by (simp add: probed_def insert_absorb)
    with True show ?thesis
      using ht_coreD(7) [OF core] by (simp add: probed_store [OF j])
  next
    case False
    have "unat (used t + 1) = unat (used t) + 1"
      using room unat_u32_less [of "tbl_size t"] by (simp add: unat_word_ariths)
    moreover have "j \<notin> probed t" using False by (simp add: probed_def)
    ultimately show ?thesis
      using False ht_coreD(7) [OF core] by (simp add: probed_store [OF j])
  qed
  with ok uniq ch core show ?thesis
    unfolding ht_core_def len by simp
qed

section \<open>The stored map\<close>

lemma entries_simps [simp]:
  "entries [] = []"
  "entries (b # bs) = (case bin_entry b of None \<Rightarrow> entries bs | Some e \<Rightarrow> e # entries bs)"
  by (simp_all add: entries_def List.map_filter_simps split: option.split)

lemma set_entries: "e \<in> set (entries bs) \<longleftrightarrow> (\<exists>j < length bs. bin_entry (bs ! j) = Some e)"
  by (induction bs) (auto simp: less_Suc_eq_0_disj split: option.splits)

lemma distinct_entries:
  assumes "\<forall>i < length bs. \<forall>j < length bs. \<forall>k v v'.
      bin_entry (bs ! i) = Some (k, v) \<longrightarrow> bin_entry (bs ! j) = Some (k, v') \<longrightarrow> i = j"
  shows "distinct (map fst (entries bs))"
  using assms
proof (induction bs)
  case (Cons b bs)
  have "\<forall>i < length bs. \<forall>j < length bs. \<forall>k v v'.
      bin_entry (bs ! i) = Some (k, v) \<longrightarrow> bin_entry (bs ! j) = Some (k, v') \<longrightarrow> i = j"
    using Cons.prems by (metis Suc_less_eq length_Cons nat.inject nth_Cons_Suc)
  note IH = Cons.IH [OF this]
  have "k \<notin> fst ` set (entries bs)" if "bin_entry b = Some (k, v)" for k v
  proof
    assume "k \<in> fst ` set (entries bs)"
    then obtain j v' where "Suc j < length (b # bs)" "bin_entry ((b # bs) ! Suc j) = Some (k, v')"
      by (auto simp: set_entries)
    with that Cons.prems show False
      by (metis length_greater_0_conv list.simps(3) nth_Cons_0 nat.simps(3))
  qed
  with IH show ?case by (auto split: option.split)
qed simp

lemma distinct_keys:
  assumes "ht_core t"
  shows "distinct (map fst (entries (bins t)))"
  by (rule distinct_entries) (use ht_coreD(5) [OF assms] in \<open>auto simp: holds_def\<close>)

lemma ht_map_Some:
  assumes "ht_core t"
  shows "ht_map t k = Some v \<longleftrightarrow> (\<exists>j < length (bins t). bin_entry (bins t ! j) = Some (k, v))"
  unfolding ht_map_def map_of_eq_Some_iff [OF distinct_keys [OF assms]] set_entries ..

lemma ht_map_None:
  assumes "ht_core t"
  shows "ht_map t k = None \<longleftrightarrow> (\<forall>j < length (bins t). \<not> holds t j k)"
  using ht_map_Some [OF assms, of k] by (auto simp: holds_def simp flip: not_Some_eq)

lemma ht_map_holds:
  assumes "ht_core t" and "j < length (bins t)" and "holds t j k"
  shows "ht_map t k = map_option snd (bin_data (bins t ! j))"
  using assms ht_map_Some [OF assms(1), of k] by (auto simp: holds_def bin_entry_Some)

lemma ht_map_store:
  assumes "ht_core t" and "j < length (bins t)"
    and "\<forall>i < length (bins t). i \<noteq> j \<longrightarrow> \<not> holds t i k"
    and "is_empty (bins t ! j) \<or> holds t j k"
    and "chained t (kt_hash (tbl_key_type t) k) j"
    and "unat (used t) < unat (tbl_size t)"
  shows "ht_map (store_in_bin t j (kt_hash (tbl_key_type t) k) k v) = (ht_map t)(k \<mapsto> v)"
    (is "ht_map ?t = _")
proof
  fix k'
  have core: "ht_core ?t" using assms by (intro ht_core_store)
  have at_j: "bin_entry (bins t ! j) = Some (k', v') \<Longrightarrow> k' = k" for v'
    using assms(4) by (auto simp: holds_def bin_entry_Some)
  have "ht_map ?t k' = Some v' \<longleftrightarrow> ((ht_map t)(k \<mapsto> v)) k' = Some v'" for v'
  proof (cases "k' = k")
    case True
    then show ?thesis
      using assms(2,3) by (auto simp: ht_map_Some [OF core] nth_list_update holds_def)
  next
    case False
    with at_j have "bin_entry (bins t ! j) \<noteq> Some (k', v')" by blast
    then have "(\<exists>i < length (bins t). bin_entry (bins ?t ! i) = Some (k', v'))
        \<longleftrightarrow> (\<exists>i < length (bins t). bin_entry (bins t ! i) = Some (k', v'))"
      using False assms(2) by (metis bin_entry_new_bin nth_list_update option.inject prod.inject
          store_in_bin_fields(1))
    with False show ?thesis
      by (simp add: ht_map_Some [OF core] ht_map_Some [OF assms(1)])
  qed
  then show "ht_map ?t k' = ((ht_map t)(k \<mapsto> v)) k'"
    by (rule option_eq_by_Some)
qed

section \<open>Insertion without a resize\<close>

text \<open>The bin \<open>insert_internal\<close> stores into, and what the table is after the store.\<close>

lemma insert_internal_store:
  assumes core: "ht_core t" and room: "unat (used t) < unat (tbl_size t)"
  obtains t' where
    "\<And>ca n. insert_internal ca (Suc n) t (kt_hash (tbl_key_type t) k) k v =
      (if above_load_max t' then resize ca (insert_internal ca n) t' (tbl_size t' * 2) else Inr t')"
    and "ht_core t'" and "ht_map t' = (ht_map t)(k \<mapsto> v)"
    and "tbl_size t' = tbl_size t" and "tbl_key_type t' = tbl_key_type t"
    and "unat (used t') \<le> unat (used t) + 1"
    and "ht_map t k \<noteq> None \<Longrightarrow> used t' = used t \<and> active t' = active t - 1"
    and "ht_map t k = None \<Longrightarrow> active t' = active t + 1"
proof -
  let ?h = "kt_hash (tbl_key_type t) k"
  have used: "unat (used t + (if b then 0 else 1)) \<le> unat (used t) + 1" for b
    using unat_u32_less [of "used t"] by (simp add: unat_word_ariths)
  show ?thesis
  proof (rule find_key_cases [OF assms, of k])
    fix j assume j: "find_key t ?h k = Some j" "j < length (bins t)" "holds t j k"
    have other: "\<forall>i < length (bins t). i \<noteq> j \<longrightarrow> \<not> holds t i k"
      using ht_coreD(5) [OF core] j(2,3) by blast
    note chain = ht_coreD(6) [OF core j(2,3)]
    have "in_probe (bins t ! j)" "\<not> is_empty (bins t ! j)"
      using j(3) by (auto simp: holds_def bin_entry_Some)
    moreover have "ht_map t k \<noteq> None" using ht_map_None [OF core] j(2,3) by blast
    ultimately show ?thesis
      using j used [of True] ht_core_store [OF core j(2) other chain room]
        ht_map_store [OF core j(2) other _ chain room]
      by (intro that [of "store_in_bin t j ?h k v"])
        (simp_all add: Let_def, simp add: store_in_bin_def free_bin_def is_active_bin_def)
  next
    fix j0 assume j0: "find_key t ?h k = Some j0" "j0 < length (bins t)"
      "\<not> in_probe (bins t ! j0)" "\<forall>j < length (bins t). \<not> holds t j k"
    obtain j where j: "find_empty t ?h = Some j" "j < length (bins t)" "is_empty (bins t ! j)"
      "chained t ?h j"
      by (rule find_empty_ok [OF assms])
    have other: "\<forall>i < length (bins t). i \<noteq> j \<longrightarrow> \<not> holds t i k"
      using j0(4) by blast
    have "ht_map t k = None" using ht_map_None [OF core] j0(4) by blast
    then show ?thesis
      using j0 j used [of "in_probe (bins t ! j)"] ht_core_store [OF core j(2) other j(4) room]
        ht_map_store [OF core j(2) other _ j(4) room]
      by (intro that [of "store_in_bin t j ?h k v"])
        (simp_all add: Let_def, simp add: store_in_bin_def free_bin_def is_active_bin_def Let_def)
  qed
qed

section \<open>Moving the bins to a new table\<close>

definition fresh :: "('k, 'v) hash_table \<Rightarrow> u32 \<Rightarrow> ('k, 'v) hash_table" where
  "fresh t n = t\<lparr>bins := replicate (unat n) empty_bin, tbl_size := n, used := 0, active := 0\<rparr>"

lemma fresh_fields [simp]:
  "tbl_size (fresh t n) = n" "tbl_key_type (fresh t n) = tbl_key_type t"
  "used (fresh t n) = 0" "active (fresh t n) = 0"
  "bins (fresh t n) = replicate (unat n) empty_bin"
  by (simp_all add: fresh_def)

lemma entries_replicate [simp]: "entries (replicate n empty_bin) = []"
  by (induction n) (simp_all add: bin_entry_def is_active_bin_def empty_bin_def)

lemma fresh_ok:
  assumes "unat n = 2 ^ e" "3 \<le> e" "e \<le> 31" "kt_cmp (tbl_key_type t) = (=)"
  shows "ht_core (fresh t n)" and "ht_map (fresh t n) = Map.empty"
proof -
  have "\<not> holds (fresh t n) j k" if "j < unat n" for j k
    using that by (simp add: holds_def bin_entry_Some empty_bin_def)
  moreover have "probed (fresh t n) = {}"
    by (auto simp: probed_def empty_bin_def)
  ultimately show "ht_core (fresh t n)"
    using assms by (auto simp: ht_core_def bin_ok_def empty_bin_def)
  show "ht_map (fresh t n) = Map.empty"
    by (simp add: ht_map_def)
qed

text \<open>The bins of a good table have one stored pair for every non-empty bin.\<close>

lemma bin_ok_entry:
  assumes "bin_ok kt b" and "\<not> is_empty b"
  obtains k v where "bin_entry b = Some (k, v)" "bin_data b = Some (k, v)"
    "bin_hash_key b = kt_hash kt k"
  using assms by (auto simp: bin_ok_def bin_entry_def is_active_bin_def)

lemma bin_entry_empty: "is_empty b \<Longrightarrow> bin_entry b = None"
  by (simp add: bin_entry_def is_active_bin_def)

text \<open>No resize is triggered while the bins fit below the load factor.\<close>

lemma reinsert_stays:
  assumes "ht_core t" and "\<forall>b \<in> set bs. bin_ok (tbl_key_type t) b"
    and "2 * (unat (used t) + length (entries bs)) \<le> unat (tbl_size t)"
  shows "\<exists>t'. reinsert (insert_internal ca (Suc n)) t bs = Inr t' \<and> ht_core t' \<and>
    ht_map t' = ht_map t ++ map_of (rev (entries bs)) \<and> tbl_size t' = tbl_size t \<and>
    tbl_key_type t' = tbl_key_type t \<and> unat (used t') \<le> unat (used t) + length (entries bs)"
  using assms
proof (induction bs arbitrary: t)
  case Nil
  then show ?case by simp
next
  case (Cons b bs)
  show ?case
  proof (cases "is_empty b")
    case True
    with Cons show ?thesis by (simp add: bin_entry_empty)
  next
    case False
    with Cons.prems(2) obtain k v where kv: "bin_entry b = Some (k, v)" "bin_data b = Some (k, v)"
      "bin_hash_key b = kt_hash (tbl_key_type t) k"
      by (auto elim: bin_ok_entry)
    with Cons.prems(3) have le: "2 * (unat (used t) + 1 + length (entries bs)) \<le> unat (tbl_size t)"
      by simp
    then have "unat (used t) < unat (tbl_size t)" by simp
    from insert_internal_store [OF Cons.prems(1) this, of k v] obtain t1 where t1:
      "insert_internal ca (Suc n) t (kt_hash (tbl_key_type t) k) k v =
        (if above_load_max t1 then resize ca (insert_internal ca n) t1 (tbl_size t1 * 2) else Inr t1)"
      "ht_core t1" "ht_map t1 = (ht_map t)(k \<mapsto> v)" "tbl_size t1 = tbl_size t"
      "tbl_key_type t1 = tbl_key_type t" "unat (used t1) \<le> unat (used t) + 1"
      by metis
    from le t1(4,6) have ins: "insert_internal ca (Suc n) t (kt_hash (tbl_key_type t) k) k v = Inr t1"
      unfolding t1(1) by (simp add: above_load_max_def)
    have "\<exists>t'. reinsert (insert_internal ca (Suc n)) t1 bs = Inr t' \<and> ht_core t' \<and>
      ht_map t' = ht_map t1 ++ map_of (rev (entries bs)) \<and> tbl_size t' = tbl_size t1 \<and>
      tbl_key_type t' = tbl_key_type t1 \<and> unat (used t') \<le> unat (used t1) + length (entries bs)"
      using Cons.prems(2) le t1 by (intro Cons.IH) auto
    then show ?thesis
      using False kv ins t1 by (auto simp del: insert_internal.simps)
  qed
qed

lemma entries_le_probed: "length (entries (bins t)) \<le> card (probed t)"
proof -
  have "length (entries bs) \<le> length (filter in_probe bs)" for bs :: "('a, 'b) hash_bin list"
    by (induction bs) (auto simp: bin_entry_Some split: option.splits)
  then show ?thesis
    by (simp add: probed_def length_filter_conv_card conj_commute)
qed

lemma map_of_rev_entries:
  assumes "ht_core t"
  shows "map_of (rev (entries (bins t))) = ht_map t"
proof -
  have "distinct (map fst (rev (entries (bins t))))"
    using distinct_keys [OF assms] by (simp add: rev_map [symmetric])
  then have "map_of (rev (entries (bins t))) k = Some v \<longleftrightarrow> ht_map t k = Some v" for k v
    by (simp add: ht_map_def distinct_keys [OF assms])
  then show ?thesis by (intro ext option_eq_by_Some)
qed

section \<open>Resizing\<close>

lemma ht_core_bins_ok: "ht_core t \<Longrightarrow> \<forall>b \<in> set (bins t). bin_ok (tbl_key_type t) b"
  by (simp add: ht_core_def)

lemma resize_fresh: "ca n \<Longrightarrow> resize ca ins t n = reinsert ins (fresh t n) (bins t)"
  by (simp add: resize_def init_table_def fresh_def)

lemma unat_mult_2:
  assumes "unat (n :: u32) < 2 ^ 31"
  shows "unat (n * 2) = 2 * unat n"
  using assms by (simp add: unat_word_ariths)

lemma size_power:
  assumes "ht_core t"
  obtains e where "3 \<le> e" "e \<le> 31" "unat (tbl_size t) = 2 ^ e"
  using ht_coreD(1) [OF assms] by blast

text \<open>Growing keeps the map, and moving the bins triggers no further resize.\<close>

lemma resize_grow:
  assumes core: "ht_core t" and ca: "\<forall>m. ca m"
    and room: "ht_room t" and used: "unat (used t) \<le> unat (tbl_size t)"
  shows "\<exists>t'. resize ca (insert_internal ca (Suc n)) t (tbl_size t * 2) = Inr t' \<and> ht_inv t' \<and>
    ht_map t' = ht_map t \<and> tbl_size t' = tbl_size t * 2 \<and> tbl_key_type t' = tbl_key_type t \<and>
    unat (used t') \<le> unat (used t)"
proof -
  obtain e where e: "3 \<le> e" "unat (tbl_size t) = 2 ^ e" by (rule size_power [OF core])
  have size: "unat (tbl_size t * 2) = 2 * unat (tbl_size t)"
    using room by (intro unat_mult_2) (simp add: ht_room_def)
  have "(2 :: nat) ^ e < 2 ^ 31" using e room by (simp add: ht_room_def)
  then have "e < 31" by (metis power_strict_increasing_iff one_less_numeral_iff semiring_norm(76))
  let ?f = "fresh t (tbl_size t * 2)"
  have f: "ht_core ?f" "ht_map ?f = Map.empty"
    using e \<open>e < 31\<close> size ht_coreD(3) [OF core] by (auto intro!: fresh_ok [of _ "Suc e"])
  have len: "length (entries (bins t)) \<le> unat (used t)"
    using entries_le_probed [of t] ht_coreD(7) [OF core] by simp
  have "\<exists>t'. reinsert (insert_internal ca (Suc n)) ?f (bins t) = Inr t' \<and> ht_core t' \<and>
    ht_map t' = ht_map ?f ++ map_of (rev (entries (bins t))) \<and> tbl_size t' = tbl_size ?f \<and>
    tbl_key_type t' = tbl_key_type ?f \<and> unat (used t') \<le> unat (used ?f) + length (entries (bins t))"
    using f(1) ht_core_bins_ok [OF core] len used size by (intro reinsert_stays) auto
  then obtain t' where t': "reinsert (insert_internal ca (Suc n)) ?f (bins t) = Inr t'" "ht_core t'"
    "ht_map t' = ht_map t" "tbl_size t' = tbl_size t * 2" "tbl_key_type t' = tbl_key_type t"
    "unat (used t') \<le> length (entries (bins t))"
    by (auto simp: f(2) map_of_rev_entries [OF core])
  then show ?thesis
    using len used size by (simp add: resize_fresh ca ht_inv_def)
qed

text \<open>Insertion, growing when the load factor is passed.\<close>

lemma insert_internal_ok:
  assumes inv: "ht_inv t" and ca: "\<forall>m. ca m" and room: "ht_room t"
  shows "\<exists>t'. insert_internal ca (Suc (Suc n)) t (kt_hash (tbl_key_type t) k) k v = Inr t' \<and>
    ht_inv t' \<and> ht_map t' = (ht_map t)(k \<mapsto> v) \<and> tbl_key_type t' = tbl_key_type t \<and>
    unat (used t') \<le> unat (used t) + 1 \<and>
    (tbl_size t' = tbl_size t \<or>
      unat (tbl_size t') = 2 * unat (tbl_size t) \<and> unat (tbl_size t) < 2 * (unat (used t) + 1))"
proof -
  from inv have core: "ht_core t" and load: "2 * unat (used t) \<le> unat (tbl_size t)"
    by (simp_all add: ht_inv_def)
  obtain e where "3 \<le> e" "unat (tbl_size t) = 2 ^ e" by (rule size_power [OF core])
  then have pos: "0 < unat (tbl_size t)" by simp
  with load have less: "unat (used t) < unat (tbl_size t)" by simp
  from insert_internal_store [OF core less, of k v] obtain t1 where t1:
    "insert_internal ca (Suc (Suc n)) t (kt_hash (tbl_key_type t) k) k v =
      (if above_load_max t1 then resize ca (insert_internal ca (Suc n)) t1 (tbl_size t1 * 2)
       else Inr t1)"
    "ht_core t1" "ht_map t1 = (ht_map t)(k \<mapsto> v)" "tbl_size t1 = tbl_size t"
    "tbl_key_type t1 = tbl_key_type t" "unat (used t1) \<le> unat (used t) + 1"
    by metis
  show ?thesis
  proof (cases "above_load_max t1")
    case False
    with t1 show ?thesis
      by (auto simp: ht_inv_def above_load_max_def simp del: insert_internal.simps)
  next
    case True
    have "ht_room t1" using room t1(4) by (simp add: ht_room_def)
    moreover have "unat (used t1) \<le> unat (tbl_size t1)" using t1(4,6) less by simp
    ultimately obtain t' where t': "resize ca (insert_internal ca (Suc n)) t1 (tbl_size t1 * 2) = Inr t'"
      "ht_inv t'" "ht_map t' = ht_map t1" "tbl_size t' = tbl_size t1 * 2"
      "tbl_key_type t' = tbl_key_type t1" "unat (used t') \<le> unat (used t1)"
      using resize_grow [OF t1(2) ca, of n] by blast
    have "unat (tbl_size t') = 2 * unat (tbl_size t)"
      using t'(4) t1(4) room by (simp add: ht_room_def unat_mult_2)
    moreover have "unat (tbl_size t) < 2 * (unat (used t) + 1)"
      using True t1(4,6) by (simp add: above_load_max_def)
    ultimately have "unat (tbl_size t') = 2 * unat (tbl_size t) \<and>
      unat (tbl_size t) < 2 * (unat (used t) + 1)" ..
    with True t1 t' show ?thesis by (simp del: insert_internal.simps)
  qed
qed

text \<open>
  Moving bins into a table that may be too small: the table grows at most once, because the
  pairs fit into twice its size.
\<close>

lemma reinsert_grows:
  assumes "ht_inv t" and "\<forall>b \<in> set bs. bin_ok (tbl_key_type t) b"
    and "unat (used t) + length (entries bs) \<le> h" and "\<forall>m. ca m"
    and "unat (tbl_size t) = h \<or> unat (tbl_size t) = 2 * h" and "h < 2 ^ 31"
  shows "\<exists>t'. reinsert (insert_internal ca (Suc (Suc n))) t bs = Inr t' \<and> ht_inv t' \<and>
    ht_map t' = ht_map t ++ map_of (rev (entries bs)) \<and> tbl_key_type t' = tbl_key_type t \<and>
    (unat (tbl_size t') = h \<or> unat (tbl_size t') = 2 * h) \<and>
    unat (used t') \<le> unat (used t) + length (entries bs)"
  using assms
proof (induction bs arbitrary: t)
  case Nil
  then show ?case by auto
next
  case (Cons b bs)
  show ?case
  proof (cases "unat (tbl_size t) = 2 * h")
    case True
    then have "\<exists>t'. reinsert (insert_internal ca (Suc (Suc n))) t (b # bs) = Inr t' \<and> ht_core t' \<and>
      ht_map t' = ht_map t ++ map_of (rev (entries (b # bs))) \<and> tbl_size t' = tbl_size t \<and>
      tbl_key_type t' = tbl_key_type t \<and>
      unat (used t') \<le> unat (used t) + length (entries (b # bs))"
      using Cons.prems(1-3) by (intro reinsert_stays) (simp_all add: ht_inv_def)
    then show ?thesis
      using True Cons.prems(3)
      by (auto simp: ht_inv_def simp del: reinsert.simps entries_simps insert_internal.simps)
  next
    case False
    show ?thesis
    proof (cases "is_empty b")
      case True
      with Cons show ?thesis by (simp add: bin_entry_empty del: insert_internal.simps)
    next
      case ne: False
      with Cons.prems(2) obtain k v where kv: "bin_entry b = Some (k, v)" "bin_data b = Some (k, v)"
        "bin_hash_key b = kt_hash (tbl_key_type t) k"
        by (auto elim: bin_ok_entry)
      have size: "unat (tbl_size t) = h" using False Cons.prems(5) by blast
      then have room: "ht_room t" using Cons.prems(6) by (simp add: ht_room_def)
      from insert_internal_ok [OF Cons.prems(1,4) room, of n k v] obtain t1 where t1:
        "insert_internal ca (Suc (Suc n)) t (kt_hash (tbl_key_type t) k) k v = Inr t1"
        "ht_inv t1" "ht_map t1 = (ht_map t)(k \<mapsto> v)" "tbl_key_type t1 = tbl_key_type t"
        "unat (used t1) \<le> unat (used t) + 1"
        "tbl_size t1 = tbl_size t \<or> unat (tbl_size t1) = 2 * unat (tbl_size t)"
        by blast
      have "\<exists>t'. reinsert (insert_internal ca (Suc (Suc n))) t1 bs = Inr t' \<and> ht_inv t' \<and>
        ht_map t' = ht_map t1 ++ map_of (rev (entries bs)) \<and> tbl_key_type t' = tbl_key_type t1 \<and>
        (unat (tbl_size t') = h \<or> unat (tbl_size t') = 2 * h) \<and>
        unat (used t') \<le> unat (used t1) + length (entries bs)"
        using Cons.prems(2,3,4,6) t1 kv size by (intro Cons.IH) auto
      then show ?thesis
        using ne kv t1 by (auto simp del: insert_internal.simps)
    qed
  qed
qed

lemma resize_shrink:
  assumes inv: "ht_inv t" and ca: "\<forall>m. ca m" and big: "MIN_TABLE_SIZE < tbl_size t"
  shows "\<exists>t'. resize ca (insert_internal ca (Suc (Suc n))) t (tbl_size t div 2) = Inr t' \<and>
    ht_inv t' \<and> ht_map t' = ht_map t \<and> tbl_key_type t' = tbl_key_type t \<and>
    unat (tbl_size t') \<le> unat (tbl_size t) \<and> unat (used t') \<le> unat (used t)"
proof -
  from inv have core: "ht_core t" and load: "2 * unat (used t) \<le> unat (tbl_size t)"
    by (simp_all add: ht_inv_def)
  obtain e where e: "3 \<le> e" "e \<le> 31" "unat (tbl_size t) = 2 ^ e" by (rule size_power [OF core])
  have "8 < unat (tbl_size t)" using big by (simp add: MIN_TABLE_SIZE_def word_less_nat_alt)
  with e have "e \<noteq> 3" by auto
  with e obtain e' where e': "e = Suc e'" "3 \<le> e'" by (cases e) auto
  have half: "unat (tbl_size t div 2) = 2 ^ e'"
    using e(3) e'(1) by (simp add: unat_div_distrib)
  let ?f = "fresh t (tbl_size t div 2)"
  have f: "ht_core ?f" "ht_map ?f = Map.empty"
    using e(2) e' half ht_coreD(3) [OF core] by (auto intro!: fresh_ok [of _ e'])
  have used: "length (entries (bins t)) \<le> unat (used t)"
    using entries_le_probed [of t] ht_coreD(7) [OF core] by simp
  then have len: "length (entries (bins t)) \<le> 2 ^ e'"
    using load e(3) e'(1) by simp
  have "(2 :: nat) ^ e' < 2 ^ 31"
    using e(2) e'(1) by (intro power_strict_increasing) auto
  then have "\<exists>t'. reinsert (insert_internal ca (Suc (Suc n))) ?f (bins t) = Inr t' \<and> ht_inv t' \<and>
    ht_map t' = ht_map ?f ++ map_of (rev (entries (bins t))) \<and>
    tbl_key_type t' = tbl_key_type ?f \<and>
    (unat (tbl_size t') = 2 ^ e' \<or> unat (tbl_size t') = 2 * 2 ^ e') \<and>
    unat (used t') \<le> unat (used ?f) + length (entries (bins t))"
    using f(1) ht_core_bins_ok [OF core] len ca half
    by (intro reinsert_grows) (auto simp: ht_inv_def)
  then show ?thesis
    using used by (auto simp: resize_fresh ca f(2) map_of_rev_entries [OF core] e(3) e'(1)
        simp del: insert_internal.simps)
qed

section \<open>Deletion\<close>

lemma free_bin_fields [simp]:
  "tbl_size (free_bin t j) = tbl_size t"
  "used (free_bin t j) = used t"
  "tbl_key_type (free_bin t j) = tbl_key_type t"
  "length (bins (free_bin t j)) = length (bins t)"
  by (simp_all add: free_bin_def Let_def)

lemma free_bin_probed [simp]: "j < length (bins t) \<Longrightarrow> probed (free_bin t j) = probed t"
  by (auto simp: free_bin_def probed_def Let_def nth_list_update)

lemma free_bin_chained [simp]: "chained (free_bin t j) h i \<longleftrightarrow> chained t h i"
proof -
  have "in_probe (bins (free_bin t j) ! i) = in_probe (bins t ! i)" for i
    by (cases "j < length (bins t)") (auto simp: free_bin_def Let_def nth_list_update list_update_beyond)
  then show ?thesis by (simp add: chained_def)
qed

lemma free_bin_holds:
  assumes "j < length (bins t)"
  shows "holds (free_bin t j) i k \<longleftrightarrow> i \<noteq> j \<and> holds t i k"
  using assms
  by (auto simp: free_bin_def holds_def Let_def nth_list_update bin_entry_Some is_active_bin_def)

lemma free_bin_core:
  assumes core: "ht_core t" and j: "j < length (bins t)"
  shows "ht_core (free_bin t j)"
proof -
  have "\<forall>bin \<in> set (bins (free_bin t j)). bin_ok (tbl_key_type t) bin"
  proof
    fix bin assume "bin \<in> set (bins (free_bin t j))"
    then have "bin \<in> set (bins t) \<or> is_empty bin"
      using set_update_subset_insert by (fastforce simp: free_bin_def Let_def split: if_splits)
    then show "bin_ok (tbl_key_type t) bin"
      using ht_core_bins_ok [OF core] by (auto simp: bin_ok_def)
  qed
  moreover have "\<forall>i < length (bins t). \<forall>i' < length (bins t). \<forall>k.
      holds (free_bin t j) i k \<longrightarrow> holds (free_bin t j) i' k \<longrightarrow> i = i'"
    using ht_coreD(5) [OF core] j by (auto simp: free_bin_holds)
  ultimately show ?thesis
    using core j unfolding ht_core_def by (simp add: free_bin_holds)
qed

lemma free_bin_map:
  assumes core: "ht_core t" and j: "j < length (bins t)"
    and only: "\<forall>i < length (bins t). holds t i k \<longrightarrow> i = j" and here: "\<forall>k'. holds t j k' \<longrightarrow> k' = k"
  shows "ht_map (free_bin t j) = (ht_map t)(k := None)"
proof
  fix k'
  have entry: "bin_entry (bins (free_bin t j) ! i) = (if i = j then None else bin_entry (bins t ! i))"
    for i
    using j by (auto simp: free_bin_def Let_def nth_list_update bin_entry_def is_active_bin_def)
  note maps = ht_map_Some [OF free_bin_core [OF core j]] ht_map_Some [OF core]
  have "ht_map (free_bin t j) k' = Some v \<longleftrightarrow> ((ht_map t)(k := None)) k' = Some v" for v
  proof (cases "k' = k")
    case True
    then show ?thesis using only by (simp add: maps entry holds_def) blast
  next
    case False
    then have "bin_entry (bins t ! j) \<noteq> Some (k', v)" using here by (auto simp: holds_def)
    with False show ?thesis by (simp add: maps entry) metis
  qed
  then show "ht_map (free_bin t j) k' = ((ht_map t)(k := None)) k'"
    by (rule option_eq_by_Some)
qed

section \<open>The operations implement a finite map\<close>

lemma ht_inv_free:
  assumes "ht_inv t"
  shows "ht_core t \<and> unat (used t) < unat (tbl_size t)"
proof -
  from assms have core: "ht_core t" by (simp add: ht_inv_def)
  then obtain e where "unat (tbl_size t) = 2 ^ e" by (rule size_power)
  then have "0 < unat (tbl_size t)" by simp
  with assms core show ?thesis by (simp add: ht_inv_def)
qed

lemma hash_table_lookup_map:
  assumes "ht_inv t"
  shows "hash_table_lookup t k = Inr (ht_map t k)"
proof -
  from ht_inv_free [OF assms] have core: "ht_core t" and less: "unat (used t) < unat (tbl_size t)"
    by simp_all
  show ?thesis
  proof (rule find_key_cases [OF core less, of k])
    fix j assume "find_key t (kt_hash (tbl_key_type t) k) k = Some j" "j < length (bins t)"
      "holds t j k"
    then show ?thesis
      using ht_map_holds [OF core] holds_in_probe [of t j k] by (simp add: hash_table_lookup_def)
  next
    fix j assume "find_key t (kt_hash (tbl_key_type t) k) k = Some j" "j < length (bins t)"
      "\<not> in_probe (bins t ! j)" "\<forall>j < length (bins t). \<not> holds t j k"
    then show ?thesis
      using ht_map_None [OF core, of k] by (simp add: hash_table_lookup_def)
  qed
qed

lemma hash_table_insert_map:
  assumes "ht_inv t" and "\<forall>m. ca m" and "ht_room t"
  shows "\<exists>t'. hash_table_insert ca t k v = Inr t' \<and> ht_inv t' \<and> ht_map t' = (ht_map t)(k \<mapsto> v) \<and>
    tbl_key_type t' = tbl_key_type t \<and> unat (used t') \<le> unat (used t) + 1 \<and>
    (tbl_size t' = tbl_size t \<or>
      unat (tbl_size t') = 2 * unat (tbl_size t) \<and> unat (tbl_size t) < 2 * (unat (used t) + 1))"
  using insert_internal_ok [OF assms, of 0 k v]
  unfolding hash_table_insert_def resize_depth_def numeral_2_eq_2 by blast

lemma hash_table_delete_map:
  assumes inv: "ht_inv t" and ca: "\<forall>m. ca m"
  shows "\<exists>t'. hash_table_delete ca t k = Inr t' \<and> ht_inv t' \<and> ht_map t' = (ht_map t)(k := None) \<and>
    tbl_key_type t' = tbl_key_type t \<and> unat (tbl_size t') \<le> unat (tbl_size t) \<and>
    unat (used t') \<le> unat (used t)"
proof -
  from ht_inv_free [OF inv] have core: "ht_core t" and less: "unat (used t) < unat (tbl_size t)"
    by simp_all
  have freed: ?thesis if j: "find_key t (kt_hash (tbl_key_type t) k) k = Some j" "j < length (bins t)"
    and map: "ht_map (free_bin t j) = (ht_map t)(k := None)" for j
  proof -
    have inv': "ht_inv (free_bin t j)"
      using inv free_bin_core [OF core j(2)] by (simp add: ht_inv_def)
    show ?thesis
    proof (cases "MIN_TABLE_SIZE < tbl_size (free_bin t j) \<and> below_load_min (free_bin t j)")
      case True
      with resize_shrink [OF inv' ca, of 0] j map show ?thesis
        by (auto simp: hash_table_delete_def Let_def resize_depth_def numeral_2_eq_2
            simp del: insert_internal.simps)
    next
      case False
      with inv' j map show ?thesis by (auto simp: hash_table_delete_def Let_def)
    qed
  qed
  show ?thesis
  proof (rule find_key_cases [OF core less, of k])
    fix j assume j: "find_key t (kt_hash (tbl_key_type t) k) k = Some j" "j < length (bins t)"
      "holds t j k"
    have "ht_map (free_bin t j) = (ht_map t)(k := None)"
      using j(3) ht_coreD(5) [OF core] j(2)
      by (intro free_bin_map [OF core j(2)]) (auto simp: holds_def)
    then show ?thesis by (rule freed [OF j(1,2)])
  next
    fix j assume j: "find_key t (kt_hash (tbl_key_type t) k) k = Some j" "j < length (bins t)"
      "\<not> in_probe (bins t ! j)" "\<forall>j < length (bins t). \<not> holds t j k"
    have "free_bin t j = t" using j(3) by (simp add: free_bin_def is_active_bin_def)
    moreover have "ht_map t k = None" using j(4) ht_map_None [OF core] by blast
    ultimately have "ht_map (free_bin t j) = (ht_map t)(k := None)" by (simp add: fun_upd_idem)
    then show ?thesis by (rule freed [OF j(1,2)])
  qed
qed

lemma hash_table_create_map:
  assumes "ca MIN_TABLE_SIZE" and "kt_cmp kt = (=)"
  shows "\<exists>t. hash_table_create ca True kt = Inr (Some t) \<and> ht_inv t \<and> ht_map t = Map.empty \<and>
    tbl_key_type t = kt \<and> tbl_size t = MIN_TABLE_SIZE \<and> used t = 0 \<and> active t = 0"
proof -
  let ?f = "fresh \<lparr>bins = [], tbl_size = 0, used = 0, active = 0, tbl_key_type = kt\<rparr> MIN_TABLE_SIZE"
  have "ht_core ?f \<and> ht_map ?f = Map.empty"
    using assms(2) by (intro conjI fresh_ok [of MIN_TABLE_SIZE 3]) (simp_all add: MIN_TABLE_SIZE_def)
  then show ?thesis
    using assms(1) by (simp add: hash_table_create_def init_table_def fresh_def ht_inv_def)
qed

section \<open>The interface of a table\<close>

text \<open>
  What the clients of the hash table rely on: a lookup returns what the abstract map holds,
  an insertion (while there is room to grow) and a deletion return, and update the map at one
  key.
\<close>

locale map_table =
  fixes inv :: "'t \<Rightarrow> bool"
    and room :: "'t \<Rightarrow> bool"
    and abs :: "'t \<Rightarrow> 'k \<Rightarrow> 'v option"
    and find :: "'t \<Rightarrow> 'k \<Rightarrow> 'v option res"
    and put :: "'t \<Rightarrow> 'k \<Rightarrow> 'v \<Rightarrow> 't res"
    and del :: "'t \<Rightarrow> 'k \<Rightarrow> 't res"
  assumes find_abs: "inv t \<Longrightarrow> find t k = Inr (abs t k)"
    and put_abs: "inv t \<Longrightarrow> room t \<Longrightarrow> \<exists>t'. put t k v = Inr t' \<and> inv t' \<and> abs t' = (abs t)(k \<mapsto> v)"
    and del_abs: "inv t \<Longrightarrow> \<exists>t'. del t k = Inr t' \<and> inv t' \<and> abs t' = (abs t)(k := None)"
begin

lemma put_obtain:
  assumes "inv t" and "room t"
  obtains t' where "put t k v = Inr t'" "inv t'" "abs t' = (abs t)(k \<mapsto> v)"
    "\<And>k'. find t' k' = Inr (if k' = k then Some v else abs t k')"
  using put_abs [OF assms, of k v] find_abs by fastforce

lemma del_obtain:
  assumes "inv t"
  obtains t' where "del t k = Inr t'" "inv t'" "abs t' = (abs t)(k := None)"
    "\<And>k'. find t' k' = Inr (if k' = k then None else abs t k')"
  using del_abs [OF assms, of k] find_abs by fastforce

lemma find_total: "inv t \<Longrightarrow> \<exists>r. find t k = Inr r"
  using find_abs by blast

lemma put_find:
  "inv t \<Longrightarrow> room t \<Longrightarrow> put t k v = Inr t' \<Longrightarrow> find t' k' = (if k' = k then Inr (Some v) else find t k')"
  using put_abs [of t k v] find_abs by fastforce

lemma del_find:
  "inv t \<Longrightarrow> del t k = Inr t' \<Longrightarrow> find t' k' = (if k' = k then Inr None else find t k')"
  using del_abs [of t k] find_abs by fastforce

end

interpretation ht: map_table "\<lambda>t. ht_inv t \<and> (\<forall>m. ca m)" ht_room ht_map
  hash_table_lookup "hash_table_insert ca" "hash_table_delete ca" for ca
proof unfold_locales
  fix t :: "('a, 'b) hash_table" and k v
  assume inv: "ht_inv t \<and> (\<forall>m. ca m)"
  then show "hash_table_lookup t k = Inr (ht_map t k)"
    by (simp add: hash_table_lookup_map)
  show "\<exists>t'. hash_table_insert ca t k v = Inr t' \<and> (ht_inv t' \<and> (\<forall>m. ca m)) \<and>
    ht_map t' = (ht_map t)(k \<mapsto> v)" if "ht_room t"
    using hash_table_insert_map [of t ca k v] inv that by blast
  show "\<exists>t'. hash_table_delete ca t k = Inr t' \<and> (ht_inv t' \<and> (\<forall>m. ca m)) \<and>
    ht_map t' = (ht_map t)(k := None)"
    using hash_table_delete_map [of t ca k] inv by blast
qed

section \<open>Sequences of operations\<close>

datatype ('k, 'v) table_op = Put 'k 'v | Del 'k

fun run_table ::
  "(u32 \<Rightarrow> bool) \<Rightarrow> ('k, 'v) hash_table \<Rightarrow> ('k, 'v) table_op list \<Rightarrow> ('k, 'v) hash_table res" where
  "run_table ca t [] = Inr t"
| "run_table ca t (Put k v # ops) = bindR (hash_table_insert ca t k v) (\<lambda>t'. run_table ca t' ops)"
| "run_table ca t (Del k # ops) = bindR (hash_table_delete ca t k) (\<lambda>t'. run_table ca t' ops)"

text \<open>The abstract specification: the same operations on a finite map.\<close>

fun run_map :: "('k \<Rightarrow> 'v option) \<Rightarrow> ('k, 'v) table_op list \<Rightarrow> 'k \<Rightarrow> 'v option" where
  "run_map m [] = m"
| "run_map m (Put k v # ops) = run_map (m(k \<mapsto> v)) ops"
| "run_map m (Del k # ops) = run_map (m(k := None)) ops"

text \<open>The size follows the number of insertions, so \<open>2 ^ 28\<close> operations cannot overflow it.\<close>

lemma run_table_map:
  assumes "ht_inv t" and "\<forall>m. ca m" and "unat (used t) \<le> n"
    and "unat (tbl_size t) \<le> max 8 (4 * n)" and "n + length ops \<le> 2 ^ 28"
  shows "\<exists>t'. run_table ca t ops = Inr t' \<and> ht_inv t' \<and> ht_map t' = run_map (ht_map t) ops"
  using assms
proof (induction ops arbitrary: t n)
  case Nil
  then show ?case by simp
next
  case (Cons op ops)
  show ?case
  proof (cases op)
    case (Put k v)
    have "ht_room t" using Cons.prems(4,5) by (auto simp: ht_room_def)
    from hash_table_insert_map [OF Cons.prems(1,2) this, of k v] obtain t1 where t1:
      "hash_table_insert ca t k v = Inr t1" "ht_inv t1" "ht_map t1 = (ht_map t)(k \<mapsto> v)"
      "unat (used t1) \<le> unat (used t) + 1"
      "tbl_size t1 = tbl_size t \<or>
        unat (tbl_size t1) = 2 * unat (tbl_size t) \<and> unat (tbl_size t) < 2 * (unat (used t) + 1)"
      by blast
    have "\<exists>t'. run_table ca t1 ops = Inr t' \<and> ht_inv t' \<and> ht_map t' = run_map (ht_map t1) ops"
      using Cons.prems(2-5) t1(2,4,5) by (intro Cons.IH [of _ "n + 1"]) auto
    then show ?thesis using Put t1 by simp
  next
    case (Del k)
    from hash_table_delete_map [OF Cons.prems(1,2), of k] obtain t1 where t1:
      "hash_table_delete ca t k = Inr t1" "ht_inv t1" "ht_map t1 = (ht_map t)(k := None)"
      "unat (tbl_size t1) \<le> unat (tbl_size t)" "unat (used t1) \<le> unat (used t)"
      by blast
    have "\<exists>t'. run_table ca t1 ops = Inr t' \<and> ht_inv t' \<and> ht_map t' = run_map (ht_map t1) ops"
      using Cons.prems(2-5) t1(2,4,5) by (intro Cons.IH [of _ n]) auto
    then show ?thesis using Del t1 by simp
  qed
qed

text \<open>The element counter: one more for a new key, one less for a key that was present.\<close>

lemma insert_new_active:
  assumes inv: "ht_inv t" and none: "ht_map t k = None"
    and space: "2 * (unat (used t) + 1) \<le> unat (tbl_size t)"
  shows "\<exists>t'. hash_table_insert ca t k v = Inr t' \<and> ht_inv t' \<and>
    ht_map t' = (ht_map t)(k \<mapsto> v) \<and> active t' = active t + 1"
proof -
  from ht_inv_free [OF inv] have "ht_core t" "unat (used t) < unat (tbl_size t)" by simp_all
  from insert_internal_store [OF this, of k v] obtain t1 where t1:
    "insert_internal ca (Suc 1) t (kt_hash (tbl_key_type t) k) k v =
      (if above_load_max t1 then resize ca (insert_internal ca 1) t1 (tbl_size t1 * 2) else Inr t1)"
    "ht_core t1" "ht_map t1 = (ht_map t)(k \<mapsto> v)" "tbl_size t1 = tbl_size t"
    "unat (used t1) \<le> unat (used t) + 1" "active t1 = active t + 1"
    using none by metis
  then have "\<not> above_load_max t1" using space by (simp add: above_load_max_def)
  with t1 space show ?thesis
    unfolding hash_table_insert_def resize_depth_def numeral_2_eq_2 One_nat_def
    by (simp add: ht_inv_def del: insert_internal.simps)
qed

lemma insert_present_active:
  assumes inv: "ht_inv t" and some: "ht_map t k \<noteq> None"
  shows "\<exists>t'. hash_table_insert ca t k v = Inr t' \<and> ht_inv t' \<and>
    ht_map t' = (ht_map t)(k \<mapsto> v) \<and> active t' = active t - 1"
proof -
  from ht_inv_free [OF inv] have "ht_core t" "unat (used t) < unat (tbl_size t)" by simp_all
  from insert_internal_store [OF this, of k v] obtain t1 where t1:
    "insert_internal ca (Suc 1) t (kt_hash (tbl_key_type t) k) k v =
      (if above_load_max t1 then resize ca (insert_internal ca 1) t1 (tbl_size t1 * 2) else Inr t1)"
    "ht_core t1" "ht_map t1 = (ht_map t)(k \<mapsto> v)" "tbl_size t1 = tbl_size t"
    "used t1 = used t" "active t1 = active t - 1"
    using some by metis
  then have "\<not> above_load_max t1" using inv by (simp add: above_load_max_def ht_inv_def)
  with t1 inv show ?thesis
    unfolding hash_table_insert_def resize_depth_def numeral_2_eq_2 One_nat_def
    by (simp add: ht_inv_def del: insert_internal.simps)
qed

text \<open>A table to evaluate on: the empty table of \<open>hash_table_create\<close>.\<close>

definition empty_u32_table :: "(u32, u32) hash_table" where
  "empty_u32_table =
     \<lparr>bins = replicate 8 empty_bin, tbl_size = 8, used = 0, active = 0,
      tbl_key_type = uint32_key_type\<rparr>"

lemma empty_u32_table_create:
  "hash_table_create (\<lambda>_. True) True uint32_key_type = Inr (Some empty_u32_table)"
  by (simp add: hash_table_create_def init_table_def MIN_TABLE_SIZE_def empty_u32_table_def)

lemma empty_u32_table_ok:
  "ht_inv empty_u32_table \<and> ht_map empty_u32_table = Map.empty \<and>
   used empty_u32_table = 0 \<and> tbl_size empty_u32_table = 8 \<and> active empty_u32_table = 0"
proof -
  have "\<exists>t. hash_table_create (\<lambda>_. True) True uint32_key_type = Inr (Some (t :: (u32, u32) hash_table)) \<and>
    ht_inv t \<and> ht_map t = Map.empty \<and> tbl_key_type t = uint32_key_type \<and>
    tbl_size t = MIN_TABLE_SIZE \<and> used t = 0 \<and> active t = 0"
    by (rule hash_table_create_map) (simp_all add: uint32_key_type_def)
  then show ?thesis by (auto simp: empty_u32_table_create MIN_TABLE_SIZE_def)
qed

lemma run_table_refines:
  assumes "length ops \<le> 2 ^ 28"
  shows "\<exists>t. run_table (\<lambda>_. True) empty_u32_table ops = Inr t \<and> ht_inv t \<and>
    (\<forall>k. hash_table_lookup t k = Inr (run_map Map.empty ops k))"
proof -
  have "\<exists>t. run_table (\<lambda>_. True) empty_u32_table ops = Inr t \<and> ht_inv t \<and>
      ht_map t = run_map (ht_map empty_u32_table) ops"
    using assms by (intro run_table_map [of _ _ 0]) (simp_all add: empty_u32_table_ok)
  then show ?thesis
    using empty_u32_table_ok by (auto simp: hash_table_lookup_map)
qed

section \<open>Properties\<close>

text \<open>
  Insertion into a table that satisfies the invariant always returns
  (no assertion fires, the recursion through \<open>init_table\<close> ends), keeps the invariant, and
  afterwards a lookup finds the new value at the key and the old answer at every other key,
  also when the insertion resized the table.\<close>

theorem hash_table_insert_refines:
  assumes "ht_inv t" and "ht_room t" and "\<forall>m. ca m"
  shows "\<exists>t'. hash_table_insert ca t k v = Inr t' \<and> ht_inv t' \<and>
    (\<forall>k'. hash_table_lookup t' k' = (if k' = k then Inr (Some v) else hash_table_lookup t k'))"
  using ht.put_abs [of t ca k v] ht.put_find [of t ca k v] assms by blast

theorem hash_table_insert_refines_witness:
  "\<exists>t'. hash_table_insert (\<lambda>_. True) empty_u32_table 42 10 = Inr t' \<and> ht_inv t' \<and>
    (\<forall>k'. hash_table_lookup t' k' = (if k' = 42 then Inr (Some 10)
       else hash_table_lookup empty_u32_table k'))"
  by (rule hash_table_insert_refines) (simp_all add: empty_u32_table_ok ht_room_def)

text \<open>Deletion always returns, keeps the invariant and removes exactly the
  given key, also when it shrinks the table.\<close>

theorem hash_table_delete_refines:
  assumes "ht_inv t" and "\<forall>m. ca m"
  shows "\<exists>t'. hash_table_delete ca t k = Inr t' \<and> ht_inv t' \<and> hash_table_contains t' k = Inr False \<and>
    (\<forall>k'. k' \<noteq> k \<longrightarrow> hash_table_lookup t' k' = hash_table_lookup t k')"
proof -
  from ht.del_abs [of t ca k] assms obtain t' where t': "hash_table_delete ca t k = Inr t'" "ht_inv t'"
    by blast
  then show ?thesis
    using ht.del_find [of t ca k t'] assms by (simp add: hash_table_contains_def)
qed

theorem hash_table_delete_refines_witness:
  "\<exists>t'. hash_table_delete (\<lambda>_. True) empty_u32_table 7 = Inr t' \<and> ht_inv t' \<and>
    hash_table_contains t' 7 = Inr False \<and>
    (\<forall>k'. k' \<noteq> 7 \<longrightarrow> hash_table_lookup t' k' = hash_table_lookup empty_u32_table k')"
  by (rule hash_table_delete_refines) (simp_all add: empty_u32_table_ok)

text \<open>
  C7 (refinement).  Any sequence of up to \<open>2 ^ 28\<close> insertions and deletions on a new table
  runs to its end and leaves a table whose lookups are those of the finite map after the same
  operations; resizing, tombstones and the element counter are not observable.\<close>

theorem hash_table_run_refines:
  assumes "length ops \<le> 2 ^ 28"
  shows "\<exists>t. run_table (\<lambda>_. True) empty_u32_table ops = Inr t \<and> ht_inv t \<and>
    (\<forall>k. hash_table_lookup t k = Inr (run_map Map.empty ops k))"
  using assms by (rule run_table_refines)

theorem hash_table_run_refines_witness:
  "\<exists>t. run_table (\<lambda>_. True) empty_u32_table [Put 1 2, Put 1 3, Put 9 4, Del 1] = Inr t \<and> ht_inv t \<and>
    (\<forall>k. hash_table_lookup t k = Inr (run_map Map.empty [Put 1 2, Put 1 3, Put 9 4, Del 1] k))"
  by (rule hash_table_run_refines) simp

text \<open>
  Storing a new value for a key that is already present decrements the
  element counter: \<open>store_in_bin\<close> counts the bin before \<open>free_bin\<close> counts it out again.  After
  one overwrite of the only key, \<open>hash_table_size\<close> reports 0 elements, after two it reports
  \<open>2 ^ 32 - 1\<close>.\<close>

theorem overwrite_decrements_size:
  assumes "ht_inv t" and "hash_table_contains t k = Inr True"
  shows "\<exists>t'. hash_table_insert ca t k v = Inr t' \<and>
    hash_table_size t' = hash_table_size t - 1 \<and> hash_table_contains t' k = Inr True"
proof -
  from assms have "ht_map t k \<noteq> None"
    by (simp add: hash_table_contains_def hash_table_lookup_map)
  from insert_present_active [OF assms(1) this, of ca v] show ?thesis
    by (auto simp: hash_table_size_def hash_table_contains_def hash_table_lookup_map)
qed

theorem overwrite_decrements_size_witness:
  "\<exists>t t'. run_table (\<lambda>_. True) empty_u32_table [Put 42 10] = Inr t \<and> hash_table_size t = 1 \<and>
    hash_table_insert (\<lambda>_. True) t 42 99 = Inr t' \<and> hash_table_size t' = 0 \<and>
    hash_table_contains t' 42 = Inr True"
proof -
  obtain t where t: "hash_table_insert (\<lambda>_. True) empty_u32_table 42 10 = Inr t" "ht_inv t"
    "ht_map t = (ht_map empty_u32_table)(42 \<mapsto> 10)" "active t = 1"
    using insert_new_active [of empty_u32_table 42 "\<lambda>_. True" 10] empty_u32_table_ok by auto
  then have "hash_table_contains t 42 = Inr True"
    by (simp add: hash_table_contains_def hash_table_lookup_map)
  from overwrite_decrements_size [OF t(2) this, of "\<lambda>_. True" 99] t show ?thesis
    by (auto simp: hash_table_size_def)
qed

end
