(* ===== verification/VMState.thy ===== *)
theory VMState
  imports HashTable
begin

text \<open>
  The state of one virtual machine: \<open>vm_state_t\<close> of \<open>main.h\<close> with the structures it holds
  (\<open>vm_config_t\<close>, \<open>module_info_t\<close>, \<open>incremental_state_t\<close>, \<open>CT_Counter\<close>,
  \<open>vm_perf_stats_t\<close>, \<open>IEC_Timer\<close> of \<open>timers.h\<close>, \<open>decoded_instr_t\<close> of \<open>vm_tables.h\<close>),
  and the access functions to its memory.

  Representation.  The register file is indexed by an 8-bit value in every access of the code,
  so it is a function on \<open>u8\<close>.  The memory block of \<open>VM_MEM_BYTES\<close> bytes is a function on
  offsets; every access goes through \<open>load8\<close>, \<open>store8\<close>, \<open>mem_slice\<close>, \<open>memcpy_mem\<close> or
  \<open>memmove_mem\<close>, which report an access outside the block.  The arrays of \<open>MAX_TIMERS\<close>
  elements are lists; the invariant \<open>vm_wf\<close> fixes their lengths.  A function pointer of the
  opcode table is the name of the handler.  A C string is the list of its bytes.  The log file
  is represented by whether it is open.  The field \<open>user_data\<close>, which no function reads or
  writes after creation, is left out.
\<close>

section \<open>Constants\<close>

definition VM_MEM_BYTES :: nat where
  "VM_MEM_BYTES = 64 * 1024 * 1024"

definition REG_COUNT :: nat where
  "REG_COUNT = 256"

definition OPCODE_COUNT :: nat where
  "OPCODE_COUNT = 128"

definition MAX_TIMERS :: nat where
  "MAX_TIMERS = 16"

definition MEM_LOG_SIZE :: nat where
  "MEM_LOG_SIZE = 256"

lemma VM_MEM_BYTES_eq [simp]: "VM_MEM_BYTES = 67108864"
  by (simp add: VM_MEM_BYTES_def)

lemma MAX_TIMERS_eq [simp]: "MAX_TIMERS = 16"
  by (simp add: MAX_TIMERS_def)

lemma OPCODE_COUNT_eq [simp]: "OPCODE_COUNT = 128"
  by (simp add: OPCODE_COUNT_def)

type_synonym cstr = "u8 list"

section \<open>Structures\<close>

text \<open>\<open>struct timespec\<close>; both fields are 64-bit two's complement values.\<close>

record timespec =
  tv_sec :: u64
  tv_nsec :: u64

record vm_config =
  clock_rate_hz :: u32
  cycle_time_ms :: u32
  enable_cycle_check :: bool
  enable_hash_check :: bool
  enable_tick_timing :: bool
  hash_algo :: hash_algorithm

record module_info =
  mod_name :: cstr
  mod_addr :: u32
  mod_size :: u32

record incremental_state =
  incremental_hash :: u32
  reg_hashes :: "u8 \<Rightarrow> u32"

record CT_Counter =
  ct_value :: u32
  ct_preset :: u32

record vm_perf_stats =
  cycles_total :: u64
  instructions_total :: u64
  cycle_exec_ns_total :: u64
  instr_exec_ns_total :: u64
  fetch_ns_total :: u64
  decode_ns_total :: u64
  dispatch_ns_total :: u64
  min_instr_ns :: u64
  max_instr_ns :: u64
  overrun_cycles :: u64

record IEC_Timer =
  tm_enabled :: bool
  tm_input :: bool
  tm_output :: bool
  tm_prev_input :: bool
  tm_timing :: bool
  tm_start :: timespec
  preset_ms :: u32
  ET :: u32

record decoded_instr =
  raw_instr :: u32
  d_opcode :: u8
  d_ra :: u8
  d_rb :: u8
  d_rc :: u8
  d_immediate :: u32
  d_has_immediate :: bool

text \<open>The handlers the opcode table can point to, in the order of \<open>default_op_ex\<close>.\<close>

datatype handler =
    OP_ADD | OP_SUB | OP_MUL | OP_DIV | OP_MOD | OP_EXPT | OP_ABS | OP_SQRT | OP_LN | OP_LOG
  | OP_EXP | OP_SIN | OP_COS | OP_TAN | OP_ASIN | OP_ACOS | OP_ATAN
  | OP_AND | OP_OR | OP_XOR | OP_NOT
  | OP_EQ | OP_NE | OP_GT | OP_GE | OP_LT | OP_LE
  | OP_TIME | OP_DATE | OP_TOD | OP_DT | OP_ADD_TIME | OP_SUB_TIME
  | OP_YEAR | OP_MONTH | OP_DAY | OP_HOUR | OP_MINUTE | OP_SECOND
  | OP_LEN | OP_CONCAT | OP_LEFT | OP_RIGHT | OP_MID | OP_INSERT | OP_DELETE | OP_REPLACE
  | OP_TON | OP_TOF | OP_TP
  | OP_CTU | OP_CTD | OP_CTUD
  | OP_LIMIT | OP_SEL | OP_MUX
  | OP_RISING_EDGE | OP_FALLING_EDGE | OP_EDGE_BOTH
  | OP_RS_LATCH | OP_SR_LATCH | OP_DEMUX
  | OP_JMP | OP_JMP_IF | OP_JMP_IF_NOT
  | OP_EXIT | OP_HALT | OP_NOP

record vm_state =
  config :: vm_config
  mem :: "nat \<Rightarrow> u8"
  PC_START :: u32
  PC :: u32
  reg :: "u8 \<Rightarrow> u32"
  running :: bool
  stop_requested :: bool
  exit_code :: u32
  reload_pending :: bool
  program_dir :: "cstr option"
  program_dir_signature :: u32
  time_ms :: u64
  last_tick_time :: timespec
  instr_ns_accum :: u64
  program_hash :: u32
  program_size :: u64
  prev_cycle_hash :: u32
  cycle_count :: u32
  modules :: "module_info list option"
  op_ex :: "handler option list"
  incremental :: incremental_state
  log_file :: bool
  logging_enabled :: bool
  verbose_logging :: bool
  perf :: vm_perf_stats
  dbg_prev_reg :: "u8 \<Rightarrow> u32"
  dbg_prev_mem :: "u8 list"
  dbg_prev_pc :: u32
  dbg_instruction_count :: u64
  labels :: "(cstr, u32) hash_table option"
  breakpoints :: "(u32, u32) hash_table option"
  decoded_cache :: "(u32, decoded_instr) hash_table option"
  ton_timers :: "IEC_Timer list"
  tof_timers :: "IEC_Timer list"
  tp_timers :: "IEC_Timer list"
  tonr_timers :: "IEC_Timer list"
  tofr_timers :: "IEC_Timer list"
  ctu_counters :: "CT_Counter list"
  ctd_counters :: "CT_Counter list"
  ctud_counters :: "CT_Counter list"
  ctu_prev_input :: "bool list"
  ctd_prev_input :: "bool list"
  ctud_prev_up :: "bool list"
  ctud_prev_down :: "bool list"
  edge_prev_rising :: "bool list"
  edge_prev_falling :: "bool list"
  edge_prev_both :: "bool list"
  rs_latches :: "bool list"
  sr_latches :: "bool list"

section \<open>Zeroed structures\<close>

text \<open>What \<open>calloc\<close> and \<open>memset\<close> with 0 make of the structures.\<close>

definition zero_timespec :: timespec where
  "zero_timespec = \<lparr>tv_sec = 0, tv_nsec = 0\<rparr>"

definition zero_timer :: IEC_Timer where
  "zero_timer = \<lparr>tm_enabled = False, tm_input = False, tm_output = False, tm_prev_input = False,
     tm_timing = False, tm_start = zero_timespec, preset_ms = 0, ET = 0\<rparr>"

definition zero_counter :: CT_Counter where
  "zero_counter = \<lparr>ct_value = 0, ct_preset = 0\<rparr>"

definition zero_config :: vm_config where
  "zero_config = \<lparr>clock_rate_hz = 0, cycle_time_ms = 0, enable_cycle_check = False,
     enable_hash_check = False, enable_tick_timing = False, hash_algo = HASH_SIMPLE_FNV1A\<rparr>"

definition zero_perf :: vm_perf_stats where
  "zero_perf = \<lparr>cycles_total = 0, instructions_total = 0, cycle_exec_ns_total = 0,
     instr_exec_ns_total = 0, fetch_ns_total = 0, decode_ns_total = 0, dispatch_ns_total = 0,
     min_instr_ns = 0, max_instr_ns = 0, overrun_cycles = 0\<rparr>"

definition vm_zero :: vm_state where
  "vm_zero = \<lparr>config = zero_config,
     mem = \<lambda>_. 0,
     PC_START = 0,
     PC = 0,
     reg = \<lambda>_. 0,
     running = False,
     stop_requested = False,
     exit_code = 0,
     reload_pending = False,
     program_dir = None,
     program_dir_signature = 0,
     time_ms = 0,
     last_tick_time = zero_timespec,
     instr_ns_accum = 0,
     program_hash = 0,
     program_size = 0,
     prev_cycle_hash = 0,
     cycle_count = 0,
     modules = None,
     op_ex = replicate OPCODE_COUNT None,
     incremental = \<lparr>incremental_hash = 0, reg_hashes = \<lambda>_. 0\<rparr>,
     log_file = False,
     logging_enabled = False,
     verbose_logging = False,
     perf = zero_perf,
     dbg_prev_reg = \<lambda>_. 0,
     dbg_prev_mem = replicate MEM_LOG_SIZE 0,
     dbg_prev_pc = 0,
     dbg_instruction_count = 0,
     labels = None,
     breakpoints = None,
     decoded_cache = None,
     ton_timers = replicate MAX_TIMERS zero_timer,
     tof_timers = replicate MAX_TIMERS zero_timer,
     tp_timers = replicate MAX_TIMERS zero_timer,
     tonr_timers = replicate MAX_TIMERS zero_timer,
     tofr_timers = replicate MAX_TIMERS zero_timer,
     ctu_counters = replicate MAX_TIMERS zero_counter,
     ctd_counters = replicate MAX_TIMERS zero_counter,
     ctud_counters = replicate MAX_TIMERS zero_counter,
     ctu_prev_input = replicate MAX_TIMERS False,
     ctd_prev_input = replicate MAX_TIMERS False,
     ctud_prev_up = replicate MAX_TIMERS False,
     ctud_prev_down = replicate MAX_TIMERS False,
     edge_prev_rising = replicate MAX_TIMERS False,
     edge_prev_falling = replicate MAX_TIMERS False,
     edge_prev_both = replicate MAX_TIMERS False,
     rs_latches = replicate MAX_TIMERS False,
     sr_latches = replicate MAX_TIMERS False\<rparr>"

section \<open>Well-formedness\<close>

definition vm_wf :: "vm_state \<Rightarrow> bool" where
  "vm_wf vm \<longleftrightarrow>
     length (op_ex vm) = OPCODE_COUNT \<and> length (dbg_prev_mem vm) = MEM_LOG_SIZE \<and>
     length (ton_timers vm) = MAX_TIMERS \<and> length (tof_timers vm) = MAX_TIMERS \<and>
     length (tp_timers vm) = MAX_TIMERS \<and> length (tonr_timers vm) = MAX_TIMERS \<and>
     length (tofr_timers vm) = MAX_TIMERS \<and>
     length (ctu_counters vm) = MAX_TIMERS \<and> length (ctd_counters vm) = MAX_TIMERS \<and>
     length (ctud_counters vm) = MAX_TIMERS \<and>
     length (ctu_prev_input vm) = MAX_TIMERS \<and> length (ctd_prev_input vm) = MAX_TIMERS \<and>
     length (ctud_prev_up vm) = MAX_TIMERS \<and> length (ctud_prev_down vm) = MAX_TIMERS \<and>
     length (edge_prev_rising vm) = MAX_TIMERS \<and> length (edge_prev_falling vm) = MAX_TIMERS \<and>
     length (edge_prev_both vm) = MAX_TIMERS \<and>
     length (rs_latches vm) = MAX_TIMERS \<and> length (sr_latches vm) = MAX_TIMERS"

text \<open>Which updates keep the invariant.\<close>

lemma vm_wf_simps [simp]:
  "vm_wf (vm\<lparr>config := x0\<rparr>) = vm_wf vm"
  "vm_wf (vm\<lparr>mem := x1\<rparr>) = vm_wf vm"
  "vm_wf (vm\<lparr>PC_START := x2\<rparr>) = vm_wf vm"
  "vm_wf (vm\<lparr>PC := x3\<rparr>) = vm_wf vm"
  "vm_wf (vm\<lparr>reg := x4\<rparr>) = vm_wf vm"
  "vm_wf (vm\<lparr>running := x5\<rparr>) = vm_wf vm"
  "vm_wf (vm\<lparr>stop_requested := x6\<rparr>) = vm_wf vm"
  "vm_wf (vm\<lparr>exit_code := x7\<rparr>) = vm_wf vm"
  "vm_wf (vm\<lparr>reload_pending := x8\<rparr>) = vm_wf vm"
  "vm_wf (vm\<lparr>program_dir := x9\<rparr>) = vm_wf vm"
  "vm_wf (vm\<lparr>program_dir_signature := x10\<rparr>) = vm_wf vm"
  "vm_wf (vm\<lparr>time_ms := x11\<rparr>) = vm_wf vm"
  "vm_wf (vm\<lparr>last_tick_time := x12\<rparr>) = vm_wf vm"
  "vm_wf (vm\<lparr>instr_ns_accum := x13\<rparr>) = vm_wf vm"
  "vm_wf (vm\<lparr>program_hash := x14\<rparr>) = vm_wf vm"
  "vm_wf (vm\<lparr>program_size := x15\<rparr>) = vm_wf vm"
  "vm_wf (vm\<lparr>prev_cycle_hash := x16\<rparr>) = vm_wf vm"
  "vm_wf (vm\<lparr>cycle_count := x17\<rparr>) = vm_wf vm"
  "vm_wf (vm\<lparr>modules := x18\<rparr>) = vm_wf vm"
  "vm_wf (vm\<lparr>incremental := x20\<rparr>) = vm_wf vm"
  "vm_wf (vm\<lparr>log_file := x21\<rparr>) = vm_wf vm"
  "vm_wf (vm\<lparr>logging_enabled := x22\<rparr>) = vm_wf vm"
  "vm_wf (vm\<lparr>verbose_logging := x23\<rparr>) = vm_wf vm"
  "vm_wf (vm\<lparr>perf := x24\<rparr>) = vm_wf vm"
  "vm_wf (vm\<lparr>dbg_prev_reg := x25\<rparr>) = vm_wf vm"
  "vm_wf (vm\<lparr>dbg_prev_pc := x27\<rparr>) = vm_wf vm"
  "vm_wf (vm\<lparr>dbg_instruction_count := x28\<rparr>) = vm_wf vm"
  "vm_wf (vm\<lparr>labels := x29\<rparr>) = vm_wf vm"
  "vm_wf (vm\<lparr>breakpoints := x30\<rparr>) = vm_wf vm"
  "vm_wf (vm\<lparr>decoded_cache := x31\<rparr>) = vm_wf vm"
  by (simp_all add: vm_wf_def)

lemma vm_wf_lists [wf_intros]:
  "vm_wf vm \<Longrightarrow> length x19 = OPCODE_COUNT \<Longrightarrow> vm_wf (vm\<lparr>op_ex := x19\<rparr>)"
  "vm_wf vm \<Longrightarrow> length x26 = MEM_LOG_SIZE \<Longrightarrow> vm_wf (vm\<lparr>dbg_prev_mem := x26\<rparr>)"
  "vm_wf vm \<Longrightarrow> length x32 = MAX_TIMERS \<Longrightarrow> vm_wf (vm\<lparr>ton_timers := x32\<rparr>)"
  "vm_wf vm \<Longrightarrow> length x33 = MAX_TIMERS \<Longrightarrow> vm_wf (vm\<lparr>tof_timers := x33\<rparr>)"
  "vm_wf vm \<Longrightarrow> length x34 = MAX_TIMERS \<Longrightarrow> vm_wf (vm\<lparr>tp_timers := x34\<rparr>)"
  "vm_wf vm \<Longrightarrow> length x35 = MAX_TIMERS \<Longrightarrow> vm_wf (vm\<lparr>tonr_timers := x35\<rparr>)"
  "vm_wf vm \<Longrightarrow> length x36 = MAX_TIMERS \<Longrightarrow> vm_wf (vm\<lparr>tofr_timers := x36\<rparr>)"
  "vm_wf vm \<Longrightarrow> length x37 = MAX_TIMERS \<Longrightarrow> vm_wf (vm\<lparr>ctu_counters := x37\<rparr>)"
  "vm_wf vm \<Longrightarrow> length x38 = MAX_TIMERS \<Longrightarrow> vm_wf (vm\<lparr>ctd_counters := x38\<rparr>)"
  "vm_wf vm \<Longrightarrow> length x39 = MAX_TIMERS \<Longrightarrow> vm_wf (vm\<lparr>ctud_counters := x39\<rparr>)"
  "vm_wf vm \<Longrightarrow> length x40 = MAX_TIMERS \<Longrightarrow> vm_wf (vm\<lparr>ctu_prev_input := x40\<rparr>)"
  "vm_wf vm \<Longrightarrow> length x41 = MAX_TIMERS \<Longrightarrow> vm_wf (vm\<lparr>ctd_prev_input := x41\<rparr>)"
  "vm_wf vm \<Longrightarrow> length x42 = MAX_TIMERS \<Longrightarrow> vm_wf (vm\<lparr>ctud_prev_up := x42\<rparr>)"
  "vm_wf vm \<Longrightarrow> length x43 = MAX_TIMERS \<Longrightarrow> vm_wf (vm\<lparr>ctud_prev_down := x43\<rparr>)"
  "vm_wf vm \<Longrightarrow> length x44 = MAX_TIMERS \<Longrightarrow> vm_wf (vm\<lparr>edge_prev_rising := x44\<rparr>)"
  "vm_wf vm \<Longrightarrow> length x45 = MAX_TIMERS \<Longrightarrow> vm_wf (vm\<lparr>edge_prev_falling := x45\<rparr>)"
  "vm_wf vm \<Longrightarrow> length x46 = MAX_TIMERS \<Longrightarrow> vm_wf (vm\<lparr>edge_prev_both := x46\<rparr>)"
  "vm_wf vm \<Longrightarrow> length x47 = MAX_TIMERS \<Longrightarrow> vm_wf (vm\<lparr>rs_latches := x47\<rparr>)"
  "vm_wf vm \<Longrightarrow> length x48 = MAX_TIMERS \<Longrightarrow> vm_wf (vm\<lparr>sr_latches := x48\<rparr>)"
  by (simp_all add: vm_wf_def)

lemma vm_wfD:
  assumes "vm_wf vm"
  shows "length (op_ex vm) = OPCODE_COUNT"
    "length (dbg_prev_mem vm) = MEM_LOG_SIZE"
    "length (ton_timers vm) = MAX_TIMERS"
    "length (tof_timers vm) = MAX_TIMERS"
    "length (tp_timers vm) = MAX_TIMERS"
    "length (tonr_timers vm) = MAX_TIMERS"
    "length (tofr_timers vm) = MAX_TIMERS"
    "length (ctu_counters vm) = MAX_TIMERS"
    "length (ctd_counters vm) = MAX_TIMERS"
    "length (ctud_counters vm) = MAX_TIMERS"
    "length (ctu_prev_input vm) = MAX_TIMERS"
    "length (ctd_prev_input vm) = MAX_TIMERS"
    "length (ctud_prev_up vm) = MAX_TIMERS"
    "length (ctud_prev_down vm) = MAX_TIMERS"
    "length (edge_prev_rising vm) = MAX_TIMERS"
    "length (edge_prev_falling vm) = MAX_TIMERS"
    "length (edge_prev_both vm) = MAX_TIMERS"
    "length (rs_latches vm) = MAX_TIMERS"
    "length (sr_latches vm) = MAX_TIMERS"
  using assms by (simp_all add: vm_wf_def)

lemma vm_wf_zero [simp]: "vm_wf vm_zero"
  by (simp add: vm_wf_def vm_zero_def)

section \<open>Memory\<close>

definition load8 :: "(nat \<Rightarrow> u8) \<Rightarrow> nat \<Rightarrow> u8 res" where
  "load8 m a = (if a < VM_MEM_BYTES then Inr (m a) else Inl Out_Of_Bounds)"

definition store8 :: "(nat \<Rightarrow> u8) \<Rightarrow> nat \<Rightarrow> u8 \<Rightarrow> (nat \<Rightarrow> u8) res" where
  "store8 m a b = (if a < VM_MEM_BYTES then Inr (m(a := b)) else Inl Out_Of_Bounds)"

text \<open>The \<open>n\<close> bytes from \<open>a\<close>, as a buffer argument of the checksum functions.\<close>

definition mem_slice :: "(nat \<Rightarrow> u8) \<Rightarrow> nat \<Rightarrow> nat \<Rightarrow> u8 list res" where
  "mem_slice m a n = (if a + n \<le> VM_MEM_BYTES then Inr (map m [a..<a + n]) else Inl Out_Of_Bounds)"

definition copy_bytes :: "(nat \<Rightarrow> u8) \<Rightarrow> nat \<Rightarrow> nat \<Rightarrow> nat \<Rightarrow> nat \<Rightarrow> u8" where
  "copy_bytes m dst src n = (\<lambda>a. if dst \<le> a \<and> a < dst + n then m (src + (a - dst)) else m a)"

definition memmove_mem :: "(nat \<Rightarrow> u8) \<Rightarrow> nat \<Rightarrow> nat \<Rightarrow> nat \<Rightarrow> (nat \<Rightarrow> u8) res" where
  "memmove_mem m dst src n =
     (if dst + n \<le> VM_MEM_BYTES \<and> src + n \<le> VM_MEM_BYTES then Inr (copy_bytes m dst src n)
      else Inl Out_Of_Bounds)"

text \<open>\<open>memcpy\<close> is undefined when the blocks overlap.\<close>

definition memcpy_mem :: "(nat \<Rightarrow> u8) \<Rightarrow> nat \<Rightarrow> nat \<Rightarrow> nat \<Rightarrow> (nat \<Rightarrow> u8) res" where
  "memcpy_mem m dst src n =
     (if \<not> (dst + n \<le> VM_MEM_BYTES \<and> src + n \<le> VM_MEM_BYTES) then Inl Out_Of_Bounds
      else if 0 < n \<and> dst < src + n \<and> src < dst + n then Inl Overlapping_Copy
      else Inr (copy_bytes m dst src n))"

definition vm_mr8 :: "vm_state \<Rightarrow> u32 \<Rightarrow> u8 res" where
  "vm_mr8 vm addr = load8 (mem vm) (unat addr)"

definition vm_mw8 :: "vm_state \<Rightarrow> u32 \<Rightarrow> u8 \<Rightarrow> vm_state res" where
  "vm_mw8 vm addr v = bindR (store8 (mem vm) (unat addr) v) (\<lambda>m. Inr (vm\<lparr>mem := m\<rparr>))"

definition vm_mr32 :: "vm_state \<Rightarrow> u32 \<Rightarrow> u32 res" where
  "vm_mr32 vm addr =
     bindR (load8 (mem vm) (unat addr)) (\<lambda>b0.
     bindR (load8 (mem vm) (unat (addr + 1))) (\<lambda>b1.
     bindR (load8 (mem vm) (unat (addr + 2))) (\<lambda>b2.
     bindR (load8 (mem vm) (unat (addr + 3))) (\<lambda>b3.
     Inr (of_le32 b0 b1 b2 b3)))))"

definition vm_mw32 :: "vm_state \<Rightarrow> u32 \<Rightarrow> u32 \<Rightarrow> vm_state res" where
  "vm_mw32 vm addr val =
     bindR (store8 (mem vm) (unat addr) (ucast val)) (\<lambda>m0.
     bindR (store8 m0 (unat (addr + 1)) (ucast (drop_bit 8 val))) (\<lambda>m1.
     bindR (store8 m1 (unat (addr + 2)) (ucast (drop_bit 16 val))) (\<lambda>m2.
     bindR (store8 m2 (unat (addr + 3)) (ucast (drop_bit 24 val))) (\<lambda>m3.
     Inr (vm\<lparr>mem := m3\<rparr>)))))"

section \<open>Reading and writing words\<close>

lemma unat_add_small: "unat a + n < 4294967296 \<Longrightarrow> unat ((a :: u32) + of_nat n) = unat a + n"
  by (simp add: unat_word_ariths unsigned_of_nat take_bit_eq_mod)

lemma unat_add_1_2_3:
  assumes "unat (a :: u32) + 4 \<le> VM_MEM_BYTES"
  shows "unat (a + 1) = unat a + 1" "unat (a + 2) = unat a + 2" "unat (a + 3) = unat a + 3"
  using assms unat_add_small [of a 1] unat_add_small [of a 2] unat_add_small [of a 3] by simp_all

definition word_at :: "(nat \<Rightarrow> u8) \<Rightarrow> nat \<Rightarrow> u32" where
  "word_at m a = of_le32 (m a) (m (a + 1)) (m (a + 2)) (m (a + 3))"

definition put_word :: "(nat \<Rightarrow> u8) \<Rightarrow> nat \<Rightarrow> u32 \<Rightarrow> nat \<Rightarrow> u8" where
  "put_word m a w = m(a := ucast w, a + 1 := ucast (drop_bit 8 w),
     a + 2 := ucast (drop_bit 16 w), a + 3 := ucast (drop_bit 24 w))"

lemma vm_mr32_ok:
  "unat a + 4 \<le> VM_MEM_BYTES \<Longrightarrow> vm_mr32 vm a = Inr (word_at (mem vm) (unat a))"
  using unat_add_1_2_3 [of a] by (simp add: vm_mr32_def load8_def word_at_def)

lemma vm_mw32_ok:
  "unat a + 4 \<le> VM_MEM_BYTES \<Longrightarrow> vm_mw32 vm a w = Inr (vm\<lparr>mem := put_word (mem vm) (unat a) w\<rparr>)"
  using unat_add_1_2_3 [of a] by (simp add: vm_mw32_def store8_def put_word_def)

lemma word_at_put_word [simp]: "word_at (put_word m a w) a = w"
  by (simp add: word_at_def put_word_def of_le32_le32)

lemma put_word_other: "b < a \<or> a + 4 \<le> b \<Longrightarrow> put_word m a w b = m b"
  by (auto simp: put_word_def)

lemma word_at_put_other: "b + 4 \<le> a \<or> a + 4 \<le> b \<Longrightarrow> word_at (put_word m a w) b = word_at m b"
  by (auto simp: word_at_def put_word_other)

lemma le32_word_at: "le32 (word_at m a) = [m a, m (a + 1), m (a + 2), m (a + 3)]"
  by (simp add: word_at_def)

lemma map_word_at: "map m [a..<a + 4] = le32 (word_at m a)"
  by (simp add: le32_word_at upt_rec numeral_eq_Suc)

end
