(* ===== verification/Instr.thy ===== *)
theory Instr
  imports VMState
begin

text \<open>
  The instruction word \<open>[ opcode:7 ][ A:8 ][ B:8 ][ IMM:1 ][ C:8 ]\<close> of \<open>funcs.h\<close>: the field
  macros, the operand macros that read and write the register file, the layout of a word
  built from its fields, and the selection of a function block instance
  (\<open>id\<close>) the handlers share.
\<close>

section \<open>Fields\<close>

definition OPC :: "u32 \<Rightarrow> u8" where
  "OPC i = ucast (drop_bit 25 i AND 0x7F)"

definition RA :: "u32 \<Rightarrow> u8" where
  "RA i = ucast (drop_bit 17 i AND 0xFF)"

definition RB :: "u32 \<Rightarrow> u8" where
  "RB i = ucast (drop_bit 9 i AND 0xFF)"

definition RC :: "u32 \<Rightarrow> u32" where
  "RC i = i AND 0xFF"

definition FIMM :: "u32 \<Rightarrow> bool" where
  "FIMM i \<longleftrightarrow> drop_bit 8 i AND 1 \<noteq> 0"

definition IMM8 :: "u32 \<Rightarrow> u32" where
  "IMM8 i = i AND 0xFF"

definition sext :: "u32 \<Rightarrow> nat \<Rightarrow> u32" where
  "sext n b = (if drop_bit (b - 1) n AND 1 \<noteq> 0 then n OR push_bit b 0xFFFFFFFF else n)"

definition SEXTIMM8 :: "u32 \<Rightarrow> u32" where
  "SEXTIMM8 i = sext (i AND 0xFF) 8"

section \<open>Operands\<close>

definition Av :: "vm_state \<Rightarrow> u32 \<Rightarrow> u32" where
  "Av vm i = reg vm (RA i)"

definition Bv :: "vm_state \<Rightarrow> u32 \<Rightarrow> u32" where
  "Bv vm i = reg vm (RB i)"

definition Cv :: "vm_state \<Rightarrow> u32 \<Rightarrow> u32" where
  "Cv vm i = reg vm (ucast (RC i))"

definition Cv_or_imm :: "vm_state \<Rightarrow> u32 \<Rightarrow> u32" where
  "Cv_or_imm vm i = (if FIMM i then SEXTIMM8 i else reg vm (ucast (RC i)))"

definition SetA_val :: "vm_state \<Rightarrow> u32 \<Rightarrow> u32 \<Rightarrow> vm_state" where
  "SetA_val vm i v = vm\<lparr>reg := (reg vm)(RA i := v)\<rparr>"

definition b2w :: "bool \<Rightarrow> u32" where
  "b2w b = (if b then 1 else 0)"

lemma b2w_simps [simp]: "b2w True = 1" "b2w False = 0" "b2w b = 0 \<longleftrightarrow> \<not> b" "b2w b = 1 \<longleftrightarrow> b"
  by (auto simp: b2w_def)

section \<open>The layout of a word\<close>

definition instr_word :: "u32 \<Rightarrow> u32 \<Rightarrow> u32 \<Rightarrow> u32 \<Rightarrow> u32" where
  "instr_word op a b c = push_bit 25 op OR push_bit 17 a OR push_bit 9 b OR c"

lemma not_bit_small: "unat (w :: u32) < 2 ^ k \<Longrightarrow> k \<le> n \<Longrightarrow> \<not> bit w n"
proof
  assume "unat w < 2 ^ k" "k \<le> n" "bit w n"
  have "take_bit k w = w"
    using \<open>unat w < 2 ^ k\<close>
    by (metis take_bit_nat_eq_self unsigned_take_bit_eq unsigned_word_eqI)
  with \<open>bit w n\<close> \<open>k \<le> n\<close> show False
    by (metis bit_take_bit_iff not_le)
qed

lemma and_masks: "w AND 0xFF = take_bit 8 (w :: u32)" "w AND 0x7F = take_bit 7 w"
proof -
  have "0xFF = (mask 8 :: u32)" "0x7F = (mask 7 :: u32)"
    by (simp_all add: mask_eq_exp_minus_1)
  then show "w AND 0xFF = take_bit 8 w" "w AND 0x7F = take_bit 7 w"
    by (simp_all only: take_bit_eq_mask)
qed

lemma drop_bit_and_1: "drop_bit n w AND 1 \<noteq> 0 \<longleftrightarrow> bit (w :: u32) n"
  by (simp add: and_one_eq bit_iff_odd_drop_bit odd_iff_mod_2_eq_one)

lemma FIMM_bit: "FIMM i \<longleftrightarrow> bit i 8"
  unfolding FIMM_def by (rule drop_bit_and_1)

lemma OPC_instr_word:
  assumes "unat op < 128" "unat a < 256" "unat b < 256" "unat c < 512"
  shows "OPC (instr_word op a b c) = ucast op"
proof (rule bit_word_eqI)
  fix n assume "n < LENGTH(8)"
  have "\<not> bit op n" if "7 \<le> n" for n using assms(1) that not_bit_small [of op 7 n] by simp
  moreover have "\<not> bit a n" if "8 \<le> n" for n using assms(2) that not_bit_small [of a 8 n] by simp
  moreover have "\<not> bit b n" if "8 \<le> n" for n using assms(3) that not_bit_small [of b 8 n] by simp
  moreover have "\<not> bit c n" if "9 \<le> n" for n using assms(4) that not_bit_small [of c 9 n] by simp
  ultimately show "bit (OPC (instr_word op a b c)) n = bit (ucast op :: u8) n"
    using \<open>n < LENGTH(8)\<close>
    by (cases "n < 7") (simp_all add: OPC_def instr_word_def and_masks bit_simps)
qed

lemma RA_instr_word:
  assumes "unat a < 256" "unat b < 256" "unat c < 512"
  shows "RA (instr_word op a b c) = ucast a"
proof (rule bit_word_eqI)
  fix n assume "n < LENGTH(8)"
  moreover have "\<not> bit b n" if "8 \<le> n" for n using assms(2) that not_bit_small [of b 8 n] by simp
  moreover have "\<not> bit c n" if "9 \<le> n" for n using assms(3) that not_bit_small [of c 9 n] by simp
  ultimately show "bit (RA (instr_word op a b c)) n = bit (ucast a :: u8) n"
    by (simp add: RA_def instr_word_def and_masks bit_simps)
qed

lemma RB_instr_word:
  assumes "unat b < 256" "unat c < 512"
  shows "RB (instr_word op a b c) = ucast b"
proof (rule bit_word_eqI)
  fix n assume "n < LENGTH(8)"
  moreover have "\<not> bit c n" if "9 \<le> n" for n using assms(2) that not_bit_small [of c 9 n] by simp
  ultimately show "bit (RB (instr_word op a b c)) n = bit (ucast b :: u8) n"
    by (simp add: RB_def instr_word_def and_masks bit_simps)
qed

lemma RC_instr_word: "RC (instr_word op a b c) = c AND 0xFF"
  by (rule bit_word_eqI) (auto simp: RC_def instr_word_def and_masks bit_simps)

lemma IMM8_instr_word: "IMM8 (instr_word op a b c) = c AND 0xFF"
  using RC_instr_word by (simp add: RC_def IMM8_def)

lemma FIMM_instr_word: "FIMM (instr_word op a b c) \<longleftrightarrow> bit c 8"
  by (simp add: FIMM_bit instr_word_def bit_simps)

lemma IMM8_less: "unat (IMM8 i) < 256"
  using take_bit_nat_less_exp [of 8 "unat i"]
  by (simp only: IMM8_def and_masks unsigned_take_bit_eq) simp

lemma and_FF_less: "unat (w AND 0xFF :: u32) < 256"
  using IMM8_less [of w] by (simp add: IMM8_def)

text \<open>The fields of a word determine it, and every word is of this form.\<close>

lemma instr_word_of_fields:
  "instr_word (ucast (OPC i)) (ucast (RA i)) (ucast (RB i)) (push_bit 8 (b2w (FIMM i)) OR IMM8 i) = i"
proof (rule bit_word_eqI)
  fix n assume "n < LENGTH(32)"
  then consider "n < 8" | "n = 8" | "9 \<le> n" "n < 17" | "17 \<le> n" "n < 25" | "25 \<le> n" "n < 32"
    by fastforce
  then show "bit (instr_word (ucast (OPC i)) (ucast (RA i)) (ucast (RB i))
      (push_bit 8 (b2w (FIMM i)) OR IMM8 i)) n = bit i n"
    by cases (auto simp: instr_word_def OPC_def RA_def RB_def IMM8_def FIMM_bit b2w_def
        and_masks bit_simps)
qed

lemma Av_instr_word:
  "unat a < 256 \<Longrightarrow> unat b < 256 \<Longrightarrow> unat c < 512 \<Longrightarrow> Av vm (instr_word op a b c) = reg vm (ucast a)"
  by (simp add: Av_def RA_instr_word)

lemma Bv_instr_word:
  "unat b < 256 \<Longrightarrow> unat c < 512 \<Longrightarrow> Bv vm (instr_word op a b c) = reg vm (ucast b)"
  by (simp add: Bv_def RB_instr_word)

lemma ucast_and_FF: "ucast (c AND 0xFF :: u32) = (ucast c :: u8)"
  unfolding and_masks by (rule bit_word_eqI) (auto simp: bit_simps)

lemma Cv_instr_word: "Cv vm (instr_word op a b c) = reg vm (ucast c)"
  by (simp add: Cv_def RC_instr_word ucast_and_FF)

lemma Cv_or_imm_reg: "unat c < 256 \<Longrightarrow> Cv_or_imm vm (instr_word op a b c) = reg vm (ucast c)"
  using not_bit_small [of c 8 8]
  by (simp add: Cv_or_imm_def FIMM_instr_word RC_instr_word ucast_and_FF)

lemmas operand_simps = Av_instr_word Bv_instr_word Cv_instr_word Cv_or_imm_reg RA_instr_word

section \<open>Sign extension\<close>

lemma SEXTIMM8_scast: "SEXTIMM8 i = scast (ucast i :: u8)"
proof -
  have hi: "(0xFFFFFFFF :: u32) = mask 32" by (simp add: mask_eq_exp_minus_1)
  have "drop_bit 7 (take_bit 8 i) AND 1 \<noteq> 0 \<longleftrightarrow> bit i 7"
    by (simp only: drop_bit_and_1) (simp add: bit_simps)
  then show ?thesis
    unfolding SEXTIMM8_def sext_def hi and_masks
    by (intro bit_word_eqI) (auto simp: bit_simps min_def not_le less_Suc_eq_le dest: le_neq_implies_less
        intro: le_antisym split: if_splits)
qed

lemma sint_SEXTIMM8: "sint (SEXTIMM8 i) = sint (ucast i :: u8)"
  by (simp add: SEXTIMM8_scast) (transfer, simp add: signed_take_bit_signed_take_bit)

section \<open>Instances of function blocks\<close>

text \<open>
  The test \<open>id < 0 || id >= MAX_TIMERS\<close> on the register value converted to \<open>int\<close>.
\<close>

definition bad_id :: "u32 \<Rightarrow> bool" where
  "bad_id w \<longleftrightarrow> sint w < 0 \<or> sint w \<ge> int MAX_TIMERS"

lemma not_bit_31: "\<not> bit (w :: u32) 31 \<Longrightarrow> unat w < 2147483648"
proof -
  assume "\<not> bit w 31"
  then have "take_bit 31 w = w"
    by (intro bit_word_eqI) (auto simp: bit_simps less_Suc_eq numeral_eq_Suc)
  with take_bit_nat_less_exp [of 31 "unat w"] show ?thesis
    by (simp flip: unsigned_take_bit_eq)
qed

lemma bad_id_iff: "bad_id w \<longleftrightarrow> 16 \<le> unat w"
proof -
  have "sint w = uint w - 4294967296 * of_bool (bit w 31)"
    using take_bit_int_eq_self [of "uint w" 32] uint_bounded [of w]
    by (simp add: sint_uint signed_take_bit_eq_take_bit_minus bit_unsigned_iff)
  moreover have "2147483648 \<le> unat w" if "bit w 31"
  proof (rule ccontr)
    assume "\<not> 2147483648 \<le> unat w"
    then have "unat w < 2 ^ 31" by simp
    from not_bit_small [OF this order.refl] that show False by blast
  qed
  ultimately have "sint w = int (unat w) - 4294967296 \<and> 2147483648 \<le> unat w \<or>
      sint w = int (unat w) \<and> unat w < 2147483648"
    using not_bit_31 [of w] by (cases "bit w 31") (simp_all only: of_bool_eq uint_nat simp_thms mult_1_right mult_zero_right diff_zero)
  with unat_u32_less [of w] show ?thesis
    unfolding bad_id_def MAX_TIMERS_eq by linarith
qed

end
