(* ===== verification/Ops_Arith.thy ===== *)
theory Ops_Arith
  imports Instr
begin

text \<open>
  The arithmetic, logic, comparison and calendar handlers of \<open>funcs.c\<close>.

  The C math library and the local clock are not part of the sources: \<open>libm\<close> is a record of
  the functions the handlers call, on doubles given by their rational value (or an infinity or
  a NaN), and \<open>tm\<close> is the broken-down local time \<open>localtime_r\<close> returns.  The conversion of
  a double to \<open>uint32_t\<close> and the \<open>int\<close> arithmetic of the calendar handlers are undefined
  outside their range; there the handlers return a fault.
\<close>

section \<open>Values outside the machine integers\<close>

datatype double = Fin rat | PosInf | NegInf | NaN

record libm =
  lm_pow :: "double \<Rightarrow> double \<Rightarrow> double"
  lm_sqrt :: "double \<Rightarrow> double"
  lm_log :: "double \<Rightarrow> double"
  lm_log10 :: "double \<Rightarrow> double"
  lm_exp :: "double \<Rightarrow> double"
  lm_sin :: "double \<Rightarrow> double"
  lm_cos :: "double \<Rightarrow> double"
  lm_tan :: "double \<Rightarrow> double"
  lm_asin :: "double \<Rightarrow> double"
  lm_acos :: "double \<Rightarrow> double"
  lm_atan :: "double \<Rightarrow> double"

text \<open>\<open>(double) n\<close> is exact; \<open>(uint32_t) d\<close> drops the fraction and is defined on \<open>(-1, 2^32)\<close>.\<close>

definition double_of_u32 :: "u32 \<Rightarrow> double" where
  "double_of_u32 w = Fin (of_int (uint w))"

definition trunc_rat :: "rat \<Rightarrow> int" where
  "trunc_rat q = (if 0 \<le> q then \<lfloor>q\<rfloor> else \<lceil>q\<rceil>)"

definition u32_of_double :: "double \<Rightarrow> u32 res" where
  "u32_of_double d = (case d of
     Fin q \<Rightarrow> if - 1 < q \<and> q < 4294967296 then Inr (word_of_int (trunc_rat q)) else Inl Bad_Conversion
   | _ \<Rightarrow> Inl Bad_Conversion)"

text \<open>Arithmetic on \<open>int\<close>, whose overflow is undefined.\<close>

definition cint :: "int \<Rightarrow> int res" where
  "cint n = (if - 2147483648 \<le> n \<and> n \<le> 2147483647 then Inr n else Inl Signed_Overflow)"

definition cadd :: "int res \<Rightarrow> int res \<Rightarrow> int res" where
  "cadd x y = bindR x (\<lambda>a. bindR y (\<lambda>b. cint (a + b)))"

definition cmul :: "int res \<Rightarrow> int \<Rightarrow> int res" where
  "cmul x k = bindR x (\<lambda>a. cint (a * k))"

definition cabs :: "int \<Rightarrow> int res" where
  "cabs n = (if n < 0 then cint (- n) else Inr n)"

section \<open>Arithmetic\<close>

definition op_add :: "vm_state \<Rightarrow> u32 \<Rightarrow> vm_state" where
  "op_add vm i = SetA_val vm i (Bv vm i + Cv_or_imm vm i)"

definition op_sub :: "vm_state \<Rightarrow> u32 \<Rightarrow> vm_state" where
  "op_sub vm i = SetA_val vm i (Bv vm i - Cv_or_imm vm i)"

definition op_mul :: "vm_state \<Rightarrow> u32 \<Rightarrow> vm_state" where
  "op_mul vm i = SetA_val vm i (Bv vm i * Cv_or_imm vm i)"

definition op_div :: "vm_state \<Rightarrow> u32 \<Rightarrow> vm_state" where
  "op_div vm i = (let c = Cv_or_imm vm i in SetA_val vm i (if c \<noteq> 0 then Bv vm i div c else 0))"

definition op_mod :: "vm_state \<Rightarrow> u32 \<Rightarrow> vm_state" where
  "op_mod vm i = (let c = Cv_or_imm vm i in SetA_val vm i (if c \<noteq> 0 then Bv vm i mod c else 0))"

text \<open>Store the value of a computation that can fault in register A.\<close>

definition SetA_res :: "vm_state \<Rightarrow> u32 \<Rightarrow> u32 res \<Rightarrow> vm_state res" where
  "SetA_res vm i r = bindR r (\<lambda>v. Inr (SetA_val vm i v))"

definition op_expt :: "libm \<Rightarrow> vm_state \<Rightarrow> u32 \<Rightarrow> vm_state res" where
  "op_expt lm vm i = SetA_res vm i
     (u32_of_double (lm_pow lm (double_of_u32 (Bv vm i)) (double_of_u32 (Cv_or_imm vm i))))"

definition op_abs :: "vm_state \<Rightarrow> u32 \<Rightarrow> vm_state res" where
  "op_abs vm i = SetA_res vm i (bindR (cabs (sint (Bv vm i))) (\<lambda>n. Inr (word_of_int n)))"

definition op_sqrt :: "libm \<Rightarrow> vm_state \<Rightarrow> u32 \<Rightarrow> vm_state res" where
  "op_sqrt lm vm i = SetA_res vm i (u32_of_double (lm_sqrt lm (double_of_u32 (Bv vm i))))"

definition op_ln :: "libm \<Rightarrow> vm_state \<Rightarrow> u32 \<Rightarrow> vm_state res" where
  "op_ln lm vm i = SetA_res vm i (u32_of_double (lm_log lm (double_of_u32 (Bv vm i))))"

definition op_log :: "libm \<Rightarrow> vm_state \<Rightarrow> u32 \<Rightarrow> vm_state res" where
  "op_log lm vm i = SetA_res vm i (u32_of_double (lm_log10 lm (double_of_u32 (Bv vm i))))"

definition op_exp :: "libm \<Rightarrow> vm_state \<Rightarrow> u32 \<Rightarrow> vm_state res" where
  "op_exp lm vm i = SetA_res vm i (u32_of_double (lm_exp lm (double_of_u32 (Bv vm i))))"

definition op_sin :: "libm \<Rightarrow> vm_state \<Rightarrow> u32 \<Rightarrow> vm_state res" where
  "op_sin lm vm i = SetA_res vm i (u32_of_double (lm_sin lm (double_of_u32 (Bv vm i))))"

definition op_cos :: "libm \<Rightarrow> vm_state \<Rightarrow> u32 \<Rightarrow> vm_state res" where
  "op_cos lm vm i = SetA_res vm i (u32_of_double (lm_cos lm (double_of_u32 (Bv vm i))))"

definition op_tan :: "libm \<Rightarrow> vm_state \<Rightarrow> u32 \<Rightarrow> vm_state res" where
  "op_tan lm vm i = SetA_res vm i (u32_of_double (lm_tan lm (double_of_u32 (Bv vm i))))"

definition op_asin :: "libm \<Rightarrow> vm_state \<Rightarrow> u32 \<Rightarrow> vm_state res" where
  "op_asin lm vm i = SetA_res vm i (u32_of_double (lm_asin lm (double_of_u32 (Bv vm i))))"

definition op_acos :: "libm \<Rightarrow> vm_state \<Rightarrow> u32 \<Rightarrow> vm_state res" where
  "op_acos lm vm i = SetA_res vm i (u32_of_double (lm_acos lm (double_of_u32 (Bv vm i))))"

definition op_atan :: "libm \<Rightarrow> vm_state \<Rightarrow> u32 \<Rightarrow> vm_state res" where
  "op_atan lm vm i = SetA_res vm i (u32_of_double (lm_atan lm (double_of_u32 (Bv vm i))))"

section \<open>Logic and comparison\<close>

definition op_and :: "vm_state \<Rightarrow> u32 \<Rightarrow> vm_state" where
  "op_and vm i = SetA_val vm i (Bv vm i AND Cv_or_imm vm i)"

definition op_or :: "vm_state \<Rightarrow> u32 \<Rightarrow> vm_state" where
  "op_or vm i = SetA_val vm i (Bv vm i OR Cv_or_imm vm i)"

definition op_xor :: "vm_state \<Rightarrow> u32 \<Rightarrow> vm_state" where
  "op_xor vm i = SetA_val vm i (Bv vm i XOR Cv_or_imm vm i)"

definition op_not :: "vm_state \<Rightarrow> u32 \<Rightarrow> vm_state" where
  "op_not vm i = SetA_val vm i (NOT (Bv vm i))"

definition op_eq :: "vm_state \<Rightarrow> u32 \<Rightarrow> vm_state" where
  "op_eq vm i = SetA_val vm i (if Bv vm i = Cv_or_imm vm i then 1 else 0)"

definition op_ne :: "vm_state \<Rightarrow> u32 \<Rightarrow> vm_state" where
  "op_ne vm i = SetA_val vm i (if Bv vm i \<noteq> Cv_or_imm vm i then 1 else 0)"

definition op_gt :: "vm_state \<Rightarrow> u32 \<Rightarrow> vm_state" where
  "op_gt vm i = SetA_val vm i (if Bv vm i > Cv_or_imm vm i then 1 else 0)"

definition op_ge :: "vm_state \<Rightarrow> u32 \<Rightarrow> vm_state" where
  "op_ge vm i = SetA_val vm i (if Bv vm i \<ge> Cv_or_imm vm i then 1 else 0)"

definition op_lt :: "vm_state \<Rightarrow> u32 \<Rightarrow> vm_state" where
  "op_lt vm i = SetA_val vm i (if Bv vm i < Cv_or_imm vm i then 1 else 0)"

definition op_le :: "vm_state \<Rightarrow> u32 \<Rightarrow> vm_state" where
  "op_le vm i = SetA_val vm i (if Bv vm i \<le> Cv_or_imm vm i then 1 else 0)"

section \<open>Calendar\<close>

record tm =
  tm_sec :: int
  tm_min :: int
  tm_hour :: int
  tm_mday :: int
  tm_mon :: int
  tm_year :: int

record TOD_t =
  hours :: int
  minutes :: int
  seconds :: int

record DATE_t =
  year :: int
  month :: int
  day :: int

record DT_t =
  dt_date :: DATE_t
  dt_time :: TOD_t

definition tm_to_tod :: "tm \<Rightarrow> TOD_t" where
  "tm_to_tod t = \<lparr>hours = tm_hour t, minutes = tm_min t, seconds = tm_sec t\<rparr>"

definition tm_to_date :: "tm \<Rightarrow> DATE_t res" where
  "tm_to_date t =
     bindR (cadd (Inr (tm_year t)) (Inr 1900)) (\<lambda>y.
     bindR (cadd (Inr (tm_mon t)) (Inr 1)) (\<lambda>m.
     Inr \<lparr>year = y, month = m, day = tm_mday t\<rparr>))"

definition tm_to_dt :: "tm \<Rightarrow> DT_t res" where
  "tm_to_dt t = bindR (tm_to_date t) (\<lambda>d. Inr \<lparr>dt_date = d, dt_time = tm_to_tod t\<rparr>)"

definition tod_to_seconds :: "TOD_t \<Rightarrow> int res" where
  "tod_to_seconds t =
     cadd (cadd (cmul (Inr (hours t)) 3600) (cmul (Inr (minutes t)) 60)) (Inr (seconds t))"

text \<open>Store an \<open>int\<close> in register A.\<close>

definition SetA_int :: "vm_state \<Rightarrow> u32 \<Rightarrow> int res \<Rightarrow> vm_state res" where
  "SetA_int vm i r = bindR r (\<lambda>n. Inr (SetA_val vm i (word_of_int n)))"

definition op_time :: "tm \<Rightarrow> vm_state \<Rightarrow> u32 \<Rightarrow> vm_state res" where
  "op_time now vm i = SetA_int vm i (tod_to_seconds (tm_to_tod now))"

definition op_date :: "tm \<Rightarrow> vm_state \<Rightarrow> u32 \<Rightarrow> vm_state res" where
  "op_date now vm i = bindR (tm_to_date now) (\<lambda>d. SetA_int vm i
     (cadd (cadd (cmul (Inr (year d)) 10000) (cmul (Inr (month d)) 100)) (Inr (day d))))"

definition op_tod :: "tm \<Rightarrow> vm_state \<Rightarrow> u32 \<Rightarrow> vm_state res" where
  "op_tod now vm i = (let t = tm_to_tod now in SetA_int vm i
     (cadd (cadd (cmul (Inr (hours t)) 10000) (cmul (Inr (minutes t)) 100)) (Inr (seconds t))))"

definition op_dt :: "tm \<Rightarrow> vm_state \<Rightarrow> u32 \<Rightarrow> vm_state res" where
  "op_dt now vm i = bindR (tm_to_dt now) (\<lambda>dt. SetA_int vm i
     (cadd (cadd (cadd (cmul (Inr (year (dt_date dt))) 1000000) (cmul (Inr (month (dt_date dt))) 10000))
       (cmul (Inr (day (dt_date dt))) 100)) (Inr (hours (dt_time dt)))))"

definition op_add_time :: "vm_state \<Rightarrow> u32 \<Rightarrow> vm_state" where
  "op_add_time vm i = SetA_val vm i (Bv vm i + Cv_or_imm vm i)"

definition op_sub_time :: "vm_state \<Rightarrow> u32 \<Rightarrow> vm_state" where
  "op_sub_time vm i = SetA_val vm i (Bv vm i - Cv_or_imm vm i)"

definition op_year :: "tm \<Rightarrow> vm_state \<Rightarrow> u32 \<Rightarrow> vm_state res" where
  "op_year now vm i = bindR (tm_to_date now) (\<lambda>d. SetA_int vm i (Inr (year d)))"

definition op_month :: "tm \<Rightarrow> vm_state \<Rightarrow> u32 \<Rightarrow> vm_state res" where
  "op_month now vm i = bindR (tm_to_date now) (\<lambda>d. SetA_int vm i (Inr (month d)))"

definition op_day :: "tm \<Rightarrow> vm_state \<Rightarrow> u32 \<Rightarrow> vm_state res" where
  "op_day now vm i = bindR (tm_to_date now) (\<lambda>d. SetA_int vm i (Inr (day d)))"

definition op_hour :: "tm \<Rightarrow> vm_state \<Rightarrow> u32 \<Rightarrow> vm_state res" where
  "op_hour now vm i = SetA_int vm i (Inr (hours (tm_to_tod now)))"

definition op_minute :: "tm \<Rightarrow> vm_state \<Rightarrow> u32 \<Rightarrow> vm_state res" where
  "op_minute now vm i = SetA_int vm i (Inr (minutes (tm_to_tod now)))"

definition op_second :: "tm \<Rightarrow> vm_state \<Rightarrow> u32 \<Rightarrow> vm_state res" where
  "op_second now vm i = SetA_int vm i (Inr (seconds (tm_to_tod now)))"

section \<open>Properties\<close>

lemma Av_SetA_val [simp]: "Av (SetA_val vm i v) i = v"
  by (simp add: Av_def SetA_val_def)

lemma reg_SetA_val: "reg (SetA_val vm i v) r = (if r = RA i then v else reg vm r)"
  by (simp add: SetA_val_def)

lemma cint_Inr: "- 2147483648 \<le> n \<Longrightarrow> n \<le> 2147483647 \<Longrightarrow> cint n = Inr n"
  by (simp add: cint_def)

text \<open>
  Division and remainder agree: with a divisor other than zero the quotient
  times the divisor plus the remainder is the dividend, without a wrap, and the remainder is
  below the divisor; with the divisor zero both handlers store 0 instead of trapping.
\<close>

theorem op_div_mod_spec:
  "(if Cv_or_imm vm i = 0 then Av (op_div vm i) i = 0 \<and> Av (op_mod vm i) i = 0
    else unat (Av (op_div vm i) i) * unat (Cv_or_imm vm i) + unat (Av (op_mod vm i) i) = unat (Bv vm i)
       \<and> Av (op_mod vm i) i < Cv_or_imm vm i)"
  by (simp add: op_div_def op_mod_def Let_def unat_div unat_mod word_less_nat_alt unat_gt_0)

text \<open>
  \<open>op_abs\<close> stores the absolute value of the register read as a signed number,
  except for the most negative one, whose absolute value does not fit an \<open>int\<close> and makes the
  call of \<open>abs\<close> undefined.
\<close>

theorem op_abs_spec:
  "op_abs vm i =
     (if sint (Bv vm i) = - 2147483648 then Inl Signed_Overflow
      else Inr (SetA_val vm i (word_of_int \<bar>sint (Bv vm i)\<bar>)))"
  using sint_greater_eq [of "Bv vm i"] sint_less [of "Bv vm i"]
  by (auto simp: op_abs_def SetA_res_def cabs_def cint_def)

lemma floor_of_sqrt:
  fixes r :: rat and k :: nat
  assumes "0 \<le> r" "\<bar>r * r - of_nat n\<bar> < 1" "\<And>k. k * k = n \<Longrightarrow> r = of_nat k"
    and "k * k \<le> n" "n < (k + 1) * (k + 1)"
  shows "\<lfloor>r\<rfloor> = int k"
proof (cases "k * k = n")
  case True
  with assms(3) show ?thesis by simp
next
  case False
  have "of_nat (k * k + 1) \<le> (of_nat n :: rat)" "of_nat (n + 1) \<le> (of_nat ((k + 1) * (k + 1)) :: rat)"
    using False assms(4,5) by (simp_all only: of_nat_le_iff)
  then have "of_nat k * of_nat k < r * r" "r * r < of_nat (k + 1) * of_nat (k + 1)"
    using assms(2) by (auto simp: abs_less_iff algebra_simps)
  then have "of_nat k < r" "r < of_nat (k + 1)"
    using assms(1) by (meson mult_mono' not_less of_nat_0_le_iff order.trans)+
  then show ?thesis by (simp add: floor_unique)
qed

lemma integer_root_exists: "\<exists>k :: nat. k * k \<le> n \<and> n < (k + 1) * (k + 1)"
proof (induction n)
  case 0
  then show ?case by (intro exI [of _ 0]) simp
next
  case (Suc n)
  then obtain k where "k * k \<le> n" "n < (k + 1) * (k + 1)" by blast
  show ?case
  proof (cases "Suc n = (k + 1) * (k + 1)")
    case True
    then show ?thesis by (intro exI [of _ "k + 1"]) simp
  next
    case False
    with \<open>k * k \<le> n\<close> \<open>n < (k + 1) * (k + 1)\<close> show ?thesis by (intro exI [of _ k]) simp
  qed
qed

lemma integer_root_u32: "k * k \<le> unat (w :: u32) \<Longrightarrow> k < 65536"
proof (rule ccontr)
  assume "k * k \<le> unat w" "\<not> k < 65536"
  then have "65536 * 65536 \<le> k * k" by (intro mult_le_mono) simp_all
  with \<open>k * k \<le> unat w\<close> unat_u32_less [of w] show False by simp
qed

text \<open>
  With the square root of the C library (exact on squares, and off by less
  than one after squaring, which correct rounding gives with room to spare on 32-bit
  arguments), \<open>op_sqrt\<close> stores the integer square root and does not fault.
\<close>

theorem op_sqrt_integer_root:
  assumes "lm_sqrt lm (double_of_u32 (Bv vm i)) = Fin r"
    and "0 \<le> r" "\<bar>r * r - of_nat (unat (Bv vm i))\<bar> < 1"
    and "\<And>k. k * k = unat (Bv vm i) \<Longrightarrow> r = of_nat k"
  shows "\<exists>v. op_sqrt lm vm i = Inr (SetA_val vm i v) \<and>
    unat v * unat v \<le> unat (Bv vm i) \<and> unat (Bv vm i) < (unat v + 1) * (unat v + 1)"
proof -
  obtain k where k: "k * k \<le> unat (Bv vm i)" "unat (Bv vm i) < (k + 1) * (k + 1)"
    using integer_root_exists by blast
  have fl: "\<lfloor>r\<rfloor> = int k"
    using assms(2,3,4) k by (rule floor_of_sqrt)
  have lt: "k < 65536" using integer_root_u32 [OF k(1)] .
  have "\<lfloor>r\<rfloor> < 65536" using fl lt by simp
  then have "r < 65536" by linarith
  then have "u32_of_double (Fin r) = Inr (word_of_int (int k))"
    using assms(2) fl by (simp add: u32_of_double_def trunc_rat_def)
  moreover have "unat (word_of_int (int k) :: u32) = k"
    using lt by (simp add: unsigned_of_nat take_bit_nat_eq_self)
  ultimately show ?thesis
    using k assms(1) by (intro exI [of _ "word_of_int (int k)"]) (simp add: op_sqrt_def SetA_res_def)
qed

text \<open>A math library that knows one square root, and a machine whose registers all hold 10.\<close>

definition sample_libm :: libm where
  "sample_libm = \<lparr>lm_pow = \<lambda>_ _. NaN,
     lm_sqrt = \<lambda>d. if d = Fin 10 then Fin (316227766 / 100000000) else NaN,
     lm_log = \<lambda>_. NaN, lm_log10 = \<lambda>_. NaN, lm_exp = \<lambda>_. NaN, lm_sin = \<lambda>_. NaN,
     lm_cos = \<lambda>_. NaN, lm_tan = \<lambda>_. NaN, lm_asin = \<lambda>_. NaN, lm_acos = \<lambda>_. NaN, lm_atan = \<lambda>_. NaN\<rparr>"

definition vm_tens :: vm_state where
  "vm_tens = vm_zero\<lparr>reg := \<lambda>_. 10\<rparr>"

lemma Bv_vm_tens: "Bv vm_tens i = 10"
  by (simp add: Bv_def vm_tens_def)

lemma not_square_10: "k * k \<noteq> (10 :: nat)"
proof
  assume "k * k = 10"
  then have "k < 4" using mult_le_mono [of 4 k 4 k] by (cases "k < 4") simp_all
  then have "k = 0 \<or> k = 1 \<or> k = 2 \<or> k = 3" by linarith
  with \<open>k * k = 10\<close> show False by auto
qed

theorem op_sqrt_integer_root_witness:
  "\<exists>v. op_sqrt sample_libm vm_tens 0 = Inr (SetA_val vm_tens 0 v) \<and>
    unat v * unat v \<le> 10 \<and> 10 < (unat v + 1) * (unat v + 1)"
proof -
  have 1: "lm_sqrt sample_libm (double_of_u32 (Bv vm_tens 0)) = Fin (316227766 / 100000000)"
    by (simp add: Bv_vm_tens sample_libm_def double_of_u32_def)
  have 2: "\<bar>316227766 / 100000000 * (316227766 / 100000000) - of_nat (unat (Bv vm_tens 0))\<bar> < (1 :: rat)"
    by (simp add: Bv_vm_tens)
  have 3: "k * k \<noteq> unat (Bv vm_tens 0)" for k
    using not_square_10 by (simp add: Bv_vm_tens)
  have "unat (Bv vm_tens 0) = 10"
    by (simp add: Bv_vm_tens)
  with op_sqrt_integer_root [OF 1 _ 2] 3 show ?thesis by simp
qed

lemma div_digit: "0 \<le> r \<Longrightarrow> r < k \<Longrightarrow> (q * k + r) div k = (q :: int)"
  and mod_digit: "0 \<le> r \<Longrightarrow> r < k \<Longrightarrow> (q * k + r) mod k = r"
  by (simp_all add: div_mult_self3)

text \<open>
  For a calendar date in the years 0 to 2147, \<open>op_dt\<close> packs year, month, day
  and hour into decimal digits from which each can be read back; from the year 2148 on the
  \<open>int\<close> arithmetic of the handler overflows.
\<close>

theorem op_dt_digits:
  assumes "0 \<le> tm_year now + 1900" "tm_year now + 1900 < 214748"
    and "0 \<le> tm_mon now" "tm_mon now < 12" "1 \<le> tm_mday now" "tm_mday now \<le> 31"
    and "0 \<le> tm_hour now" "tm_hour now < 24"
  shows "if tm_year now + 1900 \<le> 2147
    then \<exists>v. op_dt now vm i = Inr (SetA_val vm i v) \<and>
      uint v div 1000000 = tm_year now + 1900 \<and> uint v div 10000 mod 100 = tm_mon now + 1 \<and>
      uint v div 100 mod 100 = tm_mday now \<and> uint v mod 100 = tm_hour now
    else op_dt now vm i = Inl Signed_Overflow"
proof -
  define y m d h where "y = tm_year now + 1900" and "m = tm_mon now + 1"
    and "d = tm_mday now" and "h = tm_hour now"
  have b: "0 \<le> y" "y < 214748" "1 \<le> m" "m \<le> 12" "1 \<le> d" "d \<le> 31" "0 \<le> h" "h < 24"
    using assms by (simp_all add: y_def m_def d_def h_def)
  have dt: "tm_to_dt now = Inr \<lparr>dt_date = \<lparr>year = y, month = m, day = d\<rparr>, dt_time = tm_to_tod now\<rparr>"
    using b by (simp add: tm_to_dt_def tm_to_date_def cadd_def cint_Inr y_def m_def d_def)
  have op: "op_dt now vm i = SetA_int vm i
      (cadd (cadd (cadd (cmul (Inr y) 1000000) (cmul (Inr m) 10000)) (cmul (Inr d) 100)) (Inr h))"
    by (simp add: op_dt_def dt tm_to_tod_def h_def)
  show ?thesis
  proof (cases "y \<le> 2147")
    case True
    define n where "n = y * 1000000 + m * 10000 + d * 100 + h"
    have n: "0 \<le> n" "n < 4294967296" using b True by (simp_all add: n_def)
    then have u: "uint (word_of_int n :: u32) = n" by (simp only: uint_word_of_int) simp
    have e: "n = y * 1000000 + (m * 10000 + d * 100 + h)" "n = (y * 100 + m) * 10000 + (d * 100 + h)"
        "n = ((y * 100 + m) * 100 + d) * 100 + h"
      by (simp_all add: n_def)
    have "n div 1000000 = y" "n div 10000 = y * 100 + m"
      by (subst e(1), rule div_digit, use b in simp, use b in simp,
          subst e(2), rule div_digit, use b in simp, use b in simp)
    moreover have "n div 100 = (y * 100 + m) * 100 + d" "n mod 100 = h"
      by (subst e(3), rule div_digit, use b in simp, use b in simp,
          subst e(3), rule mod_digit, use b in simp, use b in simp)
    ultimately have "n div 1000000 = y" "n mod 100 = h" "n div 10000 mod 100 = m" "n div 100 mod 100 = d"
      using b by (simp_all only: mod_digit)
    moreover have "op_dt now vm i = Inr (SetA_val vm i (word_of_int n))"
      using b True unfolding op
      by (simp add: cadd_def cmul_def cint_Inr SetA_int_def n_def)
    ultimately show ?thesis
      using True u by (auto simp: y_def m_def d_def h_def)
  next
    case False
    with b have "op_dt now vm i = Inl Signed_Overflow"
      unfolding op by (auto simp: cadd_def cmul_def cint_def SetA_int_def)
    with False show ?thesis by (simp add: y_def)
  qed
qed

theorem op_dt_digits_witness:
  "\<exists>v. op_dt \<lparr>tm_sec = 30, tm_min = 15, tm_hour = 23, tm_mday = 31, tm_mon = 11, tm_year = 125\<rparr>
       vm_zero 0 = Inr (SetA_val vm_zero 0 v) \<and>
     uint v div 1000000 = 2025 \<and> uint v div 10000 mod 100 = 12 \<and> uint v div 100 mod 100 = 31 \<and>
     uint v mod 100 = 23"
  using op_dt_digits [of "\<lparr>tm_sec = 30, tm_min = 15, tm_hour = 23, tm_mday = 31, tm_mon = 11,
    tm_year = 125\<rparr>" vm_zero 0]
  by simp

end
