(* ===== verification/Ops_Strings.thy ===== *)
theory Ops_Strings
  imports Instr
begin

text \<open>
  The string handlers of \<open>funcs.c\<close>, which edit zero-terminated strings in place in the
  machine's memory, with the bounded helpers they use.  \<open>has_str m a s\<close> is the abstraction:
  the memory holds the terminated string \<open>s\<close> at \<open>a\<close>.  The locale \<open>in_place_edit\<close> is what the
  handlers that only shrink a string promise.
\<close>

section \<open>Helpers\<close>

definition safe_mem_remaining :: "u32 \<Rightarrow> nat" where
  "safe_mem_remaining addr = (if VM_MEM_BYTES \<le> unat addr then 0 else VM_MEM_BYTES - unat addr)"

function strlen_loop :: "(nat \<Rightarrow> u8) \<Rightarrow> nat \<Rightarrow> nat \<Rightarrow> nat \<Rightarrow> nat" where
  "strlen_loop m a rem i = (if i < rem \<and> m (a + i) \<noteq> 0 then strlen_loop m a rem (i + 1) else i)"
  by auto

termination strlen_loop
  by (relation "measure (\<lambda>(m, a, rem, i). rem - i)") auto

declare strlen_loop.simps [simp del]

definition safe_strlen_at :: "vm_state \<Rightarrow> u32 \<Rightarrow> nat" where
  "safe_strlen_at vm addr =
     (let rem = safe_mem_remaining addr in
      if rem = 0 then 0 else strlen_loop (mem vm) (unat addr) rem 0)"

definition with_mem :: "vm_state \<Rightarrow> (nat \<Rightarrow> u8) res \<Rightarrow> vm_state res" where
  "with_mem vm r = bindR r (\<lambda>m. Inr (vm\<lparr>mem := m\<rparr>))"

text \<open>The source of \<open>safe_memcpy_from_to\<close> is a buffer outside the machine's memory.\<close>

definition safe_memcpy_from_to :: "vm_state \<Rightarrow> u32 \<Rightarrow> u8 list \<Rightarrow> nat \<Rightarrow> (vm_state \<times> nat) res" where
  "safe_memcpy_from_to vm destAddr src n =
     (let rem = safe_mem_remaining destAddr;
          to_copy = (if rem < n then rem else n) in
      if 0 < to_copy then
        (if length src < to_copy then Inl Out_Of_Bounds
         else Inr (vm\<lparr>mem := \<lambda>a. if unat destAddr \<le> a \<and> a < unat destAddr + to_copy
           then src ! (a - unat destAddr) else mem vm a\<rparr>, to_copy))
      else Inr (vm, to_copy))"

definition safe_memmove :: "vm_state \<Rightarrow> u32 \<Rightarrow> u32 \<Rightarrow> nat \<Rightarrow> vm_state res" where
  "safe_memmove vm destAddr srcAddr n =
     (let rem_dest = safe_mem_remaining destAddr;
          rem_src = safe_mem_remaining srcAddr;
          max_copy = (if rem_dest < rem_src then rem_dest else rem_src);
          n' = (if max_copy < n then max_copy else n) in
      with_mem vm (memmove_mem (mem vm) (unat destAddr) (unat srcAddr) n'))"

definition safe_set_null :: "vm_state \<Rightarrow> u32 \<Rightarrow> vm_state res" where
  "safe_set_null vm addr = (if unat addr < VM_MEM_BYTES then vm_mw8 vm addr 0 else Inr vm)"

text \<open>Subtraction of \<open>size_t\<close> values, which wraps below zero.\<close>

definition size_sub :: "nat \<Rightarrow> nat \<Rightarrow> nat" where
  "size_sub a b = (if b \<le> a then a - b else a + 18446744073709551616 - b)"

section \<open>Handlers\<close>

definition op_len :: "vm_state \<Rightarrow> u32 \<Rightarrow> vm_state" where
  "op_len vm i =
     (let addr = Bv vm i in
      if VM_MEM_BYTES \<le> unat addr then SetA_val vm i 0
      else SetA_val vm i (of_nat (safe_strlen_at vm addr)))"

definition op_concat :: "vm_state \<Rightarrow> u32 \<Rightarrow> vm_state res" where
  "op_concat vm i =
     (let destAddr = Bv vm i; srcAddr = Cv vm i in
      if VM_MEM_BYTES \<le> unat destAddr \<or> VM_MEM_BYTES \<le> unat srcAddr then Inr vm else
      let dest_len = safe_strlen_at vm destAddr;
          src_len = safe_strlen_at vm srcAddr;
          rem = safe_mem_remaining destAddr in
      if rem = 0 then Inr vm else
      let max_append = (if dest_len < rem then rem - dest_len - 1 else 0);
          to_copy = (if src_len < max_append then src_len else max_append) in
      bindR (if 0 < to_copy
             then with_mem vm (memcpy_mem (mem vm) (unat destAddr + dest_len) (unat srcAddr) to_copy)
             else Inr vm) (\<lambda>vm.
      if unat destAddr + dest_len + to_copy < VM_MEM_BYTES
      then with_mem vm (store8 (mem vm) (unat destAddr + dest_len + to_copy) 0)
      else Inr vm))"

definition op_left :: "vm_state \<Rightarrow> u32 \<Rightarrow> vm_state res" where
  "op_left vm i =
     (let addr = Bv vm i; n = Cv_or_imm vm i in
      if VM_MEM_BYTES \<le> unat addr then Inr vm else
      let len = safe_strlen_at vm addr in
      if len \<le> unat n then Inr vm
      else if unat (addr + n) < VM_MEM_BYTES then vm_mw8 vm (addr + n) 0 else Inr vm)"

definition op_right :: "vm_state \<Rightarrow> u32 \<Rightarrow> vm_state res" where
  "op_right vm i =
     (let addr = Bv vm i; n = Cv_or_imm vm i in
      if VM_MEM_BYTES \<le> unat addr then Inr vm else
      let len = safe_strlen_at vm addr in
      if len = 0 then Inr vm
      else if len \<le> unat n then Inr vm
      else let src = addr + of_nat (len - unat n) in
        bindR (safe_memmove vm addr src (unat n)) (\<lambda>vm.
        if unat (addr + n) < VM_MEM_BYTES then vm_mw8 vm (addr + n) 0 else Inr vm))"

definition op_mid :: "vm_state \<Rightarrow> u32 \<Rightarrow> vm_state res" where
  "op_mid vm i =
     (let addr = Bv vm i; start = Cv_or_imm vm i in
      if VM_MEM_BYTES \<le> unat addr then Inr vm else
      let len = safe_strlen_at vm addr in
      if len \<le> unat start then
        (if unat addr < VM_MEM_BYTES then vm_mw8 vm addr 0 else Inr vm)
      else let src = addr + start; newlen = len - unat start in
        bindR (safe_memmove vm addr src newlen) (\<lambda>vm.
        if unat addr + newlen < VM_MEM_BYTES
        then with_mem vm (store8 (mem vm) (unat addr + newlen) 0) else Inr vm))"

definition op_insert :: "vm_state \<Rightarrow> u32 \<Rightarrow> vm_state res" where
  "op_insert vm i =
     (let destAddr = reg vm (RA i); insAddr = Bv vm i; pos = Cv_or_imm vm i in
      if VM_MEM_BYTES \<le> unat destAddr \<or> VM_MEM_BYTES \<le> unat insAddr then Inr vm else
      let dest_len = safe_strlen_at vm destAddr;
          ins_len = safe_strlen_at vm insAddr;
          pos = (if dest_len < unat pos then of_nat dest_len else pos);
          rem = safe_mem_remaining destAddr in
      if rem = 0 then Inr vm else
      let max_insert = (if dest_len < rem then rem - dest_len - 1 else 0);
          to_insert = (if ins_len < max_insert then ins_len else max_insert) in
      if 0 < to_insert then
        let tail = dest_len - unat pos in
        if VM_MEM_BYTES < unat (destAddr + pos) + to_insert + tail + 1 \<and>
           VM_MEM_BYTES < unat (destAddr + pos) + to_insert + 1 then Inr vm
        else
          bindR (with_mem vm (memmove_mem (mem vm) (unat destAddr + unat pos + to_insert)
                   (unat destAddr + unat pos) (tail + 1))) (\<lambda>vm.
          with_mem vm (memcpy_mem (mem vm) (unat destAddr + unat pos) (unat insAddr) to_insert))
      else Inr vm)"

definition op_delete :: "vm_state \<Rightarrow> u32 \<Rightarrow> vm_state res" where
  "op_delete vm i =
     (let addr = reg vm (RA i); pos = Bv vm i; n = Cv_or_imm vm i in
      if VM_MEM_BYTES \<le> unat addr then Inr vm else
      let len = safe_strlen_at vm addr in
      if len \<le> unat pos then Inr vm else
      let n = (if len - unat pos < unat n then of_nat (len - unat pos) else n) in
      safe_memmove vm (addr + pos) (addr + pos + n) (len - unat pos - unat n + 1))"

definition op_replace :: "vm_state \<Rightarrow> u32 \<Rightarrow> vm_state res" where
  "op_replace vm i =
     (let addr = reg vm (RA i); repAddr = Bv vm i; pos = Cv_or_imm vm i in
      if VM_MEM_BYTES \<le> unat addr \<or> VM_MEM_BYTES \<le> unat repAddr then Inr vm else
      let len = safe_strlen_at vm addr;
          rep_len = safe_strlen_at vm repAddr in
      if len < unat pos then Inr vm else
      let rep_len = (if len < unat pos + rep_len then len - unat pos else rep_len) in
      bindR (safe_memmove vm (addr + pos) (of_nat (unat (addr + pos) + rep_len))
               (len - unat pos - rep_len + 1)) (\<lambda>vm.
      let rem = safe_mem_remaining addr;
          current_len = safe_strlen_at vm addr;
          max_insert = (if current_len < rem then rem - current_len - 1 else 0);
          to_insert = (if rep_len < max_insert then rep_len else max_insert) in
      if 0 < to_insert then
        let tail = size_sub current_len (unat pos) in
        bindR (with_mem vm (memmove_mem (mem vm) (unat addr + unat pos + to_insert)
                 (unat addr + unat pos) (tail + 1))) (\<lambda>vm.
        with_mem vm (memcpy_mem (mem vm) (unat addr + unat pos) (unat repAddr) to_insert))
      else Inr vm))"

section \<open>Lengths\<close>

lemma strlen_loop_bounds:
  assumes "i \<le> rem"
  shows "i \<le> strlen_loop m a rem i" "strlen_loop m a rem i \<le> rem"
    "i \<le> k \<Longrightarrow> k < strlen_loop m a rem i \<Longrightarrow> m (a + k) \<noteq> 0"
    "strlen_loop m a rem i < rem \<Longrightarrow> m (a + strlen_loop m a rem i) = 0"
proof -
  have "i \<le> strlen_loop m a rem i \<and> strlen_loop m a rem i \<le> rem \<and>
      (\<forall>k. i \<le> k \<and> k < strlen_loop m a rem i \<longrightarrow> m (a + k) \<noteq> 0) \<and>
      (strlen_loop m a rem i < rem \<longrightarrow> m (a + strlen_loop m a rem i) = 0)"
    using assms
  proof (induction m a rem i rule: strlen_loop.induct)
    case (1 m a rem i)
    show ?case
    proof (cases "i < rem \<and> m (a + i) \<noteq> 0")
      case True
      then have "strlen_loop m a rem i = strlen_loop m a rem (i + 1)"
        by (simp add: strlen_loop.simps [of m a rem i])
      moreover have "m (a + k) \<noteq> 0" if "i \<le> k" "\<not> i + 1 \<le> k" for k
        using that True by (metis Suc_eq_plus1 le_antisym not_less_eq_eq)
      ultimately show ?thesis
        using 1 True by (metis Suc_eq_plus1 Suc_leD Suc_leI)
    next
      case False
      then have "strlen_loop m a rem i = i"
        by (auto simp: strlen_loop.simps [of m a rem i])
      with False 1 show ?thesis by auto
    qed
  qed
  then show "i \<le> strlen_loop m a rem i" "strlen_loop m a rem i \<le> rem"
    "i \<le> k \<Longrightarrow> k < strlen_loop m a rem i \<Longrightarrow> m (a + k) \<noteq> 0"
    "strlen_loop m a rem i < rem \<Longrightarrow> m (a + strlen_loop m a rem i) = 0"
    by blast+
qed

lemma strlen_loop_unique:
  assumes "n < rem" "m (a + n) = 0" "\<And>k. k < n \<Longrightarrow> m (a + k) \<noteq> 0"
  shows "strlen_loop m a rem 0 = n"
proof -
  have "\<not> strlen_loop m a rem 0 < n"
    using strlen_loop_bounds(4) [OF le0, of m a rem] assms(1,3) by (meson less_trans)
  moreover have "\<not> n < strlen_loop m a rem 0"
    using strlen_loop_bounds(3) [OF le0 le0, of n m a rem] assms(2) by blast
  ultimately show ?thesis by simp
qed

lemma safe_strlen_bound: "unat addr < VM_MEM_BYTES \<Longrightarrow> unat addr + safe_strlen_at vm addr \<le> VM_MEM_BYTES"
  using strlen_loop_bounds(2) [of 0 "safe_mem_remaining addr" "mem vm" "unat addr"]
  by (simp add: safe_strlen_at_def safe_mem_remaining_def Let_def)

lemma safe_strlen_nonzero:
  "unat addr < VM_MEM_BYTES \<Longrightarrow> k < safe_strlen_at vm addr \<Longrightarrow> mem vm (unat addr + k) \<noteq> 0"
  using strlen_loop_bounds(3) [of 0 "safe_mem_remaining addr" k "mem vm" "unat addr"]
  by (simp add: safe_strlen_at_def safe_mem_remaining_def Let_def)

lemma safe_strlen_least:
  assumes "unat addr < VM_MEM_BYTES" "unat addr + n \<le> VM_MEM_BYTES"
    and "\<And>k. k < n \<Longrightarrow> mem vm (unat addr + k) \<noteq> 0"
  shows "n \<le> safe_strlen_at vm addr"
proof (rule ccontr)
  define l where "l = strlen_loop (mem vm) (unat addr) (VM_MEM_BYTES - unat addr) 0"
  assume "\<not> n \<le> safe_strlen_at vm addr"
  with assms(1) have "l < n"
    by (simp add: l_def safe_strlen_at_def safe_mem_remaining_def)
  with assms(2,3) have "mem vm (unat addr + l) \<noteq> 0" "l < VM_MEM_BYTES - unat addr" by auto
  with strlen_loop_bounds(4) [OF le0, of "mem vm" "unat addr" "VM_MEM_BYTES - unat addr"] show False
    by (simp add: l_def)
qed

section \<open>Terminated strings\<close>

definition has_str :: "(nat \<Rightarrow> u8) \<Rightarrow> nat \<Rightarrow> u8 list \<Rightarrow> bool" where
  "has_str m a s \<longleftrightarrow> a + length s < VM_MEM_BYTES \<and> m (a + length s) = 0 \<and>
     (\<forall>k < length s. m (a + k) = s ! k \<and> s ! k \<noteq> 0)"

lemma has_strI:
  "a + length s < VM_MEM_BYTES \<Longrightarrow> m (a + length s) = 0 \<Longrightarrow>
   (\<And>k. k < length s \<Longrightarrow> m (a + k) = s ! k) \<Longrightarrow> (\<And>k. k < length s \<Longrightarrow> s ! k \<noteq> 0) \<Longrightarrow> has_str m a s"
  by (simp add: has_str_def)

lemma has_strD:
  assumes "has_str m a s"
  shows "a + length s < VM_MEM_BYTES" "m (a + length s) = 0"
    "k < length s \<Longrightarrow> m (a + k) = s ! k" "k < length s \<Longrightarrow> s ! k \<noteq> 0"
  using assms by (auto simp: has_str_def)

lemma has_str_Nil: "has_str m a [] \<longleftrightarrow> a < VM_MEM_BYTES \<and> m a = 0"
  by (simp add: has_str_def)

lemma has_str_Cons: "has_str m a (c # s) \<longleftrightarrow> m a = c \<and> c \<noteq> 0 \<and> has_str m (a + 1) s"
  by (auto simp: has_str_def All_less_Suc2)

lemma strlen_has_str: "has_str (mem vm) (unat addr) s \<Longrightarrow> safe_strlen_at vm addr = length s"
  unfolding safe_strlen_at_def safe_mem_remaining_def Let_def
  using strlen_loop_unique [of "length s" "VM_MEM_BYTES - unat addr" "mem vm" "unat addr"]
  by (auto dest!: has_strD simp: has_str_def)

lemma remaining_has_str:
  "has_str m (unat addr) s \<Longrightarrow> safe_mem_remaining addr = VM_MEM_BYTES - unat addr"
  by (simp add: has_str_def safe_mem_remaining_def)

lemma has_str_cong:
  "has_str m a s \<Longrightarrow> (\<And>b. a \<le> b \<Longrightarrow> b \<le> a + length s \<Longrightarrow> m' b = m b) \<Longrightarrow> has_str m' a s"
  by (simp add: has_str_def)

section \<open>Handlers that shorten a string\<close>

lemma unat_plus_u32: "unat a + unat b < 4294967296 \<Longrightarrow> unat (a + b :: u32) = unat a + unat b"
  by (simp add: unat_word_ariths)

lemma unat_of_nat_u32: "n < 4294967296 \<Longrightarrow> unat (of_nat n :: u32) = n"
  by (simp add: unsigned_of_nat take_bit_nat_eq_self)

lemma with_mem_Inr [simp]: "with_mem vm (Inr m) = Inr (vm\<lparr>mem := m\<rparr>)"
  by (simp add: with_mem_def)

lemma vm_mw8_ok: "unat a < VM_MEM_BYTES \<Longrightarrow> vm_mw8 vm a b = Inr (vm\<lparr>mem := (mem vm)(unat a := b)\<rparr>)"
  by (simp add: vm_mw8_def store8_def)

lemma safe_memmove_ok:
  assumes "unat dst + n \<le> VM_MEM_BYTES" "unat src + n \<le> VM_MEM_BYTES"
  shows "safe_memmove vm dst src n = Inr (vm\<lparr>mem := copy_bytes (mem vm) (unat dst) (unat src) n\<rparr>)"
proof -
  have "n \<le> safe_mem_remaining dst" "n \<le> safe_mem_remaining src"
    using assms by (auto simp: safe_mem_remaining_def)
  then show ?thesis
    using assms by (auto simp: safe_memmove_def memmove_mem_def Let_def)
qed

lemma op_left_has_str:
  assumes "has_str (mem vm) (unat (Bv vm i)) s"
  shows "op_left vm i = Inr (vm\<lparr>mem := if length s \<le> unat (Cv_or_imm vm i) then mem vm
    else (mem vm)(unat (Bv vm i) + unat (Cv_or_imm vm i) := 0)\<rparr>)"
  using has_strD(1) [OF assms]
  by (auto simp: op_left_def Let_def strlen_has_str [OF assms] unat_plus_u32 vm_mw8_ok)

lemma op_right_has_str:
  assumes "has_str (mem vm) (unat (Bv vm i)) s"
  shows "op_right vm i = Inr (vm\<lparr>mem := if length s \<le> unat (Cv_or_imm vm i) then mem vm
    else (copy_bytes (mem vm) (unat (Bv vm i)) (unat (Bv vm i) + (length s - unat (Cv_or_imm vm i)))
      (unat (Cv_or_imm vm i)))(unat (Bv vm i) + unat (Cv_or_imm vm i) := 0)\<rparr>)"
proof (cases "length s \<le> unat (Cv_or_imm vm i)")
  case True
  then show ?thesis
    using has_strD(1) [OF assms] by (auto simp: op_right_def Let_def strlen_has_str [OF assms])
next
  case False
  define src where "src = Bv vm i + of_nat (length s - unat (Cv_or_imm vm i))"
  have l: "unat (Bv vm i) + length s < VM_MEM_BYTES" by (rule has_strD(1) [OF assms])
  then have src: "unat src = unat (Bv vm i) + (length s - unat (Cv_or_imm vm i))"
    unfolding src_def by (subst unat_plus_u32; subst unat_of_nat_u32) simp_all
  have "op_right vm i = bindR (safe_memmove vm (Bv vm i) src (unat (Cv_or_imm vm i))) (\<lambda>vm'.
      if unat (Bv vm i + Cv_or_imm vm i) < VM_MEM_BYTES then vm_mw8 vm' (Bv vm i + Cv_or_imm vm i) 0
      else Inr vm')"
    using l False by (auto simp: op_right_def Let_def strlen_has_str [OF assms] src_def)
  with l False show ?thesis
    by (simp add: src unat_plus_u32 vm_mw8_ok safe_memmove_ok)
qed

lemma op_mid_has_str:
  assumes "has_str (mem vm) (unat (Bv vm i)) s"
  shows "op_mid vm i = Inr (vm\<lparr>mem := if length s \<le> unat (Cv_or_imm vm i)
      then (mem vm)(unat (Bv vm i) := 0)
      else (copy_bytes (mem vm) (unat (Bv vm i)) (unat (Bv vm i) + unat (Cv_or_imm vm i))
        (length s - unat (Cv_or_imm vm i)))(unat (Bv vm i) + (length s - unat (Cv_or_imm vm i)) := 0)\<rparr>)"
  using has_strD(1) [OF assms]
  by (simp add: op_mid_def Let_def strlen_has_str [OF assms] unat_plus_u32 vm_mw8_ok
      safe_memmove_ok store8_def)

lemma op_delete_has_str:
  assumes "has_str (mem vm) (unat (reg vm (RA i))) s"
  defines "n \<equiv> min (unat (Cv_or_imm vm i)) (length s - unat (Bv vm i))"
  shows "op_delete vm i = Inr (vm\<lparr>mem := if length s \<le> unat (Bv vm i) then mem vm
    else copy_bytes (mem vm) (unat (reg vm (RA i)) + unat (Bv vm i))
      (unat (reg vm (RA i)) + unat (Bv vm i) + n) (length s - unat (Bv vm i) - n + 1)\<rparr>)"
proof (cases "length s \<le> unat (Bv vm i)")
  case True
  then show ?thesis
    using has_strD(1) [OF assms(1)] by (simp add: op_delete_def strlen_has_str [OF assms(1)])
next
  case False
  let ?a = "reg vm (RA i)" and ?p = "Bv vm i"
  define n' where "n' = (if length s - unat ?p < unat (Cv_or_imm vm i)
    then of_nat (length s - unat ?p) else Cv_or_imm vm i)"
  have l: "unat ?a + length s < VM_MEM_BYTES" by (rule has_strD(1) [OF assms(1)])
  have n': "unat n' = n"
    using l by (auto simp: n'_def n_def unat_of_nat_u32 min_def)
  have "n \<le> length s - unat ?p" by (simp add: n_def)
  then have "unat (?a + ?p) = unat ?a + unat ?p" "unat (?a + ?p + n') = unat ?a + unat ?p + n"
    using l False by (simp_all add: unat_plus_u32 n')
  moreover have "op_delete vm i = safe_memmove vm (?a + ?p) (?a + ?p + n') (length s - unat ?p - unat n' + 1)"
    using l False by (simp add: op_delete_def strlen_has_str [OF assms(1)] n'_def Let_def)
  ultimately show ?thesis
    using l False \<open>n \<le> length s - unat ?p\<close> by (simp add: safe_memmove_ok n')
qed

text \<open>The strings these memories hold.\<close>

lemma copy_bytes_at: "k < n \<Longrightarrow> copy_bytes m dst src n (dst + k) = m (src + k)"
  by (simp add: copy_bytes_def)

lemma copy_bytes_outside: "b < dst \<or> dst + n \<le> b \<Longrightarrow> copy_bytes m dst src n b = m b"
  by (auto simp: copy_bytes_def)

lemma has_str_cut: "has_str m a s \<Longrightarrow> n \<le> length s \<Longrightarrow> has_str (m(a + n := 0)) a (take n s)"
  by (auto simp: has_str_def)

lemma has_str_drop_copy:
  assumes "has_str m a s" "n \<le> length s"
  shows "has_str ((copy_bytes m a (a + n) (length s - n))(a + (length s - n) := 0)) a (drop n s)"
  using assms by (auto simp: has_str_def copy_bytes_def add.assoc)

lemma has_str_remove:
  assumes "has_str m a s" "p + n \<le> length s"
  shows "has_str (copy_bytes m (a + p) (a + p + n) (length s - p - n + 1)) a (take p s @ drop (p + n) s)"
proof (rule has_strI)
  let ?m = "copy_bytes m (a + p) (a + p + n) (length s - p - n + 1)"
  note str = has_strD [OF assms(1)]
  show "a + length (take p s @ drop (p + n) s) < VM_MEM_BYTES"
    using str(1) assms(2) by simp
  have "a + length (take p s @ drop (p + n) s) = a + p + (length s - p - n)"
    "a + p + n + (length s - p - n) = a + length s"
    using assms(2) by simp_all
  moreover have "?m (a + p + (length s - p - n)) = m (a + p + n + (length s - p - n))"
    by (rule copy_bytes_at) simp
  ultimately show "?m (a + length (take p s @ drop (p + n) s)) = 0"
    using str(2) by (simp only:)
  show "?m (a + k) = (take p s @ drop (p + n) s) ! k" if "k < length (take p s @ drop (p + n) s)" for k
  proof (cases "k < p")
    case True
    then show ?thesis using str(3) [of k] assms(2) that by (simp add: copy_bytes_def nth_append)
  next
    case False
    then have e: "a + p + (k - p) = a + k" "a + p + n + (k - p) = a + (k + n)" "k + n < length s"
      using that assms(2) by auto
    have "?m (a + p + (k - p)) = m (a + p + n + (k - p))"
      by (rule copy_bytes_at) (use that False assms(2) in simp)
    then have "?m (a + k) = s ! (k + n)"
      using str(3) [OF e(3)] by (simp only: e)
    with False show ?thesis
      using assms(2) that by (simp add: nth_append min_absorb2 ac_simps)
  qed
  show "(take p s @ drop (p + n) s) ! k \<noteq> 0" if "k < length (take p s @ drop (p + n) s)" for k
    using str(4) [of k] str(4) [of "k + n"] assms(2) that
    by (auto simp: nth_append min_absorb2 ac_simps)
qed

section \<open>Handlers that lengthen or rewrite a string\<close>

lemma memmove_mem_ok:
  "dst + n \<le> VM_MEM_BYTES \<Longrightarrow> src + n \<le> VM_MEM_BYTES \<Longrightarrow>
   memmove_mem m dst src n = Inr (copy_bytes m dst src n)"
  by (simp add: memmove_mem_def)

lemma memcpy_mem_ok:
  "dst + n \<le> VM_MEM_BYTES \<Longrightarrow> src + n \<le> VM_MEM_BYTES \<Longrightarrow> src + n \<le> dst \<or> dst + n \<le> src \<Longrightarrow>
   memcpy_mem m dst src n = Inr (copy_bytes m dst src n)"
  by (auto simp: memcpy_mem_def)

lemma nth_insert:
  assumes "p \<le> length s" "j < length s + length u"
  shows "(take p s @ u @ drop p s) ! j =
    (if j < p then s ! j else if j < p + length u then u ! (j - p) else s ! (j - length u))"
proof -
  have "p + (j - (p + length u)) = j - length u" if "p + length u \<le> j" using that by simp
  then show ?thesis
    using assms by (auto simp: nth_append min_absorb2 not_less diff_diff_left)
qed

lemma has_str_insert:
  assumes "has_str m a s" "p \<le> length s" "a + length s + length u < VM_MEM_BYTES"
    and u: "\<And>j. j < length u \<Longrightarrow> m (b + j) = u ! j" "\<And>j. j < length u \<Longrightarrow> u ! j \<noteq> 0"
    and apart: "b + length u \<le> a + p \<or> a + length s + length u < b"
  shows "has_str (copy_bytes (copy_bytes m (a + p + length u) (a + p) (length s - p + 1)) (a + p) b (length u))
    a (take p s @ u @ drop p s)"
proof (rule has_strI)
  let ?m1 = "copy_bytes m (a + p + length u) (a + p) (length s - p + 1)"
  let ?m2 = "copy_bytes ?m1 (a + p) b (length u)"
  let ?l = "length (take p s @ u @ drop p s)"
  note str = has_strD [OF assms(1)]
  have l: "?l = length s + length u" using assms(2) by simp
  show "a + ?l < VM_MEM_BYTES" using assms(3) l by simp
  have tail: "?m2 (a + p + length u + j) = m (a + p + j)" if "j \<le> length s - p" for j
    using copy_bytes_at [of j "length s - p + 1" m "a + p + length u" "a + p"] that
    by (subst copy_bytes_outside) simp_all
  have "a + p + length u + (length s - p) = a + ?l" "a + p + (length s - p) = a + length s"
    using assms(2) l by simp_all
  with tail [of "length s - p"] str(2) show "?m2 (a + ?l) = 0" by simp
  show "?m2 (a + j) = (take p s @ u @ drop p s) ! j" if "j < ?l" for j
  proof -
    consider "j < p" | "p \<le> j" "j < p + length u" | "p + length u \<le> j" by linarith
    then show ?thesis
    proof cases
      case 1
      then show ?thesis
        using str(3) [of j] assms(2) by (simp add: copy_bytes_outside nth_append)
    next
      case 2
      then have j: "a + p + (j - p) = a + j" "j - p < length u" by simp_all
      have "?m2 (a + p + (j - p)) = ?m1 (b + (j - p))" by (rule copy_bytes_at) (rule j)
      also have "\<dots> = m (b + (j - p))"
        by (rule copy_bytes_outside) (use apart j assms(2) in auto)
      finally show ?thesis
        using u(1) [OF j(2)] 2 that l nth_insert [OF assms(2), of j u] by (simp add: j(1))
    next
      case 3
      then have j: "a + p + length u + (j - (p + length u)) = a + j"
          "a + p + (j - (p + length u)) = a + (j - length u)" "j - length u < length s"
        using that l by auto
      have "?m2 (a + p + length u + (j - (p + length u))) = m (a + p + (j - (p + length u)))"
        by (rule tail) (use that l in auto)
      with str(3) [OF j(3)] 3 that l nth_insert [OF assms(2), of j u] show ?thesis by (simp add: j)
    qed
  qed
  show "(take p s @ u @ drop p s) ! j \<noteq> 0" if "j < ?l" for j
  proof -
    have "j < length s + length u" using that l by simp
    then show ?thesis
      using str(4) u(2) assms(2) unfolding nth_insert [OF assms(2) \<open>j < length s + length u\<close>] by simp
  qed
qed

text \<open>The two lengths a copy into a bounded buffer takes.\<close>

definition fitting :: "nat \<Rightarrow> nat \<Rightarrow> u8 list \<Rightarrow> u8 list" where
  "fitting a n t = take (VM_MEM_BYTES - a - n - 1) t"

lemma length_fitting: "length (fitting a n t) = min (length t) (VM_MEM_BYTES - a - n - 1)"
  by (simp add: fitting_def min.commute)

definition apart :: "nat \<Rightarrow> u8 list \<Rightarrow> nat \<Rightarrow> u8 list \<Rightarrow> bool" where
  "apart a s b t \<longleftrightarrow> a + length s + length t < b \<or> b + length t < a"

lemma fitting_length:
  assumes "has_str m (unat a) s"
  shows "(if length t < (if length s < safe_mem_remaining a then safe_mem_remaining a - length s - 1 else 0)
    then length t else if length s < safe_mem_remaining a then safe_mem_remaining a - length s - 1 else 0)
    = length (fitting (unat a) (length s) t)"
  using has_strD(1) [OF assms] by (simp add: remaining_has_str [OF assms] length_fitting min_def)

lemma op_concat_has_str:
  assumes s: "has_str (mem vm) (unat (Bv vm i)) s" and t: "has_str (mem vm) (unat (Cv vm i)) t"
    and ap: "apart (unat (Bv vm i)) s (unat (Cv vm i)) t"
  defines "k \<equiv> length (fitting (unat (Bv vm i)) (length s) t)"
  shows "op_concat vm i = Inr (vm\<lparr>mem :=
    (copy_bytes (mem vm) (unat (Bv vm i) + length s) (unat (Cv vm i)) k)
      (unat (Bv vm i) + length s + k := 0)\<rparr>)"
proof -
  have l: "unat (Bv vm i) + length s < VM_MEM_BYTES" "unat (Cv vm i) + length t < VM_MEM_BYTES"
    using has_strD(1) s t by blast+
  have k: "k = (if length t < VM_MEM_BYTES - unat (Bv vm i) - length s - 1 then length t
      else VM_MEM_BYTES - unat (Bv vm i) - length s - 1)"
    by (simp add: k_def length_fitting min_def)
  have fits: "unat (Bv vm i) + length s + k < VM_MEM_BYTES" "k \<le> length t"
    using l by (auto simp: k)
  have "memcpy_mem (mem vm) (unat (Bv vm i) + length s) (unat (Cv vm i)) k =
      Inr (copy_bytes (mem vm) (unat (Bv vm i) + length s) (unat (Cv vm i)) k)"
    by (rule memcpy_mem_ok) (use fits l ap in \<open>auto simp: apart_def\<close>)
  moreover have "copy_bytes m a b 0 = m" for m a b
    by (rule ext) (auto simp: copy_bytes_def)
  moreover have R: "safe_mem_remaining (Bv vm i) \<noteq> 0"
    using l by (simp add: safe_mem_remaining_def)
  moreover note fitting_length [OF s, of t, folded k_def]
  ultimately show ?thesis
    using l fits unfolding op_concat_def Let_def strlen_has_str [OF s] strlen_has_str [OF t]
    by (cases "k = 0") (simp_all add: store8_def del: length_greater_0_conv)
qed

lemma op_insert_has_str:
  assumes s: "has_str (mem vm) (unat (reg vm (RA i))) s" and t: "has_str (mem vm) (unat (Bv vm i)) t"
    and ap: "apart (unat (reg vm (RA i))) s (unat (Bv vm i)) t"
  defines "p \<equiv> min (unat (Cv_or_imm vm i)) (length s)"
    and "k \<equiv> length (fitting (unat (reg vm (RA i))) (length s) t)"
  shows "op_insert vm i = Inr (vm\<lparr>mem := if k = 0 then mem vm else
    copy_bytes (copy_bytes (mem vm) (unat (reg vm (RA i)) + p + k) (unat (reg vm (RA i)) + p)
      (length s - p + 1)) (unat (reg vm (RA i)) + p) (unat (Bv vm i)) k\<rparr>)"
proof -
  let ?a = "reg vm (RA i)"
  define pos where "pos = (if length s < unat (Cv_or_imm vm i) then of_nat (length s) else Cv_or_imm vm i)"
  have l: "unat ?a + length s < VM_MEM_BYTES" "unat (Bv vm i) + length t < VM_MEM_BYTES"
    using has_strD(1) s t by blast+
  have k: "k = (if length t < VM_MEM_BYTES - unat ?a - length s - 1 then length t
      else VM_MEM_BYTES - unat ?a - length s - 1)"
    by (simp add: k_def length_fitting min_def)
  have fits: "unat ?a + length s + k < VM_MEM_BYTES" "k \<le> length t"
    using l by (auto simp: k)
  have pos: "unat pos = p"
    using l by (auto simp: pos_def p_def unat_of_nat_u32 min_def)
  have p: "p \<le> length s" by (simp add: p_def)
  have mv: "memmove_mem (mem vm) (unat ?a + p + k) (unat ?a + p) (length s - p + 1) =
      Inr (copy_bytes (mem vm) (unat ?a + p + k) (unat ?a + p) (length s - p + 1))"
    by (rule memmove_mem_ok) (use fits l p in auto)
  have cp: "memcpy_mem m (unat ?a + p) (unat (Bv vm i)) k = Inr (copy_bytes m (unat ?a + p) (unat (Bv vm i)) k)" for m
    by (rule memcpy_mem_ok) (use fits l p ap in \<open>auto simp: apart_def\<close>)
  have "unat (?a + pos) = unat ?a + p"
    using l p by (subst unat_plus_u32) (simp_all add: pos)
  then have "\<not> VM_MEM_BYTES < unat (?a + pos) + k + (length s - p) + 1"
    using fits(1) p by simp
  moreover have R: "safe_mem_remaining ?a \<noteq> 0"
    using l by (simp add: safe_mem_remaining_def)
  moreover note fitting_length [OF s, of t, folded k_def]
  ultimately show ?thesis
    using l mv cp
    unfolding op_insert_def Let_def strlen_has_str [OF s] strlen_has_str [OF t] pos_def [symmetric] pos
    by simp
qed

lemma copy_bytes_0 [simp]: "copy_bytes m a b 0 = m"
  by (rule ext) (auto simp: copy_bytes_def)

text \<open>A string elsewhere survives an edit.\<close>

lemma has_str_elsewhere:
  assumes "has_str m b t" "apart a s b t"
    and "\<And>x. x < a \<or> a + length s + length t < x \<Longrightarrow> m' x = m x"
  shows "has_str m' b t"
  using assms by (intro has_str_cong [OF assms(1)]) (auto simp: apart_def)

lemma op_replace_has_str:
  assumes s: "has_str (mem vm) (unat (reg vm (RA i))) s" and t: "has_str (mem vm) (unat (Bv vm i)) t"
    and ap: "apart (unat (reg vm (RA i))) s (unat (Bv vm i)) t"
    and p: "unat (Cv_or_imm vm i) \<le> length s"
  defines "a \<equiv> unat (reg vm (RA i))" and "b \<equiv> unat (Bv vm i)" and "p \<equiv> unat (Cv_or_imm vm i)"
  defines "r \<equiv> min (length t) (length s - p)"
  defines "m1 \<equiv> copy_bytes (mem vm) (a + p) (a + p + r) (length s - p - r + 1)"
  defines "m2 \<equiv> copy_bytes (copy_bytes m1 (a + p + r) (a + p) (length s - p - r + 1)) (a + p) b r"
  shows "op_replace vm i = Inr (vm\<lparr>mem := m2\<rparr>) \<and> has_str m2 a (take p s @ take r t @ drop (p + r) s)"
proof -
  let ?a = "reg vm (RA i)" and ?s1 = "take p s @ drop (p + r) s"
  have l: "a + length s < VM_MEM_BYTES" "b + length t < VM_MEM_BYTES"
    using has_strD(1) [OF s] has_strD(1) [OF t] by (simp_all only: a_def b_def)
  have pr: "p + r \<le> length s" "r \<le> length t" using p by (simp_all add: r_def p_def)
  have s1: "has_str m1 a ?s1"
    unfolding m1_def a_def by (rule has_str_remove [OF s pr(1)])
  have l1: "length ?s1 = length s - r" using pr by simp
  have t1: "m1 (b + j) = t ! j" if "j < length t" for j
    unfolding m1_def using has_strD(3) [OF t that] ap pr that
    by (subst copy_bytes_outside) (auto simp: apart_def a_def b_def)
  have m2: "m2 = copy_bytes (copy_bytes m1 (a + p + length (take r t)) (a + p) (length ?s1 - p + 1)) (a + p) b
      (length (take r t))"
    using pr unfolding m2_def l1 by (simp add: min_absorb1 diff_commute add.commute)
  have ins: "has_str m2 a (take p ?s1 @ take r t @ drop p ?s1)"
    unfolding m2
  proof (rule has_str_insert [OF s1])
    show "p \<le> length ?s1" "a + length ?s1 + length (take r t) < VM_MEM_BYTES"
      using l pr by (simp_all only: l1) simp_all
    show "m1 (b + j) = take r t ! j" "take r t ! j \<noteq> 0" if "j < length (take r t)" for j
      using t1 [of j] has_strD(4) [OF t, of j] that by simp_all
    show "b + length (take r t) \<le> a + p \<or> a + length ?s1 + length (take r t) < b"
      using ap pr l1 by (auto simp: apart_def a_def b_def)
  qed
  have add: "unat (?a + Cv_or_imm vm i) = a + p"
    using l pr by (subst unat_plus_u32) (simp_all add: a_def p_def)
  have "unat (of_nat (a + p + r) :: u32) = a + p + r"
    using l pr by (intro unat_of_nat_u32) simp
  then have mv1: "safe_memmove vm (?a + Cv_or_imm vm i) (of_nat (a + p + r)) (length s - p - r + 1) =
      Inr (vm\<lparr>mem := m1\<rparr>)"
    using l pr by (subst safe_memmove_ok) (simp_all add: add m1_def)
  have len1: "safe_strlen_at (vm\<lparr>mem := m1\<rparr>) ?a = length s - r"
    using strlen_has_str [of "vm\<lparr>mem := m1\<rparr>" ?a ?s1] s1 l1 by (simp add: a_def)
  have k: "(if r < (if length s - r < safe_mem_remaining ?a then safe_mem_remaining ?a - (length s - r) - 1 else 0)
      then r else if length s - r < safe_mem_remaining ?a then safe_mem_remaining ?a - (length s - r) - 1 else 0) = r"
    using l pr by (auto simp: safe_mem_remaining_def a_def)
  have rep: "(if length s < p + length t then length s - p else length t) = r"
    using pr by (auto simp: r_def min_def)
  have mv2: "memmove_mem m1 (a + p + r) (a + p) (length s - p - r + 1) =
      Inr (copy_bytes m1 (a + p + r) (a + p) (length s - p - r + 1))"
    by (rule memmove_mem_ok) (use l pr in auto)
  have cp: "memcpy_mem m (a + p) b r = Inr (copy_bytes m (a + p) b r)" for m
    by (rule memcpy_mem_ok) (use l pr ap in \<open>auto simp: apart_def a_def b_def\<close>)
  have sub: "size_sub (length s - r) p = length s - p - r"
    using pr by (simp add: size_sub_def add.commute)
  have g: "\<not> (VM_MEM_BYTES \<le> a \<or> VM_MEM_BYTES \<le> b)" "\<not> length s < p"
    using l pr by auto
  have z: "m2 = m1" if "r = 0"
    using that unfolding m2_def by (auto simp: copy_bytes_def fun_eq_iff)
  have "op_replace vm i = Inr (vm\<lparr>mem := m2\<rparr>)"
    unfolding op_replace_def Let_def strlen_has_str [OF s] strlen_has_str [OF t]
      p_def [symmetric] a_def [symmetric] b_def [symmetric] add rep mv1 bindR_simps len1 k sub
    using g z mv2 cp by (simp add: m2_def)
  moreover have "take p ?s1 = take p s" "drop p ?s1 = drop (p + r) s"
    using pr by simp_all
  ultimately show ?thesis using ins by (simp only: simp_thms)
qed

section \<open>Memory safety\<close>

text \<open>
  The outcomes of a handler on an arbitrary memory, without assuming a terminated string:
  \<open>only_mem\<close> says it returns with nothing but the memory changed, \<open>mem_or_overlap\<close> allows the
  undefined \<open>memcpy\<close> of overlapping blocks as well.
\<close>

definition only_mem :: "vm_state \<Rightarrow> vm_state res \<Rightarrow> bool" where
  "only_mem vm r \<longleftrightarrow> (\<exists>m. r = Inr (vm\<lparr>mem := m\<rparr>))"

definition mem_or_overlap :: "vm_state \<Rightarrow> vm_state res \<Rightarrow> bool" where
  "mem_or_overlap vm r \<longleftrightarrow> r = Inl Overlapping_Copy \<or> only_mem vm r"

lemma only_mem_Inr [simp]: "only_mem vm (Inr vm)" "only_mem vm (Inr (vm\<lparr>mem := m\<rparr>))"
proof -
  have "vm = vm\<lparr>mem := mem vm\<rparr>" by simp
  then show "only_mem vm (Inr vm)" unfolding only_mem_def by metis
qed (auto simp: only_mem_def)

lemma mem_or_overlap_Inr [simp]: "mem_or_overlap vm (Inr vm)" "mem_or_overlap vm (Inr (vm\<lparr>mem := m\<rparr>))"
  by (simp_all add: mem_or_overlap_def)

lemma only_mem_bind:
  "only_mem vm r \<Longrightarrow> (\<And>m. only_mem vm (f (vm\<lparr>mem := m\<rparr>))) \<Longrightarrow> only_mem vm (bindR r f)"
  by (auto simp: only_mem_def)

lemma mem_or_overlap_bind:
  "mem_or_overlap vm r \<Longrightarrow> (\<And>m. r = Inr (vm\<lparr>mem := m\<rparr>) \<Longrightarrow> mem_or_overlap vm (f (vm\<lparr>mem := m\<rparr>))) \<Longrightarrow>
   mem_or_overlap vm (bindR r f)"
  unfolding mem_or_overlap_def only_mem_def by force

lemma only_mem_mw8: "unat a < VM_MEM_BYTES \<Longrightarrow> only_mem vm (vm_mw8 (vm\<lparr>mem := m\<rparr>) a b)"
  by (simp add: vm_mw8_ok)

lemma only_mem_store: "a < VM_MEM_BYTES \<Longrightarrow> only_mem vm (with_mem (vm\<lparr>mem := m\<rparr>) (store8 m a b))"
  by (simp add: store8_def)

lemma safe_memmove_clipped:
  assumes "unat dst \<le> VM_MEM_BYTES" "unat src \<le> VM_MEM_BYTES"
  shows "\<exists>n' \<le> n. unat dst + n' \<le> VM_MEM_BYTES \<and>
    safe_memmove vm dst src n = Inr (vm\<lparr>mem := copy_bytes (mem vm) (unat dst) (unat src) n'\<rparr>)"
proof -
  let ?r = "min (safe_mem_remaining dst) (safe_mem_remaining src)"
  have "safe_memmove vm dst src n = with_mem vm (memmove_mem (mem vm) (unat dst) (unat src) (min n ?r))"
    by (auto simp: safe_memmove_def Let_def min_def)
  moreover have "unat dst + min n ?r \<le> VM_MEM_BYTES" "unat src + min n ?r \<le> VM_MEM_BYTES"
    using assms by (auto simp: safe_mem_remaining_def min_def)
  ultimately show ?thesis
    by (intro exI [of _ "min n ?r"]) (simp add: memmove_mem_ok)
qed

lemma only_mem_memmove:
  "unat dst \<le> VM_MEM_BYTES \<Longrightarrow> unat src \<le> VM_MEM_BYTES \<Longrightarrow> only_mem vm (safe_memmove vm dst src n)"
  using safe_memmove_clipped [of dst src n vm] by (auto simp: only_mem_def)

lemma mem_or_overlap_memcpy:
  "dst + n \<le> VM_MEM_BYTES \<Longrightarrow> src + n \<le> VM_MEM_BYTES \<Longrightarrow>
   mem_or_overlap vm (with_mem (vm\<lparr>mem := m\<rparr>) (memcpy_mem m dst src n))"
  by (simp add: memcpy_mem_def) (simp add: with_mem_def mem_or_overlap_def)

lemma op_left_safe: "only_mem vm (op_left vm i)"
  using only_mem_mw8 [of _ vm "mem vm"] by (simp add: op_left_def Let_def)

lemma op_right_safe: "only_mem vm (op_right vm i)"
proof (cases "unat (Bv vm i) < VM_MEM_BYTES \<and> unat (Cv_or_imm vm i) < safe_strlen_at vm (Bv vm i)")
  case True
  define d where "d = safe_strlen_at vm (Bv vm i) - unat (Cv_or_imm vm i)"
  have "unat (Bv vm i) + d \<le> VM_MEM_BYTES"
    using safe_strlen_bound [of "Bv vm i" vm] True by (simp add: d_def)
  then have "unat (Bv vm i + of_nat d) \<le> VM_MEM_BYTES"
    by (subst unat_plus_u32; subst unat_of_nat_u32) simp_all
  with True show ?thesis
    unfolding op_right_def Let_def d_def [symmetric]
    by (auto intro!: only_mem_bind only_mem_memmove only_mem_mw8)
qed (auto simp: op_right_def Let_def)

lemma op_mid_safe: "only_mem vm (op_mid vm i)"
proof (cases "unat (Bv vm i) < VM_MEM_BYTES \<and> unat (Cv_or_imm vm i) < safe_strlen_at vm (Bv vm i)")
  case True
  with safe_strlen_bound [of "Bv vm i" vm]
  have "unat (Bv vm i + Cv_or_imm vm i) \<le> VM_MEM_BYTES" by (simp add: unat_plus_u32)
  with True show ?thesis
    unfolding op_mid_def Let_def
    by (auto intro!: only_mem_bind only_mem_memmove only_mem_store)
next
  case False
  then show ?thesis
    using only_mem_mw8 [of _ vm "mem vm"] by (auto simp: op_mid_def Let_def)
qed

lemma op_delete_safe: "only_mem vm (op_delete vm i)"
proof (cases "unat (reg vm (RA i)) < VM_MEM_BYTES \<and> unat (Bv vm i) < safe_strlen_at vm (reg vm (RA i))")
  case True
  let ?a = "reg vm (RA i)" and ?l = "safe_strlen_at vm (reg vm (RA i))"
  define n where "n = (if ?l - unat (Bv vm i) < unat (Cv_or_imm vm i)
    then of_nat (?l - unat (Bv vm i)) else Cv_or_imm vm i)"
  have l: "unat ?a + ?l \<le> VM_MEM_BYTES" using safe_strlen_bound True by blast
  then have "unat n \<le> ?l - unat (Bv vm i)" by (auto simp: n_def unat_of_nat_u32)
  with l True have s: "unat ?a + unat (Bv vm i) + unat n \<le> VM_MEM_BYTES" by linarith
  then have u: "unat (?a + Bv vm i) = unat ?a + unat (Bv vm i)"
    by (intro unat_plus_u32) simp
  with s have "unat (?a + Bv vm i + n) = unat ?a + unat (Bv vm i) + unat n"
    by (subst unat_plus_u32) simp_all
  with u s have "unat (?a + Bv vm i) \<le> VM_MEM_BYTES" "unat (?a + Bv vm i + n) \<le> VM_MEM_BYTES"
    by linarith+
  with True show ?thesis
    unfolding op_delete_def Let_def n_def [symmetric] by (simp add: only_mem_memmove)
qed (auto simp: op_delete_def Let_def)

lemma op_concat_safe: "mem_or_overlap vm (op_concat vm i)"
proof (cases "unat (Bv vm i) < VM_MEM_BYTES \<and> unat (Cv vm i) < VM_MEM_BYTES")
  case True
  let ?d = "Bv vm i" and ?s = "Cv vm i"
  define R where "R = safe_mem_remaining ?d"
  define k where "k = (if safe_strlen_at vm ?s < (if safe_strlen_at vm ?d < R then R - safe_strlen_at vm ?d - 1 else 0)
    then safe_strlen_at vm ?s else if safe_strlen_at vm ?d < R then R - safe_strlen_at vm ?d - 1 else 0)"
  have R: "R = VM_MEM_BYTES - unat ?d" using True by (simp add: R_def safe_mem_remaining_def)
  have "unat ?d + safe_strlen_at vm ?d \<le> VM_MEM_BYTES" "unat ?s + safe_strlen_at vm ?s \<le> VM_MEM_BYTES"
    using safe_strlen_bound True by blast+
  then have "unat ?d + safe_strlen_at vm ?d + k \<le> VM_MEM_BYTES" "unat ?s + k \<le> VM_MEM_BYTES"
    by (auto simp: k_def R)
  then have cp: "mem_or_overlap vm (with_mem vm (memcpy_mem (mem vm) (unat ?d + safe_strlen_at vm ?d) (unat ?s) k))"
    using mem_or_overlap_memcpy [of _ k _ vm "mem vm"] by simp
  have "mem_or_overlap vm (bindR (if 0 < k
      then with_mem vm (memcpy_mem (mem vm) (unat ?d + safe_strlen_at vm ?d) (unat ?s) k) else Inr vm) (\<lambda>vm'.
      if unat ?d + safe_strlen_at vm ?d + k < VM_MEM_BYTES
      then with_mem vm' (store8 (mem vm') (unat ?d + safe_strlen_at vm ?d + k) 0) else Inr vm'))"
    by (rule mem_or_overlap_bind) (simp_all add: cp store8_def)
  then show ?thesis
    using True unfolding op_concat_def Let_def R_def [symmetric] k_def [symmetric] by simp
qed (auto simp: op_concat_def Let_def)

lemma shift_and_copy_safe:
  assumes "d + k + n \<le> VM_MEM_BYTES" "d + n \<le> VM_MEM_BYTES" "b + k \<le> VM_MEM_BYTES" "0 < n"
  shows "mem_or_overlap vm (bindR (with_mem (vm\<lparr>mem := m\<rparr>) (memmove_mem m (d + k) d n))
    (\<lambda>vm. with_mem vm (memcpy_mem (mem vm) d b k)))"
  using assms mem_or_overlap_memcpy [of d k b vm]
  by (simp add: memmove_mem_ok)

lemma op_insert_safe: "mem_or_overlap vm (op_insert vm i)"
proof (cases "unat (reg vm (RA i)) < VM_MEM_BYTES \<and> unat (Bv vm i) < VM_MEM_BYTES")
  case True
  let ?d = "reg vm (RA i)" and ?s = "Bv vm i"
  let ?l = "safe_strlen_at vm ?d"
  define R where "R = safe_mem_remaining ?d"
  define k where "k = (if safe_strlen_at vm ?s < (if ?l < R then R - ?l - 1 else 0)
    then safe_strlen_at vm ?s else if ?l < R then R - ?l - 1 else 0)"
  define p where "p = (if ?l < unat (Cv_or_imm vm i) then of_nat ?l else Cv_or_imm vm i)"
  have R: "R = VM_MEM_BYTES - unat ?d" using True by (simp add: R_def safe_mem_remaining_def)
  have l: "unat ?d + ?l \<le> VM_MEM_BYTES" "unat ?s + safe_strlen_at vm ?s \<le> VM_MEM_BYTES"
    using safe_strlen_bound True by blast+
  have p: "unat p \<le> ?l" using l(1) by (auto simp: p_def unat_of_nat_u32)
  have k: "0 < k \<Longrightarrow> unat ?d + ?l + k + 1 \<le> VM_MEM_BYTES" "unat ?s + k \<le> VM_MEM_BYTES"
    using l by (auto simp: k_def R split: if_splits)
  have "0 < k \<Longrightarrow> mem_or_overlap vm (bindR (with_mem vm (memmove_mem (mem vm) (unat ?d + unat p + k)
      (unat ?d + unat p) (?l - unat p + 1))) (\<lambda>vm. with_mem vm (memcpy_mem (mem vm) (unat ?d + unat p) (unat ?s) k)))"
    using shift_and_copy_safe [of "unat ?d + unat p" k "?l - unat p + 1" "unat ?s" vm "mem vm"] k p by simp
  then show ?thesis
    unfolding op_insert_def Let_def R_def [symmetric] p_def [symmetric] k_def [symmetric]
    by (simp only: if_split bindR_simps) simp
qed (auto simp: op_insert_def Let_def)

lemma op_replace_safe: "mem_or_overlap vm (op_replace vm i)"
proof (cases "unat (reg vm (RA i)) < VM_MEM_BYTES \<and> unat (Bv vm i) < VM_MEM_BYTES \<and>
    unat (Cv_or_imm vm i) \<le> safe_strlen_at vm (reg vm (RA i))")
  case True
  let ?a = "reg vm (RA i)" and ?s = "Bv vm i" and ?p = "Cv_or_imm vm i"
  let ?l = "safe_strlen_at vm ?a"
  define r where "r = (if ?l < unat ?p + safe_strlen_at vm ?s then ?l - unat ?p else safe_strlen_at vm ?s)"
  have l: "unat ?a + ?l \<le> VM_MEM_BYTES" "unat ?s + safe_strlen_at vm ?s \<le> VM_MEM_BYTES"
    using safe_strlen_bound True by blast+
  have r: "unat ?p + r \<le> ?l" "r \<le> safe_strlen_at vm ?s" using True by (auto simp: r_def)
  have ap: "unat (?a + ?p) = unat ?a + unat ?p"
    using l True by (intro unat_plus_u32) simp
  have src: "unat (of_nat (unat (?a + ?p) + r) :: u32) = unat ?a + unat ?p + r"
    using l r by (subst unat_of_nat_u32) (simp_all add: ap)
  obtain n' where n': "safe_memmove vm (?a + ?p) (of_nat (unat (?a + ?p) + r)) (?l - unat ?p - r + 1) =
      Inr (vm\<lparr>mem := copy_bytes (mem vm) (unat ?a + unat ?p) (unat ?a + unat ?p + r) n'\<rparr>)"
    using safe_memmove_clipped [of "?a + ?p" "of_nat (unat (?a + ?p) + r)" "?l - unat ?p - r + 1" vm] l r src ap
    by auto
  define m1 where "m1 = copy_bytes (mem vm) (unat ?a + unat ?p) (unat ?a + unat ?p + r) n'"
  define c where "c = safe_strlen_at (vm\<lparr>mem := m1\<rparr>) ?a"
  define R where "R = safe_mem_remaining ?a"
  define k where "k = (if r < (if c < R then R - c - 1 else 0) then r else if c < R then R - c - 1 else 0)"
  have R: "R = VM_MEM_BYTES - unat ?a" using True by (simp add: R_def safe_mem_remaining_def)
  have cb: "unat ?a + c \<le> VM_MEM_BYTES" unfolding c_def using safe_strlen_bound True by blast
  have pc: "unat ?p \<le> c"
    unfolding c_def
  proof (rule safe_strlen_least)
    show "mem (vm\<lparr>mem := m1\<rparr>) (unat ?a + k) \<noteq> 0" if "k < unat ?p" for k
      using that True safe_strlen_nonzero [of ?a k vm] by (simp add: m1_def copy_bytes_outside)
  qed (use True l in auto)
  have k: "0 < k \<Longrightarrow> unat ?a + c + k + 1 \<le> VM_MEM_BYTES" "k \<le> r"
    using cb by (auto simp: k_def R split: if_splits)
  have "0 < k \<Longrightarrow> mem_or_overlap vm (bindR (with_mem (vm\<lparr>mem := m1\<rparr>) (memmove_mem m1 (unat ?a + unat ?p + k)
      (unat ?a + unat ?p) (c - unat ?p + 1))) (\<lambda>vm. with_mem vm (memcpy_mem (mem vm) (unat ?a + unat ?p) (unat ?s) k)))"
    using shift_and_copy_safe [of "unat ?a + unat ?p" k "c - unat ?p + 1" "unat ?s" vm m1] k pc l(2) r(2) by simp
  moreover have "size_sub c (unat ?p) = c - unat ?p" using pc by (simp add: size_sub_def)
  ultimately show ?thesis
    using True
    unfolding op_replace_def Let_def r_def [symmetric] n' m1_def [symmetric] bindR_simps c_def [symmetric]
      R_def [symmetric] k_def [symmetric]
    by simp
qed (auto simp: op_replace_def Let_def)

section \<open>The contract of an in-place edit\<close>

text \<open>
  \<open>target\<close> is the address a handler edits, \<open>grow\<close> how far behind the old terminator it may
  write, \<open>pre\<close> what it needs of the other operands and \<open>edit\<close> the function on strings it
  computes.
\<close>

locale in_place_edit =
  fixes handler :: "vm_state \<Rightarrow> u32 \<Rightarrow> vm_state res"
    and target :: "vm_state \<Rightarrow> u32 \<Rightarrow> u32"
    and pre :: "vm_state \<Rightarrow> u32 \<Rightarrow> u8 list \<Rightarrow> u8 list \<Rightarrow> bool"
    and edit :: "vm_state \<Rightarrow> u32 \<Rightarrow> u8 list \<Rightarrow> u8 list \<Rightarrow> u8 list"
  assumes edits: "has_str (mem vm) (unat (target vm i)) s \<Longrightarrow> pre vm i s t \<Longrightarrow>
    \<exists>m. handler vm i = Inr (vm\<lparr>mem := m\<rparr>) \<and> has_str m (unat (target vm i)) (edit vm i s t) \<and>
      (\<forall>b. b < unat (target vm i) \<or> unat (target vm i) + length s + length t < b \<longrightarrow> m b = mem vm b)"
begin

lemma only_memory:
  assumes "has_str (mem vm) (unat (target vm i)) s" "pre vm i s t"
  shows "only_mem vm (handler vm i)"
  using edits [OF assms] by (auto simp: only_mem_def)

lemma fits:
  assumes "has_str (mem vm) (unat (target vm i)) s" "pre vm i s t"
  shows "unat (target vm i) + length (edit vm i s t) < VM_MEM_BYTES"
  using edits [OF assms] by (auto simp: has_str_def)

text \<open>A string that lies apart from the edited one is kept.\<close>

lemma other_string:
  assumes "has_str (mem vm) (unat (target vm i)) s" "pre vm i s t"
    and "has_str (mem vm) b u" "b + length u < unat (target vm i) \<or> unat (target vm i) + length s + length t < b"
  shows "\<exists>m. handler vm i = Inr (vm\<lparr>mem := m\<rparr>) \<and> has_str m (unat (target vm i)) (edit vm i s t) \<and> has_str m b u"
proof -
  obtain m where m: "handler vm i = Inr (vm\<lparr>mem := m\<rparr>)" "has_str m (unat (target vm i)) (edit vm i s t)"
      "\<And>x. x < unat (target vm i) \<or> unat (target vm i) + length s + length t < x \<Longrightarrow> m x = mem vm x"
    using edits [OF assms(1,2)] by blast
  have "has_str m b u"
    by (rule has_str_cong [OF assms(3)]) (use assms(4) in \<open>auto intro!: m(3)\<close>)
  with m show ?thesis by blast
qed

end

interpretation left_edit: in_place_edit op_left Bv "\<lambda>vm i s t. t = []"
  "\<lambda>vm i s t. take (unat (Cv_or_imm vm i)) s"
proof
  fix vm i s t assume s: "has_str (mem vm) (unat (Bv vm i)) s" and t: "t = ([] :: u8 list)"
  show "\<exists>m. op_left vm i = Inr (vm\<lparr>mem := m\<rparr>) \<and> has_str m (unat (Bv vm i)) (take (unat (Cv_or_imm vm i)) s) \<and>
      (\<forall>b. b < unat (Bv vm i) \<or> unat (Bv vm i) + length s + length t < b \<longrightarrow> m b = mem vm b)"
    unfolding op_left_has_str [OF s]
    by (rule exI, rule conjI, rule refl) (use has_str_cut [OF s] s t in auto)
qed

interpretation right_edit: in_place_edit op_right Bv "\<lambda>vm i s t. t = []"
  "\<lambda>vm i s t. drop (length s - unat (Cv_or_imm vm i)) s"
proof
  fix vm i s t assume s: "has_str (mem vm) (unat (Bv vm i)) s" and t: "t = ([] :: u8 list)"
  show "\<exists>m. op_right vm i = Inr (vm\<lparr>mem := m\<rparr>) \<and>
      has_str m (unat (Bv vm i)) (drop (length s - unat (Cv_or_imm vm i)) s) \<and>
      (\<forall>b. b < unat (Bv vm i) \<or> unat (Bv vm i) + length s + length t < b \<longrightarrow> m b = mem vm b)"
    unfolding op_right_has_str [OF s]
  proof (rule exI, rule conjI, rule refl, rule conjI)
    show "has_str (if length s \<le> unat (Cv_or_imm vm i) then mem vm else
        (copy_bytes (mem vm) (unat (Bv vm i)) (unat (Bv vm i) + (length s - unat (Cv_or_imm vm i)))
          (unat (Cv_or_imm vm i)))(unat (Bv vm i) + unat (Cv_or_imm vm i) := 0))
      (unat (Bv vm i)) (drop (length s - unat (Cv_or_imm vm i)) s)"
    proof (cases "length s \<le> unat (Cv_or_imm vm i)")
      case False
      then have e: "length s - (length s - unat (Cv_or_imm vm i)) = unat (Cv_or_imm vm i)" by simp
      from has_str_drop_copy [OF s diff_le_self, of "unat (Cv_or_imm vm i)", unfolded e] False show ?thesis
        by (simp only: if_False)
    qed (use s in simp)
  qed (use t in \<open>auto simp: copy_bytes_outside\<close>)
qed

interpretation mid_edit: in_place_edit op_mid Bv "\<lambda>vm i s t. t = []"
  "\<lambda>vm i s t. drop (unat (Cv_or_imm vm i)) s"
proof
  fix vm i s t assume s: "has_str (mem vm) (unat (Bv vm i)) s" and t: "t = ([] :: u8 list)"
  show "\<exists>m. op_mid vm i = Inr (vm\<lparr>mem := m\<rparr>) \<and>
      has_str m (unat (Bv vm i)) (drop (unat (Cv_or_imm vm i)) s) \<and>
      (\<forall>b. b < unat (Bv vm i) \<or> unat (Bv vm i) + length s + length t < b \<longrightarrow> m b = mem vm b)"
    unfolding op_mid_has_str [OF s]
    by (rule exI, rule conjI, rule refl)
      (use has_str_drop_copy [OF s, of "unat (Cv_or_imm vm i)"] has_str_cut [OF s, of 0] t
       in \<open>auto simp: copy_bytes_outside\<close>)
qed

interpretation delete_edit: in_place_edit op_delete "\<lambda>vm i. reg vm (RA i)" "\<lambda>vm i s t. t = []"
  "\<lambda>vm i s t. take (unat (Bv vm i)) s @ drop (unat (Bv vm i) + unat (Cv_or_imm vm i)) s"
proof
  fix vm :: vm_state and i s t assume s: "has_str (mem vm) (unat (reg vm (RA i))) s" and t: "t = ([] :: u8 list)"
  let ?a = "unat (reg vm (RA i))" and ?p = "unat (Bv vm i)"
  let ?n = "min (unat (Cv_or_imm vm i)) (length s - ?p)"
  have del: "has_str (copy_bytes (mem vm) (?a + ?p) (?a + ?p + ?n) (length s - ?p - ?n + 1)) ?a
      (take ?p s @ drop (?p + unat (Cv_or_imm vm i)) s)" if "?p < length s"
    using has_str_remove [OF s, of ?p ?n] that by (cases "unat (Cv_or_imm vm i) \<le> length s - ?p") (simp_all add: min_def)
  show "\<exists>m. op_delete vm i = Inr (vm\<lparr>mem := m\<rparr>) \<and>
      has_str m ?a (take ?p s @ drop (?p + unat (Cv_or_imm vm i)) s) \<and>
      (\<forall>b. b < ?a \<or> ?a + length s + length t < b \<longrightarrow> m b = mem vm b)"
    unfolding op_delete_has_str [OF s]
    by (rule exI, rule conjI, rule refl) (use del s t in \<open>auto simp: copy_bytes_outside\<close>)
qed

text \<open>The handlers that read a second string need it to lie apart from the first.\<close>

definition second_str :: "(vm_state \<Rightarrow> u32 \<Rightarrow> u32) \<Rightarrow> (vm_state \<Rightarrow> u32 \<Rightarrow> u32) \<Rightarrow>
    vm_state \<Rightarrow> u32 \<Rightarrow> u8 list \<Rightarrow> u8 list \<Rightarrow> bool" where
  "second_str tgt src vm i s t \<longleftrightarrow>
     has_str (mem vm) (unat (src vm i)) t \<and> apart (unat (tgt vm i)) s (unat (src vm i)) t"

lemma shift_and_copy_outside:
  "p \<le> l \<Longrightarrow> k \<le> n \<Longrightarrow> b < a \<or> a + l + n < b \<Longrightarrow>
   copy_bytes (copy_bytes m (a + p + k) (a + p) (l - p + 1)) (a + p) c k b = m b"
  by (auto simp: copy_bytes_outside)

lemma fitting_nth:
  assumes "has_str m b t" "j < length (fitting a n t)"
  shows "m (b + j) = fitting a n t ! j" "fitting a n t ! j \<noteq> 0"
  using has_strD(3,4) [OF assms(1), of j] assms(2) by (simp_all add: fitting_def)

interpretation concat_edit: in_place_edit op_concat Bv "second_str Bv Cv"
  "\<lambda>vm i s t. s @ fitting (unat (Bv vm i)) (length s) t"
proof
  fix vm i s t assume s: "has_str (mem vm) (unat (Bv vm i)) s" and pre: "second_str Bv Cv vm i s t"
  let ?a = "unat (Bv vm i)" and ?b = "unat (Cv vm i)"
  let ?u = "fitting (unat (Bv vm i)) (length s) t"
  have t: "has_str (mem vm) ?b t" and ap: "apart ?a s ?b t" using pre by (auto simp: second_str_def)
  have u: "length ?u \<le> length t" "?a + length s + length ?u < VM_MEM_BYTES"
    using has_strD(1) [OF s] by (auto simp: length_fitting)
  have "has_str ((copy_bytes (mem vm) (?a + length s) ?b (length ?u))(?a + length s + length ?u := 0)) ?a (s @ ?u)"
  proof (rule has_strI)
    fix k assume k: "k < length (s @ ?u)"
    show "((copy_bytes (mem vm) (?a + length s) ?b (length ?u))(?a + length s + length ?u := 0)) (?a + k) = (s @ ?u) ! k"
    proof (cases "k < length s")
      case True
      then show ?thesis using has_strD(3) [OF s True] by (simp add: copy_bytes_outside nth_append)
    next
      case False
      then show ?thesis
        using k fitting_nth(1) [OF t, of "k - length s" ?a "length s"]
          copy_bytes_at [of "k - length s" "length ?u" "mem vm" "?a + length s" ?b]
        by (simp add: nth_append)
    qed
    show "(s @ ?u) ! k \<noteq> 0"
      using k has_strD(4) [OF s, of k] fitting_nth(2) [OF t, of "k - length s" ?a "length s"]
      by (simp add: nth_append)
  qed (use u in \<open>simp_all add: add.assoc\<close>)
  then show "\<exists>m. op_concat vm i = Inr (vm\<lparr>mem := m\<rparr>) \<and> has_str m ?a (s @ ?u) \<and>
      (\<forall>b. b < ?a \<or> ?a + length s + length t < b \<longrightarrow> m b = mem vm b)"
    unfolding op_concat_has_str [OF s t ap] using u by (auto simp: copy_bytes_outside)
qed

interpretation insert_edit: in_place_edit op_insert "\<lambda>vm i. reg vm (RA i)" "second_str (\<lambda>vm i. reg vm (RA i)) Bv"
  "\<lambda>vm i s t. take (unat (Cv_or_imm vm i)) s @ fitting (unat (reg vm (RA i))) (length s) t @
     drop (unat (Cv_or_imm vm i)) s"
proof
  fix vm :: vm_state and i s t
  assume s: "has_str (mem vm) (unat (reg vm (RA i))) s" and pre: "second_str (\<lambda>vm i. reg vm (RA i)) Bv vm i s t"
  let ?a = "unat (reg vm (RA i))" and ?b = "unat (Bv vm i)"
  let ?u = "fitting ?a (length s) t" and ?p = "min (unat (Cv_or_imm vm i)) (length s)"
  have t: "has_str (mem vm) ?b t" and ap: "apart ?a s ?b t" using pre by (auto simp: second_str_def)
  have u: "length ?u \<le> length t" "?a + length s + length ?u < VM_MEM_BYTES"
    using has_strD(1) [OF s] by (auto simp: length_fitting)
  have p: "take ?p s = take (unat (Cv_or_imm vm i)) s" "drop ?p s = drop (unat (Cv_or_imm vm i)) s"
    by (simp_all add: min_def)
  have ins: "has_str (copy_bytes (copy_bytes (mem vm) (?a + ?p + length ?u) (?a + ?p) (length s - ?p + 1)) (?a + ?p) ?b (length ?u))
      ?a (take ?p s @ ?u @ drop ?p s)"
    by (rule has_str_insert [OF s _ u(2)])
      (use u ap fitting_nth [OF t, of _ ?a "length s"] in \<open>auto simp: apart_def\<close>)
  have ins0: "has_str (mem vm) ?a (take ?p s @ ?u @ drop ?p s)" if "length ?u = 0"
    using s that by simp
  define m where "m = (if length ?u = 0 then mem vm else copy_bytes
    (copy_bytes (mem vm) (?a + ?p + length ?u) (?a + ?p) (length s - ?p + 1)) (?a + ?p) ?b (length ?u))"
  have "op_insert vm i = Inr (vm\<lparr>mem := m\<rparr>)"
    unfolding op_insert_has_str [OF s t ap] m_def ..
  moreover have "has_str m ?a (take (unat (Cv_or_imm vm i)) s @ ?u @ drop (unat (Cv_or_imm vm i)) s)"
    using ins ins0 unfolding m_def p
    by (cases "length ?u = 0") (simp_all only: if_True if_False simp_thms)
  moreover have "m b = mem vm b" if "b < ?a \<or> ?a + length s + length t < b" for b
    using shift_and_copy_outside [OF min.cobounded2 u(1) that] by (simp add: m_def)
  ultimately show "\<exists>m. op_insert vm i = Inr (vm\<lparr>mem := m\<rparr>) \<and>
      has_str m ?a (take (unat (Cv_or_imm vm i)) s @ ?u @ drop (unat (Cv_or_imm vm i)) s) \<and>
      (\<forall>b. b < ?a \<or> ?a + length s + length t < b \<longrightarrow> m b = mem vm b)"
    by blast
qed

interpretation replace_edit: in_place_edit op_replace "\<lambda>vm i. reg vm (RA i)"
  "\<lambda>vm i s t. second_str (\<lambda>vm i. reg vm (RA i)) Bv vm i s t \<and> unat (Cv_or_imm vm i) \<le> length s"
  "\<lambda>vm i s t. take (unat (Cv_or_imm vm i)) s @ take (length s - unat (Cv_or_imm vm i)) t @
     drop (unat (Cv_or_imm vm i) + length t) s"
proof
  fix vm :: vm_state and i s t
  assume s: "has_str (mem vm) (unat (reg vm (RA i))) s"
    and pre: "second_str (\<lambda>vm i. reg vm (RA i)) Bv vm i s t \<and> unat (Cv_or_imm vm i) \<le> length s"
  let ?a = "unat (reg vm (RA i))" and ?b = "unat (Bv vm i)" and ?p = "unat (Cv_or_imm vm i)"
  have t: "has_str (mem vm) ?b t" and ap: "apart ?a s ?b t" and p: "?p \<le> length s"
    using pre by (auto simp: second_str_def)
  let ?r = "min (length t) (length s - ?p)"
  have e: "take ?r t = take (length s - ?p) t" "drop (?p + ?r) s = drop (?p + length t) s"
    using p by (auto simp: min_def)
  note r = op_replace_has_str [OF s t ap p, unfolded e]
  show "\<exists>m. op_replace vm i = Inr (vm\<lparr>mem := m\<rparr>) \<and>
      has_str m ?a (take ?p s @ take (length s - ?p) t @ drop (?p + length t) s) \<and>
      (\<forall>b. b < ?a \<or> ?a + length s + length t < b \<longrightarrow> m b = mem vm b)"
    by (rule exI, rule conjI, rule conjunct1 [OF r], rule conjI, rule conjunct2 [OF r])
      (use p in \<open>auto simp: copy_bytes_outside\<close>)
qed

section \<open>Properties\<close>

text \<open>
  On a terminated string LEFT, RIGHT and MID return with the prefix, the
  suffix and the rest of it in place, for every count, and change no byte before the string or
  behind its terminator.
\<close>

theorem op_left_right_mid_spec:
  assumes "has_str (mem vm) (unat (Bv vm i)) s"
  shows "(\<exists>m. op_left vm i = Inr (vm\<lparr>mem := m\<rparr>) \<and>
      has_str m (unat (Bv vm i)) (take (unat (Cv_or_imm vm i)) s) \<and>
      (\<forall>b. b < unat (Bv vm i) \<or> unat (Bv vm i) + length s < b \<longrightarrow> m b = mem vm b)) \<and>
    (\<exists>m. op_right vm i = Inr (vm\<lparr>mem := m\<rparr>) \<and>
      has_str m (unat (Bv vm i)) (drop (length s - unat (Cv_or_imm vm i)) s) \<and>
      (\<forall>b. b < unat (Bv vm i) \<or> unat (Bv vm i) + length s < b \<longrightarrow> m b = mem vm b)) \<and>
    (\<exists>m. op_mid vm i = Inr (vm\<lparr>mem := m\<rparr>) \<and>
      has_str m (unat (Bv vm i)) (drop (unat (Cv_or_imm vm i)) s) \<and>
      (\<forall>b. b < unat (Bv vm i) \<or> unat (Bv vm i) + length s < b \<longrightarrow> m b = mem vm b))"
  using left_edit.edits [OF assms refl] right_edit.edits [OF assms refl] mid_edit.edits [OF assms refl]
  by simp

text \<open>
  CONCAT appends to a terminated string as much of a second string lying
  apart from it as fits the memory, terminates the result, and keeps the second string.
\<close>

theorem op_concat_spec:
  assumes "has_str (mem vm) (unat (Bv vm i)) s" "has_str (mem vm) (unat (Cv vm i)) t"
    and "unat (Bv vm i) + length s + length t < unat (Cv vm i) \<or> unat (Cv vm i) + length t < unat (Bv vm i)"
  shows "\<exists>m. op_concat vm i = Inr (vm\<lparr>mem := m\<rparr>) \<and> has_str m (unat (Cv vm i)) t \<and>
    has_str m (unat (Bv vm i)) (s @ take (VM_MEM_BYTES - unat (Bv vm i) - length s - 1) t)"
  using concat_edit.other_string [of vm i s t "unat (Cv vm i)" t] assms
  unfolding second_str_def apart_def fitting_def by blast

text \<open>
  C21 (functional).  REPLACE overwrites the string in register A from a position inside it with
  a second string lying apart, cut at the old length, so that the length does not change.
\<close>

theorem op_replace_spec:
  assumes "has_str (mem vm) (unat (Av vm i)) s" "has_str (mem vm) (unat (Bv vm i)) t"
    and "unat (Av vm i) + length s + length t < unat (Bv vm i) \<or> unat (Bv vm i) + length t < unat (Av vm i)"
    and "unat (Cv_or_imm vm i) \<le> length s"
  shows "\<exists>m. op_replace vm i = Inr (vm\<lparr>mem := m\<rparr>) \<and> has_str m (unat (Bv vm i)) t \<and>
    has_str m (unat (Av vm i)) (take (unat (Cv_or_imm vm i)) s @
      take (length s - unat (Cv_or_imm vm i)) t @ drop (unat (Cv_or_imm vm i) + length t) s)"
  using replace_edit.other_string [of vm i s t "unat (Bv vm i)" t] assms
  unfolding second_str_def apart_def Av_def by blast

text \<open>
  C38 (roundtrip).  Deleting what was inserted restores the string: INSERT of a string that
  fits, at a position inside the target, followed by a DELETE of its length at the same
  position, gives back the old string.
\<close>

theorem insert_then_delete:
  assumes "has_str (mem vm) (unat (Av vm i)) s" "has_str (mem vm) (unat (Bv vm i)) t"
    and "unat (Av vm i) + length s + length t < unat (Bv vm i) \<or> unat (Bv vm i) + length t < unat (Av vm i)"
    and "unat (Av vm i) + length s + length t < VM_MEM_BYTES"
    and "unat (Cv_or_imm vm i) \<le> length s"
    and "RA j = RA i" "Bv vm j = Cv_or_imm vm i" "unat (Cv_or_imm vm j) = length t"
  shows "\<exists>m1 m2. op_insert vm i = Inr (vm\<lparr>mem := m1\<rparr>) \<and>
    has_str m1 (unat (Av vm i)) (take (unat (Cv_or_imm vm i)) s @ t @ drop (unat (Cv_or_imm vm i)) s) \<and>
    op_delete (vm\<lparr>mem := m1\<rparr>) j = Inr (vm\<lparr>mem := m2\<rparr>) \<and> has_str m2 (unat (Av vm i)) s"
proof -
  have ops: "reg (vm\<lparr>mem := m\<rparr>) (RA j) = Av vm i" "Bv (vm\<lparr>mem := m\<rparr>) j = Cv_or_imm vm i"
      "Cv_or_imm (vm\<lparr>mem := m\<rparr>) j = Cv_or_imm vm j" for m
    using assms(6,7) by (simp_all add: Av_def Bv_def Cv_or_imm_def)
  have regj: "reg vm (RA j) = Av vm i" using assms(6) by (simp add: Av_def)
  have "fitting (unat (Av vm i)) (length s) t = t"
    using assms(4) by (simp add: fitting_def)
  then obtain m1 where m1: "op_insert vm i = Inr (vm\<lparr>mem := m1\<rparr>)"
      "has_str m1 (unat (Av vm i)) (take (unat (Cv_or_imm vm i)) s @ t @ drop (unat (Cv_or_imm vm i)) s)"
    using insert_edit.edits [of vm i s t] assms(1-3)
    unfolding second_str_def apart_def Av_def [symmetric] by auto
  let ?s1 = "take (unat (Cv_or_imm vm i)) s @ t @ drop (unat (Cv_or_imm vm i)) s"
  obtain m2 where "op_delete (vm\<lparr>mem := m1\<rparr>) j = Inr (vm\<lparr>mem := m2\<rparr>)"
      "has_str m2 (unat (Av vm i)) (take (unat (Cv_or_imm vm i)) ?s1 @
         drop (unat (Cv_or_imm vm i) + unat (Cv_or_imm vm j)) ?s1)"
    using delete_edit.edits [of "vm\<lparr>mem := m1\<rparr>" j ?s1 "[]"] m1(2)
    by (auto simp: ops regj simp del: take_append drop_append)
  then show ?thesis
    using m1 assms(5,8) by (auto simp: min_absorb2)
qed

text \<open>
  Inserting a non-empty string into itself is undefined: when there is room for
  it and the position is not its end, the second copy of \<open>op_insert\<close> is a \<open>memcpy\<close> whose
  blocks overlap.
\<close>

theorem op_insert_self_overlaps:
  assumes "has_str (mem vm) (unat (Av vm i)) s" "Bv vm i = Av vm i"
    and "unat (Cv_or_imm vm i) < length s" "unat (Av vm i) + 2 * length s < VM_MEM_BYTES"
  shows "op_insert vm i = Inl Overlapping_Copy"
proof -
  have s: "has_str (mem vm) (unat (reg vm (RA i))) s" "Bv vm i = reg vm (RA i)"
    using assms(1,2) by (simp_all add: Av_def)
  have "length (fitting (unat (reg vm (RA i))) (length s) s) = length s"
    using assms(4) by (simp add: length_fitting Av_def)
  note k = fitting_length [OF s(1), of s, unfolded this]
  have R: "safe_mem_remaining (reg vm (RA i)) \<noteq> 0"
    using assms(4) by (simp add: safe_mem_remaining_def Av_def)
  have "s \<noteq> []" using assms(3) by auto
  then show ?thesis
    unfolding op_insert_def Let_def s(2) strlen_has_str [OF s(1)] k
    using assms(3,4) R by (simp add: Av_def unat_plus_u32 memmove_mem_ok memcpy_mem_def with_mem_def)
qed

text \<open>A machine with the strings \<open>ABC\<close> at 100 and \<open>xy\<close> at 200.\<close>

definition vm_strings :: vm_state where
  "vm_strings = vm_zero\<lparr>
     mem := (\<lambda>_. 0)(100 := 65, 101 := 66, 102 := 67, 200 := 120, 201 := 121),
     reg := (\<lambda>_. 0)(1 := 100, 2 := 200, 3 := 1, 4 := 2)\<rparr>"

lemma vm_strings_strs:
  "has_str (mem vm_strings) 100 [65, 66, 67]" "has_str (mem vm_strings) 200 [120, 121]"
  by (simp_all add: vm_strings_def has_str_Nil has_str_Cons)

lemma vm_strings_reg: "reg vm_strings = (\<lambda>_. 0)(1 := 100, 2 := 200, 3 := 1, 4 := 2)"
  by (simp add: vm_strings_def)

theorem op_left_right_mid_spec_witness:
  "(\<exists>m. op_left vm_strings (instr_word 41 5 1 3) = Inr (vm_strings\<lparr>mem := m\<rparr>) \<and> has_str m 100 [65]) \<and>
   (\<exists>m. op_right vm_strings (instr_word 42 5 1 3) = Inr (vm_strings\<lparr>mem := m\<rparr>) \<and> has_str m 100 [67]) \<and>
   (\<exists>m. op_mid vm_strings (instr_word 43 5 1 3) = Inr (vm_strings\<lparr>mem := m\<rparr>) \<and> has_str m 100 [66, 67])"
  using op_left_right_mid_spec [of vm_strings "instr_word 41 5 1 3" "[65, 66, 67]"]
    op_left_right_mid_spec [of vm_strings "instr_word 42 5 1 3" "[65, 66, 67]"]
    op_left_right_mid_spec [of vm_strings "instr_word 43 5 1 3" "[65, 66, 67]"] vm_strings_strs
  by (simp add: operand_simps vm_strings_reg) blast

theorem op_concat_spec_witness:
  "\<exists>m. op_concat vm_strings (instr_word 40 5 1 2) = Inr (vm_strings\<lparr>mem := m\<rparr>) \<and>
     has_str m 200 [120, 121] \<and> has_str m 100 [65, 66, 67, 120, 121]"
  using op_concat_spec [of vm_strings "instr_word 40 5 1 2" "[65, 66, 67]" "[120, 121]"] vm_strings_strs
  by (simp add: operand_simps vm_strings_reg)

theorem op_replace_spec_witness:
  "\<exists>m. op_replace vm_strings (instr_word 46 1 2 3) = Inr (vm_strings\<lparr>mem := m\<rparr>) \<and>
     has_str m 200 [120, 121] \<and> has_str m 100 [65, 120, 121]"
  using op_replace_spec [of vm_strings "instr_word 46 1 2 3" "[65, 66, 67]" "[120, 121]"] vm_strings_strs
  by (simp add: operand_simps vm_strings_reg)

theorem insert_then_delete_witness:
  "\<exists>m1 m2. op_insert vm_strings (instr_word 44 1 2 3) = Inr (vm_strings\<lparr>mem := m1\<rparr>) \<and>
     has_str m1 100 [65, 120, 121, 66, 67] \<and>
     op_delete (vm_strings\<lparr>mem := m1\<rparr>) (instr_word 45 1 3 4) = Inr (vm_strings\<lparr>mem := m2\<rparr>) \<and>
     has_str m2 100 [65, 66, 67]"
  using insert_then_delete [of vm_strings "instr_word 44 1 2 3" "[65, 66, 67]" "[120, 121]"
    "instr_word 45 1 3 4"] vm_strings_strs
  by (simp add: operand_simps vm_strings_reg)

theorem op_insert_self_overlaps_witness:
  "op_insert vm_strings (instr_word 44 1 1 3) = Inl Overlapping_Copy"
  by (rule op_insert_self_overlaps [of _ _ "[65, 66, 67]"])
    (use vm_strings_strs in \<open>simp_all add: operand_simps vm_strings_reg\<close>)

end
