(* ===== verification/Timers.thy ===== *)
theory Timers
  imports VMState
begin

text \<open>
  The IEC 61131-3 timers of \<open>timers.c\<close>: the five update functions, the cyclic update of all
  timers, and the set and query functions the instructions use.  An update function reads of
  the machine only its virtual time \<open>time_ms\<close>, so it takes that time as its argument.  The
  difference \<open>ms_diff\<close> is computed in 64-bit unsigned arithmetic, as the \<open>ULL\<close> constants of
  the code make it.
\<close>

section \<open>Time\<close>

definition ms_diff :: "timespec \<Rightarrow> timespec \<Rightarrow> u32" where
  "ms_diff a b = ucast ((tv_sec b - tv_sec a) * 1000 + (tv_nsec b - tv_nsec a) div 1000000)"

definition timespec_of_ms :: "u64 \<Rightarrow> timespec" where
  "timespec_of_ms t = \<lparr>tv_sec = t div 1000, tv_nsec = (t mod 1000) * 1000000\<rparr>"

definition timers_init :: "vm_state \<Rightarrow> vm_state" where
  "timers_init vm = vm\<lparr>
     ton_timers := replicate MAX_TIMERS zero_timer, tof_timers := replicate MAX_TIMERS zero_timer,
     tp_timers := replicate MAX_TIMERS zero_timer, tonr_timers := replicate MAX_TIMERS zero_timer,
     tofr_timers := replicate MAX_TIMERS zero_timer\<rparr>"

section \<open>Update functions\<close>

definition update_ton :: "u64 \<Rightarrow> IEC_Timer \<Rightarrow> IEC_Timer" where
  "update_ton now t =
     (if \<not> tm_enabled t \<or> preset_ms t = 0 then t\<lparr>tm_output := False, ET := 0\<rparr> else
      let rising = (tm_input t \<and> \<not> tm_prev_input t);
          t = (if tm_input t then
            let t = (if rising then t\<lparr>tm_start := timespec_of_ms now, tm_timing := True\<rparr> else t) in
            if tm_timing t then
              let t = t\<lparr>ET := ms_diff (tm_start t) (timespec_of_ms now)\<rparr> in
              if preset_ms t \<le> ET t then t\<lparr>tm_output := True, tm_timing := False\<rparr> else t
            else t
          else t\<lparr>tm_output := False, ET := 0, tm_timing := False\<rparr>)
      in t\<lparr>tm_prev_input := tm_input t\<rparr>)"

definition update_tof :: "u64 \<Rightarrow> IEC_Timer \<Rightarrow> IEC_Timer" where
  "update_tof now t =
     (if \<not> tm_enabled t \<or> preset_ms t = 0 then t\<lparr>tm_output := False, ET := 0\<rparr> else
      let falling = (\<not> tm_input t \<and> tm_prev_input t);
          t = (if tm_input t then t\<lparr>tm_output := True, tm_timing := False, ET := 0\<rparr>
          else
            let t = (if falling then t\<lparr>tm_start := timespec_of_ms now, tm_timing := True\<rparr> else t) in
            if tm_timing t then
              let t = t\<lparr>ET := ms_diff (tm_start t) (timespec_of_ms now)\<rparr> in
              if preset_ms t \<le> ET t then t\<lparr>tm_output := False, tm_timing := False\<rparr>
              else t\<lparr>tm_output := True\<rparr>
            else t)
      in t\<lparr>tm_prev_input := tm_input t\<rparr>)"

definition update_tp :: "u64 \<Rightarrow> IEC_Timer \<Rightarrow> IEC_Timer" where
  "update_tp now t =
     (if \<not> tm_enabled t \<or> preset_ms t = 0 then t\<lparr>tm_output := False, ET := 0\<rparr> else
      let rising = (tm_input t \<and> \<not> tm_prev_input t);
          t = (if rising
            then t\<lparr>tm_start := timespec_of_ms now, tm_timing := True, tm_output := True\<rparr> else t);
          t = (if tm_timing t then
            let t = t\<lparr>ET := ms_diff (tm_start t) (timespec_of_ms now)\<rparr> in
            if preset_ms t \<le> ET t then t\<lparr>tm_output := False, tm_timing := False\<rparr> else t
          else t)
      in t\<lparr>tm_prev_input := tm_input t\<rparr>)"

definition update_tonr :: "u64 \<Rightarrow> IEC_Timer \<Rightarrow> IEC_Timer" where
  "update_tonr now t =
     (if \<not> tm_enabled t then t else
      let rising = (tm_input t \<and> \<not> tm_prev_input t);
          t = (if tm_input t then
            let t = (if rising then t\<lparr>tm_start := timespec_of_ms now, tm_timing := True\<rparr> else t);
                t = (if tm_timing t then
                  let add = ms_diff (tm_start t) (timespec_of_ms now) in
                  t\<lparr>ET := ET t + add, tm_start := timespec_of_ms now\<rparr>
                else t) in
            if preset_ms t \<le> ET t then t\<lparr>tm_output := True, tm_timing := False\<rparr> else t
          else t)
      in t\<lparr>tm_prev_input := tm_input t\<rparr>)"

definition update_tofr :: "u64 \<Rightarrow> IEC_Timer \<Rightarrow> IEC_Timer" where
  "update_tofr now t =
     (if \<not> tm_enabled t then t else
      let falling = (\<not> tm_input t \<and> tm_prev_input t);
          t = (if falling then t\<lparr>tm_start := timespec_of_ms now, tm_timing := True\<rparr> else t);
          t = (if tm_timing t then
            let add = ms_diff (tm_start t) (timespec_of_ms now);
                t = t\<lparr>ET := ET t + add, tm_start := timespec_of_ms now\<rparr> in
            if preset_ms t \<le> ET t then t\<lparr>tm_output := False, tm_timing := False\<rparr>
            else t\<lparr>tm_output := True\<rparr>
          else t);
          t = (if tm_input t then t\<lparr>tm_output := True, tm_timing := False, ET := 0\<rparr> else t)
      in t\<lparr>tm_prev_input := tm_input t\<rparr>)"

text \<open>One pass of the loop updates the timers of one index.\<close>

definition update_timers_at :: "nat \<Rightarrow> vm_state \<Rightarrow> vm_state" where
  "update_timers_at i vm =
     (let vm = vm\<lparr>ton_timers := (ton_timers vm)[i := update_ton (time_ms vm) (ton_timers vm ! i)]\<rparr>;
          vm = vm\<lparr>tof_timers := (tof_timers vm)[i := update_tof (time_ms vm) (tof_timers vm ! i)]\<rparr>;
          vm = vm\<lparr>tp_timers := (tp_timers vm)[i := update_tp (time_ms vm) (tp_timers vm ! i)]\<rparr>;
          vm = vm\<lparr>tonr_timers := (tonr_timers vm)[i := update_tonr (time_ms vm) (tonr_timers vm ! i)]\<rparr>
      in vm\<lparr>tofr_timers := (tofr_timers vm)[i := update_tofr (time_ms vm) (tofr_timers vm ! i)]\<rparr>)"

definition update_all_timers :: "vm_state \<Rightarrow> vm_state" where
  "update_all_timers vm = fold update_timers_at [0..<MAX_TIMERS] vm"

section \<open>Set and query\<close>

definition id_ok :: "u8 \<Rightarrow> bool" where
  "id_ok k \<longleftrightarrow> unat k < MAX_TIMERS"

definition set_timer :: "bool \<Rightarrow> u32 \<Rightarrow> IEC_Timer \<Rightarrow> IEC_Timer" where
  "set_timer inp pt t = t\<lparr>tm_input := inp, preset_ms := pt, tm_enabled := True\<rparr>"

definition ton_set :: "vm_state \<Rightarrow> u8 \<Rightarrow> bool \<Rightarrow> u32 \<Rightarrow> vm_state" where
  "ton_set vm k inp pt =
     (if \<not> id_ok k then vm else
      let t = set_timer inp pt (ton_timers vm ! unat k) in
      vm\<lparr>ton_timers := (ton_timers vm)[unat k := update_ton (time_ms vm) t]\<rparr>)"

definition ton_Q :: "vm_state \<Rightarrow> u8 \<Rightarrow> bool" where
  "ton_Q vm k = (if \<not> id_ok k then False else tm_output (ton_timers vm ! unat k))"

definition tof_set :: "vm_state \<Rightarrow> u8 \<Rightarrow> bool \<Rightarrow> u32 \<Rightarrow> vm_state" where
  "tof_set vm k inp pt =
     (if \<not> id_ok k then vm else
      let t = set_timer inp pt (tof_timers vm ! unat k) in
      vm\<lparr>tof_timers := (tof_timers vm)[unat k := update_tof (time_ms vm) t]\<rparr>)"

definition tof_Q :: "vm_state \<Rightarrow> u8 \<Rightarrow> bool" where
  "tof_Q vm k = (if \<not> id_ok k then False else tm_output (tof_timers vm ! unat k))"

definition tp_set :: "vm_state \<Rightarrow> u8 \<Rightarrow> bool \<Rightarrow> u32 \<Rightarrow> vm_state" where
  "tp_set vm k inp pt =
     (if \<not> id_ok k then vm else
      let t = set_timer inp pt (tp_timers vm ! unat k) in
      vm\<lparr>tp_timers := (tp_timers vm)[unat k := update_tp (time_ms vm) t]\<rparr>)"

definition tp_Q :: "vm_state \<Rightarrow> u8 \<Rightarrow> bool" where
  "tp_Q vm k = (if \<not> id_ok k then False else tm_output (tp_timers vm ! unat k))"

definition tonr_set :: "vm_state \<Rightarrow> u8 \<Rightarrow> bool \<Rightarrow> u32 \<Rightarrow> vm_state" where
  "tonr_set vm k inp pt =
     (if \<not> id_ok k then vm else
      let t = set_timer inp pt (tonr_timers vm ! unat k) in
      vm\<lparr>tonr_timers := (tonr_timers vm)[unat k := update_tonr (time_ms vm) t]\<rparr>)"

definition tonr_Q :: "vm_state \<Rightarrow> u8 \<Rightarrow> bool" where
  "tonr_Q vm k = (if \<not> id_ok k then False else tm_output (tonr_timers vm ! unat k))"

definition tofr_set :: "vm_state \<Rightarrow> u8 \<Rightarrow> bool \<Rightarrow> u32 \<Rightarrow> vm_state" where
  "tofr_set vm k inp pt =
     (if \<not> id_ok k then vm else
      let t = set_timer inp pt (tofr_timers vm ! unat k) in
      vm\<lparr>tofr_timers := (tofr_timers vm)[unat k := update_tofr (time_ms vm) t]\<rparr>)"

definition tofr_Q :: "vm_state \<Rightarrow> u8 \<Rightarrow> bool" where
  "tofr_Q vm k = (if \<not> id_ok k then False else tm_output (tofr_timers vm ! unat k))"

section \<open>The loop over all timers\<close>

lemma list_update_map_step:
  "i < length xs \<Longrightarrow> (map f (take i xs) @ drop i xs)[i := f (xs ! i)] = map f (take (Suc i) xs) @ drop (Suc i) xs"
  by (simp add: list_update_append take_Suc_conv_app_nth upd_conv_take_nth_drop nth_drop Cons_nth_drop_Suc
      flip: Cons_nth_drop_Suc)

lemma nth_map_step: "i < length xs \<Longrightarrow> (map f (take i xs) @ drop i xs) ! i = xs ! i"
  by (simp add: nth_append)

lemma fold_update_timers:
  assumes "vm_wf vm" "n \<le> MAX_TIMERS"
  shows "fold update_timers_at [0..<n] vm = vm\<lparr>
     ton_timers := map (update_ton (time_ms vm)) (take n (ton_timers vm)) @ drop n (ton_timers vm),
     tof_timers := map (update_tof (time_ms vm)) (take n (tof_timers vm)) @ drop n (tof_timers vm),
     tp_timers := map (update_tp (time_ms vm)) (take n (tp_timers vm)) @ drop n (tp_timers vm),
     tonr_timers := map (update_tonr (time_ms vm)) (take n (tonr_timers vm)) @ drop n (tonr_timers vm),
     tofr_timers := map (update_tofr (time_ms vm)) (take n (tofr_timers vm)) @ drop n (tofr_timers vm)\<rparr>"
  using assms(2)
proof (induction n)
  case (Suc n)
  have len: "length (ton_timers vm) = 16" "length (tof_timers vm) = 16" "length (tp_timers vm) = 16"
      "length (tonr_timers vm) = 16" "length (tofr_timers vm) = 16"
    using assms(1) by (simp_all add: vm_wf_def)
  have "n < 16" using Suc.prems by simp
  with Suc len show ?case
    by (simp add: update_timers_at_def Let_def list_update_map_step nth_map_step)
qed simp

lemma update_all_timers_map:
  "vm_wf vm \<Longrightarrow> update_all_timers vm = vm\<lparr>
     ton_timers := map (update_ton (time_ms vm)) (ton_timers vm),
     tof_timers := map (update_tof (time_ms vm)) (tof_timers vm),
     tp_timers := map (update_tp (time_ms vm)) (tp_timers vm),
     tonr_timers := map (update_tonr (time_ms vm)) (tonr_timers vm),
     tofr_timers := map (update_tofr (time_ms vm)) (tofr_timers vm)\<rparr>"
  by (simp add: update_all_timers_def fold_update_timers) (simp add: vm_wf_def)

section \<open>Elapsed time\<close>

lemma unat_add_u32: "unat a + unat b < 4294967296 \<Longrightarrow> unat (a + b :: u32) = unat a + unat b"
  by (simp add: unat_word_ariths)

lemma ucast_add_64_32: "(ucast (x + y :: u64) :: u32) = ucast x + ucast y"
proof -
  have "take_bit 32 (take_bit 64 a + take_bit 64 b) = take_bit 32 (a + b)" for a b :: int
    by (subst (1 2) take_bit_add [symmetric]) simp
  then show ?thesis by transfer simp
qed

lemma u64_div_mod: "(t div 1000) * 1000 = t - t mod (1000 :: u64)"
  by (metis add_diff_cancel_right' div_mult_mod_eq)

lemma unat_mod_1000: "unat (t mod 1000 :: u64) < 1000"
  by (simp add: unat_mod)

lemma two_64: "(18446744073709551616 :: u64) = 0"
  using word_exp_length_eq_0 [where 'a = 64] by simp

lemma nsec_quotient:
  fixes f g :: u64
  assumes "unat f < 1000" "unat g < 1000"
  shows "(g * 1000000 - f * 1000000) div 1000000 =
    g - f + (if g < f then 18446744073709 else 0)"
proof (cases "g < f")
  case False
  then have "g * 1000000 - f * 1000000 = (g - f) * 1000000" by (simp add: algebra_simps)
  moreover have "unat ((g - f) * 1000000) = (unat g - unat f) * 1000000"
    using False assms by (simp add: unat_word_ariths unat_sub word_less_nat_alt word_le_nat_alt)
  ultimately show ?thesis
    using False by (simp add: word_unat_eq_iff unat_div unat_sub word_less_nat_alt word_le_nat_alt)
next
  case True
  define d where "d = unat f - unat g"
  have d: "1 \<le> d" "d < 1000" using True assms by (auto simp: d_def word_less_nat_alt)
  have gf: "g - f = - of_nat d"
    using True by (simp add: d_def word_less_nat_alt of_nat_diff)
  have num: "g * 1000000 - f * 1000000 = of_nat (18446744073709551616 - d * 1000000)"
  proof -
    have "g * 1000000 - f * 1000000 = (g - f) * 1000000" by (simp only: left_diff_distrib)
    also have "\<dots> = - (of_nat d * 1000000)" by (simp only: gf mult_minus_left)
    also have "\<dots> = of_nat 18446744073709551616 - of_nat (d * 1000000)"
      by (simp only: of_nat_numeral two_64 of_nat_mult diff_0)
    also have "\<dots> = of_nat (18446744073709551616 - d * 1000000)"
      by (rule of_nat_diff [symmetric]) (use d in simp)
    finally show ?thesis .
  qed
  have quot: "(18446744073709551616 - d * 1000000) div 1000000 = 18446744073709 - d"
  proof -
    have "18446744073709551616 - d * 1000000 = (18446744073709 - d) * 1000000 + 551616" using d by simp
    then show ?thesis by simp
  qed
  have small: "unat (of_nat n :: u64) = n" if "n < 18446744073709551616" for n
    using that by (simp add: unsigned_of_nat take_bit_nat_eq_self)
  have m: "unat (1000000 :: u64) = 1000000" by simp
  have "(g * 1000000 - f * 1000000) div 1000000 = of_nat (18446744073709 - d)"
    unfolding num word_unat_eq_iff unat_div using d by (simp only: small m quot)
  also have "\<dots> = of_nat 18446744073709 - of_nat d"
    by (rule of_nat_diff) (use d in simp)
  also have "\<dots> = g - f + 18446744073709" using gf by simp
  finally show ?thesis using True by simp
qed

text \<open>
  The elapsed time the timers work with, for any two times: the difference in
  milliseconds modulo \<open>2^32\<close>, plus 4154504685 whenever the later time lies at a smaller
  millisecond fraction of its second.  The extra term comes from the negative difference of
  the nanosecond fields, which the unsigned division turns into a large quotient.
\<close>

theorem ms_diff_elapsed:
  "ms_diff (timespec_of_ms a) (timespec_of_ms b) =
     ucast (b - a) + (if b mod 1000 < a mod 1000 then 4154504685 else 0)"
proof -
  have "tv_nsec (timespec_of_ms b) - tv_nsec (timespec_of_ms a) = b mod 1000 * 1000000 - a mod 1000 * 1000000"
    by (simp add: timespec_of_ms_def)
  then have "(tv_sec (timespec_of_ms b) - tv_sec (timespec_of_ms a)) * 1000 +
      (tv_nsec (timespec_of_ms b) - tv_nsec (timespec_of_ms a)) div 1000000 =
      b - a + (if b mod 1000 < a mod 1000 then 18446744073709 else 0)"
    using u64_div_mod [of a] u64_div_mod [of b]
    by (simp add: nsec_quotient unat_mod_1000 timespec_of_ms_def left_diff_distrib)
  then show ?thesis
    by (simp add: ms_diff_def ucast_add_64_32)
qed

lemma ms_diff_exact:
  assumes "a \<le> b" "a mod 1000 \<le> b mod 1000" "unat b - unat a < 4294967296"
  shows "unat (ms_diff (timespec_of_ms a) (timespec_of_ms b)) = unat b - unat a"
proof -
  have "unat (ucast (b - a) :: u32) = unat b - unat a"
    using assms(1,3) by (simp add: unsigned_ucast_eq take_bit_nat_eq_self unat_sub)
  moreover have "\<not> b mod 1000 < a mod 1000" using assms(2) by simp
  ultimately show ?thesis by (simp add: ms_diff_elapsed)
qed

lemma ms_diff_self [simp]: "ms_diff t t = 0"
  by (simp add: ms_diff_def)

section \<open>The contract of a delay timer\<close>

text \<open>
  TON delays the switch of its input to true, TOF the switch to false.  With \<open>go\<close> the input
  level that starts the delay, both obey the same laws: away from \<open>go\<close> the output is
  \<open>\<not> go\<close> at once; the switch to \<open>go\<close> records the time; the output becomes \<open>go\<close> at the first
  update that finds the preset elapsed.
\<close>

definition poll_timer :: "(u64 \<Rightarrow> IEC_Timer \<Rightarrow> IEC_Timer) \<Rightarrow> u32 \<Rightarrow> bool \<Rightarrow> u64 \<Rightarrow> IEC_Timer \<Rightarrow> IEC_Timer" where
  "poll_timer upd pt inp now t = upd now (set_timer inp pt t)"

locale delay_timer =
  fixes upd :: "u64 \<Rightarrow> IEC_Timer \<Rightarrow> IEC_Timer" and go :: bool
  assumes idle: "tm_enabled t \<Longrightarrow> preset_ms t \<noteq> 0 \<Longrightarrow> tm_input t \<noteq> go \<Longrightarrow>
      upd now t = t\<lparr>tm_output := \<not> go, ET := 0, tm_timing := False, tm_prev_input := \<not> go\<rparr>"
    and begin_delay: "tm_enabled t \<Longrightarrow> preset_ms t \<noteq> 0 \<Longrightarrow> tm_input t = go \<Longrightarrow> tm_prev_input t \<noteq> go \<Longrightarrow>
      tm_output t = (\<not> go) \<Longrightarrow>
      upd now t = t\<lparr>tm_start := timespec_of_ms now, tm_timing := True, ET := 0, tm_prev_input := go\<rparr>"
    and poll_delay: "tm_enabled t \<Longrightarrow> preset_ms t \<noteq> 0 \<Longrightarrow> tm_input t = go \<Longrightarrow> tm_prev_input t = go \<Longrightarrow>
      tm_timing t \<Longrightarrow> tm_output t = (\<not> go) \<Longrightarrow>
      upd now t = (let e = ms_diff (tm_start t) (timespec_of_ms now) in
        if preset_ms t \<le> e then t\<lparr>ET := e, tm_output := go, tm_timing := False\<rparr> else t\<lparr>ET := e\<rparr>)"
    and expired: "tm_enabled t \<Longrightarrow> preset_ms t \<noteq> 0 \<Longrightarrow> tm_input t = go \<Longrightarrow> tm_prev_input t = go \<Longrightarrow>
      \<not> tm_timing t \<Longrightarrow> upd now t = t"
begin

lemma hold_expired:
  assumes "pt \<noteq> 0" "tm_prev_input t = go" "\<not> tm_timing t"
  shows "tm_output (fold (poll_timer upd pt go) ts t) = tm_output t"
  using assms(2,3)
proof (induction ts arbitrary: t)
  case (Cons b ts)
  have "poll_timer upd pt go b t = set_timer go pt t"
    unfolding poll_timer_def by (rule expired) (use assms(1) Cons.prems in \<open>simp_all add: set_timer_def\<close>)
  with Cons show ?case by (simp add: set_timer_def)
qed simp

lemma hold_timing:
  assumes "pt \<noteq> 0" "tm_prev_input t = go" "tm_timing t" "tm_output t = (\<not> go)" "tm_start t = s"
  shows "tm_output (fold (poll_timer upd pt go) ts t) = go \<longleftrightarrow> (\<exists>b \<in> set ts. pt \<le> ms_diff s (timespec_of_ms b))"
  using assms(2-5)
proof (induction ts arbitrary: t)
  case (Cons b ts)
  define e where "e = ms_diff s (timespec_of_ms b)"
  have t': "poll_timer upd pt go b t = (if pt \<le> e
      then (set_timer go pt t)\<lparr>ET := e, tm_output := go, tm_timing := False\<rparr>
      else (set_timer go pt t)\<lparr>ET := e\<rparr>)"
    unfolding poll_timer_def
    by (subst poll_delay) (use assms(1) Cons.prems in \<open>simp_all add: set_timer_def e_def Let_def\<close>)
  show ?case
  proof (cases "pt \<le> e")
    case True
    then have "tm_output (fold (poll_timer upd pt go) (b # ts) t) = go"
      using hold_expired [OF assms(1), of "poll_timer upd pt go b t" ts] Cons.prems
      by (simp add: t' set_timer_def)
    with True show ?thesis by (auto simp: e_def)
  next
    case False
    with Cons.IH [of "poll_timer upd pt go b t"] Cons.prems show ?thesis
      by (simp add: t' set_timer_def e_def)
  qed
qed simp

text \<open>Holding the input at \<open>go\<close> from the time \<open>a\<close> on.\<close>

lemma hold_from:
  assumes "pt \<noteq> 0" "tm_prev_input t \<noteq> go" "tm_output t = (\<not> go)"
  shows "tm_output (fold (poll_timer upd pt go) (a # ts) t) = go \<longleftrightarrow>
    (\<exists>b \<in> set ts. pt \<le> ms_diff (timespec_of_ms a) (timespec_of_ms b))"
proof -
  have "poll_timer upd pt go a t = (set_timer go pt t)\<lparr>tm_start := timespec_of_ms a, tm_timing := True, ET := 0,
      tm_prev_input := go\<rparr>"
    unfolding poll_timer_def by (rule begin_delay) (use assms in \<open>simp_all add: set_timer_def\<close>)
  with hold_timing [OF assms(1), of "poll_timer upd pt go a t" "timespec_of_ms a" ts] assms show ?thesis
    by (simp add: set_timer_def)
qed

lemma release:
  assumes "pt \<noteq> 0"
  shows "tm_output (poll_timer upd pt (\<not> go) now t) = (\<not> go)" "ET (poll_timer upd pt (\<not> go) now t) = 0"
    "tm_prev_input (poll_timer upd pt (\<not> go) now t) = (\<not> go)"
  unfolding poll_timer_def by (subst idle; use assms in \<open>simp add: set_timer_def\<close>)+

end

interpretation ton: delay_timer update_ton True
  by unfold_locales (auto simp: update_ton_def Let_def)

interpretation tof: delay_timer update_tof False
  by unfold_locales (auto simp: update_tof_def Let_def)

section \<open>Scans of the machine\<close>

text \<open>
  A scan executes the timer instruction of instance \<open>k\<close> once, at the virtual time \<open>now\<close>.
\<close>

definition ton_scan :: "u8 \<Rightarrow> u32 \<Rightarrow> bool \<Rightarrow> u64 \<Rightarrow> vm_state \<Rightarrow> vm_state" where
  "ton_scan k pt inp now vm = ton_set (vm\<lparr>time_ms := now\<rparr>) k inp pt"

definition tof_scan :: "u8 \<Rightarrow> u32 \<Rightarrow> bool \<Rightarrow> u64 \<Rightarrow> vm_state \<Rightarrow> vm_state" where
  "tof_scan k pt inp now vm = tof_set (vm\<lparr>time_ms := now\<rparr>) k inp pt"

lemma ton_scans:
  assumes "id_ok k" "length (ton_timers vm) = MAX_TIMERS"
  shows "length (ton_timers (fold (ton_scan k pt inp) ts vm)) = MAX_TIMERS \<and>
    ton_timers (fold (ton_scan k pt inp) ts vm) ! unat k =
    fold (poll_timer update_ton pt inp) ts (ton_timers vm ! unat k)"
  using assms(2)
proof (induction ts arbitrary: vm)
  case (Cons b ts)
  have "ton_timers (ton_scan k pt inp b vm) =
      (ton_timers vm)[unat k := poll_timer update_ton pt inp b (ton_timers vm ! unat k)]"
    using assms(1) by (simp add: ton_scan_def ton_set_def poll_timer_def Let_def)
  with Cons assms(1) show ?case by (simp add: id_ok_def)
qed simp

lemma tof_scans:
  assumes "id_ok k" "length (tof_timers vm) = MAX_TIMERS"
  shows "length (tof_timers (fold (tof_scan k pt inp) ts vm)) = MAX_TIMERS \<and>
    tof_timers (fold (tof_scan k pt inp) ts vm) ! unat k =
    fold (poll_timer update_tof pt inp) ts (tof_timers vm ! unat k)"
  using assms(2)
proof (induction ts arbitrary: vm)
  case (Cons b ts)
  have "tof_timers (tof_scan k pt inp b vm) =
      (tof_timers vm)[unat k := poll_timer update_tof pt inp b (tof_timers vm ! unat k)]"
    using assms(1) by (simp add: tof_scan_def tof_set_def poll_timer_def Let_def)
  with Cons assms(1) show ?case by (simp add: id_ok_def)
qed simp

text \<open>Times at which \<open>ms_diff\<close> from \<open>a\<close> is exact.\<close>

definition exact_since :: "u64 \<Rightarrow> u64 \<Rightarrow> bool" where
  "exact_since a b \<longleftrightarrow> a \<le> b \<and> a mod 1000 \<le> b mod 1000 \<and> unat b - unat a < 4294967296"

lemma ms_diff_exact_since:
  "exact_since a b \<Longrightarrow> pt \<le> ms_diff (timespec_of_ms a) (timespec_of_ms b) \<longleftrightarrow> unat pt \<le> unat b - unat a"
  by (simp add: exact_since_def ms_diff_exact word_le_nat_alt)

text \<open>The comparison of the preset with the measured time, for any two times.\<close>

lemma preset_elapsed:
  "pt \<le> ms_diff (timespec_of_ms a) (timespec_of_ms b) \<longleftrightarrow>
   uint pt \<le> (uint b - uint a + (if b mod 1000 < a mod 1000 then 4154504685 else 0)) mod 4294967296"
proof -
  have "uint (ucast (b - a) :: u32) = (uint b - uint a) mod 4294967296"
    by (simp add: unsigned_ucast_eq uint_word_ariths take_bit_eq_mod mod_mod_cancel)
  then have "uint (ms_diff (timespec_of_ms a) (timespec_of_ms b)) =
      (uint b - uint a + (if b mod 1000 < a mod 1000 then 4154504685 else 0)) mod 4294967296"
    by (simp add: ms_diff_elapsed uint_word_ariths mod_simps)
  then show ?thesis by (simp add: word_le_def)
qed

text \<open>
  C10 (functional).  On-delay, for any times of the scans: when the input of an idle TON turns on at the time \<open>a\<close> and stays
  on for the scans at the times \<open>ts\<close>, the output is on at the end exactly if the preset had elapsed at some scan in the
  measure of the timer: the milliseconds since \<open>a\<close>, plus 4154504685 at a scan that lies at a smaller fraction of its
  second than \<open>a\<close>, modulo \<open>2 ^ 32\<close>.  That measure is the true time, and the output is on exactly if some scan found the preset
  elapsed, if no scan lies at a smaller fraction and all lie within 49 days behind \<open>a\<close>.
\<close>

theorem ton_on_delay:
  assumes "vm_wf vm" "id_ok k" "pt \<noteq> 0"
    and "\<not> tm_prev_input (ton_timers vm ! unat k)" "\<not> ton_Q vm k"
  shows "(ton_Q (fold (ton_scan k pt True) (a # ts) vm) k \<longleftrightarrow> (\<exists>b \<in> set ts.
      uint pt \<le> (uint b - uint a + (if b mod 1000 < a mod 1000 then 4154504685 else 0)) mod 4294967296)) \<and>
    ((\<forall>b \<in> set ts. exact_since a b) \<longrightarrow>
      (ton_Q (fold (ton_scan k pt True) (a # ts) vm) k \<longleftrightarrow> (\<exists>b \<in> set ts. unat pt \<le> unat b - unat a)))"
proof -
  have "length (ton_timers vm) = MAX_TIMERS" using assms(1) by (simp add: vm_wf_def)
  with ton_scans [OF assms(2)] ton.hold_from [OF assms(3), of "ton_timers vm ! unat k" a ts] assms(2,4,5)
  have "ton_Q (fold (ton_scan k pt True) (a # ts) vm) k \<longleftrightarrow>
      (\<exists>b \<in> set ts. pt \<le> ms_diff (timespec_of_ms a) (timespec_of_ms b))"
    by (simp only: ton_Q_def if_True simp_thms if_False)
  then show ?thesis by (auto simp: ms_diff_exact_since simp flip: preset_elapsed)
qed

text \<open>
  Off-delay, the dual: when the input of a TOF with the output on turns off
  at the time \<open>a\<close> and stays off, the output is still on at the end exactly if no scan found
  the preset elapsed, for scans at which the difference of milliseconds is exact.
\<close>

theorem tof_off_delay:
  assumes "vm_wf vm" "id_ok k" "pt \<noteq> 0"
    and "tm_prev_input (tof_timers vm ! unat k)" "tof_Q vm k"
    and "\<forall>b \<in> set ts. exact_since a b"
  shows "tof_Q (fold (tof_scan k pt False) (a # ts) vm) k \<longleftrightarrow> (\<forall>b \<in> set ts. unat b - unat a < unat pt)"
proof -
  have "length (tof_timers vm) = MAX_TIMERS" using assms(1) by (simp add: vm_wf_def)
  with tof_scans [OF assms(2)] tof.hold_from [OF assms(3), of "tof_timers vm ! unat k" a ts] assms(2,4,5)
  have "tof_Q (fold (tof_scan k pt False) (a # ts) vm) k \<longleftrightarrow>
      \<not> (\<exists>b \<in> set ts. pt \<le> ms_diff (timespec_of_ms a) (timespec_of_ms b))"
    by (simp only: tof_Q_def if_True simp_thms if_False) blast
  with assms(6) show ?thesis by (auto simp: ms_diff_exact_since not_le)
qed

text \<open>
  C18 (error).  A scan in a later second, at a smaller millisecond fraction than the start, ends
  the delay at once: for every preset up to 4154504685 ms (48 days) the output of a running TON
  turns on, however little of the preset has elapsed, and \<open>ET\<close> jumps.
\<close>

theorem ton_fires_early:
  assumes "tm_enabled t" "tm_input t" "tm_prev_input t" "tm_timing t"
    and "tm_start t = timespec_of_ms a" "a \<le> b" "b mod 1000 < a mod 1000" "unat b - unat a < 140462611"
    and "preset_ms t \<noteq> 0" "unat (preset_ms t) \<le> 4154504685"
  shows "tm_output (update_ton b t) \<and>
    unat (ET (update_ton b t)) = (unat b - unat a) + 4154504685"
proof -
  define e where "e = ms_diff (timespec_of_ms a) (timespec_of_ms b)"
  have "unat (ucast (b - a) :: u32) = unat b - unat a"
    using assms(6,8) by (simp add: unsigned_ucast_eq take_bit_nat_eq_self unat_sub)
  then have e: "unat e = unat b - unat a + 4154504685"
    using assms(7,8) by (simp add: e_def ms_diff_elapsed unat_word_ariths)
  then have "preset_ms t \<le> e"
    using assms(10) by (simp add: word_le_nat_alt)
  with e show ?thesis
    using assms by (simp add: update_ton_def Let_def flip: e_def)
qed

text \<open>Polls of a pulse timer that is running.\<close>

lemma tp_poll_running:
  fixes b :: u64
  assumes "pt \<noteq> 0" "tm_timing t" "tm_output t" "inp \<longrightarrow> tm_prev_input t"
  defines "e \<equiv> ms_diff (tm_start t) (timespec_of_ms b)"
  shows "poll_timer update_tp pt inp b t =
    (if pt \<le> e then (set_timer inp pt t)\<lparr>ET := e, tm_output := False, tm_timing := False, tm_prev_input := inp\<rparr>
     else (set_timer inp pt t)\<lparr>ET := e, tm_prev_input := inp\<rparr>)"
  using assms by (auto simp: poll_timer_def update_tp_def set_timer_def Let_def)

lemma tp_poll_over:
  assumes "pt \<noteq> 0" "\<not> tm_timing t" "inp \<longrightarrow> tm_prev_input t"
  shows "poll_timer update_tp pt inp b t = (set_timer inp pt t)\<lparr>tm_prev_input := inp\<rparr>"
  using assms by (auto simp: poll_timer_def update_tp_def set_timer_def Let_def)

text \<open>The input may drop during the pulse but does not rise again.\<close>

fun no_rise :: "bool \<Rightarrow> (u64 \<times> bool) list \<Rightarrow> bool" where
  "no_rise prev [] \<longleftrightarrow> True"
| "no_rise prev ((b, inp) # ps) \<longleftrightarrow> (inp \<longrightarrow> prev) \<and> no_rise inp ps"

definition tp_polls :: "u32 \<Rightarrow> (u64 \<times> bool) list \<Rightarrow> IEC_Timer \<Rightarrow> IEC_Timer" where
  "tp_polls pt = fold (\<lambda>(b, inp). poll_timer update_tp pt inp b)"

lemma tp_polls_over:
  "pt \<noteq> 0 \<Longrightarrow> \<not> tm_timing t \<Longrightarrow> no_rise (tm_prev_input t) ps \<Longrightarrow> tm_output (tp_polls pt ps t) = tm_output t"
proof (induction ps arbitrary: t)
  case (Cons p ps)
  obtain b inp where p: "p = (b, inp)" by fastforce
  have "poll_timer update_tp pt inp b t = (set_timer inp pt t)\<lparr>tm_prev_input := inp\<rparr>"
    by (rule tp_poll_over) (use Cons.prems p in auto)
  with Cons.IH [of "poll_timer update_tp pt inp b t"] Cons.prems p show ?case
    by (simp add: tp_polls_def set_timer_def)
qed (simp add: tp_polls_def)

lemma tp_polls_running:
  "pt \<noteq> 0 \<Longrightarrow> tm_timing t \<Longrightarrow> tm_output t \<Longrightarrow> no_rise (tm_prev_input t) ps \<Longrightarrow>
   tm_output (tp_polls pt ps t) \<longleftrightarrow> (\<forall>(b, inp) \<in> set ps. ms_diff (tm_start t) (timespec_of_ms b) < pt)"
proof (induction ps arbitrary: t)
  case (Cons p ps)
  obtain b inp where p: "p = (b, inp)" by fastforce
  define e where "e = ms_diff (tm_start t) (timespec_of_ms b)"
  have step: "poll_timer update_tp pt inp b t =
      (if pt \<le> e then (set_timer inp pt t)\<lparr>ET := e, tm_output := False, tm_timing := False, tm_prev_input := inp\<rparr>
       else (set_timer inp pt t)\<lparr>ET := e, tm_prev_input := inp\<rparr>)"
    unfolding e_def by (rule tp_poll_running) (use Cons.prems p in auto)
  have run: "tp_polls pt (p # ps) t = tp_polls pt ps (poll_timer update_tp pt inp b t)"
    by (simp add: tp_polls_def p)
  show ?case
  proof (cases "pt \<le> e")
    case True
    have "\<not> tm_output (tp_polls pt (p # ps) t)"
      unfolding run by (subst tp_polls_over) (use Cons.prems p True in \<open>auto simp: step\<close>)
    with True show ?thesis by (auto simp: p e_def)
  next
    case False
    have "tm_output (tp_polls pt (p # ps) t) \<longleftrightarrow>
        (\<forall>(b, inp) \<in> set ps. ms_diff (tm_start t) (timespec_of_ms b) < pt)"
      unfolding run using Cons.IH [of "poll_timer update_tp pt inp b t"] Cons.prems p False
      by (simp add: step set_timer_def)
    with False show ?thesis by (auto simp: p e_def)
  qed
qed (simp add: tp_polls_def)

text \<open>
  Pulse: a rising edge at the time \<open>a\<close> turns the output of a TP on, and it
  stays on until the first scan that finds the preset elapsed, whether the input stays on or
  is released during the pulse; again for scans at which the difference of milliseconds is exact.
\<close>

theorem tp_pulse:
  assumes "pt \<noteq> 0" "\<not> tm_prev_input t" "no_rise True ps" "\<forall>(b, inp) \<in> set ps. exact_since a b"
  shows "tm_output (tp_polls pt ((a, True) # ps) t) \<longleftrightarrow> (\<forall>(b, inp) \<in> set ps. unat b - unat a < unat pt)"
proof -
  have start: "poll_timer update_tp pt True a t =
      (set_timer True pt t)\<lparr>tm_start := timespec_of_ms a, tm_timing := True, tm_output := True, ET := 0,
        tm_prev_input := True\<rparr>"
    using assms(1,2) by (simp add: poll_timer_def update_tp_def set_timer_def Let_def)
  have "tm_output (tp_polls pt ((a, True) # ps) t) \<longleftrightarrow>
      (\<forall>(b, inp) \<in> set ps. ms_diff (timespec_of_ms a) (timespec_of_ms b) < pt)"
    using tp_polls_running [of pt "poll_timer update_tp pt True a t" ps] assms(1,3)
    by (simp add: start tp_polls_def)
  also have "\<dots> \<longleftrightarrow> (\<forall>(b, inp) \<in> set ps. unat b - unat a < unat pt)"
  proof (rule ball_cong)
    fix p assume "p \<in> set ps"
    with assms(4) have "exact_since a (fst p)" by auto
    from ms_diff_exact_since [OF this, of pt]
    show "(case p of (b, inp) \<Rightarrow> ms_diff (timespec_of_ms a) (timespec_of_ms b) < pt) =
        (case p of (b, inp) \<Rightarrow> unat b - unat a < unat pt)"
      by (simp add: case_prod_beta not_le flip: linorder_not_le)
  qed simp
  finally show ?thesis .
qed

definition tonr_scans :: "u32 \<Rightarrow> (u64 \<times> bool) list \<Rightarrow> IEC_Timer \<Rightarrow> IEC_Timer" where
  "tonr_scans pt = fold (\<lambda>(b, inp). poll_timer update_tonr pt inp b)"

lemma tonr_on:
  assumes "tm_input t" "tm_enabled t" "tm_timing t" "tm_prev_input t"
    and "ET t + ms_diff (tm_start t) (timespec_of_ms b) < preset_ms t"
  shows "update_tonr b t = t\<lparr>ET := ET t + ms_diff (tm_start t) (timespec_of_ms b), tm_start := timespec_of_ms b\<rparr>"
  using assms by (simp add: update_tonr_def Let_def)

lemma tonr_rise:
  assumes "tm_input t" "tm_enabled t" "\<not> tm_prev_input t" "ET t < preset_ms t"
  shows "update_tonr b t = t\<lparr>tm_start := timespec_of_ms b, tm_timing := True, tm_prev_input := True\<rparr>"
  using assms by (simp add: update_tonr_def Let_def)

lemma tonr_off:
  "\<not> tm_input t \<Longrightarrow> tm_enabled t \<Longrightarrow> update_tonr b t = t\<lparr>tm_prev_input := False\<rparr>"
  by (simp add: update_tonr_def Let_def)

text \<open>
  A retentive on-delay timer adds up the time its input is on: on from \<open>a\<close>
  to \<open>b\<close>, off at \<open>c\<close>, on again from \<open>d\<close> to \<open>e\<close>, it holds the sum of both spans on top of
  what it held before, the time off not counted, as long as the preset is not reached and the differences of milliseconds are exact.
\<close>

theorem tonr_accumulates:
  assumes "\<not> tm_prev_input t" "exact_since a b" "exact_since d e"
    and "unat (ET t) + (unat b - unat a) + (unat e - unat d) < unat pt"
  shows "unat (ET (tonr_scans pt [(a, True), (b, True), (c, False), (d, True), (e, True)] t)) =
      unat (ET t) + (unat b - unat a) + (unat e - unat d) \<and>
    tm_output (tonr_scans pt [(a, True), (b, True), (c, False), (d, True), (e, True)] t) = tm_output t"
proof -
  define x y where "x = ms_diff (timespec_of_ms a) (timespec_of_ms b)"
    and "y = ms_diff (timespec_of_ms d) (timespec_of_ms e)"
  have xy: "unat x = unat b - unat a" "unat y = unat e - unat d"
    using assms(2,3) by (simp_all add: x_def y_def exact_since_def ms_diff_exact)
  have pt: "unat pt < 4294967296" by (rule unat_u32_less)
  then have s1: "unat (ET t + x) = unat (ET t) + unat x"
    using assms(4) xy by (intro unat_add_u32) simp
  then have s2: "unat (ET t + x + y) = unat (ET t) + unat x + unat y"
    using assms(4) xy pt by (subst unat_add_u32) simp_all
  have lt: "ET t < pt" "ET t + x < pt" "ET t + x + y < pt"
    using assms(4) xy s1 s2 by (simp_all add: word_less_nat_alt)
  have "tonr_scans pt [(a, True), (b, True), (c, False), (d, True), (e, True)] t =
      (set_timer True pt t)\<lparr>tm_start := timespec_of_ms e, tm_timing := True, tm_prev_input := True,
        ET := ET t + x + y\<rparr>"
    using lt assms(1)
    by (simp add: tonr_scans_def poll_timer_def set_timer_def tonr_rise tonr_on tonr_off flip: x_def y_def)
  with s2 xy show ?thesis by (simp add: set_timer_def)
qed

section \<open>Instances\<close>

theorem ton_on_delay_witness:
  "ton_Q (fold (ton_scan 3 500 True) [1000, 1200, 1500, 1600] vm_zero) 3 \<and>
   ton_Q (fold (ton_scan 3 10000 True) [1900, 1950, 2100] vm_zero) 3 \<and>
   \<not> ton_Q (fold (ton_scan 3 10000 True) [1900, 1950, 2950] vm_zero) 3"
proof -
  have z: "ton_timers vm_zero ! 3 = zero_timer"
    by (simp add: vm_zero_def)
  show ?thesis
    using ton_on_delay [of vm_zero 3 500 1000 "[1200, 1500, 1600]"]
      ton_on_delay [of vm_zero 3 10000 1900 "[1950, 2100]"] ton_on_delay [of vm_zero 3 10000 1900 "[1950, 2950]"]
    by (simp add: z id_ok_def zero_timer_def ton_Q_def)
qed

definition vm_tof_on :: vm_state where
  "vm_tof_on = tof_set vm_zero 3 True 500"

theorem tof_off_delay_witness:
  "tof_Q (fold (tof_scan 3 500 False) [1000, 1200, 1499] vm_tof_on) 3"
proof -
  have z: "tof_timers vm_zero ! 3 = zero_timer" "length (tof_timers vm_zero) = 16"
    by (simp_all add: vm_zero_def)
  then have t: "tof_timers vm_tof_on ! 3 =
      zero_timer\<lparr>tm_enabled := True, tm_input := True, tm_output := True, tm_prev_input := True, preset_ms := 500\<rparr>"
    by (simp add: vm_tof_on_def tof_set_def id_ok_def update_tof_def set_timer_def Let_def zero_timer_def)
  have "vm_wf vm_tof_on"
    using vm_wf_zero by (simp add: vm_tof_on_def tof_set_def id_ok_def vm_wf_def Let_def)
  then show ?thesis
    using tof_off_delay [of vm_tof_on 3 500 "[1200, 1499]" 1000]
    by (simp add: t id_ok_def tof_Q_def exact_since_def)
qed

theorem ton_fires_early_witness:
  "tm_output (update_ton 2100 (zero_timer\<lparr>tm_enabled := True, tm_input := True, tm_prev_input := True,
     tm_timing := True, tm_start := timespec_of_ms 1900, preset_ms := 10000\<rparr>))"
  using ton_fires_early [of "zero_timer\<lparr>tm_enabled := True, tm_input := True, tm_prev_input := True,
     tm_timing := True, tm_start := timespec_of_ms 1900, preset_ms := 10000\<rparr>" 1900 2100]
  by simp

theorem tp_pulse_witness:
  "tm_output (tp_polls 500 [(1000, True), (1100, True), (1300, False)] zero_timer)"
  using tp_pulse [of 500 zero_timer "[(1100, True), (1300, False)]" 1000]
  by (simp add: zero_timer_def exact_since_def)

theorem tonr_accumulates_witness:
  "unat (ET (tonr_scans 500 [(1000, True), (1100, True), (1200, False), (2300, True), (2450, True)] zero_timer)) = 250"
  using tonr_accumulates [of zero_timer 1000 1100 2300 2450 500 1200]
  by (simp add: zero_timer_def exact_since_def)

end
