(* ===== verification/Ops_IEC.thy ===== *)
theory Ops_IEC
  imports Instr Timers
begin

text \<open>
  The handlers of \<open>funcs.c\<close> that keep state between scans (timers, counters, edge detectors,
  latches), the selection handlers LIMIT, SEL, MUX and DEMUX, the jumps, and HALT, NOP and EXIT.
  The locale \<open>edge_counter\<close> is the contract of the two one-input counters, \<open>edge_detector\<close>
  that of the three edge detectors.
\<close>

section \<open>Timers\<close>

definition op_ton :: "vm_state \<Rightarrow> u32 \<Rightarrow> vm_state" where
  "op_ton vm i =
     (if \<not> FIMM i then vm else
      let k = ucast (IMM8 i) :: u8 in
      if MAX_TIMERS \<le> unat k then vm else
      let inp = (reg vm (RB i) \<noteq> 0);
          pt = reg vm (ucast (RC i));
          vm = ton_set vm k inp pt
      in vm\<lparr>reg := (reg vm)(RA i := if ton_Q vm k then 1 else 0)\<rparr>)"

definition op_tof :: "vm_state \<Rightarrow> u32 \<Rightarrow> vm_state" where
  "op_tof vm i =
     (if \<not> FIMM i then vm else
      let k = ucast (IMM8 i) :: u8 in
      if MAX_TIMERS \<le> unat k then vm else
      let inp = (reg vm (RB i) \<noteq> 0);
          pt = reg vm (ucast (RC i));
          vm = tof_set vm k inp pt
      in vm\<lparr>reg := (reg vm)(RA i := if tof_Q vm k then 1 else 0)\<rparr>)"

definition op_tp :: "vm_state \<Rightarrow> u32 \<Rightarrow> vm_state" where
  "op_tp vm i =
     (if \<not> FIMM i then vm else
      let k = ucast (IMM8 i) :: u8 in
      if MAX_TIMERS \<le> unat k then vm else
      let inp = (reg vm (RB i) \<noteq> 0);
          pt = reg vm (ucast (RC i));
          vm = tp_set vm k inp pt
      in vm\<lparr>reg := (reg vm)(RA i := if tp_Q vm k then 1 else 0)\<rparr>)"

section \<open>Counters\<close>

definition op_ctu :: "vm_state \<Rightarrow> u32 \<Rightarrow> vm_state" where
  "op_ctu vm i =
     (let w = reg vm (RA i); k = unat w in
      if bad_id w then vm else
      let inp = (reg vm (RB i) \<noteq> 0);
          preset = Cv_or_imm vm i;
          rising = (inp \<and> \<not> ctu_prev_input vm ! k);
          c = ctu_counters vm ! k;
          c = (if rising \<and> ct_value c < 0xFFFFFFFF then c\<lparr>ct_value := ct_value c + 1\<rparr> else c);
          vm = vm\<lparr>ctu_counters := (ctu_counters vm)[k := c]\<rparr>;
          vm = vm\<lparr>ctu_prev_input := (ctu_prev_input vm)[k := inp]\<rparr>
      in vm\<lparr>reg := (reg vm)(RA i := if preset \<le> ct_value (ctu_counters vm ! k) then 1 else 0)\<rparr>)"

definition op_ctd :: "vm_state \<Rightarrow> u32 \<Rightarrow> vm_state" where
  "op_ctd vm i =
     (let w = reg vm (RA i); k = unat w in
      if bad_id w then vm else
      let inp = (reg vm (RB i) \<noteq> 0);
          preset = Cv_or_imm vm i;
          rising = (inp \<and> \<not> ctd_prev_input vm ! k);
          c = ctd_counters vm ! k;
          c = (if rising \<and> 0 < ct_value c then c\<lparr>ct_value := ct_value c - 1\<rparr> else c);
          vm = vm\<lparr>ctd_counters := (ctd_counters vm)[k := c]\<rparr>;
          vm = vm\<lparr>ctd_prev_input := (ctd_prev_input vm)[k := inp]\<rparr>
      in vm\<lparr>reg := (reg vm)(RA i := if ct_value (ctd_counters vm ! k) \<le> preset then 1 else 0)\<rparr>)"

definition op_ctud :: "vm_state \<Rightarrow> u32 \<Rightarrow> vm_state" where
  "op_ctud vm i =
     (let w = reg vm (RA i); k = unat w in
      if bad_id w then vm else
      let up = (reg vm (RB i) \<noteq> 0);
          down = (reg vm (ucast (RC i)) \<noteq> 0);
          up_rising = (up \<and> \<not> ctud_prev_up vm ! k);
          down_rising = (down \<and> \<not> ctud_prev_down vm ! k);
          c = ctud_counters vm ! k;
          c = (if up_rising \<and> ct_value c < 0xFFFFFFFF then c\<lparr>ct_value := ct_value c + 1\<rparr> else c);
          c = (if down_rising \<and> 0 < ct_value c then c\<lparr>ct_value := ct_value c - 1\<rparr> else c);
          vm = vm\<lparr>ctud_counters := (ctud_counters vm)[k := c]\<rparr>;
          vm = vm\<lparr>ctud_prev_up := (ctud_prev_up vm)[k := up]\<rparr>;
          vm = vm\<lparr>ctud_prev_down := (ctud_prev_down vm)[k := down]\<rparr>
      in vm\<lparr>reg := (reg vm)(RA i := ct_value (ctud_counters vm ! k))\<rparr>)"

text \<open>\<open>vm_counters_reset\<close>, which the unit tests use.\<close>

definition vm_counters_reset_at :: "nat \<Rightarrow> vm_state \<Rightarrow> vm_state" where
  "vm_counters_reset_at k vm = vm\<lparr>
     ctu_counters := (ctu_counters vm)[k := zero_counter],
     ctd_counters := (ctd_counters vm)[k := zero_counter],
     ctud_counters := (ctud_counters vm)[k := zero_counter],
     ctu_prev_input := (ctu_prev_input vm)[k := False],
     ctd_prev_input := (ctd_prev_input vm)[k := False],
     ctud_prev_up := (ctud_prev_up vm)[k := False],
     ctud_prev_down := (ctud_prev_down vm)[k := False]\<rparr>"

definition vm_counters_reset :: "vm_state \<Rightarrow> vm_state" where
  "vm_counters_reset vm = fold vm_counters_reset_at [0..<MAX_TIMERS] vm"

section \<open>Selection\<close>

definition op_limit :: "vm_state \<Rightarrow> u32 \<Rightarrow> vm_state" where
  "op_limit vm i =
     (let x = reg vm (RA i);
          lo = Bv vm i;
          hi = Cv_or_imm vm i;
          x = (if x < lo then lo else x);
          x = (if hi < x then hi else x)
      in SetA_val vm i x)"

definition op_sel :: "vm_state \<Rightarrow> u32 \<Rightarrow> vm_state res" where
  "op_sel vm i =
     (let cond = Bv vm i;
          base = reg vm (ucast (RC i)) in
      if VM_MEM_BYTES \<le> unat base then Inr (SetA_val vm i 0) else
      bindR (if unat base + 4 \<le> VM_MEM_BYTES then vm_mr32 vm base else Inr 0) (\<lambda>v1.
      bindR (if unat base + 8 \<le> VM_MEM_BYTES then vm_mr32 vm (base + 4) else Inr 0) (\<lambda>v2.
      Inr (SetA_val vm i (if cond \<noteq> 0 then v1 else v2)))))"

definition element_addr :: "u32 \<Rightarrow> u32 \<Rightarrow> u64" where
  "element_addr base idx = ucast base + ucast idx * 4"

definition op_mux :: "vm_state \<Rightarrow> u32 \<Rightarrow> vm_state res" where
  "op_mux vm i =
     (let addr = element_addr (Bv vm i) (Cv_or_imm vm i) in
      if VM_MEM_BYTES < unat (addr + 4) then Inr (SetA_val vm i 0)
      else bindR (vm_mr32 vm (ucast addr)) (\<lambda>v. Inr (SetA_val vm i v)))"

definition op_demux :: "vm_state \<Rightarrow> u32 \<Rightarrow> vm_state res" where
  "op_demux vm i =
     (let addr = element_addr (Bv vm i) (Cv_or_imm vm i) in
      if VM_MEM_BYTES < unat (addr + 4) then Inr vm
      else vm_mw32 vm (ucast addr) (reg vm (RA i)))"

section \<open>Edge detectors and latches\<close>

definition edge_id :: "vm_state \<Rightarrow> u32 \<Rightarrow> u32" where
  "edge_id vm i = (if FIMM i then IMM8 i else reg vm (RA i))"

definition op_rising_edge :: "vm_state \<Rightarrow> u32 \<Rightarrow> vm_state" where
  "op_rising_edge vm i =
     (let w = edge_id vm i; k = unat w in
      if bad_id w then SetA_val vm i 0 else
      let inp = (Bv vm i \<noteq> 0);
          prev = edge_prev_rising vm ! k;
          rising = (inp \<and> \<not> prev);
          vm = vm\<lparr>edge_prev_rising := (edge_prev_rising vm)[k := inp]\<rparr>
      in SetA_val vm i (if rising then 1 else 0))"

definition op_falling_edge :: "vm_state \<Rightarrow> u32 \<Rightarrow> vm_state" where
  "op_falling_edge vm i =
     (let w = edge_id vm i; k = unat w in
      if bad_id w then SetA_val vm i 0 else
      let inp = (Bv vm i \<noteq> 0);
          prev = edge_prev_falling vm ! k;
          falling = (\<not> inp \<and> prev);
          vm = vm\<lparr>edge_prev_falling := (edge_prev_falling vm)[k := inp]\<rparr>
      in SetA_val vm i (if falling then 1 else 0))"

definition op_edge_both :: "vm_state \<Rightarrow> u32 \<Rightarrow> vm_state" where
  "op_edge_both vm i =
     (let w = edge_id vm i; k = unat w in
      if bad_id w then SetA_val vm i 0 else
      let inp = (Bv vm i \<noteq> 0);
          prev = edge_prev_both vm ! k;
          changed = (inp \<noteq> prev);
          vm = vm\<lparr>edge_prev_both := (edge_prev_both vm)[k := inp]\<rparr>
      in SetA_val vm i (if changed then 1 else 0))"

text \<open>The latches take the number of register A, not its value, when there is no immediate.\<close>

definition latch_id :: "u32 \<Rightarrow> u32" where
  "latch_id i = (if FIMM i then IMM8 i else ucast (RA i))"

definition op_rs_latch :: "vm_state \<Rightarrow> u32 \<Rightarrow> vm_state" where
  "op_rs_latch vm i =
     (let w = latch_id i; k = unat w in
      if bad_id w then SetA_val vm i 0 else
      let S = (reg vm (RB i) \<noteq> 0);
          R = (reg vm (ucast (RC i)) \<noteq> 0);
          vm = (if R then vm\<lparr>rs_latches := (rs_latches vm)[k := False]\<rparr>
                else if S then vm\<lparr>rs_latches := (rs_latches vm)[k := True]\<rparr> else vm)
      in SetA_val vm i (if rs_latches vm ! k then 1 else 0))"

definition op_sr_latch :: "vm_state \<Rightarrow> u32 \<Rightarrow> vm_state" where
  "op_sr_latch vm i =
     (let w = latch_id i; k = unat w in
      if bad_id w then SetA_val vm i 0 else
      let S = (reg vm (RB i) \<noteq> 0);
          R = (reg vm (ucast (RC i)) \<noteq> 0);
          vm = (if S then vm\<lparr>sr_latches := (sr_latches vm)[k := True]\<rparr>
                else if R then vm\<lparr>sr_latches := (sr_latches vm)[k := False]\<rparr> else vm)
      in SetA_val vm i (if sr_latches vm ! k then 1 else 0))"

section \<open>Control\<close>

definition jump_target :: "vm_state \<Rightarrow> u32 \<Rightarrow> u32" where
  "jump_target vm i = (if FIMM i then SEXTIMM8 i else Bv vm i)"

definition op_jmp :: "vm_state \<Rightarrow> u32 \<Rightarrow> vm_state" where
  "op_jmp vm i = vm\<lparr>PC := jump_target vm i\<rparr>"

definition op_jmp_if :: "vm_state \<Rightarrow> u32 \<Rightarrow> vm_state" where
  "op_jmp_if vm i = (if Cv vm i \<noteq> 0 then vm\<lparr>PC := jump_target vm i\<rparr> else vm)"

definition op_jmp_if_not :: "vm_state \<Rightarrow> u32 \<Rightarrow> vm_state" where
  "op_jmp_if_not vm i = (if Cv vm i = 0 then vm\<lparr>PC := jump_target vm i\<rparr> else vm)"

definition op_halt :: "vm_state \<Rightarrow> u32 \<Rightarrow> vm_state" where
  "op_halt vm i = vm\<lparr>running := False, stop_requested := True\<rparr>"

definition op_nop :: "vm_state \<Rightarrow> u32 \<Rightarrow> vm_state" where
  "op_nop vm i = vm"

definition op_exit :: "vm_state \<Rightarrow> u32 \<Rightarrow> vm_state" where
  "op_exit vm i = vm\<lparr>exit_code := if FIMM i then IMM8 i else ucast (RA i),
     running := False, stop_requested := True\<rparr>"

section \<open>Counters over a run\<close>

text \<open>Rising edges in a sequence of inputs that follows the input \<open>p\<close>.\<close>

fun rises :: "bool \<Rightarrow> bool list \<Rightarrow> nat" where
  "rises p [] = 0"
| "rises p (b # bs) = (if b \<and> \<not> p then 1 else 0) + rises b bs"

locale edge_counter =
  fixes scan :: "bool \<Rightarrow> 's \<Rightarrow> 's" and ok :: "'s \<Rightarrow> bool" and prev :: "'s \<Rightarrow> bool"
    and count :: "'s \<Rightarrow> u32" and tick :: "u32 \<Rightarrow> u32"
  assumes ok_scan: "ok s \<Longrightarrow> ok (scan b s)"
    and prev_scan: "ok s \<Longrightarrow> prev (scan b s) = b"
    and count_scan: "ok s \<Longrightarrow> count (scan b s) = (if b \<and> \<not> prev s then tick (count s) else count s)"
begin

lemma ok_run: "ok s \<Longrightarrow> ok (fold scan bs s)"
  by (induction bs arbitrary: s) (simp_all add: ok_scan)

lemma count_run: "ok s \<Longrightarrow> count (fold scan bs s) = (tick ^^ rises (prev s) bs) (count s)"
proof (induction bs arbitrary: s)
  case (Cons b bs)
  then show ?case
    by (simp add: ok_scan prev_scan count_scan funpow_swap1)
qed simp

lemma prev_run: "ok s \<Longrightarrow> bs \<noteq> [] \<Longrightarrow> prev (fold scan bs s) = last bs"
proof (induction bs arbitrary: s rule: rev_induct)
  case (snoc b bs)
  then show ?case by (simp add: prev_scan ok_run)
qed simp

end

definition tick_up :: "u32 \<Rightarrow> u32" where
  "tick_up v = (if v < 0xFFFFFFFF then v + 1 else v)"

definition tick_down :: "u32 \<Rightarrow> u32" where
  "tick_down v = (if 0 < v then v - 1 else v)"

lemma unat_tick_up: "unat (tick_up v) = min 4294967295 (unat v + 1)"
proof (cases "v < 0xFFFFFFFF")
  case True
  then have "unat v < 4294967295" by (simp add: word_less_nat_alt)
  then show ?thesis using True by (simp add: tick_up_def unat_word_ariths)
next
  case False
  then have "4294967295 \<le> unat v" by (simp add: word_less_nat_alt)
  then show ?thesis using False unat_u32_less [of v] by (simp add: tick_up_def)
qed

lemma unat_tick_down: "unat (tick_down v) = unat v - 1"
proof (cases "v = 0")
  case False
  then have "1 \<le> v" by (simp add: word_le_nat_alt unat_gt_0 Suc_leI)
  then show ?thesis using False by (simp add: tick_down_def unat_sub word_gt_0)
qed (simp add: tick_down_def)

lemma tick_up_run: "unat ((tick_up ^^ n) v) = min 4294967295 (unat v + n)"
  using unat_u32_less [of v] by (induction n) (auto simp: unat_tick_up)

lemma tick_down_run: "unat ((tick_down ^^ n) v) = unat v - n"
  by (induction n) (simp_all add: unat_tick_down)

text \<open>
  One scan of a counter: the program loads the instance number into register A and the input
  into register B and executes the instruction.
\<close>

definition load_AB :: "u32 \<Rightarrow> u32 \<Rightarrow> bool \<Rightarrow> vm_state \<Rightarrow> vm_state" where
  "load_AB i w b vm = vm\<lparr>reg := (reg vm)(RA i := w, RB i := b2w b)\<rparr>"

definition ctu_scan :: "u32 \<Rightarrow> u32 \<Rightarrow> bool \<Rightarrow> vm_state \<Rightarrow> vm_state" where
  "ctu_scan w i b vm = op_ctu (load_AB i w b vm) i"

definition ctd_scan :: "u32 \<Rightarrow> u32 \<Rightarrow> bool \<Rightarrow> vm_state \<Rightarrow> vm_state" where
  "ctd_scan w i b vm = op_ctd (load_AB i w b vm) i"

definition counter_ok :: "u32 \<Rightarrow> u32 \<Rightarrow> vm_state \<Rightarrow> bool" where
  "counter_ok w i vm \<longleftrightarrow> vm_wf vm \<and> RA i \<noteq> RB i \<and> unat w < 16"

lemma ctu_scan_simps:
  assumes "counter_ok w i vm"
  shows "ctu_counters (ctu_scan w i b vm) = (ctu_counters vm)[unat w :=
      (ctu_counters vm ! unat w)\<lparr>ct_value := if b \<and> \<not> ctu_prev_input vm ! unat w
        then tick_up (ct_value (ctu_counters vm ! unat w)) else ct_value (ctu_counters vm ! unat w)\<rparr>]"
    "ctu_prev_input (ctu_scan w i b vm) = (ctu_prev_input vm)[unat w := b]"
    "vm_wf (ctu_scan w i b vm)"
  using assms
  by (simp_all add: counter_ok_def ctu_scan_def load_AB_def op_ctu_def bad_id_iff Let_def tick_up_def vm_wf_def)

lemma ctd_scan_simps:
  assumes "counter_ok w i vm"
  shows "ctd_counters (ctd_scan w i b vm) = (ctd_counters vm)[unat w :=
      (ctd_counters vm ! unat w)\<lparr>ct_value := if b \<and> \<not> ctd_prev_input vm ! unat w
        then tick_down (ct_value (ctd_counters vm ! unat w)) else ct_value (ctd_counters vm ! unat w)\<rparr>]"
    "ctd_prev_input (ctd_scan w i b vm) = (ctd_prev_input vm)[unat w := b]"
    "vm_wf (ctd_scan w i b vm)"
  using assms
  by (simp_all add: counter_ok_def ctd_scan_def load_AB_def op_ctd_def bad_id_iff Let_def tick_down_def vm_wf_def)

lemma counter_okD:
  assumes "counter_ok w i vm"
  shows "unat w < 16" "RA i \<noteq> RB i" "vm_wf vm" "length (ctu_counters vm) = 16" "length (ctd_counters vm) = 16"
    "length (ctu_prev_input vm) = 16" "length (ctd_prev_input vm) = 16"
  using assms by (simp_all add: counter_ok_def vm_wf_def)

lemma counter_ok_scan:
  assumes "counter_ok w i vm"
  shows "counter_ok w i (ctu_scan w i b vm)" "counter_ok w i (ctd_scan w i b vm)"
  using counter_okD [OF assms] ctu_scan_simps(3) [OF assms] ctd_scan_simps(3) [OF assms]
  by (simp_all add: counter_ok_def)

interpretation ctu: edge_counter "ctu_scan w i" "counter_ok w i" "\<lambda>vm. ctu_prev_input vm ! unat w"
  "\<lambda>vm. ct_value (ctu_counters vm ! unat w)" tick_up for w i
  by unfold_locales (simp_all add: counter_ok_scan ctu_scan_simps counter_okD)

interpretation ctd: edge_counter "ctd_scan w i" "counter_ok w i" "\<lambda>vm. ctd_prev_input vm ! unat w"
  "\<lambda>vm. ct_value (ctd_counters vm ! unat w)" tick_down for w i
  by unfold_locales (simp_all add: counter_ok_scan ctd_scan_simps counter_okD)

text \<open>
  C36 (functional).  Over any sequence of scans CTU has counted the rising edges of its input
  and stopped at \<open>2^32 - 1\<close>, CTD has counted them down and stopped at 0, whatever the preset
  operand of the instruction is.
\<close>

theorem counters_count_rising_edges:
  assumes "vm_wf vm" "RA i \<noteq> RB i" "unat w < 16"
  shows "unat (ct_value (ctu_counters (fold (ctu_scan w i) bs vm) ! unat w)) =
      min 4294967295 (unat (ct_value (ctu_counters vm ! unat w)) + rises (ctu_prev_input vm ! unat w) bs) \<and>
    unat (ct_value (ctd_counters (fold (ctd_scan w i) bs vm) ! unat w)) =
      unat (ct_value (ctd_counters vm ! unat w)) - rises (ctd_prev_input vm ! unat w) bs"
proof -
  have "counter_ok w i vm" using assms by (simp add: counter_ok_def)
  then show ?thesis
    by (simp only: ctu.count_run ctd.count_run tick_up_run tick_down_run simp_thms)
qed

section \<open>Edge detectors over a run\<close>

text \<open>The outputs a detector with the response \<open>f\<close> gives on a sequence of inputs.\<close>

fun responses :: "(bool \<Rightarrow> bool \<Rightarrow> bool) \<Rightarrow> bool \<Rightarrow> bool list \<Rightarrow> bool list" where
  "responses f p [] = []"
| "responses f p (b # bs) = f p b # responses f b bs"

fun outputs :: "(bool \<Rightarrow> 's \<Rightarrow> 's) \<Rightarrow> ('s \<Rightarrow> u32) \<Rightarrow> bool list \<Rightarrow> 's \<Rightarrow> u32 list" where
  "outputs scan out [] s = []"
| "outputs scan out (b # bs) s = (let s' = scan b s in out s' # outputs scan out bs s')"

locale edge_detector =
  fixes scan :: "bool \<Rightarrow> 's \<Rightarrow> 's" and ok :: "'s \<Rightarrow> bool" and prev :: "'s \<Rightarrow> bool"
    and out :: "'s \<Rightarrow> u32" and response :: "bool \<Rightarrow> bool \<Rightarrow> bool"
  assumes ok_scan: "ok s \<Longrightarrow> ok (scan b s)"
    and prev_scan: "ok s \<Longrightarrow> prev (scan b s) = b"
    and out_scan: "ok s \<Longrightarrow> out (scan b s) = b2w (response (prev s) b)"
begin

lemma outputs_run: "ok s \<Longrightarrow> outputs scan out bs s = map b2w (responses response (prev s) bs)"
  by (induction bs arbitrary: s) (simp_all add: Let_def ok_scan prev_scan out_scan)

end

definition load_B :: "u32 \<Rightarrow> bool \<Rightarrow> vm_state \<Rightarrow> vm_state" where
  "load_B i b vm = vm\<lparr>reg := (reg vm)(RB i := b2w b)\<rparr>"

definition edge_scan :: "(vm_state \<Rightarrow> u32 \<Rightarrow> vm_state) \<Rightarrow> u32 \<Rightarrow> bool \<Rightarrow> vm_state \<Rightarrow> vm_state" where
  "edge_scan opf i b vm = opf (load_B i b vm) i"

definition detector_ok :: "u32 \<Rightarrow> vm_state \<Rightarrow> bool" where
  "detector_ok i vm \<longleftrightarrow> vm_wf vm \<and> FIMM i \<and> unat (IMM8 i) < 16"

lemma detector_okD:
  assumes "detector_ok i vm"
  shows "vm_wf vm" "FIMM i" "unat (IMM8 i) < 16" "length (edge_prev_rising vm) = 16"
    "length (edge_prev_falling vm) = 16" "length (edge_prev_both vm) = 16"
  using assms by (simp_all add: detector_ok_def vm_wf_def)

lemma edge_scans:
  assumes "detector_ok i vm"
  shows "edge_prev_rising (edge_scan op_rising_edge i b vm) = (edge_prev_rising vm)[unat (IMM8 i) := b]"
    "edge_prev_falling (edge_scan op_falling_edge i b vm) = (edge_prev_falling vm)[unat (IMM8 i) := b]"
    "edge_prev_both (edge_scan op_edge_both i b vm) = (edge_prev_both vm)[unat (IMM8 i) := b]"
    "Av (edge_scan op_rising_edge i b vm) i = b2w (b \<and> \<not> edge_prev_rising vm ! unat (IMM8 i))"
    "Av (edge_scan op_falling_edge i b vm) i = b2w (\<not> b \<and> edge_prev_falling vm ! unat (IMM8 i))"
    "Av (edge_scan op_edge_both i b vm) i = b2w (b \<noteq> edge_prev_both vm ! unat (IMM8 i))"
    "detector_ok i (edge_scan op_rising_edge i b vm)"
    "detector_ok i (edge_scan op_falling_edge i b vm)"
    "detector_ok i (edge_scan op_edge_both i b vm)"
  using detector_okD(2,3) [OF assms] detector_okD(1) [OF assms]
  by (simp_all add: edge_scan_def load_B_def op_rising_edge_def op_falling_edge_def op_edge_both_def
      edge_id_def bad_id_iff Let_def Bv_def SetA_val_def Av_def b2w_def [symmetric] detector_ok_def vm_wf_def)

interpretation rising: edge_detector "edge_scan op_rising_edge i" "detector_ok i"
  "\<lambda>vm. edge_prev_rising vm ! unat (IMM8 i)" "\<lambda>vm. Av vm i" "\<lambda>p b. b \<and> \<not> p" for i
  by unfold_locales (simp_all add: edge_scans detector_okD)

interpretation falling: edge_detector "edge_scan op_falling_edge i" "detector_ok i"
  "\<lambda>vm. edge_prev_falling vm ! unat (IMM8 i)" "\<lambda>vm. Av vm i" "\<lambda>p b. \<not> b \<and> p" for i
  by unfold_locales (simp_all add: edge_scans detector_okD)

interpretation both: edge_detector "edge_scan op_edge_both i" "detector_ok i"
  "\<lambda>vm. edge_prev_both vm ! unat (IMM8 i)" "\<lambda>vm. Av vm i" "\<lambda>p b. b \<noteq> p" for i
  by unfold_locales (simp_all add: edge_scans detector_okD)

text \<open>
  C37 (functional).  On any sequence of inputs the three edge detectors with an immediate
  instance number output 1 exactly at the rises, the falls and the changes of the input.
\<close>

theorem edge_detectors_run:
  assumes "vm_wf vm" "FIMM i" "unat (IMM8 i) < 16"
  defines "k \<equiv> unat (IMM8 i)"
  shows "outputs (edge_scan op_rising_edge i) (\<lambda>vm. Av vm i) bs vm =
      map b2w (responses (\<lambda>p b. b \<and> \<not> p) (edge_prev_rising vm ! k) bs) \<and>
    outputs (edge_scan op_falling_edge i) (\<lambda>vm. Av vm i) bs vm =
      map b2w (responses (\<lambda>p b. \<not> b \<and> p) (edge_prev_falling vm ! k) bs) \<and>
    outputs (edge_scan op_edge_both i) (\<lambda>vm. Av vm i) bs vm =
      map b2w (responses (\<lambda>p b. b \<noteq> p) (edge_prev_both vm ! k) bs)"
proof -
  have "detector_ok i vm" using assms by (simp add: detector_ok_def)
  then show ?thesis
    unfolding k_def by (intro conjI rising.outputs_run falling.outputs_run both.outputs_run)
qed

section \<open>Latches\<close>

lemma list_keep: "k < length xs \<Longrightarrow> xs = xs[k := b] \<longleftrightarrow> xs ! k = b"
  by (metis list_update_id nth_list_update_eq)

text \<open>
  Latch priority: with both inputs on, the RS latch resets and the SR latch
  sets; with one input on it decides, with none the latch keeps its state.  Register A
  receives the state, and no other latch changes.  An instance number from 16 on stores 0 and
  leaves all latches alone.
\<close>

theorem latch_priority:
  fixes i :: u32
  assumes "vm_wf vm"
  defines "k \<equiv> unat (latch_id i)" and "S \<equiv> Bv vm i \<noteq> 0" and "R \<equiv> Cv vm i \<noteq> 0"
  shows "if k < 16 then
      rs_latches (op_rs_latch vm i) = (rs_latches vm)[k := \<not> R \<and> (S \<or> rs_latches vm ! k)] \<and>
      Av (op_rs_latch vm i) i = b2w (\<not> R \<and> (S \<or> rs_latches vm ! k)) \<and>
      sr_latches (op_sr_latch vm i) = (sr_latches vm)[k := S \<or> (\<not> R \<and> sr_latches vm ! k)] \<and>
      Av (op_sr_latch vm i) i = b2w (S \<or> (\<not> R \<and> sr_latches vm ! k))
    else op_rs_latch vm i = SetA_val vm i 0 \<and> op_sr_latch vm i = SetA_val vm i 0"
proof -
  have len: "length (rs_latches vm) = 16" "length (sr_latches vm) = 16"
    using assms(1) by (simp_all add: vm_wf_def)
  show ?thesis
  proof (cases "k < 16")
    case True
    then have "\<not> bad_id (latch_id i)" by (simp add: bad_id_iff k_def)
    with True len show ?thesis
      unfolding k_def S_def R_def
      by (cases R; cases S; cases "rs_latches vm ! k"; cases "sr_latches vm ! k")
        (simp_all add: op_rs_latch_def op_sr_latch_def Let_def SetA_val_def Av_def Bv_def Cv_def
          k_def S_def R_def list_keep)
  next
    case False
    then have "bad_id (latch_id i)" by (simp add: bad_id_iff k_def)
    with False show ?thesis by (simp add: op_rs_latch_def op_sr_latch_def Let_def)
  qed
qed

section \<open>Selection\<close>

lemma unat_element_addr: "unat (element_addr base idx) = unat base + 4 * unat idx"
  using unat_u32_less [of base] unat_u32_less [of idx]
  by (simp add: element_addr_def unat_word_ariths unsigned_ucast_eq take_bit_nat_eq_self)

lemma element_in_bounds:
  "VM_MEM_BYTES < unat (element_addr base idx + 4) \<longleftrightarrow> VM_MEM_BYTES < unat base + 4 * unat idx + 4"
  using unat_u32_less [of base] unat_u32_less [of idx]
  by (simp add: unat_word_ariths unat_element_addr)

lemma unat_ucast_element:
  "unat base + 4 * unat idx + 4 \<le> VM_MEM_BYTES \<Longrightarrow>
   unat (ucast (element_addr base idx) :: u32) = unat base + 4 * unat idx"
  by (simp add: unsigned_ucast_eq take_bit_nat_eq_self unat_element_addr)

lemma op_mux_eq:
  "op_mux vm i = Inr (SetA_val vm i
     (if unat (Bv vm i) + 4 * unat (Cv_or_imm vm i) + 4 \<le> VM_MEM_BYTES
      then word_at (mem vm) (unat (Bv vm i) + 4 * unat (Cv_or_imm vm i)) else 0))"
  unfolding op_mux_def Let_def element_in_bounds
  by (simp add: unat_ucast_element vm_mr32_ok)

lemma op_demux_eq:
  "op_demux vm i = Inr (if unat (Bv vm i) + 4 * unat (Cv_or_imm vm i) + 4 \<le> VM_MEM_BYTES
     then vm\<lparr>mem := put_word (mem vm) (unat (Bv vm i) + 4 * unat (Cv_or_imm vm i)) (Av vm i)\<rparr> else vm)"
  unfolding op_demux_def Let_def element_in_bounds
  by (simp add: unat_ucast_element vm_mw32_ok Av_def)

lemma op_sel_eq:
  "op_sel vm i = Inr (SetA_val vm i
     (let base = unat (Cv vm i) in
      if Bv vm i \<noteq> 0 then (if base + 4 \<le> VM_MEM_BYTES then word_at (mem vm) base else 0)
      else (if base + 8 \<le> VM_MEM_BYTES then word_at (mem vm) (base + 4) else 0)))"
proof -
  have u: "unat (reg vm (ucast (RC i)) + 4) = unat (reg vm (ucast (RC i))) + 4"
    if "unat (reg vm (ucast (RC i))) + 8 \<le> VM_MEM_BYTES"
    using that by (simp add: unat_word_ariths)
  show ?thesis
    unfolding op_sel_def Let_def Cv_def [symmetric]
    using u [unfolded Cv_def [symmetric]] by (auto simp: vm_mr32_ok)
qed

text \<open>
  MUX reads back what DEMUX stored: for any base and index, also those whose
  32-bit sum wraps, either the element lies in memory, DEMUX stores register A there, MUX with
  the same operands returns it and MUX at any other index is not affected; or it does not,
  DEMUX changes nothing and MUX stores 0.  Neither handler ever faults.
\<close>

theorem demux_mux_roundtrip:
  assumes "Bv vm j = Bv vm i" "Cv_or_imm vm j = Cv_or_imm vm i"
  shows "\<exists>vm' vm''. op_demux vm i = Inr vm' \<and> op_mux vm' j = Inr vm'' \<and>
    (if unat (Bv vm i) + 4 * unat (Cv_or_imm vm i) + 4 \<le> VM_MEM_BYTES
     then Av vm'' j = Av vm i \<and>
       (\<forall>l. Bv vm l = Bv vm i \<and> Cv_or_imm vm l \<noteq> Cv_or_imm vm i \<longrightarrow>
          op_mux vm' l = bindR (op_mux vm l) (\<lambda>v. Inr (v\<lparr>mem := mem vm'\<rparr>)))
     else vm' = vm \<and> Av vm'' j = 0)"
proof -
  let ?a = "unat (Bv vm i) + 4 * unat (Cv_or_imm vm i)"
  have ops: "Bv (vm\<lparr>mem := m\<rparr>) l = Bv vm l" "Cv_or_imm (vm\<lparr>mem := m\<rparr>) l = Cv_or_imm vm l" for m l
    by (simp_all add: Bv_def Cv_or_imm_def)
  have other: "word_at (put_word (mem vm) ?a (Av vm i)) (unat (Bv vm i) + 4 * unat c) =
      word_at (mem vm) (unat (Bv vm i) + 4 * unat c)" if "c \<noteq> Cv_or_imm vm i" for c
    by (rule word_at_put_other) (use that in \<open>auto simp: word_unat_eq_iff\<close>)
  show ?thesis
    unfolding op_mux_eq op_demux_eq
    by (simp add: assms ops other SetA_val_def) (simp add: Av_def)
qed

section \<open>Instances\<close>

theorem counters_count_rising_edges_witness:
  "unat (ct_value (ctu_counters (fold (ctu_scan 2 (instr_word 50 1 2 261)) [True, True, False, True] vm_zero) ! 2)) = 2"
proof -
  have "RA (instr_word 50 1 2 261) \<noteq> RB (instr_word 50 1 2 261)"
    by (simp add: RA_instr_word RB_instr_word)
  moreover have "ct_value (ctu_counters vm_zero ! 2) = 0" "\<not> ctu_prev_input vm_zero ! 2"
    by (simp_all add: vm_zero_def zero_counter_def)
  ultimately show ?thesis
    using counters_count_rising_edges [of vm_zero "instr_word 50 1 2 261" 2 "[True, True, False, True]"]
    by simp
qed

lemma id_5: "IMM8 (instr_word op 1 2 261) = 5" "FIMM (instr_word op 1 2 261)"
  by (simp_all add: IMM8_instr_word FIMM_instr_word)

theorem edge_detectors_run_witness:
  "outputs (edge_scan op_rising_edge (instr_word 56 1 2 261)) (\<lambda>vm. Av vm (instr_word 56 1 2 261))
     [True, True, False, True] vm_zero = [1, 0, 0, 1]"
proof -
  have "\<not> edge_prev_rising vm_zero ! 5"
    by (simp add: vm_zero_def)
  then show ?thesis
    using edge_detectors_run [of vm_zero "instr_word 56 1 2 261" "[True, True, False, True]"] id_5
    by simp
qed

theorem latch_priority_witness:
  "Av (op_rs_latch (vm_zero\<lparr>reg := \<lambda>_. 1\<rparr>) (instr_word 59 3 3 3)) (instr_word 59 3 3 3) = 0 \<and>
   Av (op_sr_latch (vm_zero\<lparr>reg := \<lambda>_. 1\<rparr>) (instr_word 59 3 3 3)) (instr_word 59 3 3 3) = 1"
proof -
  have "vm_wf (vm_zero\<lparr>reg := \<lambda>_. 1\<rparr>)"
    using vm_wf_zero by (simp add: vm_wf_def)
  moreover have "unat (latch_id (instr_word 59 3 3 3)) = 3"
    using not_bit_small [of 3 8 8]
    by (simp add: latch_id_def FIMM_instr_word RA_instr_word)
  ultimately show ?thesis
    using latch_priority [of "vm_zero\<lparr>reg := \<lambda>_. 1\<rparr>" "instr_word 59 3 3 3"]
    by (simp add: Bv_def Cv_def)
qed

theorem demux_mux_roundtrip_witness:
  "\<exists>vm' vm''. op_demux (vm_zero\<lparr>reg := \<lambda>_. 7\<rparr>) (instr_word 61 1 2 3) = Inr vm' \<and>
     op_mux vm' (instr_word 55 1 2 3) = Inr vm'' \<and> Av vm'' (instr_word 55 1 2 3) = 7"
  using demux_mux_roundtrip [of "vm_zero\<lparr>reg := \<lambda>_. 7\<rparr>" "instr_word 55 1 2 3" "instr_word 61 1 2 3"]
  by (simp add: operand_simps) blast

end
