(* ===== verification/Dispatch.thy ===== *)
theory Dispatch
  imports Ops_Arith Ops_Strings Ops_IEC
begin

text \<open>
  The opcode table of \<open>vm_lifecycle.c\<close> and the call of a handler through it: \<open>exec_op\<close> runs
  the handler an entry names.  The lemmas show for all 68 handlers at once which fields of the
  machine they can change, that they keep it well formed, and which faults they can end in.
\<close>

section \<open>The table\<close>

definition default_op_ex :: "handler list" where
  "default_op_ex = [
    OP_ADD, OP_SUB, OP_MUL, OP_DIV, OP_MOD, OP_EXPT,
    OP_ABS, OP_SQRT, OP_LN, OP_LOG, OP_EXP, OP_SIN,
    OP_COS, OP_TAN, OP_ASIN, OP_ACOS, OP_ATAN, OP_AND,
    OP_OR, OP_XOR, OP_NOT, OP_EQ, OP_NE, OP_GT,
    OP_GE, OP_LT, OP_LE, OP_TIME, OP_DATE, OP_TOD,
    OP_DT, OP_ADD_TIME, OP_SUB_TIME, OP_YEAR, OP_MONTH, OP_DAY,
    OP_HOUR, OP_MINUTE, OP_SECOND, OP_LEN, OP_CONCAT, OP_LEFT,
    OP_RIGHT, OP_MID, OP_INSERT, OP_DELETE, OP_REPLACE, OP_TON,
    OP_TOF, OP_TP, OP_CTU, OP_CTD, OP_CTUD, OP_LIMIT,
    OP_SEL, OP_MUX, OP_RISING_EDGE, OP_FALLING_EDGE, OP_EDGE_BOTH, OP_RS_LATCH,
    OP_SR_LATCH, OP_DEMUX, OP_JMP, OP_JMP_IF, OP_JMP_IF_NOT, OP_EXIT,
    OP_HALT, OP_NOP]"

text \<open>\<open>vm_state_init_opcode_table\<close>: the handlers in front, null pointers behind.\<close>

definition vm_state_init_opcode_table :: "vm_state \<Rightarrow> vm_state" where
  "vm_state_init_opcode_table vm = vm\<lparr>op_ex :=
     map (\<lambda>k. if k < length default_op_ex then Some (default_op_ex ! k) else None) [0..<OPCODE_COUNT]\<rparr>"

text \<open>Handlers are ordered by their opcode.\<close>

definition handler_index :: "handler \<Rightarrow> nat" where
  "handler_index h = length (takeWhile (\<lambda>g. g \<noteq> h) default_op_ex)"

lemma handler_index_nth: "default_op_ex ! handler_index h = h" "handler_index h < length default_op_ex"
  by (cases h; simp add: handler_index_def default_op_ex_def)+

lemma handler_index_inject: "handler_index g = handler_index h \<Longrightarrow> g = h"
  by (metis handler_index_nth(1))

instantiation handler :: linorder
begin

definition less_eq_handler :: "handler \<Rightarrow> handler \<Rightarrow> bool" where
  "less_eq_handler g h \<longleftrightarrow> handler_index g \<le> handler_index h"

definition less_handler :: "handler \<Rightarrow> handler \<Rightarrow> bool" where
  "less_handler g h \<longleftrightarrow> handler_index g < handler_index h"

instance
  by standard (auto simp: less_eq_handler_def less_handler_def intro: handler_index_inject)

end

section \<open>Execution of a handler\<close>

text \<open>What a handler reads of the outside: the math library and the local time.\<close>

record op_env =
  env_libm :: libm
  env_now :: tm

fun exec_op :: "op_env \<Rightarrow> handler \<Rightarrow> vm_state \<Rightarrow> u32 \<Rightarrow> vm_state res" where
  "exec_op env OP_ADD vm i = Inr (op_add vm i)"
| "exec_op env OP_SUB vm i = Inr (op_sub vm i)"
| "exec_op env OP_MUL vm i = Inr (op_mul vm i)"
| "exec_op env OP_DIV vm i = Inr (op_div vm i)"
| "exec_op env OP_MOD vm i = Inr (op_mod vm i)"
| "exec_op env OP_EXPT vm i = op_expt (env_libm env) vm i"
| "exec_op env OP_ABS vm i = op_abs vm i"
| "exec_op env OP_SQRT vm i = op_sqrt (env_libm env) vm i"
| "exec_op env OP_LN vm i = op_ln (env_libm env) vm i"
| "exec_op env OP_LOG vm i = op_log (env_libm env) vm i"
| "exec_op env OP_EXP vm i = op_exp (env_libm env) vm i"
| "exec_op env OP_SIN vm i = op_sin (env_libm env) vm i"
| "exec_op env OP_COS vm i = op_cos (env_libm env) vm i"
| "exec_op env OP_TAN vm i = op_tan (env_libm env) vm i"
| "exec_op env OP_ASIN vm i = op_asin (env_libm env) vm i"
| "exec_op env OP_ACOS vm i = op_acos (env_libm env) vm i"
| "exec_op env OP_ATAN vm i = op_atan (env_libm env) vm i"
| "exec_op env OP_AND vm i = Inr (op_and vm i)"
| "exec_op env OP_OR vm i = Inr (op_or vm i)"
| "exec_op env OP_XOR vm i = Inr (op_xor vm i)"
| "exec_op env OP_NOT vm i = Inr (op_not vm i)"
| "exec_op env OP_EQ vm i = Inr (op_eq vm i)"
| "exec_op env OP_NE vm i = Inr (op_ne vm i)"
| "exec_op env OP_GT vm i = Inr (op_gt vm i)"
| "exec_op env OP_GE vm i = Inr (op_ge vm i)"
| "exec_op env OP_LT vm i = Inr (op_lt vm i)"
| "exec_op env OP_LE vm i = Inr (op_le vm i)"
| "exec_op env OP_TIME vm i = op_time (env_now env) vm i"
| "exec_op env OP_DATE vm i = op_date (env_now env) vm i"
| "exec_op env OP_TOD vm i = op_tod (env_now env) vm i"
| "exec_op env OP_DT vm i = op_dt (env_now env) vm i"
| "exec_op env OP_ADD_TIME vm i = Inr (op_add_time vm i)"
| "exec_op env OP_SUB_TIME vm i = Inr (op_sub_time vm i)"
| "exec_op env OP_YEAR vm i = op_year (env_now env) vm i"
| "exec_op env OP_MONTH vm i = op_month (env_now env) vm i"
| "exec_op env OP_DAY vm i = op_day (env_now env) vm i"
| "exec_op env OP_HOUR vm i = op_hour (env_now env) vm i"
| "exec_op env OP_MINUTE vm i = op_minute (env_now env) vm i"
| "exec_op env OP_SECOND vm i = op_second (env_now env) vm i"
| "exec_op env OP_LEN vm i = Inr (op_len vm i)"
| "exec_op env OP_CONCAT vm i = op_concat vm i"
| "exec_op env OP_LEFT vm i = op_left vm i"
| "exec_op env OP_RIGHT vm i = op_right vm i"
| "exec_op env OP_MID vm i = op_mid vm i"
| "exec_op env OP_INSERT vm i = op_insert vm i"
| "exec_op env OP_DELETE vm i = op_delete vm i"
| "exec_op env OP_REPLACE vm i = op_replace vm i"
| "exec_op env OP_TON vm i = Inr (op_ton vm i)"
| "exec_op env OP_TOF vm i = Inr (op_tof vm i)"
| "exec_op env OP_TP vm i = Inr (op_tp vm i)"
| "exec_op env OP_CTU vm i = Inr (op_ctu vm i)"
| "exec_op env OP_CTD vm i = Inr (op_ctd vm i)"
| "exec_op env OP_CTUD vm i = Inr (op_ctud vm i)"
| "exec_op env OP_LIMIT vm i = Inr (op_limit vm i)"
| "exec_op env OP_SEL vm i = op_sel vm i"
| "exec_op env OP_MUX vm i = op_mux vm i"
| "exec_op env OP_RISING_EDGE vm i = Inr (op_rising_edge vm i)"
| "exec_op env OP_FALLING_EDGE vm i = Inr (op_falling_edge vm i)"
| "exec_op env OP_EDGE_BOTH vm i = Inr (op_edge_both vm i)"
| "exec_op env OP_RS_LATCH vm i = Inr (op_rs_latch vm i)"
| "exec_op env OP_SR_LATCH vm i = Inr (op_sr_latch vm i)"
| "exec_op env OP_DEMUX vm i = op_demux vm i"
| "exec_op env OP_JMP vm i = Inr (op_jmp vm i)"
| "exec_op env OP_JMP_IF vm i = Inr (op_jmp_if vm i)"
| "exec_op env OP_JMP_IF_NOT vm i = Inr (op_jmp_if_not vm i)"
| "exec_op env OP_EXIT vm i = Inr (op_exit vm i)"
| "exec_op env OP_HALT vm i = Inr (op_halt vm i)"
| "exec_op env OP_NOP vm i = Inr (op_nop vm i)"

section \<open>What handlers change\<close>

text \<open>\<open>op_frame vm vm'\<close>: only the fields listed can differ.\<close>

definition op_frame :: "vm_state \<Rightarrow> vm_state \<Rightarrow> bool" where
  "op_frame vm vm' \<longleftrightarrow> vm' = vm\<lparr>
     mem := mem vm', PC := PC vm', reg := reg vm', running := running vm',
     stop_requested := stop_requested vm', exit_code := exit_code vm',
     ton_timers := ton_timers vm', tof_timers := tof_timers vm', tp_timers := tp_timers vm',
     ctu_counters := ctu_counters vm', ctd_counters := ctd_counters vm', ctud_counters := ctud_counters vm',
     ctu_prev_input := ctu_prev_input vm', ctd_prev_input := ctd_prev_input vm',
     ctud_prev_up := ctud_prev_up vm', ctud_prev_down := ctud_prev_down vm',
     edge_prev_rising := edge_prev_rising vm', edge_prev_falling := edge_prev_falling vm',
     edge_prev_both := edge_prev_both vm', rs_latches := rs_latches vm', sr_latches := sr_latches vm'\<rparr>"

text \<open>A handler that changes a register, the memory or the program counter at most.\<close>

definition plain_change :: "vm_state \<Rightarrow> vm_state \<Rightarrow> bool" where
  "plain_change vm vm' \<longleftrightarrow> vm' = vm\<lparr>mem := mem vm', reg := reg vm', PC := PC vm'\<rparr>"

lemma plain_changeI [intro]: "plain_change vm vm" "plain_change vm (SetA_val vm i v)"
  "plain_change vm (vm\<lparr>mem := m\<rparr>)" "plain_change vm (vm\<lparr>PC := p\<rparr>)"
  by (simp_all add: plain_change_def SetA_val_def)

lemma plain_change_frame: "plain_change vm vm' \<Longrightarrow> op_frame vm vm'"
  unfolding plain_change_def op_frame_def by (erule ssubst) simp

lemma plain_change_wf: "plain_change vm vm' \<Longrightarrow> vm_wf vm \<Longrightarrow> vm_wf vm'"
  unfolding plain_change_def by (erule ssubst) (simp add: vm_wf_def)

lemma SetA_res_plain: "SetA_res vm i r = Inr vm' \<Longrightarrow> plain_change vm vm'"
  by (auto simp: SetA_res_def res_simps)

lemma SetA_int_plain: "SetA_int vm i r = Inr vm' \<Longrightarrow> plain_change vm vm'"
  by (auto simp: SetA_int_def res_simps)

lemma only_mem_plain: "only_mem vm r \<Longrightarrow> r = Inr vm' \<Longrightarrow> plain_change vm vm'"
  by (auto simp: only_mem_def)

lemma mem_or_overlap_plain: "mem_or_overlap vm r \<Longrightarrow> r = Inr vm' \<Longrightarrow> plain_change vm vm'"
  by (auto simp: mem_or_overlap_def only_mem_def)

lemmas arith_defs = op_add_def op_sub_def op_mul_def op_div_def op_mod_def op_and_def op_or_def
  op_xor_def op_not_def op_eq_def op_ne_def op_gt_def op_ge_def op_lt_def op_le_def
  op_add_time_def op_sub_time_def op_limit_def op_len_def Let_def

lemmas libm_defs = op_expt_def op_abs_def op_sqrt_def op_ln_def op_log_def op_exp_def op_sin_def
  op_cos_def op_tan_def op_asin_def op_acos_def op_atan_def

lemmas calendar_defs = op_time_def op_date_def op_tod_def op_dt_def op_year_def op_month_def op_day_def
  op_hour_def op_minute_def op_second_def Let_def

lemmas string_plain = only_mem_plain [OF op_left_safe] only_mem_plain [OF op_right_safe]
  only_mem_plain [OF op_mid_safe] only_mem_plain [OF op_delete_safe]
  mem_or_overlap_plain [OF op_concat_safe] mem_or_overlap_plain [OF op_insert_safe]
  mem_or_overlap_plain [OF op_replace_safe]

lemma selection_plain:
  "op_sel vm i = Inr vm' \<Longrightarrow> plain_change vm vm'" "op_mux vm i = Inr vm' \<Longrightarrow> plain_change vm vm'"
  "op_demux vm i = Inr vm' \<Longrightarrow> plain_change vm vm'"
  by (auto simp: op_sel_eq op_mux_eq op_demux_eq split: if_splits)

text \<open>The handlers that keep state between scans, and those that stop the machine.\<close>

definition stateful :: "handler set" where
  "stateful = {OP_TON, OP_TOF, OP_TP, OP_CTU, OP_CTD, OP_CTUD, OP_RISING_EDGE, OP_FALLING_EDGE,
     OP_EDGE_BOTH, OP_RS_LATCH, OP_SR_LATCH, OP_EXIT, OP_HALT}"

lemma exec_op_plain:
  assumes "exec_op env h vm i = Inr vm'" "h \<notin> stateful"
  shows "plain_change vm vm'"
proof -
  have jumps: "plain_change vm (op_jmp vm i)" "plain_change vm (op_jmp_if vm i)"
      "plain_change vm (op_jmp_if_not vm i)" "plain_change vm (op_nop vm i)"
    by (auto simp: op_jmp_def op_jmp_if_def op_jmp_if_not_def op_nop_def)
  show ?thesis
    using assms
    by (cases h)
      (auto simp: stateful_def jumps arith_defs libm_defs calendar_defs res_simps
        intro: SetA_res_plain SetA_int_plain string_plain selection_plain split: if_splits)
qed

lemma stateful_frame: "h \<in> stateful \<Longrightarrow> exec_op env h vm i = Inr vm' \<Longrightarrow> op_frame vm vm'"
  by (auto simp: stateful_def op_frame_def op_ton_def op_tof_def op_tp_def ton_set_def tof_set_def tp_set_def
      op_ctu_def op_ctd_def op_ctud_def op_rising_edge_def op_falling_edge_def op_edge_both_def
      op_rs_latch_def op_sr_latch_def op_exit_def op_halt_def SetA_val_def Let_def split: if_splits)

lemma timer_wf: "vm_wf vm \<Longrightarrow> vm_wf (op_ton vm i)" "vm_wf vm \<Longrightarrow> vm_wf (op_tof vm i)" "vm_wf vm \<Longrightarrow> vm_wf (op_tp vm i)"
  by (auto simp: op_ton_def op_tof_def op_tp_def ton_set_def tof_set_def tp_set_def Let_def vm_wfD intro!: wf_intros)

lemma counter_wf: "vm_wf vm \<Longrightarrow> vm_wf (op_ctu vm i)" "vm_wf vm \<Longrightarrow> vm_wf (op_ctd vm i)" "vm_wf vm \<Longrightarrow> vm_wf (op_ctud vm i)"
  by (auto simp: op_ctu_def op_ctd_def op_ctud_def Let_def vm_wfD intro!: wf_intros)

lemma edge_wf: "vm_wf vm \<Longrightarrow> vm_wf (op_rising_edge vm i)" "vm_wf vm \<Longrightarrow> vm_wf (op_falling_edge vm i)"
  "vm_wf vm \<Longrightarrow> vm_wf (op_edge_both vm i)" "vm_wf vm \<Longrightarrow> vm_wf (op_rs_latch vm i)" "vm_wf vm \<Longrightarrow> vm_wf (op_sr_latch vm i)"
  by (auto simp: op_rising_edge_def op_falling_edge_def op_edge_both_def op_rs_latch_def op_sr_latch_def
      SetA_val_def Let_def vm_wfD intro!: wf_intros)

lemma stateful_wf: "h \<in> stateful \<Longrightarrow> exec_op env h vm i = Inr vm' \<Longrightarrow> vm_wf vm \<Longrightarrow> vm_wf vm'"
  by (auto simp: stateful_def timer_wf counter_wf edge_wf op_exit_def op_halt_def)

lemma exec_op_frame: "exec_op env h vm i = Inr vm' \<Longrightarrow> op_frame vm vm'"
  using stateful_frame exec_op_plain plain_change_frame by blast

lemma exec_op_wf: "exec_op env h vm i = Inr vm' \<Longrightarrow> vm_wf vm \<Longrightarrow> vm_wf vm'"
  using stateful_wf exec_op_plain plain_change_wf by blast

section \<open>Faults\<close>

text \<open>The faults a handler can end in.\<close>

definition allowed_fault :: "handler \<Rightarrow> fault \<Rightarrow> bool" where
  "allowed_fault h e \<longleftrightarrow>
     (e = Bad_Conversion \<and> h \<in> {OP_EXPT, OP_SQRT, OP_LN, OP_LOG, OP_EXP, OP_SIN, OP_COS, OP_TAN,
        OP_ASIN, OP_ACOS, OP_ATAN}) \<or>
     (e = Signed_Overflow \<and> h \<in> {OP_ABS, OP_TIME, OP_DATE, OP_TOD, OP_DT, OP_YEAR, OP_MONTH, OP_DAY}) \<or>
     (e = Overlapping_Copy \<and> h \<in> {OP_CONCAT, OP_INSERT, OP_REPLACE})"

lemma u32_of_double_Inl: "u32_of_double d = Inl e \<Longrightarrow> e = Bad_Conversion"
  by (auto simp: u32_of_double_def split: double.splits if_splits)

lemma SetA_res_Inl: "SetA_res vm i r = Inl e \<Longrightarrow> r = Inl e"
  by (auto simp: SetA_res_def res_simps)

lemma SetA_int_Inl: "SetA_int vm i r = Inl e \<Longrightarrow> r = Inl e"
  by (auto simp: SetA_int_def res_simps)

lemma cint_Inl: "cint n = Inl e \<Longrightarrow> e = Signed_Overflow"
  by (auto simp: cint_def split: if_splits)

lemma cadd_Inl: "cadd x y = Inl e \<Longrightarrow> x = Inl e \<or> y = Inl e \<or> e = Signed_Overflow"
  by (auto simp: cadd_def res_simps dest: cint_Inl)

lemma cmul_Inl: "cmul x k = Inl e \<Longrightarrow> x = Inl e \<or> e = Signed_Overflow"
  by (auto simp: cmul_def res_simps dest: cint_Inl)

lemma tm_to_date_Inl: "tm_to_date t = Inl e \<Longrightarrow> e = Signed_Overflow"
  by (auto simp: tm_to_date_def res_simps dest!: cadd_Inl)

lemma calendar_Inl:
  "op_time now vm i = Inl e \<Longrightarrow> e = Signed_Overflow" "op_date now vm i = Inl e \<Longrightarrow> e = Signed_Overflow"
  "op_tod now vm i = Inl e \<Longrightarrow> e = Signed_Overflow" "op_dt now vm i = Inl e \<Longrightarrow> e = Signed_Overflow"
  "op_year now vm i = Inl e \<Longrightarrow> e = Signed_Overflow" "op_month now vm i = Inl e \<Longrightarrow> e = Signed_Overflow"
  "op_day now vm i = Inl e \<Longrightarrow> e = Signed_Overflow"
  by (auto simp: calendar_defs res_simps tod_to_seconds_def tm_to_dt_def
      dest!: SetA_int_Inl cadd_Inl cmul_Inl dest: tm_to_date_Inl)

lemma clock_total: "op_hour now vm i \<noteq> Inl e" "op_minute now vm i \<noteq> Inl e" "op_second now vm i \<noteq> Inl e"
  by (simp_all add: calendar_defs SetA_int_def)

lemma libm_Inl: "SetA_res vm i (u32_of_double d) = Inl e \<Longrightarrow> e = Bad_Conversion"
  by (auto dest!: SetA_res_Inl dest: u32_of_double_Inl)

lemma string_Inl:
  "op_concat vm i = Inl e \<Longrightarrow> e = Overlapping_Copy" "op_insert vm i = Inl e \<Longrightarrow> e = Overlapping_Copy"
  "op_replace vm i = Inl e \<Longrightarrow> e = Overlapping_Copy" "op_left vm i \<noteq> Inl e" "op_right vm i \<noteq> Inl e"
  "op_mid vm i \<noteq> Inl e" "op_delete vm i \<noteq> Inl e"
  using op_concat_safe [of vm i] op_insert_safe [of vm i] op_replace_safe [of vm i] op_left_safe [of vm i]
    op_right_safe [of vm i] op_mid_safe [of vm i] op_delete_safe [of vm i]
  by (auto simp: mem_or_overlap_def only_mem_def)

lemma op_abs_Inl: "op_abs vm i = Inl e \<Longrightarrow> e = Signed_Overflow"
  by (auto simp: op_abs_def cabs_def res_simps split: if_splits dest!: SetA_res_Inl dest: cint_Inl)

lemma exec_op_fault: "exec_op env h vm i = Inl e \<Longrightarrow> allowed_fault h e"
  by (cases h)
    (auto simp: allowed_fault_def op_sel_eq op_mux_eq op_demux_eq string_Inl clock_total
      op_expt_def op_sqrt_def op_ln_def op_log_def op_exp_def op_sin_def op_cos_def op_tan_def
      op_asin_def op_acos_def op_atan_def
      dest: op_abs_Inl string_Inl(1-3) calendar_Inl libm_Inl)

text \<open>
  C1 (safety).  All 68 handlers, on any instruction word and any machine with arrays of the
  right lengths: no handler accesses memory outside the block; the mathematical handlers may
  convert a value that does not fit, ABS and the calendar handlers may overflow an \<open>int\<close>, and
  CONCAT, INSERT and REPLACE may copy overlapping blocks, and no handler can go wrong in any
  other way.  A handler that returns has changed nothing but registers, memory, program
  counter, run flags and the function block instances, and kept the lengths of all arrays; the
  configuration, the modules, the opcode table, the lookup tables, the virtual time and the
  statistics are the old ones.
\<close>

theorem exec_op_safe:
  assumes "vm_wf vm"
  shows "case exec_op env h vm i of
      Inl e \<Rightarrow> allowed_fault h e \<and> e \<noteq> Out_Of_Bounds
    | Inr vm' \<Rightarrow> op_frame vm vm' \<and> vm_wf vm'"
  using exec_op_fault [of env h vm i] exec_op_frame [of env h vm i] exec_op_wf [of env h vm i] assms
  by (auto simp: allowed_fault_def split: sum.split)

definition sample_env :: op_env where
  "sample_env = \<lparr>env_libm = sample_libm, env_now =
     \<lparr>tm_sec = 30, tm_min = 15, tm_hour = 23, tm_mday = 31, tm_mon = 11, tm_year = 125\<rparr>\<rparr>"

theorem exec_op_safe_witness:
  "case exec_op sample_env OP_MUX (vm_zero\<lparr>reg := \<lambda>_. 0xFFFFFFFF\<rparr>) (instr_word 55 1 2 3) of
      Inl e \<Rightarrow> allowed_fault OP_MUX e \<and> e \<noteq> Out_Of_Bounds
    | Inr vm' \<Rightarrow> op_frame (vm_zero\<lparr>reg := \<lambda>_. 0xFFFFFFFF\<rparr>) vm' \<and> vm_wf vm'"
  by (rule exec_op_safe) simp

section \<open>The table\<close>

lemma length_default_op_ex [simp]: "length default_op_ex = 68"
  by (simp add: default_op_ex_def)

text \<open>The handlers in the order of the table of operation codes in the directory \<open>VM_development\<close>: it numbers the first 56 like the
  machine, and every one behind them otherwise.\<close>

definition documented_op_ex :: "handler list" where
  "documented_op_ex = take 56 default_op_ex @ [OP_JMP, OP_JMP_IF, OP_JMP_IF_NOT, OP_EXIT, OP_HALT, OP_NOP, OP_RISING_EDGE, OP_FALLING_EDGE,
     OP_EDGE_BOTH, OP_RS_LATCH, OP_SR_LATCH, OP_DEMUX]"

lemma documented_op_ex_differs:
  "set documented_op_ex = set default_op_ex"
  "k < 68 \<Longrightarrow> documented_op_ex ! k = default_op_ex ! k \<longleftrightarrow> k < 56"
proof -
  show "set documented_op_ex = set default_op_ex" by code_simp
  have "list_all (\<lambda>k. documented_op_ex ! k = default_op_ex ! k \<longleftrightarrow> k < 56) [0..<68]" by code_simp
  then show "k < 68 \<Longrightarrow> documented_op_ex ! k = default_op_ex ! k \<longleftrightarrow> k < 56" by (simp add: list_all_iff)
qed

lemma distinct_default_op_ex: "distinct default_op_ex"
  by (simp add: default_op_ex_def)

lemma handler_index_of: "k < 68 \<Longrightarrow> handler_index (default_op_ex ! k) = k"
  using handler_index_nth [of "default_op_ex ! k"] distinct_default_op_ex
  by (metis length_default_op_ex nth_eq_iff_index_eq)

definition op_table :: "handler option list" where
  "op_table = op_ex (vm_state_init_opcode_table vm_zero)"

lemma op_table_nth: "k < 128 \<Longrightarrow> op_table ! k = (if k < 68 then Some (default_op_ex ! k) else None)"
  by (simp add: op_table_def vm_state_init_opcode_table_def)

lemma length_op_table [simp]: "length op_table = 128"
  by (simp add: op_table_def vm_state_init_opcode_table_def)

lemma op_table_handler: "op_table ! handler_index h = Some h"
  using handler_index_nth [of h] by (simp add: op_table_nth)

text \<open>The table lists the handlers in their order, each one once.\<close>

lemma default_op_ex_sorted: "sorted_wrt (<) default_op_ex"
  unfolding sorted_wrt_iff_nth_less by (simp add: less_handler_def handler_index_of)

end
