(* ===== verification/Tables.thy ===== *)
theory Tables
  imports Instr
begin

text \<open>
  The tables of \<open>vm_tables.c\<close>: labels, breakpoints and the cache of decoded instructions, each
  a hash table of \<open>hashing.c\<close>.  \<open>ca\<close> says for which sizes \<open>calloc\<close> succeeds, \<open>mk\<close> which
  calls of \<open>malloc\<close> do.  The proofs use the tables only through the facts \<open>ht\<close> of the
  interface \<open>map_table\<close>; the breakpoints are in turn an instance of the interface \<open>flag_set\<close>.
\<close>

section \<open>Life cycle\<close>

definition vm_tables_init :: "(u32 \<Rightarrow> bool) \<Rightarrow> (nat \<Rightarrow> bool) \<Rightarrow> vm_state \<Rightarrow> (vm_state \<times> int) res" where
  "vm_tables_init ca mk vm =
     bindR (hash_table_create ca (mk 0) string_key_type) (\<lambda>l.
     let vm = vm\<lparr>labels := l\<rparr> in
     if l = None then Inr (vm, -1) else
     bindR (hash_table_create ca (mk 1) uint32_key_type) (\<lambda>b.
     let vm = vm\<lparr>breakpoints := b\<rparr> in
     if b = None then Inr (vm\<lparr>labels := None\<rparr>, -1) else
     bindR (hash_table_create ca (mk 2) uint32_key_type) (\<lambda>d.
     let vm = vm\<lparr>decoded_cache := d\<rparr> in
     if d = None then Inr (vm\<lparr>breakpoints := None, labels := None\<rparr>, -1)
     else Inr (vm, 0))))"

definition vm_tables_destroy :: "vm_state \<Rightarrow> vm_state" where
  "vm_tables_destroy vm =
     (let vm = (if labels vm \<noteq> None then vm\<lparr>labels := None\<rparr> else vm);
          vm = (if breakpoints vm \<noteq> None then vm\<lparr>breakpoints := None\<rparr> else vm)
      in if decoded_cache vm \<noteq> None then vm\<lparr>decoded_cache := None\<rparr> else vm)"

section \<open>Labels and breakpoints\<close>

definition labels_add :: "(u32 \<Rightarrow> bool) \<Rightarrow> vm_state \<Rightarrow> cstr \<Rightarrow> u32 \<Rightarrow> vm_state res" where
  "labels_add ca vm name addr =
     (case labels vm of
        None \<Rightarrow> Inr vm
      | Some t \<Rightarrow> bindR (hash_table_insert ca t name addr) (\<lambda>t'. Inr (vm\<lparr>labels := Some t'\<rparr>)))"

definition labels_lookup :: "vm_state \<Rightarrow> cstr \<Rightarrow> u32 option res" where
  "labels_lookup vm name =
     (case labels vm of None \<Rightarrow> Inr None | Some t \<Rightarrow> hash_table_lookup t name)"

definition bp_set :: "(u32 \<Rightarrow> bool) \<Rightarrow> vm_state \<Rightarrow> u32 \<Rightarrow> vm_state res" where
  "bp_set ca vm addr =
     (case breakpoints vm of
        None \<Rightarrow> Inr vm
      | Some t \<Rightarrow> bindR (hash_table_insert ca t addr 1) (\<lambda>t'. Inr (vm\<lparr>breakpoints := Some t'\<rparr>)))"

definition bp_clear :: "(u32 \<Rightarrow> bool) \<Rightarrow> vm_state \<Rightarrow> u32 \<Rightarrow> vm_state res" where
  "bp_clear ca vm addr =
     (case breakpoints vm of
        None \<Rightarrow> Inr vm
      | Some t \<Rightarrow> bindR (hash_table_delete ca t addr) (\<lambda>t'. Inr (vm\<lparr>breakpoints := Some t'\<rparr>)))"

definition bp_is_set :: "vm_state \<Rightarrow> u32 \<Rightarrow> bool res" where
  "bp_is_set vm addr =
     (case breakpoints vm of None \<Rightarrow> Inr False | Some t \<Rightarrow> hash_table_contains t addr)"

section \<open>The cache of decoded instructions\<close>

definition decode :: "u32 \<Rightarrow> decoded_instr" where
  "decode instr =
     \<lparr>raw_instr = instr, d_opcode = OPC instr, d_ra = RA instr, d_rb = RB instr,
      d_rc = ucast (RC instr), d_immediate = (if FIMM instr then IMM8 instr else 0),
      d_has_immediate = FIMM instr\<rparr>"

definition decode_instruction_cached ::
  "(u32 \<Rightarrow> bool) \<Rightarrow> bool \<Rightarrow> vm_state \<Rightarrow> u32 \<Rightarrow> (vm_state \<times> decoded_instr option) res" where
  "decode_instruction_cached ca malloc_ok vm addr =
     (case decoded_cache vm of
        None \<Rightarrow> Inr (vm, None)
      | Some t \<Rightarrow>
          bindR (hash_table_lookup t addr) (\<lambda>cached.
          case cached of
            Some d \<Rightarrow> Inr (vm, Some d)
          | None \<Rightarrow>
              if VM_MEM_BYTES - 3 \<le> unat addr then Inr (vm, None) else
              bindR (vm_mr32 vm addr) (\<lambda>instr.
              if \<not> malloc_ok then Inr (vm, None) else
              bindR (hash_table_insert ca t addr (decode instr)) (\<lambda>t'.
              Inr (vm\<lparr>decoded_cache := Some t'\<rparr>, Some (decode instr))))))"

definition vm_decode_instruction ::
  "(u32 \<Rightarrow> bool) \<Rightarrow> bool \<Rightarrow> vm_state \<Rightarrow> u32 \<Rightarrow> (vm_state \<times> decoded_instr option) res" where
  "vm_decode_instruction ca malloc_ok vm addr = decode_instruction_cached ca malloc_ok vm addr"

section \<open>The contract of a set of flags\<close>

locale flag_set =
  fixes inv :: "'s \<Rightarrow> bool" and room :: "'s \<Rightarrow> bool" and members :: "'s \<Rightarrow> 'k set"
    and is_set :: "'s \<Rightarrow> 'k \<Rightarrow> bool res" and add :: "'s \<Rightarrow> 'k \<Rightarrow> 's res" and remove :: "'s \<Rightarrow> 'k \<Rightarrow> 's res"
  assumes is_set_members: "inv s \<Longrightarrow> is_set s k = Inr (k \<in> members s)"
    and add_members: "inv s \<Longrightarrow> room s \<Longrightarrow> \<exists>s'. add s k = Inr s' \<and> inv s' \<and> members s' = insert k (members s)"
    and remove_members: "inv s \<Longrightarrow> \<exists>s'. remove s k = Inr s' \<and> inv s' \<and> members s' = members s - {k}"
begin

lemma set_then_test:
  assumes "inv s" "room s"
  shows "\<exists>s'. add s k = Inr s' \<and> (\<forall>j. is_set s' j = Inr (j = k \<or> j \<in> members s))"
proof -
  obtain s' where "add s k = Inr s'" "inv s'" "members s' = insert k (members s)"
    using add_members [OF assms] by blast
  then show ?thesis by (simp add: is_set_members)
qed

lemma clear_then_test:
  assumes "inv s"
  shows "\<exists>s'. remove s k = Inr s' \<and> (\<forall>j. is_set s' j = Inr (j \<noteq> k \<and> j \<in> members s))"
proof -
  obtain s' where "remove s k = Inr s'" "inv s'" "members s' = members s - {k}"
    using remove_members [OF assms] by blast
  then show ?thesis by (auto simp: is_set_members)
qed

lemma set_clear:
  assumes "inv s" "room s"
  shows "\<exists>s' s''. add s k = Inr s' \<and> remove s' k = Inr s'' \<and> members s'' = members s - {k}"
proof -
  obtain s' where s': "add s k = Inr s'" "inv s'" "members s' = insert k (members s)"
    using add_members [OF assms] by blast
  obtain s'' where "remove s' k = Inr s''" "members s'' = members s' - {k}"
    using remove_members [OF s'(2)] by blast
  with s' show ?thesis by auto
qed

end

definition bp_ok :: "vm_state \<Rightarrow> bool" where
  "bp_ok vm \<longleftrightarrow> (\<exists>t. breakpoints vm = Some t \<and> ht_inv t)"

definition bp_room :: "vm_state \<Rightarrow> bool" where
  "bp_room vm \<longleftrightarrow> (\<forall>t. breakpoints vm = Some t \<longrightarrow> ht_room t)"

definition bp_members :: "vm_state \<Rightarrow> u32 set" where
  "bp_members vm = (case breakpoints vm of None \<Rightarrow> {} | Some t \<Rightarrow> dom (ht_map t))"

interpretation bp: flag_set "\<lambda>vm. bp_ok vm \<and> (\<forall>m. ca m)" bp_room bp_members bp_is_set "bp_set ca" "bp_clear ca" for ca
proof unfold_locales
  fix vm k assume ok: "bp_ok vm \<and> (\<forall>m. ca m)"
  then obtain t where t: "breakpoints vm = Some t" "ht_inv t \<and> (\<forall>m. ca m)" by (auto simp: bp_ok_def)
  show "bp_is_set vm k = Inr (k \<in> bp_members vm)"
    using t ht.find_abs [OF t(2)] by (auto simp: bp_is_set_def bp_members_def hash_table_contains_def dom_def)
  show "\<exists>vm'. bp_set ca vm k = Inr vm' \<and> (bp_ok vm' \<and> (\<forall>m. ca m)) \<and> bp_members vm' = insert k (bp_members vm)"
    if "bp_room vm"
  proof -
    from that t(1) have "ht_room t" by (simp add: bp_room_def)
    from ht.put_abs [OF t(2) this, of k 1] obtain t' where
      "hash_table_insert ca t k 1 = Inr t'" "ht_inv t'" "ht_map t' = (ht_map t)(k \<mapsto> 1)" by blast
    with t show ?thesis by (auto simp: bp_set_def bp_members_def bp_ok_def)
  qed
  show "\<exists>vm'. bp_clear ca vm k = Inr vm' \<and> (bp_ok vm' \<and> (\<forall>m. ca m)) \<and> bp_members vm' = bp_members vm - {k}"
  proof -
    from ht.del_abs [OF t(2), of k] obtain t' where
      "hash_table_delete ca t k = Inr t'" "ht_inv t'" "ht_map t' = (ht_map t)(k := None)" by blast
    with t show ?thesis by (auto simp: bp_clear_def bp_members_def bp_ok_def)
  qed
qed

section \<open>Correctness of the cache\<close>

text \<open>Every entry of the cache decodes the word that is in memory at its address now.\<close>

definition cache_current :: "vm_state \<Rightarrow> bool" where
  "cache_current vm \<longleftrightarrow> (\<exists>t. decoded_cache vm = Some t \<and> ht_inv t \<and>
     (\<forall>a d. ht_map t a = Some d \<longrightarrow> unat a + 4 \<le> VM_MEM_BYTES \<and> d = decode (word_at (mem vm) (unat a))))"

definition cache_room :: "vm_state \<Rightarrow> bool" where
  "cache_room vm \<longleftrightarrow> (\<forall>t. decoded_cache vm = Some t \<longrightarrow> ht_room t)"

lemma decode_current:
  assumes "cache_current vm" "cache_room vm" "\<forall>m. ca m"
  shows "\<exists>c. vm_decode_instruction ca True vm a = Inr (vm\<lparr>decoded_cache := c\<rparr>,
      if unat a + 4 \<le> VM_MEM_BYTES then Some (decode (word_at (mem vm) (unat a))) else None) \<and>
    cache_current (vm\<lparr>decoded_cache := c\<rparr>)"
proof -
  obtain t where t: "decoded_cache vm = Some t" "ht_inv t \<and> (\<forall>m. ca m)"
      "\<And>a d. ht_map t a = Some d \<Longrightarrow> unat a + 4 \<le> VM_MEM_BYTES \<and> d = decode (word_at (mem vm) (unat a))"
    using assms by (auto simp: cache_current_def)
  have find: "hash_table_lookup t a = Inr (ht_map t a)" by (rule ht.find_abs [OF t(2)])
  show ?thesis
  proof (cases "ht_map t a")
    case (Some d)
    then have "vm_decode_instruction ca True vm a = Inr (vm, Some d)"
      by (simp add: vm_decode_instruction_def decode_instruction_cached_def t(1) find)
    with t(3) [OF Some] assms(1) show ?thesis by (intro exI [of _ "decoded_cache vm"]) simp
  next
    case None
    show ?thesis
    proof (cases "unat a + 4 \<le> VM_MEM_BYTES")
      case True
      then obtain t' where t': "hash_table_insert ca t a (decode (word_at (mem vm) (unat a))) = Inr t'"
          "ht_inv t'" "ht_map t' = (ht_map t)(a \<mapsto> decode (word_at (mem vm) (unat a)))"
        using ht.put_abs [OF t(2)] assms(2) t(1) unfolding cache_room_def by blast
      have "vm_decode_instruction ca True vm a =
          Inr (vm\<lparr>decoded_cache := Some t'\<rparr>, Some (decode (word_at (mem vm) (unat a))))"
        using True None t'(1)
        by (simp add: vm_decode_instruction_def decode_instruction_cached_def t(1) find vm_mr32_ok)
      moreover have "cache_current (vm\<lparr>decoded_cache := Some t'\<rparr>)"
        using t' t(3) True by (auto simp: cache_current_def)
      ultimately show ?thesis using True by auto
    next
      case False
      then have "vm_decode_instruction ca True vm a = Inr (vm, None)"
        by (simp add: vm_decode_instruction_def decode_instruction_cached_def t(1) find None)
      with False assms(1) show ?thesis by (intro exI [of _ "decoded_cache vm"]) simp
    qed
  qed
qed

text \<open>
  C9 (refinement).  The cache is transparent while it is current: decoding returns the decoded
  form of the word in memory, or nothing when the word does not lie in memory, changes only
  the cache, and leaves it current.
\<close>

theorem vm_decode_instruction_current:
  assumes "cache_current vm" "cache_room vm" "\<forall>m. ca m"
  shows "\<exists>c. vm_decode_instruction ca True vm a = Inr (vm\<lparr>decoded_cache := c\<rparr>,
      if unat a + 4 \<le> VM_MEM_BYTES then Some (decode (word_at (mem vm) (unat a))) else None) \<and>
    cache_current (vm\<lparr>decoded_cache := c\<rparr>)"
  by (rule decode_current [OF assms])

text \<open>A table to evaluate on: the cache \<open>vm_tables_init\<close> creates.\<close>

definition empty_cache :: "(u32, decoded_instr) hash_table" where
  "empty_cache =
     \<lparr>bins = replicate 8 empty_bin, tbl_size = 8, used = 0, active = 0, tbl_key_type = uint32_key_type\<rparr>"

lemma empty_cache_create:
  "hash_table_create (\<lambda>_. True) True uint32_key_type = Inr (Some empty_cache)"
  by (simp add: hash_table_create_def init_table_def MIN_TABLE_SIZE_def empty_cache_def)

lemma empty_cache_ok:
  "ht_inv empty_cache \<and> ht_map empty_cache = Map.empty \<and> used empty_cache = 0 \<and> tbl_size empty_cache = 8"
proof -
  have "\<exists>t. hash_table_create (\<lambda>_. True) True uint32_key_type = Inr (Some (t :: (u32, decoded_instr) hash_table)) \<and>
    ht_inv t \<and> ht_map t = Map.empty \<and> tbl_key_type t = uint32_key_type \<and>
    tbl_size t = MIN_TABLE_SIZE \<and> used t = 0 \<and> active t = 0"
    by (rule hash_table_create_map) (simp_all add: uint32_key_type_def)
  then show ?thesis by (auto simp: empty_cache_create MIN_TABLE_SIZE_def)
qed

theorem vm_decode_instruction_current_witness:
  "\<exists>c. vm_decode_instruction (\<lambda>_. True) True (vm_zero\<lparr>decoded_cache := Some empty_cache\<rparr>) 0x3000 =
     Inr (vm_zero\<lparr>decoded_cache := c\<rparr>, Some (decode 0))"
proof -
  let ?vm = "vm_zero\<lparr>decoded_cache := Some empty_cache\<rparr>"
  have "cache_current ?vm" "cache_room ?vm"
    using empty_cache_ok by (simp_all add: cache_current_def cache_room_def ht_room_def)
  moreover have "word_at (mem ?vm) (unat (0x3000 :: u32)) = 0"
    by (simp add: vm_zero_def word_at_def of_le32_def)
  ultimately show ?thesis
    using vm_decode_instruction_current [of ?vm "\<lambda>_. True" "0x3000"] by auto
qed

end
