(* ===== verification/VMHash.thy ===== *)
theory VMHash
  imports VMState
begin

text \<open>
  The checksums of the machine (\<open>hashing.c\<close>, the part on registers, memory, program and whole
  state).  A register file is hashed as its little-endian bytes, a structure as the bytes of
  its fields in memory order; the padding of \<open>IEC_Timer\<close>, three bytes behind the flags, is
  zero because the structures live in zeroed memory and are never copied.  \<open>size_t\<close> values
  are 64-bit words.
\<close>

section \<open>Bytes of the structures\<close>

definition registers_bytes :: "(u8 \<Rightarrow> u32) \<Rightarrow> nat \<Rightarrow> u8 list" where
  "registers_bytes regs count = concat (map (\<lambda>r. le32 (regs (of_nat r))) [0..<count])"

definition bool_byte :: "bool \<Rightarrow> u8" where
  "bool_byte b = (if b then 1 else 0)"

definition timer_bytes :: "IEC_Timer \<Rightarrow> u8 list" where
  "timer_bytes t =
     map bool_byte [tm_enabled t, tm_input t, tm_output t, tm_prev_input t, tm_timing t] @
     replicate 3 0 @ le64 (tv_sec (tm_start t)) @ le64 (tv_nsec (tm_start t)) @
     le32 (preset_ms t) @ le32 (ET t)"

definition counter_bytes :: "CT_Counter \<Rightarrow> u8 list" where
  "counter_bytes c = le32 (ct_value c) @ le32 (ct_preset c)"

section \<open>Registers and memory\<close>

definition calculate_registers_hash_ex :: "(u8 \<Rightarrow> u32) \<Rightarrow> nat \<Rightarrow> hash_algorithm \<Rightarrow> u32" where
  "calculate_registers_hash_ex regs count algo = hash_buffer (registers_bytes regs count) algo"

definition calculate_registers_hash :: "(u8 \<Rightarrow> u32) \<Rightarrow> nat \<Rightarrow> u32" where
  "calculate_registers_hash regs count = crc32 (registers_bytes regs count)"

definition calculate_memory_hash_ex :: "(nat \<Rightarrow> u8) \<Rightarrow> u32 \<Rightarrow> u64 \<Rightarrow> hash_algorithm \<Rightarrow> u32 res" where
  "calculate_memory_hash_ex m start_addr len algo =
     bindR (mem_slice m (unat start_addr) (unat len)) (\<lambda>bytes. Inr (hash_buffer bytes algo))"

definition calculate_memory_hash :: "(nat \<Rightarrow> u8) \<Rightarrow> u32 \<Rightarrow> u64 \<Rightarrow> u32 res" where
  "calculate_memory_hash m start_addr len =
     bindR (mem_slice m (unat start_addr) (unat len)) (\<lambda>bytes. Inr (crc32 bytes))"

definition vm_calculate_registers_hash_ex :: "vm_state \<Rightarrow> hash_algorithm \<Rightarrow> u32" where
  "vm_calculate_registers_hash_ex vm algo = hash_buffer (registers_bytes (reg vm) REG_COUNT) algo"

definition vm_calculate_registers_hash :: "vm_state \<Rightarrow> u32" where
  "vm_calculate_registers_hash vm = crc32 (registers_bytes (reg vm) REG_COUNT)"

text \<open>The sum \<open>start_addr + length\<close> is a \<open>size_t\<close> and can wrap.\<close>

definition vm_calculate_memory_hash_ex :: "vm_state \<Rightarrow> u32 \<Rightarrow> u64 \<Rightarrow> hash_algorithm \<Rightarrow> u32 res" where
  "vm_calculate_memory_hash_ex vm start_addr len algo =
     (if VM_MEM_BYTES \<le> unat start_addr then Inr 0 else
      let len = (if VM_MEM_BYTES < unat (ucast start_addr + len)
                 then of_nat (VM_MEM_BYTES - unat start_addr) else len) in
      bindR (mem_slice (mem vm) (unat start_addr) (unat len)) (\<lambda>bytes. Inr (hash_buffer bytes algo)))"

definition vm_calculate_memory_hash :: "vm_state \<Rightarrow> u32 \<Rightarrow> u64 \<Rightarrow> u32 res" where
  "vm_calculate_memory_hash vm start_addr len =
     (if VM_MEM_BYTES \<le> unat start_addr then Inr 0 else
      let len = (if VM_MEM_BYTES < unat (ucast start_addr + len)
                 then of_nat (VM_MEM_BYTES - unat start_addr) else len) in
      bindR (mem_slice (mem vm) (unat start_addr) (unat len)) (\<lambda>bytes. Inr (crc32 bytes)))"

section \<open>Program and state\<close>

definition vm_calculate_program_hash_ex :: "vm_state \<Rightarrow> hash_algorithm \<Rightarrow> u32 res" where
  "vm_calculate_program_hash_ex vm algo =
     (if program_size vm = 0 then Inr 0
      else if VM_MEM_BYTES \<le> unat (PC_START vm) then Inr 0
      else let hash_size = unat (program_size vm);
               hash_size = (if VM_MEM_BYTES - unat (PC_START vm) < hash_size
                            then VM_MEM_BYTES - unat (PC_START vm) else hash_size) in
        bindR (mem_slice (mem vm) (unat (PC_START vm)) hash_size) (\<lambda>bytes. Inr (hash_buffer bytes algo)))"

definition vm_calculate_program_hash :: "vm_state \<Rightarrow> u32 res" where
  "vm_calculate_program_hash vm =
     (if program_size vm = 0 then Inr 0
      else if VM_MEM_BYTES \<le> unat (PC_START vm) then Inr 0
      else let hash_size = unat (program_size vm);
               hash_size = (if VM_MEM_BYTES - unat (PC_START vm) < hash_size
                            then VM_MEM_BYTES - unat (PC_START vm) else hash_size) in
        bindR (mem_slice (mem vm) (unat (PC_START vm)) hash_size) (\<lambda>bytes. Inr (crc32 bytes)))"

definition vm_calculate_state_hash :: "vm_state \<Rightarrow> u32 res" where
  "vm_calculate_state_hash vm =
     (let crc = crc32_begin;
          crc = crc32_update crc (registers_bytes (reg vm) REG_COUNT);
          crc = crc32_update crc (le32 (PC vm)) in
      bindR (if program_size vm > 0 then
               let mem_to_hash = unat (program_size vm);
                   mem_to_hash = (if VM_MEM_BYTES < mem_to_hash then VM_MEM_BYTES else mem_to_hash) in
               bindR (mem_slice (mem vm) 0 mem_to_hash) (\<lambda>bytes. Inr (crc32_update crc bytes))
             else Inr crc) (\<lambda>crc.
      let crc = crc32_update crc (concat (map timer_bytes (ton_timers vm)));
          crc = crc32_update crc (concat (map timer_bytes (tof_timers vm)));
          crc = crc32_update crc (concat (map timer_bytes (tp_timers vm)));
          crc = crc32_update crc (concat (map counter_bytes (ctu_counters vm)));
          crc = crc32_update crc (concat (map counter_bytes (ctd_counters vm)));
          crc = crc32_update crc (concat (map counter_bytes (ctud_counters vm)))
      in Inr (crc32_finalize crc)))"

section \<open>Incremental hashes\<close>

definition vm_update_register_hash :: "vm_state \<Rightarrow> u8 \<Rightarrow> vm_state" where
  "vm_update_register_hash vm reg_num = vm\<lparr>incremental := (incremental vm)\<lparr>reg_hashes :=
     (reg_hashes (incremental vm))(reg_num := crc32 (le32 (reg vm reg_num)))\<rparr>\<rparr>"

definition vm_update_all_register_hashes :: "vm_state \<Rightarrow> vm_state" where
  "vm_update_all_register_hashes vm =
     (let vm = fold (\<lambda>i vm. vm_update_register_hash vm (of_nat i)) [0..<REG_COUNT] vm
      in vm\<lparr>incremental := (incremental vm)\<lparr>incremental_hash := vm_calculate_registers_hash vm\<rparr>\<rparr>)"

section \<open>Lemmas\<close>

lemma registers_bytes_split:
  assumes "r < count" "count \<le> 256"
  shows "\<exists>xs ys. \<forall>w. registers_bytes (regs(of_nat r := w)) count = xs @ le32 w @ ys"
proof -
  have up: "[0..<count] = [0..<r] @ r # [Suc r..<count]"
    using assms(1) upt_add_eq_append [of 0 r "count - r"] upt_conv_Cons [of r count] by simp
  have inj: "of_nat k \<noteq> (of_nat r :: u8)" if "k < 256" "k \<noteq> r" for k
    using that assms by (auto simp: word_unat_eq_iff unsigned_of_nat take_bit_nat_eq_self)
  have "map (\<lambda>k. le32 ((regs(of_nat r := w)) (of_nat k))) [0..<r] = map (\<lambda>k. le32 (regs (of_nat k))) [0..<r]"
    "map (\<lambda>k. le32 ((regs(of_nat r := w)) (of_nat k))) [Suc r..<count] = map (\<lambda>k. le32 (regs (of_nat k))) [Suc r..<count]" for w
    using inj assms by (auto simp: map_eq_conv)
  then show ?thesis
    unfolding registers_bytes_def up by (simp only: map_append list.map concat_append concat.simps fun_upd_same) blast
qed

text \<open>A changed register changes the register hash, whichever algorithm the machine uses for it.\<close>

lemma registers_hash_detects:
  "vm_calculate_registers_hash (vm\<lparr>reg := (reg vm)(r := v)\<rparr>) = vm_calculate_registers_hash (vm\<lparr>reg := (reg vm)(r := w)\<rparr>)
   \<longleftrightarrow> v = w"
proof -
  have r: "of_nat (unat r) = r" by simp
  obtain xs ys where "\<And>w. registers_bytes ((reg vm)(r := w)) 256 = xs @ le32 w @ ys"
    using registers_bytes_split [of "unat r" 256 "reg vm"] unat_u8_less [of r] by (auto simp: r)
  then show ?thesis
    using crc32_word_inject [of xs v ys w] by (simp add: vm_calculate_registers_hash_def REG_COUNT_def)
qed

lemma mem_slice_split:
  assumes "a \<le> p" "p + 4 \<le> a + n"
  shows "\<exists>xs ys. \<forall>w. map (put_word m p w) [a..<a + n] = xs @ le32 w @ ys"
proof -
  have up: "[a..<a + n] = [a..<p] @ [p..<p + 4] @ [p + 4..<a + n]"
  proof -
    have "[a..<a + n] = [a..<p] @ [p..<a + n]"
      using assms upt_add_eq_append [of a p "a + n - p"] by simp
    also have "[p..<a + n] = [p..<p + 4] @ [p + 4..<a + n]"
      using assms upt_add_eq_append [of p "p + 4" "a + n - (p + 4)"] by simp
    finally show ?thesis .
  qed
  have "map (put_word m p w) [a..<p] = map m [a..<p]"
    "map (put_word m p w) [p + 4..<a + n] = map m [p + 4..<a + n]" for w
    by (auto simp: put_word_other)
  moreover have "map (put_word m p w) [p..<p + 4] = le32 w" for w
    by (simp only: map_word_at word_at_put_word)
  ultimately show ?thesis
    unfolding up by (simp only: map_append) blast
qed

text \<open>
  The program checksum of the runtime detects the modification of any one
  instruction of the loaded program: with the program inside the memory, writing a word at an
  address inside the program keeps the hash exactly if it writes the value already there.
\<close>

theorem program_hash_detects_modification:
  assumes "unat (PC_START vm) + unat (program_size vm) \<le> VM_MEM_BYTES"
    and "unat (PC_START vm) \<le> p" "p + 4 \<le> unat (PC_START vm) + unat (program_size vm)"
  shows "vm_calculate_program_hash (vm\<lparr>mem := put_word (mem vm) p w\<rparr>) = vm_calculate_program_hash vm
    \<longleftrightarrow> w = word_at (mem vm) p"
proof -
  obtain xs ys where split: "\<And>w. map (put_word (mem vm) p w)
      [unat (PC_START vm)..<unat (PC_START vm) + unat (program_size vm)] = xs @ le32 w @ ys"
    using mem_slice_split [OF assms(2,3)] by blast
  have same: "put_word (mem vm) p (word_at (mem vm) p) = mem vm"
    using le32_word_at [of "mem vm" p] by (auto simp: put_word_def le32_def fun_eq_iff)
  have "program_size vm \<noteq> 0" using assms(2,3) by auto
  then have hash: "vm_calculate_program_hash (vm\<lparr>mem := m\<rparr>) =
      Inr (crc32 (map m [unat (PC_START vm)..<unat (PC_START vm) + unat (program_size vm)]))" for m
    using assms by (simp add: vm_calculate_program_hash_def mem_slice_def Let_def)
  have "vm_calculate_program_hash vm = vm_calculate_program_hash (vm\<lparr>mem := put_word (mem vm) p (word_at (mem vm) p)\<rparr>)"
    by (simp add: same)
  then show ?thesis
    unfolding hash split by (simp add: crc32_word_inject)
qed

text \<open>
  The range check of \<open>vm_calculate_memory_hash\<close> can be passed by a length close
  to the maximum of \<open>size_t\<close>: the sum with the start wraps, the length is not cut, and the
  checksum reads past the end of the memory.
\<close>

theorem memory_hash_length_wraps:
  assumes "0 < unat start" "unat start < VM_MEM_BYTES" "18446744073709551616 - unat start \<le> unat len"
  shows "vm_calculate_memory_hash vm start len = Inl Out_Of_Bounds"
proof -
  have "unat (ucast start :: u64) = unat start"
    using unat_u32_less [of start] by (simp add: unsigned_ucast_eq take_bit_nat_eq_self)
  then have "unat (ucast start + len) = unat start + unat len - 18446744073709551616"
    using assms unat_u64_less [of len] by (simp add: unat_word_ariths mod_if)
  then have "\<not> VM_MEM_BYTES < unat (ucast start + len)"
    using assms unat_u64_less [of len] by simp
  moreover have "\<not> unat start + unat len \<le> VM_MEM_BYTES" using assms by simp
  ultimately show ?thesis
    using assms(2) by (simp add: vm_calculate_memory_hash_def mem_slice_def)
qed

theorem program_hash_detects_modification_witness:
  "vm_calculate_program_hash (vm_zero\<lparr>PC_START := 0x3000, program_size := 8, mem := put_word (\<lambda>_. 0) 0x3004 7\<rparr>) \<noteq>
   vm_calculate_program_hash (vm_zero\<lparr>PC_START := 0x3000, program_size := 8\<rparr>)"
proof -
  have m: "mem vm_zero = (\<lambda>_. 0)" by (simp add: vm_zero_def)
  have "word_at (\<lambda>_. 0) 0x3004 = 0" by (simp add: word_at_def of_le32_def)
  then show ?thesis
    using program_hash_detects_modification [of "vm_zero\<lparr>PC_START := 0x3000, program_size := 8\<rparr>" "0x3004" 7]
    by (simp add: m)
qed

theorem memory_hash_length_wraps_witness:
  "vm_calculate_memory_hash vm_zero 1 0xFFFFFFFFFFFFFFFF = Inl Out_Of_Bounds"
  by (rule memory_hash_length_wraps) simp_all

end
