(* ===== verification/Lifecycle.thy ===== *)
theory Lifecycle
  imports Timers Dispatch
begin

text \<open>
  Creation, reset and destruction of a machine (\<open>vm_lifecycle.c\<close>).  \<open>now\<close> is the reading of
  \<open>clock_gettime(CLOCK_MONOTONIC)\<close> the function makes; the flags \<open>alloc\<close> say which allocations
  succeed.  \<open>vm_destroy\<close> only gives memory back: of its effect the model keeps that the machine
  is gone (\<open>None\<close>).
\<close>

section \<open>Operations\<close>

definition DEFAULT_PC_START :: u32 where
  "DEFAULT_PC_START = 0x3000"

definition vm_state_init_registers :: "vm_state \<Rightarrow> vm_state" where
  "vm_state_init_registers vm =
     fold (\<lambda>i vm. vm\<lparr>reg := (reg vm)(of_nat i := 0)\<rparr>) [0..<REG_COUNT] vm"

definition vm_perf_stats_init :: "vm_perf_stats \<Rightarrow> vm_perf_stats" where
  "vm_perf_stats_init s = s\<lparr>
     cycles_total := 0, instructions_total := 0,
     cycle_exec_ns_total := 0, instr_exec_ns_total := 0,
     fetch_ns_total := 0, decode_ns_total := 0, dispatch_ns_total := 0,
     min_instr_ns := 0xFFFFFFFFFFFFFFFF, max_instr_ns := 0,
     overrun_cycles := 0\<rparr>"

text \<open>The fields the loop of \<open>vm_state_clear_iec_state\<close> sets in a timer: all but the start.\<close>

definition clear_timer :: "IEC_Timer \<Rightarrow> IEC_Timer" where
  "clear_timer t = t\<lparr>tm_enabled := False, tm_input := False, tm_output := False,
     tm_prev_input := False, tm_timing := False, preset_ms := 0, ET := 0\<rparr>"

definition disable_timer :: "IEC_Timer \<Rightarrow> IEC_Timer" where
  "disable_timer t = t\<lparr>tm_enabled := False\<rparr>"

definition clear_counter :: "CT_Counter \<Rightarrow> CT_Counter" where
  "clear_counter c = c\<lparr>ct_value := 0, ct_preset := 0\<rparr>"

definition clear_iec_at :: "nat \<Rightarrow> vm_state \<Rightarrow> vm_state" where
  "clear_iec_at t vm = vm\<lparr>
     tonr_timers := (tonr_timers vm)[t := disable_timer (tonr_timers vm ! t)],
     tofr_timers := (tofr_timers vm)[t := disable_timer (tofr_timers vm ! t)],
     ton_timers := (ton_timers vm)[t := clear_timer (ton_timers vm ! t)],
     tof_timers := (tof_timers vm)[t := clear_timer (tof_timers vm ! t)],
     tp_timers := (tp_timers vm)[t := clear_timer (tp_timers vm ! t)],
     ctu_counters := (ctu_counters vm)[t := clear_counter (ctu_counters vm ! t)],
     ctd_counters := (ctd_counters vm)[t := clear_counter (ctd_counters vm ! t)],
     ctud_counters := (ctud_counters vm)[t := clear_counter (ctud_counters vm ! t)],
     ctu_prev_input := (ctu_prev_input vm)[t := False],
     ctd_prev_input := (ctd_prev_input vm)[t := False],
     ctud_prev_up := (ctud_prev_up vm)[t := False],
     ctud_prev_down := (ctud_prev_down vm)[t := False]\<rparr>"

definition vm_state_clear_iec_state :: "vm_state \<Rightarrow> vm_state" where
  "vm_state_clear_iec_state vm = fold clear_iec_at [0..<MAX_TIMERS] (vm\<lparr>
     edge_prev_rising := replicate (length (edge_prev_rising vm)) False,
     edge_prev_falling := replicate (length (edge_prev_falling vm)) False,
     edge_prev_both := replicate (length (edge_prev_both vm)) False,
     rs_latches := replicate (length (rs_latches vm)) False,
     sr_latches := replicate (length (sr_latches vm)) False\<rparr>)"

definition vm_state_init_common :: "timespec \<Rightarrow> vm_state \<Rightarrow> vm_state" where
  "vm_state_init_common now vm =
     (let vm = vm\<lparr>PC_START := DEFAULT_PC_START, PC := 0, running := True,
            time_ms := 0, instr_ns_accum := 0,
            program_hash := 0, program_size := 0, cycle_count := 0, prev_cycle_hash := 0, exit_code := 0,
            stop_requested := False, reload_pending := False,
            config := (config vm)\<lparr>clock_rate_hz := 100, cycle_time_ms := 1000,
              enable_cycle_check := True, enable_hash_check := False, enable_tick_timing := False,
              hash_algo := HASH_CRC32\<rparr>,
            logging_enabled := True, verbose_logging := False\<rparr>;
          vm = vm_state_init_opcode_table vm;
          vm = vm_state_init_registers vm;
          vm = vm_state_clear_iec_state vm
      in vm\<lparr>dbg_prev_pc := 0, dbg_instruction_count := 0,
            dbg_prev_reg := \<lambda>_. 0, dbg_prev_mem := replicate (length (dbg_prev_mem vm)) 0,
            perf := vm_perf_stats_init (perf vm), last_tick_time := now\<rparr>)"

definition vm_state_reset_runtime :: "timespec \<Rightarrow> vm_state \<Rightarrow> vm_state" where
  "vm_state_reset_runtime now vm =
     (let vm = vm\<lparr>running := True, exit_code := 0, stop_requested := False, reload_pending := False,
            cycle_count := 0, prev_cycle_hash := 0, instr_ns_accum := 0, time_ms := 0,
            PC := PC_START vm\<rparr>;
          vm = vm_state_init_registers vm;
          vm = vm_state_clear_iec_state vm
      in vm\<lparr>dbg_prev_pc := 0, dbg_instruction_count := 0,
            dbg_prev_reg := \<lambda>_. 0, dbg_prev_mem := replicate (length (dbg_prev_mem vm)) 0,
            edge_prev_rising := replicate (length (edge_prev_rising vm)) False,
            edge_prev_falling := replicate (length (edge_prev_falling vm)) False,
            edge_prev_both := replicate (length (edge_prev_both vm)) False,
            perf := vm_perf_stats_init (perf vm), last_tick_time := now\<rparr>)"

definition vm_create :: "bool \<Rightarrow> bool \<Rightarrow> timespec \<Rightarrow> vm_state option" where
  "vm_create alloc_vm alloc_mem now =
     (if \<not> alloc_vm then None
      else if \<not> alloc_mem then None
      else Some (vm_state_init_common now (vm_zero\<lparr>program_dir := None, program_dir_signature := 0,
        modules := None, log_file := False, stop_requested := False, reload_pending := False\<rparr>)))"

definition vm_destroy :: "vm_state option \<Rightarrow> vm_state option" where
  "vm_destroy vm = (case vm of None \<Rightarrow> None | Some vm \<Rightarrow>
     (let vm = (if modules vm \<noteq> None then vm\<lparr>modules := None\<rparr> else vm);
          vm = (if log_file vm then vm\<lparr>log_file := False\<rparr> else vm);
          vm = (if program_dir vm \<noteq> None then vm\<lparr>program_dir := None\<rparr> else vm)
      in None))"

definition vm_init_defaults :: "timespec \<Rightarrow> vm_state option \<Rightarrow> vm_state option \<times> int" where
  "vm_init_defaults now vm = (case vm of None \<Rightarrow> (None, -1)
     | Some vm \<Rightarrow> (Some (vm_state_init_common now vm), 0))"

definition vm_reset :: "timespec \<Rightarrow> vm_state option \<Rightarrow> vm_state option \<times> int" where
  "vm_reset now vm = (case vm of None \<Rightarrow> (None, -1)
     | Some vm \<Rightarrow> (Some (vm_state_reset_runtime now vm), 0))"

section \<open>Loops\<close>

lemma fold_clear_registers:
  "fold (\<lambda>i vm. vm\<lparr>reg := (reg vm)(of_nat i := 0)\<rparr>) [0..<n] vm =
   vm\<lparr>reg := \<lambda>r. if r \<in> of_nat ` {..<n} then 0 else reg vm r\<rparr>"
proof (induction n)
  case (Suc n)
  have "(\<lambda>r. if r \<in> of_nat ` {..<n} then 0 else reg vm r)(of_nat n := 0) =
      (\<lambda>r. if r \<in> of_nat ` {..<Suc n} then 0 else reg vm r)"
    by (auto simp: lessThan_Suc)
  then show ?case by (simp add: Suc.IH del: fun_upd_apply)
qed simp

lemma init_registers_zero: "vm_state_init_registers vm = vm\<lparr>reg := \<lambda>_. 0\<rparr>"
proof -
  have "r \<in> of_nat ` {..<256}" for r :: u8
    using unat_u8_less [of r] by (intro image_eqI [of _ _ "unat r"]) simp_all
  then show ?thesis
    by (simp add: vm_state_init_registers_def fold_clear_registers REG_COUNT_def)
qed

lemma clear_loop:
  assumes "vm_wf vm" "n \<le> MAX_TIMERS"
  shows "fold clear_iec_at [0..<n] vm = vm\<lparr>
     tonr_timers := map disable_timer (take n (tonr_timers vm)) @ drop n (tonr_timers vm),
     tofr_timers := map disable_timer (take n (tofr_timers vm)) @ drop n (tofr_timers vm),
     ton_timers := map clear_timer (take n (ton_timers vm)) @ drop n (ton_timers vm),
     tof_timers := map clear_timer (take n (tof_timers vm)) @ drop n (tof_timers vm),
     tp_timers := map clear_timer (take n (tp_timers vm)) @ drop n (tp_timers vm),
     ctu_counters := map clear_counter (take n (ctu_counters vm)) @ drop n (ctu_counters vm),
     ctd_counters := map clear_counter (take n (ctd_counters vm)) @ drop n (ctd_counters vm),
     ctud_counters := map clear_counter (take n (ctud_counters vm)) @ drop n (ctud_counters vm),
     ctu_prev_input := map (\<lambda>_. False) (take n (ctu_prev_input vm)) @ drop n (ctu_prev_input vm),
     ctd_prev_input := map (\<lambda>_. False) (take n (ctd_prev_input vm)) @ drop n (ctd_prev_input vm),
     ctud_prev_up := map (\<lambda>_. False) (take n (ctud_prev_up vm)) @ drop n (ctud_prev_up vm),
     ctud_prev_down := map (\<lambda>_. False) (take n (ctud_prev_down vm)) @ drop n (ctud_prev_down vm)\<rparr>"
  using assms(2)
proof (induction n)
  case (Suc n)
  have "n < 16" using Suc.prems by simp
  note bools = list_update_map_step [where f = "\<lambda>_. False" and i = n]
  from \<open>n < 16\<close> Suc vm_wfD [OF assms(1)] show ?case
    by (simp add: clear_iec_at_def list_update_map_step nth_map_step bools del: map_replicate_const)
qed simp

lemma clear_iec_state_eq:
  assumes "vm_wf vm"
  shows "vm_state_clear_iec_state vm = vm\<lparr>
     tonr_timers := map disable_timer (tonr_timers vm), tofr_timers := map disable_timer (tofr_timers vm),
     ton_timers := map clear_timer (ton_timers vm), tof_timers := map clear_timer (tof_timers vm),
     tp_timers := map clear_timer (tp_timers vm),
     ctu_counters := map clear_counter (ctu_counters vm), ctd_counters := map clear_counter (ctd_counters vm),
     ctud_counters := map clear_counter (ctud_counters vm),
     ctu_prev_input := replicate 16 False, ctd_prev_input := replicate 16 False,
     ctud_prev_up := replicate 16 False, ctud_prev_down := replicate 16 False,
     edge_prev_rising := replicate 16 False, edge_prev_falling := replicate 16 False,
     edge_prev_both := replicate 16 False, rs_latches := replicate 16 False, sr_latches := replicate 16 False\<rparr>"
proof -
  let ?vm = "vm\<lparr>edge_prev_rising := replicate 16 False, edge_prev_falling := replicate 16 False,
     edge_prev_both := replicate 16 False, rs_latches := replicate 16 False, sr_latches := replicate 16 False\<rparr>"
  have "vm_wf ?vm" using assms by (simp add: vm_wf_def)
  from clear_loop [OF this, of 16] vm_wfD [OF assms] show ?thesis
    by (simp add: vm_state_clear_iec_state_def map_replicate_const)
qed

section \<open>Reset\<close>

lemma clear_idem [simp]: "clear_timer (clear_timer t) = clear_timer t" "disable_timer (disable_timer t) = disable_timer t"
  "clear_counter (clear_counter c) = clear_counter c" "vm_perf_stats_init (vm_perf_stats_init s) = vm_perf_stats_init s"
  by (simp_all add: clear_timer_def disable_timer_def clear_counter_def vm_perf_stats_init_def)

lemma clear_zero [simp]: "clear_timer zero_timer = zero_timer" "disable_timer zero_timer = zero_timer"
  "clear_counter zero_counter = zero_counter"
  by (simp_all add: clear_timer_def disable_timer_def clear_counter_def zero_timer_def zero_counter_def)

lemma clear_timer_output [simp]: "\<not> tm_output (clear_timer t)"
  by (simp add: clear_timer_def)

lemma reset_runtime_eq:
  assumes "vm_wf vm"
  shows "vm_state_reset_runtime now vm = vm\<lparr>
     running := True, exit_code := 0, stop_requested := False, reload_pending := False,
     cycle_count := 0, prev_cycle_hash := 0, instr_ns_accum := 0, time_ms := 0, PC := PC_START vm, reg := \<lambda>_. 0,
     tonr_timers := map disable_timer (tonr_timers vm), tofr_timers := map disable_timer (tofr_timers vm),
     ton_timers := map clear_timer (ton_timers vm), tof_timers := map clear_timer (tof_timers vm),
     tp_timers := map clear_timer (tp_timers vm),
     ctu_counters := map clear_counter (ctu_counters vm), ctd_counters := map clear_counter (ctd_counters vm),
     ctud_counters := map clear_counter (ctud_counters vm),
     ctu_prev_input := replicate 16 False, ctd_prev_input := replicate 16 False,
     ctud_prev_up := replicate 16 False, ctud_prev_down := replicate 16 False,
     edge_prev_rising := replicate 16 False, edge_prev_falling := replicate 16 False,
     edge_prev_both := replicate 16 False, rs_latches := replicate 16 False, sr_latches := replicate 16 False,
     dbg_prev_pc := 0, dbg_instruction_count := 0, dbg_prev_reg := \<lambda>_. 0,
     dbg_prev_mem := replicate 256 0, perf := vm_perf_stats_init (perf vm), last_tick_time := now\<rparr>"
proof -
  let ?vm = "vm\<lparr>running := True, exit_code := 0, stop_requested := False, reload_pending := False,
     cycle_count := 0, prev_cycle_hash := 0, instr_ns_accum := 0, time_ms := 0, PC := PC_START vm, reg := \<lambda>_. 0\<rparr>"
  have "vm_wf ?vm" using assms by simp
  from clear_iec_state_eq [OF this] show ?thesis
    using vm_wfD(2) [OF assms]
    by (simp add: vm_state_reset_runtime_def Let_def init_registers_zero MEM_LOG_SIZE_def)
qed



section \<open>Creation\<close>

lemma init_opcode_table_wf [simp]: "vm_wf vm \<Longrightarrow> vm_wf (vm_state_init_opcode_table vm)"
  by (simp add: vm_state_init_opcode_table_def vm_wf_def)

lemma init_common_eq:
  assumes "vm_wf vm"
  shows "vm_state_init_common now vm = (vm_state_init_opcode_table vm)\<lparr>
     PC_START := 0x3000, PC := 0, running := True, time_ms := 0, instr_ns_accum := 0,
     program_hash := 0, program_size := 0, cycle_count := 0, prev_cycle_hash := 0, exit_code := 0,
     stop_requested := False, reload_pending := False,
     config := \<lparr>clock_rate_hz = 100, cycle_time_ms = 1000, enable_cycle_check = True,
       enable_hash_check = False, enable_tick_timing = False, hash_algo = HASH_CRC32\<rparr>,
     logging_enabled := True, verbose_logging := False, reg := \<lambda>_. 0,
     tonr_timers := map disable_timer (tonr_timers vm), tofr_timers := map disable_timer (tofr_timers vm),
     ton_timers := map clear_timer (ton_timers vm), tof_timers := map clear_timer (tof_timers vm),
     tp_timers := map clear_timer (tp_timers vm),
     ctu_counters := map clear_counter (ctu_counters vm), ctd_counters := map clear_counter (ctd_counters vm),
     ctud_counters := map clear_counter (ctud_counters vm),
     ctu_prev_input := replicate 16 False, ctd_prev_input := replicate 16 False,
     ctud_prev_up := replicate 16 False, ctud_prev_down := replicate 16 False,
     edge_prev_rising := replicate 16 False, edge_prev_falling := replicate 16 False,
     edge_prev_both := replicate 16 False, rs_latches := replicate 16 False, sr_latches := replicate 16 False,
     dbg_prev_pc := 0, dbg_instruction_count := 0, dbg_prev_reg := \<lambda>_. 0,
     dbg_prev_mem := replicate 256 0, perf := vm_perf_stats_init (perf vm), last_tick_time := now\<rparr>"
proof -
  let ?c = "\<lparr>clock_rate_hz = 100, cycle_time_ms = 1000, enable_cycle_check = True,
     enable_hash_check = False, enable_tick_timing = False, hash_algo = HASH_CRC32\<rparr>"
  let ?vm = "(vm_state_init_opcode_table (vm\<lparr>PC_START := 0x3000, PC := 0, running := True, time_ms := 0,
     instr_ns_accum := 0, program_hash := 0, program_size := 0, cycle_count := 0, prev_cycle_hash := 0,
     exit_code := 0, stop_requested := False, reload_pending := False, config := ?c,
     logging_enabled := True, verbose_logging := False\<rparr>))\<lparr>reg := \<lambda>_. 0\<rparr>"
  have "vm_wf ?vm" using assms by simp
  note clear = clear_iec_state_eq [OF this]
  have c: "(config vm)\<lparr>clock_rate_hz := 100, cycle_time_ms := 1000, enable_cycle_check := True,
     enable_hash_check := False, enable_tick_timing := False, hash_algo := HASH_CRC32\<rparr> = ?c"
    by simp
  have "vm_state_init_common now vm = (vm_state_clear_iec_state ?vm)\<lparr>dbg_prev_pc := 0, dbg_instruction_count := 0,
     dbg_prev_reg := \<lambda>_. 0, dbg_prev_mem := replicate (length (dbg_prev_mem (vm_state_clear_iec_state ?vm))) 0,
     perf := vm_perf_stats_init (perf (vm_state_clear_iec_state ?vm)), last_tick_time := now\<rparr>"
    unfolding vm_state_init_common_def Let_def init_registers_zero c DEFAULT_PC_START_def ..
  then show ?thesis
    unfolding clear using vm_wfD(2) [OF assms]
    by (simp add: vm_state_init_opcode_table_def MEM_LOG_SIZE_def)
qed

lemma init_common_wf [simp]: "vm_wf vm \<Longrightarrow> vm_wf (vm_state_init_common now vm)"
  using vm_wfD [of vm]
  by (simp add: init_common_eq) (simp add: vm_state_init_opcode_table_def vm_wf_def MEM_LOG_SIZE_def)

lemma init_common_idem: "vm_wf vm \<Longrightarrow> vm_state_init_common now (vm_state_init_common now vm) = vm_state_init_common now vm"
  unfolding init_common_eq [OF init_common_wf] by (simp add: init_common_eq vm_state_init_opcode_table_def comp_def)

lemma reset_init_common:
  "vm_wf vm \<Longrightarrow> vm_state_reset_runtime now (vm_state_init_common now vm) = (vm_state_init_common now vm)\<lparr>PC := 0x3000\<rparr>"
  unfolding reset_runtime_eq [OF init_common_wf] by (simp add: init_common_eq vm_state_init_opcode_table_def comp_def)

text \<open>
  A created machine is well formed and ready: the configuration of the code, no program, an opcode table that dispatches exactly the
  opcodes 0 to 67 and, in their order, to the handlers of \<open>default_op_ex\<close>.  Setting the defaults again changes nothing, and a reset
  only moves the program counter to the start; the creation itself leaves it at 0.
\<close>

lemma vm_create_ready:
  "\<exists>vm. vm_create True True now = Some vm \<and> vm_wf vm \<and>
     config vm = \<lparr>clock_rate_hz = 100, cycle_time_ms = 1000, enable_cycle_check = True,
       enable_hash_check = False, enable_tick_timing = False, hash_algo = HASH_CRC32\<rparr> \<and>
     modules vm = None \<and> decoded_cache vm = None \<and> PC vm = 0 \<and> PC_START vm = 0x3000 \<and>
     op_ex vm = map Some default_op_ex @ replicate 60 None \<and>
     vm_init_defaults now (Some vm) = (Some vm, 0) \<and>
     vm_reset now (Some vm) = (Some (vm\<lparr>PC := PC_START vm\<rparr>), 0)"
proof -
  have z: "vm_zero\<lparr>program_dir := None, program_dir_signature := 0, modules := None, log_file := False,
      stop_requested := False, reload_pending := False\<rparr> = vm_zero"
    by (simp add: vm_zero_def)
  have "op_ex (vm_state_init_opcode_table vm) = map Some default_op_ex @ replicate 60 None" for vm
  proof -
    have "length default_op_ex = 68" by (simp add: default_op_ex_def)
    then show ?thesis
      by (intro nth_equalityI) (auto simp: vm_state_init_opcode_table_def nth_append)
  qed
  then show ?thesis
    using init_common_idem [of vm_zero now] reset_init_common [of vm_zero now] init_common_wf [of vm_zero now]
    unfolding vm_create_def z
    by (simp add: vm_init_defaults_def vm_reset_def init_common_eq)
      (simp add: vm_zero_def vm_state_init_opcode_table_def)
qed


end
