(* ===== verification/Loader.thy ===== *)
theory Loader
  imports VMHash
begin

text \<open>
  The loader (\<open>loader.c\<close>): program files are placed one behind the other from \<open>PC_START\<close>.
  The file system is a parameter: what \<open>fopen\<close>, \<open>fseek\<close>, \<open>ftell\<close> and \<open>fread\<close> deliver for a
  path, the names in a directory, and what \<open>stat\<close> reports.  \<open>alloc\<close> says whether \<open>calloc\<close>
  succeeds.  The printed module map is left out, but not the instructions the loader reads for it.
\<close>

section \<open>Files\<close>

text \<open>An opened file: whether seeking to its end works, what \<open>ftell\<close> returns there (a \<open>long\<close>),
  and the bytes \<open>fread\<close> can deliver from its start.\<close>

record file_info =
  f_seek_ok :: bool
  f_tell :: int
  f_data :: "u8 list"

record stat =
  st_regular :: bool
  st_directory :: bool
  st_size :: u64
  st_mtime :: u64

record file_system =
  fs_open :: "cstr \<Rightarrow> file_info option"
  fs_readdir :: "cstr \<Rightarrow> cstr list option"
  fs_stat :: "cstr \<Rightarrow> stat option"

definition write_bytes :: "(nat \<Rightarrow> u8) \<Rightarrow> nat \<Rightarrow> u8 list \<Rightarrow> nat \<Rightarrow> u8" where
  "write_bytes m a bs = (\<lambda>x. if a \<le> x \<and> x < a + length bs then bs ! (x - a) else m x)"

section \<open>Loading\<close>

definition free_modules :: "vm_state \<Rightarrow> vm_state" where
  "free_modules vm = vm\<lparr>modules := None\<rparr>"

definition add_module :: "vm_state \<Rightarrow> module_info \<Rightarrow> vm_state" where
  "add_module vm m = vm\<lparr>modules := Some (case modules vm of None \<Rightarrow> [m] | Some ms \<Rightarrow> ms @ [m])\<rparr>"

text \<open>One pass of the loop.  The second component is the write position behind the file, or
  \<open>None\<close> where the code returns -1.\<close>

definition load_one :: "file_system \<Rightarrow> cstr \<Rightarrow> u32 \<Rightarrow> vm_state \<Rightarrow> (vm_state \<times> u32 option) res" where
  "load_one fs fname write_ptr vm =
     (case fs_open fs fname of
        None \<Rightarrow> Inr (free_modules vm, None)
      | Some fp \<Rightarrow>
          if \<not> f_seek_ok fp then Inr (vm, None) else
          let fsize = f_tell fp in
          if fsize = 0 then
            Inr (add_module vm \<lparr>mod_name = fname, mod_addr = write_ptr, mod_size = 0\<rparr>, Some write_ptr)
          else if VM_MEM_BYTES < unat ((ucast write_ptr :: u64) + of_int fsize) then Inr (free_modules vm, None)
          else
            let bytes_read = min (unat (of_int fsize :: u64)) (length (f_data fp)) in
            if VM_MEM_BYTES < unat write_ptr + bytes_read then Inl Out_Of_Bounds else
            let vm = vm\<lparr>mem := write_bytes (mem vm) (unat write_ptr) (take bytes_read (f_data fp))\<rparr> in
            if bytes_read \<noteq> unat (of_int fsize :: u64) then Inr (free_modules vm, None) else
            let vm = add_module vm \<lparr>mod_name = fname, mod_addr = write_ptr, mod_size = of_nat bytes_read\<rparr> in
            Inr (vm\<lparr>program_size := program_size vm + ucast (of_nat bytes_read :: u32)\<rparr>,
              Some (write_ptr + of_nat bytes_read)))"

fun load_loop :: "file_system \<Rightarrow> cstr list \<Rightarrow> u32 \<Rightarrow> vm_state \<Rightarrow> (vm_state \<times> u32 option) res" where
  "load_loop fs [] write_ptr vm = Inr (vm, Some write_ptr)"
| "load_loop fs (fname # fnames) write_ptr vm =
     bindR (load_one fs fname write_ptr vm) (\<lambda>(vm, p).
     case p of None \<Rightarrow> Inr (vm, None) | Some write_ptr \<Rightarrow> load_loop fs fnames write_ptr vm)"

text \<open>The words of the debug listing: the first three of every module.\<close>

fun read_words :: "vm_state \<Rightarrow> u32 list \<Rightarrow> u32 list res" where
  "read_words vm [] = Inr []"
| "read_words vm (a # as) = bindR (vm_mr32 vm a) (\<lambda>w. bindR (read_words vm as) (\<lambda>ws. Inr (w # ws)))"

definition first_addrs :: "module_info \<Rightarrow> u32 list" where
  "first_addrs m = map (\<lambda>i. mod_addr m + of_nat (i * 4)) (filter (\<lambda>i. i * 4 < unat (mod_size m)) [0..<3])"

definition load_programs :: "bool \<Rightarrow> file_system \<Rightarrow> vm_state \<Rightarrow> cstr list \<Rightarrow> (vm_state \<times> int) res" where
  "load_programs alloc fs vm fnames =
     (if fnames = [] then Inr (vm, -1) else
      let vm = (if modules vm \<noteq> None then free_modules vm else vm) in
      if \<not> alloc then Inr (vm\<lparr>modules := None\<rparr>, -1) else
      let vm = vm\<lparr>modules := Some [], program_size := 0, program_hash := 0\<rparr> in
      bindR (load_loop fs fnames (PC_START vm) vm) (\<lambda>(vm, p).
      if p = None then Inr (vm, -1) else
      if modules vm = Some [] then Inr (vm\<lparr>modules := None\<rparr>, -1) else
      bindR (calculate_memory_hash (mem vm) (PC_START vm) (program_size vm)) (\<lambda>h.
      let vm = vm\<lparr>program_hash := h\<rparr> in
      bindR (read_words vm (concat (map first_addrs (case modules vm of None \<Rightarrow> [] | Some ms \<Rightarrow> ms)))) (\<lambda>_.
      Inr (vm, 0)))))"

section \<open>Layout\<close>

text \<open>Files that can be read whole, and the module table they give.\<close>

definition whole_file :: "u8 list \<Rightarrow> file_info" where
  "whole_file d = \<lparr>f_seek_ok = True, f_tell = int (length d), f_data = d\<rparr>"

fun layout :: "u32 \<Rightarrow> (cstr \<times> u8 list) list \<Rightarrow> module_info list" where
  "layout p [] = []"
| "layout p ((n, d) # files) =
     \<lparr>mod_name = n, mod_addr = p, mod_size = of_nat (length d)\<rparr> # layout (p + of_nat (length d)) files"

lemma length_layout [simp]: "length (layout p files) = length files"
  by (induction p files rule: layout.induct) simp_all

definition program_image :: "(cstr \<times> u8 list) list \<Rightarrow> u8 list" where
  "program_image files = concat (map snd files)"

lemma program_image_simps [simp]: "program_image [] = []" "program_image ((n, d) # files) = d @ program_image files"
  by (simp_all add: program_image_def)

lemma write_bytes_Nil [simp]: "write_bytes m a [] = m"
  by (rule ext) (auto simp: write_bytes_def)

lemma write_bytes_append: "write_bytes (write_bytes m a bs) (a + length bs) cs = write_bytes m a (bs @ cs)"
  by (auto simp: write_bytes_def nth_append fun_eq_iff)

lemma write_bytes_slice: "map (write_bytes m a bs) [a..<a + length bs] = bs"
  by (intro nth_equalityI) (simp_all add: write_bytes_def)

lemma write_bytes_other: "x < a \<or> a + length bs \<le> x \<Longrightarrow> write_bytes m a bs x = m x"
  by (auto simp: write_bytes_def)

lemma unat_end64:
  assumes "unat (p :: u32) + n \<le> VM_MEM_BYTES"
  shows "unat ((ucast p :: u64) + of_int (int n)) = unat p + n" "unat (of_int (int n) :: u64) = n"
    "unat (of_nat n :: u32) = n" "unat (p + of_nat n) = unat p + n"
proof -
  have p: "unat (ucast p :: u64) = unat p"
    using unat_u32_less [of p] by (simp add: unsigned_ucast_eq take_bit_nat_eq_self)
  show n: "unat (of_int (int n) :: u64) = n"
    using assms by (simp add: unsigned_of_nat take_bit_nat_eq_self)
  show "unat ((ucast p :: u64) + of_int (int n)) = unat p + n"
    using assms n p by (simp add: unat_word_ariths)
  show "unat (of_nat n :: u32) = n"
    using assms by (simp add: unsigned_of_nat take_bit_nat_eq_self)
  show "unat (p + of_nat n) = unat p + n"
    using assms by (simp add: unat_add_small)
qed

lemma load_one_whole:
  assumes "fs_open fs n = Some (whole_file d)" "unat p + length d \<le> VM_MEM_BYTES" "modules vm = Some ms"
  shows "load_one fs n p vm = Inr (vm\<lparr>
      modules := Some (ms @ [\<lparr>mod_name = n, mod_addr = p, mod_size = of_nat (length d)\<rparr>]),
      mem := write_bytes (mem vm) (unat p) d, program_size := program_size vm + of_nat (length d)\<rparr>,
    Some (p + of_nat (length d)))"
proof (cases "d = []")
  case True
  with assms show ?thesis by (simp add: load_one_def whole_file_def add_module_def Let_def)
next
  case False
  have "(ucast (of_nat (length d) :: u32) :: u64) = of_nat (length d)"
    using unat_end64(2,3) [OF assms(2)]
    using assms(2) by (simp add: word_unat_eq_iff unsigned_ucast_eq unsigned_of_nat take_bit_nat_eq_self)
  then show ?thesis
    using False assms unat_end64 [OF assms(2)]
    by (simp add: load_one_def whole_file_def add_module_def Let_def)
qed

lemma load_loop_whole:
  assumes "\<forall>(n, d) \<in> set files. fs_open fs n = Some (whole_file d)"
    and "unat p + length (program_image files) \<le> VM_MEM_BYTES" "modules vm = Some ms"
  shows "load_loop fs (map fst files) p vm = Inr (vm\<lparr>modules := Some (ms @ layout p files),
      mem := write_bytes (mem vm) (unat p) (program_image files),
      program_size := program_size vm + of_nat (length (program_image files))\<rparr>, Some (p + of_nat (length (program_image files))))"
  using assms
proof (induction files arbitrary: p vm ms)
  case (Cons f files)
  obtain n d where f: "f = (n, d)" by force
  have fits: "unat p + length d \<le> VM_MEM_BYTES" using Cons.prems f by simp
  from Cons.prems f have "load_one fs n p vm = Inr (vm\<lparr>
      modules := Some (ms @ [\<lparr>mod_name = n, mod_addr = p, mod_size = of_nat (length d)\<rparr>]),
      mem := write_bytes (mem vm) (unat p) d, program_size := program_size vm + of_nat (length d)\<rparr>,
    Some (p + of_nat (length d)))"
    by (intro load_one_whole) simp_all
  moreover have "unat (p + of_nat (length d)) + length (program_image files) \<le> VM_MEM_BYTES"
    using Cons.prems(2) f unat_end64(4) [OF fits] by simp
  ultimately show ?case
    using Cons.prems(1) unat_end64(4) [OF fits]
    by (simp add: f Cons.IH add.assoc flip: write_bytes_append)
qed simp

section \<open>A successful load\<close>

lemma layout_not_Nil [simp]: "layout p files = [] \<longleftrightarrow> files = []"
  by (cases "(p, files)" rule: layout.cases) simp_all

lemma layout_inside:
  assumes "m \<in> set (layout p files)" "unat p + length (program_image files) \<le> VM_MEM_BYTES"
  shows "unat p \<le> unat (mod_addr m) \<and>
    unat (mod_addr m) + unat (mod_size m) \<le> unat p + length (program_image files)"
  using assms
proof (induction p files rule: layout.induct)
  case (2 p n d files)
  have fits: "unat p + length d \<le> VM_MEM_BYTES" using 2 by simp
  have "unat (p + of_nat (length d)) + length (program_image files) \<le> VM_MEM_BYTES"
    using 2(3) unat_end64(4) [OF fits] by simp
  with 2 unat_end64(3,4) [OF fits] show ?case by auto
qed simp

lemma read_words_ok:
  "\<forall>a \<in> set as. unat a + 4 \<le> VM_MEM_BYTES \<Longrightarrow> read_words vm as = Inr (map (\<lambda>a. word_at (mem vm) (unat a)) as)"
  by (induction as) (simp_all add: vm_mr32_ok)

lemma vm_mr32_end:
  "VM_MEM_BYTES - 4 < unat a \<Longrightarrow> unat a < 4294967292 \<Longrightarrow> vm_mr32 vm a = Inl Out_Of_Bounds"
  using unat_add_small [of a 1] unat_add_small [of a 2] unat_add_small [of a 3]
  by (simp add: vm_mr32_def load8_def)

lemma read_words_fault:
  "a \<in> set as \<Longrightarrow> vm_mr32 vm a = Inl Out_Of_Bounds \<Longrightarrow> read_words vm as = Inl Out_Of_Bounds"
proof (induction as)
  case (Cons b as)
  have "vm_mr32 vm b = Inl e \<Longrightarrow> e = Out_Of_Bounds" for e
    by (auto simp: vm_mr32_def load8_def res_simps split: if_splits)
  with Cons show ?case by (cases "vm_mr32 vm b") auto
qed simp

lemma first_addrs_inside:
  assumes "a \<in> set (first_addrs m)" "unat (mod_addr m) + unat (mod_size m) + 3 \<le> VM_MEM_BYTES"
  shows "unat a + 4 \<le> VM_MEM_BYTES"
proof -
  obtain i where a: "a = mod_addr m + of_nat (i * 4)" and i: "i * 4 < unat (mod_size m)"
    using assms(1) by (auto simp: first_addrs_def)
  have "unat a = unat (mod_addr m) + i * 4"
    unfolding a using i assms(2) by (intro unat_add_small) simp
  with i assms(2) show ?thesis by simp
qed

definition program_files :: "file_system \<Rightarrow> (cstr \<times> u8 list) list \<Rightarrow> bool" where
  "program_files fs files \<longleftrightarrow> (\<forall>(n, d) \<in> set files. fs_open fs n = Some (whole_file d))"

text \<open>Files that are missing or can be read whole, and leave three bytes free behind them.\<close>

definition loadable :: "file_system \<Rightarrow> u32 \<Rightarrow> cstr list \<Rightarrow> bool" where
  "loadable fs p fnames \<longleftrightarrow> (\<exists>files. map fst files = fnames \<and>
     (\<forall>(n, d) \<in> set files. fs_open fs n = Some (whole_file d) \<or> fs_open fs n = None) \<and>
     unat p + length (program_image files) + 3 \<le> VM_MEM_BYTES)"

definition loaded :: "vm_state \<Rightarrow> (cstr \<times> u8 list) list \<Rightarrow> vm_state" where
  "loaded vm files = vm\<lparr>modules := Some (layout (PC_START vm) files),
     mem := write_bytes (mem vm) (unat (PC_START vm)) (program_image files),
     program_size := of_nat (length (program_image files)), program_hash := crc32 (program_image files)\<rparr>"

lemma load_programs_ok:
  assumes "program_files fs files" "files \<noteq> []"
    and "unat (PC_START vm) + length (program_image files) + 3 \<le> VM_MEM_BYTES"
  shows "load_programs True fs vm (map fst files) = Inr (loaded vm files, 0)"
proof -
  let ?p = "PC_START vm"
  let ?m = "write_bytes (mem vm) (unat ?p) (program_image files)"
  have fits: "unat ?p + length (program_image files) \<le> VM_MEM_BYTES" using assms(3) by simp
  have "unat (of_nat (length (program_image files)) :: u64) = length (program_image files)"
    using fits by (simp add: unsigned_of_nat take_bit_nat_eq_self)
  then have hash: "calculate_memory_hash ?m ?p (of_nat (length (program_image files))) = Inr (crc32 (program_image files))"
    using fits by (simp add: calculate_memory_hash_def mem_slice_def write_bytes_slice)
  have inside: "unat a + 4 \<le> VM_MEM_BYTES" if "a \<in> set (concat (map first_addrs (layout ?p files)))" for a
    using that layout_inside [OF _ fits] assms(3) first_addrs_inside by fastforce
  then have reads: "read_words vm' (concat (map first_addrs (layout ?p files))) =
      Inr (map (\<lambda>a. word_at (mem vm') (unat a)) (concat (map first_addrs (layout ?p files))))" for vm'
    by (intro read_words_ok) blast
  show ?thesis
    using load_loop_whole [of files fs ?p "vm\<lparr>modules := Some [], program_size := 0, program_hash := 0\<rparr>" "[]"]
      assms fits
    by (simp add: load_programs_def reads free_modules_def program_files_def Let_def hash loaded_def)
qed

text \<open>
  C19 (functional).  A load of readable files that fit into the memory, with three bytes to
  spare, succeeds and lays them out one behind the other from \<open>PC_START\<close> in the order given:
  every module names its file, starts where the previous one ends and lies inside the program;
  the memory there is the concatenation of the files, and elsewhere is the old one; size and
  checksum are those of the concatenation, and the checksum the runtime recomputes agrees.
\<close>

theorem load_programs_layout:
  assumes "program_files fs files" "files \<noteq> []"
    and "unat (PC_START vm) + length (program_image files) + 3 \<le> VM_MEM_BYTES"
  shows "\<exists>vm'. load_programs True fs vm (map fst files) = Inr (vm', 0) \<and>
    modules vm' = Some (layout (PC_START vm) files) \<and>
    (\<forall>m \<in> set (layout (PC_START vm) files). unat (PC_START vm) \<le> unat (mod_addr m) \<and>
      unat (mod_addr m) + unat (mod_size m) \<le> unat (PC_START vm) + length (program_image files)) \<and>
    mem_slice (mem vm') (unat (PC_START vm)) (length (program_image files)) = Inr (program_image files) \<and>
    (\<forall>a. a < unat (PC_START vm) \<or> unat (PC_START vm) + length (program_image files) \<le> a \<longrightarrow> mem vm' a = mem vm a) \<and>
    unat (program_size vm') = length (program_image files) \<and> program_hash vm' = crc32 (program_image files) \<and>
    calculate_memory_hash (mem vm') (PC_START vm') (program_size vm') = Inr (program_hash vm')"
proof -
  have fits: "unat (PC_START vm) + length (program_image files) \<le> VM_MEM_BYTES" using assms(3) by simp
  have sz: "unat (of_nat (length (program_image files)) :: u64) = length (program_image files)"
    using fits by (simp add: unsigned_of_nat take_bit_nat_eq_self)
  show ?thesis
    using load_programs_ok [OF assms] layout_inside [OF _ fits] fits sz
    by (intro exI [of _ "loaded vm files"])
      (simp add: loaded_def mem_slice_def write_bytes_slice write_bytes_other calculate_memory_hash_def)
qed

section \<open>Failures\<close>

lemma load_loop_append:
  "load_loop fs (xs @ ys) p vm = bindR (load_loop fs xs p vm) (\<lambda>(vm, p).
     case p of None \<Rightarrow> Inr (vm, None) | Some p \<Rightarrow> load_loop fs ys p vm)"
proof (induction xs arbitrary: p vm)
  case (Cons x xs)
  show ?case
    by (cases "load_one fs x p vm") (auto simp: Cons split: option.splits)
qed simp

text \<open>What a load can change.\<close>

definition load_frame :: "vm_state \<Rightarrow> vm_state \<Rightarrow> bool" where
  "load_frame vm vm' \<longleftrightarrow> vm' = vm\<lparr>modules := modules vm', mem := mem vm',
     program_size := program_size vm', program_hash := program_hash vm'\<rparr>"

lemma load_one_frame:
  "load_one fs f p vm = Inr (vm', q) \<Longrightarrow> load_frame vm vm'"
  by (auto simp: load_one_def load_frame_def free_modules_def add_module_def Let_def
      split: option.splits if_splits)

lemma load_frame_trans: "load_frame a b \<Longrightarrow> load_frame b c \<Longrightarrow> load_frame a c"
  unfolding load_frame_def by (elim ssubst) simp

lemma load_frame_fields:
  assumes "load_frame vm vm'"
  shows "program_dir vm' = program_dir vm" "PC_START vm' = PC_START vm" "config vm' = config vm"
    "decoded_cache vm' = decoded_cache vm" "reload_pending vm' = reload_pending vm" "op_ex vm' = op_ex vm"
  using assms [unfolded load_frame_def]
  by (auto dest: arg_cong [where f = program_dir] arg_cong [where f = PC_START] arg_cong [where f = config]
      arg_cong [where f = decoded_cache] arg_cong [where f = reload_pending] arg_cong [where f = op_ex])

lemma load_one_None:
  "load_one fs f p vm = Inr (vm', None) \<Longrightarrow> \<forall>fp. fs_open fs f = Some fp \<longrightarrow> f_seek_ok fp \<Longrightarrow> modules vm' = None"
  by (auto simp: load_one_def free_modules_def add_module_def Let_def split: option.splits if_splits)

lemma load_loop_facts:
  "load_loop fs fnames p vm = Inr (vm', q) \<Longrightarrow> load_frame vm vm' \<and>
     (q = None \<longrightarrow> (\<forall>f \<in> set fnames. \<forall>fp. fs_open fs f = Some fp \<longrightarrow> f_seek_ok fp) \<longrightarrow> modules vm' = None)"
proof (induction fnames arbitrary: p vm)
  case Nil
  then show ?case by (auto simp: load_frame_def)
next
  case (Cons f fnames)
  then obtain vm1 q1 where one: "load_one fs f p vm = Inr (vm1, q1)"
    by (auto simp: res_simps)
  show ?case
  proof (cases q1)
    case None
    with one load_one_frame [OF one] load_one_None [of fs f p vm vm1] Cons.prems show ?thesis by simp
  next
    case (Some r)
    with Cons.prems one have "load_loop fs fnames r vm1 = Inr (vm', q)" by simp
    from Cons.IH [OF this] load_one_frame [OF one] show ?thesis
      by (auto intro: load_frame_trans)
  qed
qed

abbreviation start_load :: "vm_state \<Rightarrow> vm_state" where
  "start_load vm \<equiv> vm\<lparr>modules := Some [], program_size := 0, program_hash := 0\<rparr>"

lemma load_programs_eq:
  "fnames \<noteq> [] \<Longrightarrow> load_programs True fs vm fnames =
     bindR (load_loop fs fnames (PC_START vm) (start_load vm)) (\<lambda>(vm, p).
     if p = None then Inr (vm, -1) else
     if modules vm = Some [] then Inr (vm\<lparr>modules := None\<rparr>, -1) else
     bindR (calculate_memory_hash (mem vm) (PC_START vm) (program_size vm)) (\<lambda>h.
     let vm = vm\<lparr>program_hash := h\<rparr> in
     bindR (read_words vm (concat (map first_addrs (case modules vm of None \<Rightarrow> [] | Some ms \<Rightarrow> ms)))) (\<lambda>_.
     Inr (vm, 0))))"
  by (cases "modules vm") (simp_all add: load_programs_def free_modules_def)

text \<open>How a load can end.\<close>

lemma load_programs_end:
  assumes "load_programs alloc fs vm fnames = Inr (vm', rc)" "fnames \<noteq> []"
  shows "rc = -1 \<and> vm' = vm\<lparr>modules := None\<rparr> \<or>
    (\<exists>vm1 q. load_loop fs fnames (PC_START vm) (start_load vm) = Inr (vm1, q) \<and>
      (q = None \<and> rc = -1 \<and> vm' = vm1 \<or>
       q \<noteq> None \<and> (rc = -1 \<and> vm' = vm1\<lparr>modules := None\<rparr> \<or> (\<exists>h. rc = 0 \<and> vm' = vm1\<lparr>program_hash := h\<rparr>))))"
proof (cases "alloc")
  case True
  note eq = load_programs_eq [OF assms(2), of fs vm]
  from assms True obtain vm1 q where loop: "load_loop fs fnames (PC_START vm) (start_load vm) = Inr (vm1, q)"
    by (cases "load_loop fs fnames (PC_START vm) (start_load vm)") (auto simp: eq)
  then show ?thesis
    using assms True
    by (cases "calculate_memory_hash (mem vm1) (PC_START vm1) (program_size vm1)")
      (auto simp: eq Let_def res_simps split: if_splits)
next
  case False
  with assms show ?thesis by (cases "modules vm") (simp_all add: load_programs_def free_modules_def)
qed

lemma load_frame_cut:
  "load_frame a b \<Longrightarrow> load_frame a (b\<lparr>modules := x\<rparr>)" "load_frame a b \<Longrightarrow> load_frame a (b\<lparr>program_hash := h\<rparr>)"
  unfolding load_frame_def by (elim ssubst, simp)+

lemma load_programs_frame:
  assumes "load_programs alloc fs vm fnames = Inr (vm', rc)"
  shows "load_frame vm vm' \<and> (rc = 0 \<or> rc = -1)"
proof (cases "fnames = []")
  case True
  with assms show ?thesis by (auto simp: load_programs_def load_frame_def)
next
  case False
  have start: "load_frame vm (start_load vm)" "load_frame vm (vm\<lparr>modules := None\<rparr>)"
    by (simp_all add: load_frame_def)
  have loop: "load_frame vm b" if "load_loop fs fnames (PC_START vm) (start_load vm) = Inr (b, q)" for b q
    using load_loop_facts [OF that] start(1) load_frame_trans by blast
  from load_programs_end [OF assms False] start(2) loop load_frame_cut show ?thesis by blast
qed

lemma load_programs_fail:
  assumes "load_programs alloc fs vm fnames = Inr (vm', -1)" "fnames \<noteq> []"
    and "\<forall>f \<in> set fnames. \<forall>fp. fs_open fs f = Some fp \<longrightarrow> f_seek_ok fp"
  shows "modules vm' = None"
  using load_programs_end [OF assms(1,2)] load_loop_facts [of fs fnames "PC_START vm" "start_load vm"] assms(3)
  by auto

lemma load_programs_missing:
  assumes "program_files fs files" "fs_open fs missing = None"
    and "unat (PC_START vm) + length (program_image files) \<le> VM_MEM_BYTES"
  shows "load_programs True fs vm (map fst files @ missing # rest) =
    Inr (vm\<lparr>modules := None, mem := write_bytes (mem vm) (unat (PC_START vm)) (program_image files),
      program_size := of_nat (length (program_image files)), program_hash := 0\<rparr>, -1)"
proof -
  have "load_loop fs (map fst files @ missing # rest) (PC_START vm) (start_load vm) =
    Inr (vm\<lparr>modules := None, mem := write_bytes (mem vm) (unat (PC_START vm)) (program_image files),
      program_size := of_nat (length (program_image files)), program_hash := 0\<rparr>, None)"
    using load_loop_whole [of files fs "PC_START vm" "start_load vm" "[]"] assms
    by (simp add: load_loop_append program_files_def load_one_def free_modules_def)
  then show ?thesis by (simp add: load_programs_eq)
qed

text \<open>
  A load that meets a missing file is no transaction: it reports the failure, but
  by then the modules that were loaded before are gone and the memory holds the files in front
  of the missing one.  Registers, configuration and all else stay.
\<close>

theorem load_programs_missing_file:
  assumes "program_files fs files" "fs_open fs missing = None"
    and "unat (PC_START vm) + length (program_image files) \<le> VM_MEM_BYTES"
  shows "\<exists>vm'. load_programs True fs vm (map fst files @ missing # rest) = Inr (vm', -1) \<and>
    modules vm' = None \<and>
    mem vm' = write_bytes (mem vm) (unat (PC_START vm)) (program_image files) \<and> load_frame vm vm'"
  using load_programs_missing [OF assms, of rest] by (simp add: load_frame_def)

text \<open>
  A program that fills the memory to its last byte and ends in a module of less
  than twelve bytes that is not a whole number of words makes the loader read past the end of
  the memory, when it lists the first three words of the module.
\<close>

theorem load_listing_out_of_bounds:
  assumes "program_files fs (files @ [(n, d)])" "length d mod 4 \<noteq> 0" "length d < 12"
    and "unat (PC_START vm) + length (program_image files) + length d = VM_MEM_BYTES"
  shows "load_programs True fs vm (map fst files @ [n]) = Inl Out_Of_Bounds"
proof -
  let ?files = "files @ [(n, d)]" and ?p = "PC_START vm"
  let ?m = "write_bytes (mem vm) (unat ?p) (program_image ?files)"
  have image: "program_image ?files = program_image files @ d" by (simp add: program_image_def)
  have fits: "unat ?p + length (program_image ?files) \<le> VM_MEM_BYTES" using assms(4) image by simp
  have "unat (of_nat (length (program_image ?files)) :: u64) = length (program_image ?files)"
    using fits by (simp add: unsigned_of_nat take_bit_nat_eq_self)
  then have hash: "calculate_memory_hash ?m ?p (of_nat (length (program_image ?files))) = Inr (crc32 (program_image ?files))"
    using fits by (simp only: calculate_memory_hash_def mem_slice_def write_bytes_slice if_True bindR_simps)
  let ?a = "?p + of_nat (length (program_image files))"
  let ?last = "\<lparr>mod_name = n, mod_addr = ?a, mod_size = of_nat (length d)\<rparr>"
  have "layout p (xs @ [(n, d)]) = layout p xs @ [\<lparr>mod_name = n,
      mod_addr = p + of_nat (length (program_image xs)), mod_size = of_nat (length d)\<rparr>]" for p xs
    by (induction p xs rule: layout.induct) (simp_all add: add.assoc)
  then have last: "?last \<in> set (layout ?p ?files)" by simp
  have a: "unat ?a = unat ?p + length (program_image files)" "unat (of_nat (length d) :: u32) = length d"
    using assms(3,4) by (simp_all add: unat_add_small unsigned_of_nat take_bit_nat_eq_self)
  let ?b = "?a + of_nat ((length d - 1) div 4 * 4)"
  have "length d \<noteq> 0" using assms(2) by auto
  then have i: "(length d - 1) div 4 * 4 < length d" "(length d - 1) div 4 < 3" "length d < (length d - 1) div 4 * 4 + 4"
    using assms(2,3) by presburger+
  then have "?b \<in> set (first_addrs ?last)"
    using a(2) by (auto simp: first_addrs_def intro!: image_eqI [of _ _ "(length d - 1) div 4"])
  moreover have "unat ?b = unat ?a + (length d - 1) div 4 * 4"
    using i a(1) assms(4) by (intro unat_add_small) simp
  then have "vm_mr32 vm' ?b = Inl Out_Of_Bounds" for vm'
    using i a(1) assms(4) vm_mr32_end [of ?b vm'] by simp
  ultimately have reads: "read_words vm' (concat (map first_addrs (layout ?p ?files))) = Inl Out_Of_Bounds" for vm'
    using last by (intro read_words_fault) auto
  show ?thesis
    using load_loop_whole [of ?files fs ?p "vm\<lparr>modules := Some [], program_size := 0, program_hash := 0\<rparr>" "[]"]
      assms(1) fits
    by (simp add: load_programs_def reads free_modules_def program_files_def Let_def hash del: map_append)
      (simp add: load_programs_def reads free_modules_def program_files_def Let_def hash)
qed

section \<open>Examples\<close>

text \<open>Two files \<open>a\<close> and \<open>b\<close> of eight and six bytes.\<close>

definition sample_fs :: file_system where
  "sample_fs = \<lparr>fs_open = [[97] \<mapsto> whole_file [1, 2, 3, 4, 5, 6, 7, 8], [98] \<mapsto> whole_file [9, 10, 11, 12, 13, 14]],
     fs_readdir = Map.empty, fs_stat = Map.empty\<rparr>"

lemma sample_fs_open:
  "fs_open sample_fs [97] = Some (whole_file [1, 2, 3, 4, 5, 6, 7, 8])"
  "fs_open sample_fs [98] = Some (whole_file [9, 10, 11, 12, 13, 14])" "fs_open sample_fs [99] = None"
  by (simp_all add: sample_fs_def)

theorem load_programs_layout_witness:
  "\<exists>vm'. load_programs True sample_fs (vm_zero\<lparr>PC_START := 0x3000\<rparr>) [[97], [98]] = Inr (vm', 0) \<and>
     modules vm' = Some [\<lparr>mod_name = [97], mod_addr = 0x3000, mod_size = 8\<rparr>,
       \<lparr>mod_name = [98], mod_addr = 0x3008, mod_size = 6\<rparr>] \<and>
     program_hash vm' = crc32 [1, 2, 3, 4, 5, 6, 7, 8, 9, 10, 11, 12, 13, 14]"
  using load_programs_layout [of sample_fs "[([97], [1, 2, 3, 4, 5, 6, 7, 8]), ([98], [9, 10, 11, 12, 13, 14])]"
      "vm_zero\<lparr>PC_START := 0x3000\<rparr>"]
  by (auto simp: program_files_def sample_fs_open)

theorem load_programs_missing_file_witness:
  "\<exists>vm'. load_programs True sample_fs (vm_zero\<lparr>PC_START := 0x3000\<rparr>) [[97], [99], [98]] = Inr (vm', -1) \<and>
     modules vm' = None \<and> mem vm' = write_bytes (mem vm_zero) 0x3000 [1, 2, 3, 4, 5, 6, 7, 8]"
  using load_programs_missing_file [of sample_fs "[([97], [1, 2, 3, 4, 5, 6, 7, 8])]" "[99]"
      "vm_zero\<lparr>PC_START := 0x3000\<rparr>" "[[98]]"]
  by (auto simp: program_files_def sample_fs_open)

theorem load_listing_out_of_bounds_witness:
  "load_programs True sample_fs (vm_zero\<lparr>PC_START := 0x3FFFFFA\<rparr>) [[98]] = Inl Out_Of_Bounds"
  using load_listing_out_of_bounds [of sample_fs "[]" "[98]" "[9, 10, 11, 12, 13, 14]"
      "vm_zero\<lparr>PC_START := 0x3FFFFFA\<rparr>"]
  by (simp add: program_files_def sample_fs_open)

end
