(* ===== verification/HotReload.thy ===== *)
theory HotReload
  imports Loader "HOL-Library.List_Lexorder" "HOL-Library.Multiset"
begin

text \<open>
  Hot reload (\<open>hot_reload.c\<close>): the program files of a directory, the signature of their
  contents, and the pending flag that makes the runtime load them again.  The directory is that
  of \<open>file_system\<close>; \<open>heap_env\<close> says which allocations succeed.  \<open>qsort\<close> is given by an insertion
  sort: for \<open>cmp_cstr_ptr\<close> any sorting has the same result (\<open>qsort_by_sort\<close>).
\<close>

section \<open>Program files of a directory\<close>

record heap_env =
  h_join :: "cstr \<Rightarrow> bool"
  h_push :: "cstr \<Rightarrow> bool"
  h_table :: bool
  h_modules :: bool

definition strrchr :: "cstr \<Rightarrow> u8 \<Rightarrow> cstr option" where
  "strrchr s c = (if c \<in> set s then Some (c # rev (takeWhile (\<lambda>x. x \<noteq> c) (rev s))) else None)"

definition has_bin_extension :: "cstr \<Rightarrow> bool" where
  "has_bin_extension name = (case strrchr name 46 of None \<Rightarrow> False | Some dot \<Rightarrow> dot = [46, 98, 105, 110])"

definition join_path :: "bool \<Rightarrow> cstr \<Rightarrow> cstr \<Rightarrow> cstr option" where
  "join_path malloc_ok dir name = (if malloc_ok then Some (dir @ [47] @ name) else None)"

fun strcmp :: "cstr \<Rightarrow> cstr \<Rightarrow> int" where
  "strcmp [] [] = 0"
| "strcmp [] (b # bs) = -1"
| "strcmp (a # as) [] = 1"
| "strcmp (a # as) (b # bs) = (if a = b then strcmp as bs else if a < b then -1 else 1)"

definition cmp_cstr_ptr :: "cstr \<Rightarrow> cstr \<Rightarrow> int" where
  "cmp_cstr_ptr sa sb = strcmp sa sb"

fun insert_by :: "('a \<Rightarrow> 'a \<Rightarrow> int) \<Rightarrow> 'a \<Rightarrow> 'a list \<Rightarrow> 'a list" where
  "insert_by cmp x [] = [x]"
| "insert_by cmp x (y # ys) = (if cmp x y \<le> 0 then x # y # ys else y # insert_by cmp x ys)"

definition qsort_by :: "('a \<Rightarrow> 'a \<Rightarrow> int) \<Rightarrow> 'a list \<Rightarrow> 'a list" where
  "qsort_by cmp xs = foldr (insert_by cmp) xs []"

definition push_path :: "bool \<Rightarrow> cstr list \<Rightarrow> cstr \<Rightarrow> cstr list option" where
  "push_path alloc_ok files path = (if alloc_ok then Some (files @ [path]) else None)"

definition file_is_regular :: "file_system \<Rightarrow> cstr \<Rightarrow> bool" where
  "file_is_regular fs path = (case fs_stat fs path of None \<Rightarrow> False | Some st \<Rightarrow> st_regular st)"

fun collect_loop :: "heap_env \<Rightarrow> file_system \<Rightarrow> cstr \<Rightarrow> cstr list \<Rightarrow> cstr list \<Rightarrow> cstr list option" where
  "collect_loop h fs dir [] files = Some files"
| "collect_loop h fs dir (name # names) files =
     (if \<not> has_bin_extension name then collect_loop h fs dir names files
      else if name = [46] \<or> name = [46, 46] then collect_loop h fs dir names files
      else case join_path (h_join h name) dir name of
          None \<Rightarrow> None
        | Some full \<Rightarrow>
            if \<not> file_is_regular fs full then collect_loop h fs dir names files
            else case push_path (h_push h name) files full of
                None \<Rightarrow> None
              | Some files \<Rightarrow> collect_loop h fs dir names files)"

definition collect_bin_files :: "heap_env \<Rightarrow> file_system \<Rightarrow> cstr \<Rightarrow> cstr list option" where
  "collect_bin_files h fs dir =
     (case fs_readdir fs dir of
        None \<Rightarrow> None
      | Some names \<Rightarrow>
          (case collect_loop h fs dir names [] of
             None \<Rightarrow> None
           | Some files \<Rightarrow> Some (if 1 < length files then qsort_by cmp_cstr_ptr files else files)))"

section \<open>Signature\<close>

text \<open>The loop that reads a file in blocks of 4096 bytes.\<close>

function crc_blocks :: "u32 \<Rightarrow> u8 list \<Rightarrow> u32" where
  "crc_blocks crc data =
     (let n = min 4096 (length data);
          crc = (if 0 < n then crc32_update crc (take n data) else crc)
      in if n < 4096 then crc else crc_blocks crc (drop n data))"
  by pat_completeness auto
termination by (relation "measure (\<lambda>(_, data). length data)") auto

declare crc_blocks.simps [simp del]

definition crc_file :: "file_system \<Rightarrow> cstr \<Rightarrow> u32 \<Rightarrow> u32" where
  "crc_file fs f crc =
     (case fs_stat fs f of
        None \<Rightarrow> crc
      | Some st \<Rightarrow>
          let crc = crc32_update crc f;
              crc = crc32_update crc (le64 (st_size st));
              crc = crc32_update crc (le64 (st_mtime st))
          in case fs_open fs f of None \<Rightarrow> crc | Some fp \<Rightarrow> crc_blocks crc (f_data fp))"

definition calc_dir_signature :: "heap_env \<Rightarrow> file_system \<Rightarrow> cstr \<Rightarrow> u32" where
  "calc_dir_signature h fs dir =
     (case collect_bin_files h fs dir of
        None \<Rightarrow> 0
      | Some files \<Rightarrow> crc32_finalize (fold (crc_file fs) files crc32_begin))"

definition directory_changed :: "heap_env \<Rightarrow> file_system \<Rightarrow> cstr \<Rightarrow> u32 \<Rightarrow> u32 \<times> int" where
  "directory_changed h fs dir prev_sig =
     (let new_sig = calc_dir_signature h fs dir in
      if prev_sig = 0 then (new_sig, 0)
      else if new_sig \<noteq> prev_sig then (new_sig, 1)
      else (prev_sig, 0))"

section \<open>Reload\<close>

definition reload_programs_from_directory ::
  "heap_env \<Rightarrow> file_system \<Rightarrow> vm_state \<Rightarrow> cstr \<Rightarrow> (vm_state \<times> int) res" where
  "reload_programs_from_directory h fs vm dir =
     (case collect_bin_files h fs dir of
        None \<Rightarrow> Inr (vm, -1)
      | Some files \<Rightarrow>
          if files = [] then Inr (vm, -1)
          else if \<not> h_table h then Inr (vm, -1)
          else bindR (load_programs (h_modules h) fs vm files) (\<lambda>(vm, rc).
            if rc = 0 then bindR (vm_calculate_program_hash vm) (\<lambda>hash. Inr (vm\<lparr>program_hash := hash\<rparr>, rc))
            else Inr (vm, rc)))"

definition apply_pending_reload :: "heap_env \<Rightarrow> file_system \<Rightarrow> vm_state \<Rightarrow> vm_state res" where
  "apply_pending_reload h fs vm =
     (case program_dir vm of
        None \<Rightarrow> Inr vm
      | Some dir \<Rightarrow>
          let was = reload_pending vm; vm = vm\<lparr>reload_pending := False\<rparr> in
          if \<not> was then Inr vm
          else bindR (reload_programs_from_directory h fs vm dir) (\<lambda>(vm, rc).
            if rc \<noteq> 0 then Inr (vm\<lparr>reload_pending := True\<rparr>) else Inr vm))"

text \<open>The start of a cycle of \<open>run_program\<close>: look for a change, then reload.\<close>

definition reload_phase :: "heap_env \<Rightarrow> file_system \<Rightarrow> vm_state \<Rightarrow> vm_state res" where
  "reload_phase h fs vm =
     (let vm = (case program_dir vm of
            None \<Rightarrow> vm
          | Some dir \<Rightarrow>
              let (sig, changed) = directory_changed h fs dir (program_dir_signature vm);
                  vm = vm\<lparr>program_dir_signature := sig\<rparr>
              in if changed \<noteq> 0 then vm\<lparr>reload_pending := True\<rparr> else vm)
      in apply_pending_reload h fs vm)"

section \<open>The order of the files\<close>

lemma strcmp_le: "strcmp a b \<le> 0 \<longleftrightarrow> a \<le> b"
  by (induction a b rule: strcmp.induct) auto

lemma insert_by_insort: "insert_by cmp_cstr_ptr x xs = insort x xs"
  by (induction xs) (simp_all add: cmp_cstr_ptr_def strcmp_le)

lemma qsort_by_sort: "qsort_by cmp_cstr_ptr xs = sort xs"
proof -
  have "insert_by cmp_cstr_ptr = insort" by (intro ext) (rule insert_by_insort)
  then show ?thesis by (simp add: qsort_by_def sort_key_def)
qed

definition is_program :: "file_system \<Rightarrow> cstr \<Rightarrow> cstr \<Rightarrow> bool" where
  "is_program fs dir name \<longleftrightarrow> has_bin_extension name \<and> file_is_regular fs (dir @ [47] @ name)"

definition heap_ok :: "heap_env \<Rightarrow> bool" where
  "heap_ok h \<longleftrightarrow> (\<forall>n. h_join h n) \<and> (\<forall>n. h_push h n) \<and> h_table h \<and> h_modules h"

lemma dots_no_bin [simp]: "\<not> has_bin_extension [46]" "\<not> has_bin_extension [46, 46]"
  by (simp_all add: has_bin_extension_def strrchr_def)

lemma collect_loop_ok:
  "heap_ok h \<Longrightarrow> collect_loop h fs dir names files =
     Some (files @ map (\<lambda>n. dir @ [47] @ n) (filter (is_program fs dir) names))"
  by (induction names arbitrary: files)
    (auto simp: heap_ok_def join_path_def push_path_def is_program_def)

lemma sort_short: "\<not> 1 < length xs \<Longrightarrow> sort xs = xs"
  by (cases xs) simp_all

lemma collect_bin_files_ok:
  "heap_ok h \<Longrightarrow> fs_readdir fs dir = Some names \<Longrightarrow>
     collect_bin_files h fs dir = Some (sort (map (\<lambda>n. dir @ [47] @ n) (filter (is_program fs dir) names)))"
  by (simp add: collect_bin_files_def collect_loop_ok qsort_by_sort sort_short)

text \<open>
  C35 (equivalence).  The order in which the directory is read does not matter: two listings
  with the same names give the same files in the same order, the same signature, and the same
  reload, in memory layout and all.
\<close>

theorem directory_order_irrelevant:
  assumes "heap_ok h" "fs_readdir fs dir = Some names" "mset names' = mset names"
  shows "collect_bin_files h (fs\<lparr>fs_readdir := (fs_readdir fs)(dir \<mapsto> names')\<rparr>) dir = collect_bin_files h fs dir \<and>
    calc_dir_signature h (fs\<lparr>fs_readdir := (fs_readdir fs)(dir \<mapsto> names')\<rparr>) dir = calc_dir_signature h fs dir \<and>
    reload_programs_from_directory h (fs\<lparr>fs_readdir := (fs_readdir fs)(dir \<mapsto> names')\<rparr>) vm dir =
      reload_programs_from_directory h fs vm dir"
proof -
  let ?fs = "fs\<lparr>fs_readdir := (fs_readdir fs)(dir \<mapsto> names')\<rparr>"
  have prog: "is_program ?fs dir = is_program fs dir"
    by (simp add: is_program_def file_is_regular_def fun_eq_iff)
  have "mset (map f (filter P names')) = mset (map f (filter P names))" for f :: "cstr \<Rightarrow> cstr" and P
    using assms(3) by (simp add: mset_filter)
  then have "sort (map f (filter P names')) = sort (map f (filter P names))" for f :: "cstr \<Rightarrow> cstr" and P
    by (intro properties_for_sort) simp_all
  then have files: "collect_bin_files h ?fs dir = collect_bin_files h fs dir"
    using assms(1,2) by (simp add: collect_bin_files_ok prog)
  have same: "fs_open ?fs = fs_open fs" "fs_stat ?fs = fs_stat fs" by simp_all
  have crc: "crc_file ?fs = crc_file fs"
    by (simp only: crc_file_def [abs_def] same)
  have one: "load_one ?fs = load_one fs"
    by (simp only: load_one_def [abs_def] same)
  have "load_loop ?fs fnames p vm = load_loop fs fnames p vm" for fnames p vm
  proof (induction fnames arbitrary: p vm)
    case (Cons f fnames)
    show ?case by (simp only: load_loop.simps one Cons.IH)
  qed simp
  then have load: "load_programs a ?fs vm fnames = load_programs a fs vm fnames" for a fnames
    by (simp add: load_programs_def)
  show ?thesis
    using files by (cases "collect_bin_files h fs dir")
      (simp_all add: calc_dir_signature_def crc load reload_programs_from_directory_def)
qed

section \<open>The pending flag\<close>

lemma program_hash_total: "\<exists>h. vm_calculate_program_hash vm = Inr h"
  by (auto simp: vm_calculate_program_hash_def mem_slice_def Let_def)

definition seekable :: "file_system \<Rightarrow> bool" where
  "seekable fs \<longleftrightarrow> (\<forall>f fp. fs_open fs f = Some fp \<longrightarrow> f_seek_ok fp)"

lemma load_one_modules:
  "load_one fs f p vm = Inr (vm', Some q) \<Longrightarrow> modules vm' \<noteq> None"
  by (auto simp: load_one_def add_module_def Let_def split: option.splits if_splits)

lemma load_loop_modules:
  "load_loop fs fnames p vm = Inr (vm', Some q) \<Longrightarrow> modules vm \<noteq> None \<Longrightarrow> modules vm' \<noteq> None"
proof (induction fnames arbitrary: p vm)
  case (Cons f fnames)
  then obtain vm1 q1 where one: "load_one fs f p vm = Inr (vm1, q1)"
    by (auto simp: res_simps)
  with Cons.prems obtain r where "q1 = Some r" "load_loop fs fnames r vm1 = Inr (vm', Some q)"
    by (cases q1) auto
  with one show ?case using Cons.IH load_one_modules by blast
qed simp

text \<open>The outcomes of a reload.\<close>

lemma reload_outcome:
  assumes "reload_programs_from_directory h fs vm dir = Inr (vm', rc)"
  shows "load_frame vm vm'" "rc = 0 \<longrightarrow> modules vm' \<noteq> None"
    "rc \<noteq> 0 \<longrightarrow> seekable fs \<longrightarrow> modules vm' = None \<or> vm' = vm"
proof -
  have refl: "load_frame vm vm" by (simp add: load_frame_def)
  consider "vm' = vm" "rc = -1"
    | files vm1 where "files \<noteq> []" "load_programs (h_modules h) fs vm files = Inr (vm1, rc)" "rc \<noteq> 0" "vm' = vm1"
    | files vm1 hash where "files \<noteq> []" "load_programs (h_modules h) fs vm files = Inr (vm1, 0)" "rc = 0"
        "vm' = vm1\<lparr>program_hash := hash\<rparr>"
  proof (cases "collect_bin_files h fs dir")
    case None
    with assms that(1) show ?thesis by (simp add: reload_programs_from_directory_def)
  next
    case (Some files)
    show ?thesis
    proof (cases "files = [] \<or> \<not> h_table h")
      case True
      with Some assms that(1) show ?thesis by (simp add: reload_programs_from_directory_def split: if_splits)
    next
      case False
      with Some assms obtain vm1 rc1 where load: "load_programs (h_modules h) fs vm files = Inr (vm1, rc1)"
        by (cases "load_programs (h_modules h) fs vm files") (auto simp: reload_programs_from_directory_def)
      obtain hash where "vm_calculate_program_hash vm1 = Inr hash" using program_hash_total by blast
      with load False Some assms have "rc1 = 0 \<Longrightarrow> vm' = vm1\<lparr>program_hash := hash\<rparr> \<and> rc = 0" "rc1 \<noteq> 0 \<Longrightarrow> vm' = vm1 \<and> rc = rc1"
        by (simp_all add: reload_programs_from_directory_def)
      with load False that(2,3) [of files vm1] show ?thesis by (cases "rc1 = 0") blast+
    qed
  qed
  then have "load_frame vm vm' \<and> (rc = 0 \<longrightarrow> modules vm' \<noteq> None) \<and>
      (rc \<noteq> 0 \<longrightarrow> seekable fs \<longrightarrow> modules vm' = None \<or> vm' = vm)"
  proof cases
    case 1
    then show ?thesis using refl by simp
  next
    case 2
    then have "rc = -1" using load_programs_frame by blast
    with 2 show ?thesis
      using load_programs_frame load_programs_fail [of "h_modules h" fs vm files vm1]
      by (auto simp: seekable_def)
  next
    case 3
    have "modules vm1 \<noteq> None"
      using load_programs_end [OF 3(2,1)] load_loop_modules [of fs files "PC_START vm" "start_load vm"] by auto
    with 3 show ?thesis using load_programs_frame load_frame_cut(2) by auto
  qed
  then show "load_frame vm vm'" "rc = 0 \<longrightarrow> modules vm' \<noteq> None"
    "rc \<noteq> 0 \<longrightarrow> seekable fs \<longrightarrow> modules vm' = None \<or> vm' = vm" by blast+
qed

text \<open>
  One step of a running machine as far as reloads are concerned: the start of a cycle with
  whatever directory it finds, or any other work, which touches neither the modules nor the
  pending flag nor the directory.
\<close>

inductive reload_step :: "vm_state \<Rightarrow> vm_state \<Rightarrow> bool" where
  phase: "seekable fs \<Longrightarrow> reload_phase h fs vm = Inr vm' \<Longrightarrow> reload_step vm vm'"
| work: "modules vm' = modules vm \<Longrightarrow> reload_pending vm' = reload_pending vm \<Longrightarrow>
    program_dir vm' = program_dir vm \<Longrightarrow> PC_START vm' = PC_START vm \<Longrightarrow> reload_step vm vm'"

inductive_cases reload_stepE: "reload_step vm vm'"

definition recoverable :: "vm_state \<Rightarrow> bool" where
  "recoverable vm \<longleftrightarrow> program_dir vm \<noteq> None \<and> (modules vm = None \<longrightarrow> reload_pending vm)"

lemma reload_phase_cases:
  assumes "program_dir vm = Some dir"
  obtains sig pending where "reload_pending vm \<Longrightarrow> pending"
    "calc_dir_signature h fs dir \<noteq> program_dir_signature vm \<and> program_dir_signature vm \<noteq> 0 \<Longrightarrow> pending"
    "\<not> reload_pending vm \<and> (calc_dir_signature h fs dir = program_dir_signature vm \<or> program_dir_signature vm = 0) \<Longrightarrow> \<not> pending"
    "reload_phase h fs vm = apply_pending_reload h fs (vm\<lparr>program_dir_signature := sig, reload_pending := pending\<rparr>)"
proof (cases "calc_dir_signature h fs dir \<noteq> program_dir_signature vm \<and> program_dir_signature vm \<noteq> 0")
  case True
  then show ?thesis
    using assms by (intro that [of True "calc_dir_signature h fs dir"])
      (auto simp: reload_phase_def directory_changed_def Let_def)
next
  case False
  have p: "vm\<lparr>program_dir_signature := s\<rparr> = vm\<lparr>program_dir_signature := s, reload_pending := reload_pending vm\<rparr>" for s
    by simp
  from False show ?thesis
    using assms by (intro that [of "reload_pending vm" "calc_dir_signature h fs dir"])
      (auto simp: reload_phase_def directory_changed_def Let_def simp flip: p)
qed

lemma apply_pending_recoverable:
  assumes "apply_pending_reload h fs vm = Inr vm'" "recoverable vm" "seekable fs"
  shows "recoverable vm' \<and> program_dir vm' = program_dir vm \<and> PC_START vm' = PC_START vm"
proof -
  obtain dir where dir: "program_dir vm = Some dir" using assms(2) by (auto simp: recoverable_def)
  show ?thesis
  proof (cases "reload_pending vm")
    case False
    with assms dir show ?thesis by (auto simp: apply_pending_reload_def recoverable_def)
  next
    case True
    with assms(1) dir obtain vm1 rc where
      load: "reload_programs_from_directory h fs (vm\<lparr>reload_pending := False\<rparr>) dir = Inr (vm1, rc)" and
      vm': "vm' = (if rc \<noteq> 0 then vm1\<lparr>reload_pending := True\<rparr> else vm1)"
      by (auto simp: apply_pending_reload_def Let_def res_simps split: if_splits)
    from reload_outcome [OF load] have frame: "load_frame (vm\<lparr>reload_pending := False\<rparr>) vm1"
      and ok: "rc = 0 \<longrightarrow> modules vm1 \<noteq> None" by blast+
    from load_frame_fields [OF frame] have "program_dir vm1 = program_dir vm" "PC_START vm1 = PC_START vm"
      by simp_all
    with dir ok vm' show ?thesis by (auto simp: recoverable_def)
  qed
qed

lemma reload_step_recoverable:
  assumes "reload_step vm vm'" "recoverable vm"
  shows "recoverable vm' \<and> program_dir vm' = program_dir vm \<and> PC_START vm' = PC_START vm"
  using assms(1)
proof (rule reload_stepE)
  fix fs h
  assume step: "seekable fs" "reload_phase h fs vm = Inr vm'"
  obtain dir where dir: "program_dir vm = Some dir" using assms(2) by (auto simp: recoverable_def)
  then obtain sig pending where p: "reload_pending vm \<Longrightarrow> pending"
      "reload_phase h fs vm = apply_pending_reload h fs (vm\<lparr>program_dir_signature := sig, reload_pending := pending\<rparr>)"
    by (rule reload_phase_cases [where h = h and fs = fs]) blast
  have "recoverable (vm\<lparr>program_dir_signature := sig, reload_pending := pending\<rparr>)"
    using assms(2) p(1) by (auto simp: recoverable_def)
  with apply_pending_recoverable step p(2) show ?thesis by fastforce
qed (use assms(2) in \<open>auto simp: recoverable_def\<close>)

lemma reload_steps_recoverable:
  assumes "reload_step\<^sup>*\<^sup>* vm vm'" "recoverable vm"
  shows "recoverable vm' \<and> program_dir vm' = program_dir vm \<and> PC_START vm' = PC_START vm"
  using assms by (induction rule: rtranclp_induct) (auto dest: reload_step_recoverable)

text \<open>A directory whose program files can be read and fit into the memory.\<close>

definition good_directory :: "file_system \<Rightarrow> cstr \<Rightarrow> u32 \<Rightarrow> (cstr \<times> u8 list) list \<Rightarrow> bool" where
  "good_directory fs dir start files \<longleftrightarrow> files \<noteq> [] \<and> program_files fs files \<and>
     (\<exists>names. fs_readdir fs dir = Some names \<and>
        map fst files = sort (map (\<lambda>n. dir @ [47] @ n) (filter (is_program fs dir) names))) \<and>
     unat start + length (program_image files) + 3 \<le> VM_MEM_BYTES"

lemma reload_good:
  assumes "heap_ok h" "good_directory fs dir (PC_START vm) files"
  shows "\<exists>hash. reload_programs_from_directory h fs vm dir = Inr ((loaded vm files)\<lparr>program_hash := hash\<rparr>, 0)"
proof -
  have "collect_bin_files h fs dir = Some (map fst files)"
    using assms collect_bin_files_ok [OF assms(1)] by (auto simp: good_directory_def)
  moreover have "load_programs (h_modules h) fs vm (map fst files) = Inr (loaded vm files, 0)"
    using assms load_programs_ok [of fs files vm] by (simp add: good_directory_def heap_ok_def)
  moreover obtain hash where "vm_calculate_program_hash (loaded vm files) = Inr hash"
    using program_hash_total by blast
  ultimately show ?thesis
    using assms by (intro exI [of _ hash]) (simp add: reload_programs_from_directory_def good_directory_def heap_ok_def)
qed

text \<open>
  C8 (liveness).  A machine that was started with a program never gets stuck without one:
  whatever directories it finds in later cycles, missing, unreadable, too large or changing
  between two looks, it has a program or the reload is pending.  As soon as a cycle starts with
  a readable directory, a machine without program, one with a pending reload, or one that sees
  another signature than the recorded one, loads exactly the files of that directory.
\<close>

theorem reload_recovers:
  assumes "reload_step\<^sup>*\<^sup>* vm0 vm" "program_dir vm0 = Some dir" "modules vm0 \<noteq> None"
    and "heap_ok h" "good_directory fs dir (PC_START vm0) files"
    and "modules vm = None \<or> reload_pending vm \<or>
      (program_dir_signature vm \<noteq> 0 \<and> calc_dir_signature h fs dir \<noteq> program_dir_signature vm)"
  shows "(modules vm \<noteq> None \<or> reload_pending vm) \<and>
    (\<exists>vm'. reload_phase h fs vm = Inr vm' \<and> \<not> reload_pending vm' \<and>
      modules vm' = Some (layout (PC_START vm0) files) \<and>
      mem_slice (mem vm') (unat (PC_START vm0)) (length (program_image files)) = Inr (program_image files))"
proof -
  have "recoverable vm0" using assms(2,3) by (auto simp add: recoverable_def)
  from reload_steps_recoverable [OF assms(1) this]
  have vm: "recoverable vm" "program_dir vm = Some dir" "PC_START vm = PC_START vm0"
    using assms(2) by simp_all
  from vm(2) obtain sig pending where
    p: "reload_pending vm \<Longrightarrow> pending"
      "calc_dir_signature h fs dir \<noteq> program_dir_signature vm \<and> program_dir_signature vm \<noteq> 0 \<Longrightarrow> pending"
      "reload_phase h fs vm = apply_pending_reload h fs (vm\<lparr>program_dir_signature := sig, reload_pending := pending\<rparr>)"
    by (rule reload_phase_cases [where h = h and fs = fs]) blast
  have pending: "pending" using assms(6) vm(1) p(1,2) by (auto simp: recoverable_def)
  let ?vm = "vm\<lparr>program_dir_signature := sig, reload_pending := False\<rparr>"
  obtain hash where "reload_programs_from_directory h fs ?vm dir = Inr ((loaded ?vm files)\<lparr>program_hash := hash\<rparr>, 0)"
    using reload_good [OF assms(4), of fs dir ?vm files] assms(5) vm(3) by auto
  then have "reload_phase h fs vm = Inr ((loaded ?vm files)\<lparr>program_hash := hash\<rparr>)"
    using pending vm(2) by (simp add: p(3) apply_pending_reload_def)
  moreover have "unat (PC_START vm0) + length (program_image files) \<le> VM_MEM_BYTES"
    using assms(5) by (simp add: good_directory_def)
  ultimately show ?thesis
    using vm by (auto simp: loaded_def mem_slice_def write_bytes_slice recoverable_def)
qed

section \<open>Examples\<close>

text \<open>A directory \<open>p\<close> with the files \<open>b.bin\<close>, \<open>x\<close> and \<open>a.bin\<close>.\<close>

definition sample_dir :: file_system where
  "sample_dir = \<lparr>fs_open = [[112, 47, 97, 46, 98, 105, 110] \<mapsto> whole_file [1, 2, 3, 4],
       [112, 47, 98, 46, 98, 105, 110] \<mapsto> whole_file [5, 6, 7, 8]],
     fs_readdir = [[112] \<mapsto> [[98, 46, 98, 105, 110], [120], [97, 46, 98, 105, 110]]],
     fs_stat = (\<lambda>_. Some \<lparr>st_regular = True, st_directory = False, st_size = 4, st_mtime = 100\<rparr>)\<rparr>"

definition sample_heap :: heap_env where
  "sample_heap = \<lparr>h_join = \<lambda>_. True, h_push = \<lambda>_. True, h_table = True, h_modules = True\<rparr>"

abbreviation sample_files :: "(cstr \<times> u8 list) list" where
  "sample_files \<equiv> [([112, 47, 97, 46, 98, 105, 110], [1, 2, 3, 4]), ([112, 47, 98, 46, 98, 105, 110], [5, 6, 7, 8])]"

lemma sample_heap_ok: "heap_ok sample_heap"
  by (simp add: heap_ok_def sample_heap_def)

lemma sample_is_program:
  "is_program sample_dir [112] [98, 46, 98, 105, 110]" "is_program sample_dir [112] [97, 46, 98, 105, 110]"
  "\<not> is_program sample_dir [112] [120]"
  by (simp_all add: is_program_def has_bin_extension_def strrchr_def file_is_regular_def sample_dir_def)

lemma sample_good: "good_directory sample_dir [112] 0x3000 sample_files"
proof -
  have "fs_readdir sample_dir [112] = Some [[98, 46, 98, 105, 110], [120], [97, 46, 98, 105, 110]]"
    by (simp add: sample_dir_def)
  moreover have "program_files sample_dir sample_files"
    by (simp add: program_files_def sample_dir_def)
  ultimately show ?thesis
    by (simp add: good_directory_def sample_is_program)
qed

theorem directory_order_irrelevant_witness:
  "collect_bin_files sample_heap (sample_dir\<lparr>fs_readdir := (fs_readdir sample_dir)([112] \<mapsto>
     [[120], [97, 46, 98, 105, 110], [98, 46, 98, 105, 110]])\<rparr>) [112] = collect_bin_files sample_heap sample_dir [112]"
  using directory_order_irrelevant [of sample_heap sample_dir "[112]" "[[98, 46, 98, 105, 110], [120], [97, 46, 98, 105, 110]]"
      "[[120], [97, 46, 98, 105, 110], [98, 46, 98, 105, 110]]"] sample_heap_ok
  by (simp add: sample_dir_def)

text \<open>The directory vanishes after the start, which drops nothing yet but makes the reload
  pending, and comes back.\<close>

theorem reload_recovers_witness:
  "\<exists>vm'. reload_phase sample_heap sample_dir
      (vm_zero\<lparr>program_dir := Some [112], PC_START := 0x3000, modules := Some [], program_dir_signature := 0,
        reload_pending := True\<rparr>) = Inr vm' \<and>
     modules vm' = Some (layout 0x3000 sample_files)"
proof -
  let ?start = "vm_zero\<lparr>program_dir := Some [112], PC_START := 0x3000, modules := Some [], program_dir_signature := 1\<rparr>"
  let ?mid = "?start\<lparr>program_dir_signature := 0, reload_pending := True\<rparr>"
  let ?gone = "sample_dir\<lparr>fs_readdir := Map.empty\<rparr>"
  have "seekable ?gone"
    by (auto simp: seekable_def sample_dir_def whole_file_def)
  moreover have "reload_phase sample_heap ?gone ?start = Inr ?mid"
    by (simp add: reload_phase_def directory_changed_def calc_dir_signature_def collect_bin_files_def
        apply_pending_reload_def reload_programs_from_directory_def)
  ultimately have "reload_step ?start ?mid" by (rule reload_step.phase)
  then have "reload_step\<^sup>*\<^sup>* ?start ?mid" by blast
  from reload_recovers [OF this, of "[112]" sample_heap sample_dir sample_files] sample_heap_ok sample_good
  have "\<exists>vm'. reload_phase sample_heap sample_dir ?mid = Inr vm' \<and> modules vm' = Some (layout 0x3000 sample_files)"
    by auto
  then show ?thesis by simp
qed

end
