(* ===== verification/Text.thy ===== *)
theory Text
  imports Prelude
begin

text \<open>
  Text: the conversions of \<open>printf\<close> and the functions of \<open>string.h\<close>, \<open>stdlib.h\<close> and \<open>ctype.h\<close>
  that the sources use (C locale).  Strings are lists of characters without the null character.
\<close>

section \<open>Characters\<close>

definition isspace :: "char \<Rightarrow> bool" where
  "isspace c \<longleftrightarrow> c = CHR '' '' \<or> (9 \<le> (of_char c :: nat) \<and> (of_char c :: nat) \<le> 13)"

definition isprint :: "nat \<Rightarrow> bool" where
  "isprint n \<longleftrightarrow> 32 \<le> n \<and> n < 127"

definition to_lower :: "char \<Rightarrow> char" where
  "to_lower c = (if 65 \<le> (of_char c :: nat) \<and> (of_char c :: nat) \<le> 90 then char_of (of_char c + 32 :: nat) else c)"

definition strcasecmp_eq :: "string \<Rightarrow> string \<Rightarrow> bool" where
  "strcasecmp_eq s t \<longleftrightarrow> map to_lower s = map to_lower t"

definition digit_val :: "char \<Rightarrow> nat option" where
  "digit_val c = (let n = of_char c :: nat in
     if 48 \<le> n \<and> n \<le> 57 then Some (n - 48)
     else if 65 \<le> n \<and> n \<le> 90 then Some (n - 55)
     else if 97 \<le> n \<and> n \<le> 122 then Some (n - 87)
     else None)"

section \<open>Printing\<close>

definition digit_char :: "nat \<Rightarrow> char" where
  "digit_char d = (if d < 10 then char_of (48 + d) else char_of (55 + d))"

fun digits_of :: "nat \<Rightarrow> nat \<Rightarrow> string" where
  "digits_of b n = (if n < b \<or> b < 2 then [digit_char n] else digits_of b (n div b) @ [digit_char (n mod b)])"

declare digits_of.simps [simp del]

definition show_nat :: "nat \<Rightarrow> string" where
  "show_nat n = digits_of 10 n"

definition show_int :: "int \<Rightarrow> string" where
  "show_int i = (if i < 0 then ''-'' @ show_nat (nat (- i)) else show_nat (nat i))"

definition pad_left :: "char \<Rightarrow> nat \<Rightarrow> string \<Rightarrow> string" where
  "pad_left c k s = replicate (k - length s) c @ s"

definition pad_right :: "char \<Rightarrow> nat \<Rightarrow> string \<Rightarrow> string" where
  "pad_right c k s = s @ replicate (k - length s) c"

definition hex8 :: "u32 \<Rightarrow> string" where
  "hex8 w = pad_left CHR ''0'' 8 (digits_of 16 (unat w))"

definition hex2 :: "u8 \<Rightarrow> string" where
  "hex2 b = pad_left CHR ''0'' 2 (digits_of 16 (unat b))"

section \<open>Reading numbers\<close>

text \<open>\<open>strtol (s, &end, base)\<close> with base 0 or 10: the value, whether it is out of range, and the
  rest at \<open>end\<close>; \<open>None\<close> when no digits are found (\<open>end = s\<close>).\<close>

definition is_digit :: "nat \<Rightarrow> char \<Rightarrow> bool" where
  "is_digit b c = (case digit_val c of None \<Rightarrow> False | Some d \<Rightarrow> d < b)"

definition number :: "nat \<Rightarrow> string \<Rightarrow> nat" where
  "number b ds = foldl (\<lambda>a c. a * b + (case digit_val c of None \<Rightarrow> 0 | Some d \<Rightarrow> d)) 0 ds"

definition strip_sign :: "string \<Rightarrow> bool \<times> string" where
  "strip_sign s = (case s of [] \<Rightarrow> (False, [])
     | c # cs \<Rightarrow> if c = CHR ''-'' then (True, cs) else if c = CHR ''+'' then (False, cs) else (False, s))"

definition strip_base :: "string \<Rightarrow> nat \<times> string" where
  "strip_base s = (case s of
       z # x # d # ds \<Rightarrow>
         if z = CHR ''0'' \<and> (x = CHR ''x'' \<or> x = CHR ''X'') \<and> is_digit 16 d then (16, d # ds)
         else if z = CHR ''0'' then (8, s) else (10, s)
     | z # zs \<Rightarrow> if z = CHR ''0'' then (8, s) else (10, s)
     | [] \<Rightarrow> (10, s))"

definition LONG_MAX :: int where
  "LONG_MAX = 9223372036854775807"

definition strtol :: "string \<Rightarrow> nat \<Rightarrow> (int \<times> bool \<times> string) option" where
  "strtol s base =
     (let (neg, s) = strip_sign (dropWhile isspace s);
          (b, s) = (if base = 0 then strip_base s else (base, s));
          ds = takeWhile (is_digit b) s;
          rest = dropWhile (is_digit b) s;
          v = (if neg then - int (number b ds) else int (number b ds))
      in if ds = [] then None
         else if LONG_MAX < v then Some (LONG_MAX, True, rest)
         else if v < - LONG_MAX - 1 then Some (- LONG_MAX - 1, True, rest)
         else Some (v, False, rest))"

text \<open>\<open>strtoul (s, &end, 10)\<close>: a sign is accepted, and a minus negates modulo \<open>2 ^ 64\<close>.\<close>

definition strtoul :: "string \<Rightarrow> (nat \<times> bool \<times> string) option" where
  "strtoul s =
     (let (neg, s) = strip_sign (dropWhile isspace s);
          ds = takeWhile (is_digit 10) s;
          rest = dropWhile (is_digit 10) s;
          v = number 10 ds
      in if ds = [] then None
         else if 2 ^ 64 \<le> v then Some (2 ^ 64 - 1, True, rest)
         else Some (if neg then (2 ^ 64 - v) mod 2 ^ 64 else v, False, rest))"

section \<open>Tokens\<close>

text \<open>The tokens repeated calls of \<open>strtok\<close> deliver.\<close>

lemma tokens_shorter:
  assumes "x = dropWhile delim s" "x \<noteq> []"
  shows "length (dropWhile (\<lambda>c. \<not> delim c) x) < length s"
proof -
  from assms obtain c cs where c: "dropWhile delim s = c # cs" by (cases "dropWhile delim s") auto
  then have "\<not> delim c" by (simp add: dropWhile_eq_Cons_conv)
  moreover have "length (dropWhile (\<lambda>c. \<not> delim c) cs) \<le> length cs" by (rule length_dropWhile_le)
  moreover have "length (dropWhile delim s) \<le> length s" by (rule length_dropWhile_le)
  ultimately show ?thesis using c assms(1) by simp
qed

function tokens :: "(char \<Rightarrow> bool) \<Rightarrow> string \<Rightarrow> string list" where
  "tokens delim s =
     (let s = dropWhile delim s in
      if s = [] then []
      else takeWhile (\<lambda>c. \<not> delim c) s # tokens delim (dropWhile (\<lambda>c. \<not> delim c) s))"
  by pat_completeness auto
termination by (relation "measure (\<lambda>(_, s). length s)") (simp, unfold in_measure prod.case, rule tokens_shorter)

declare tokens.simps [simp del]

section \<open>Reading back a printed number\<close>

lemma digit_val_char: "d < 10 \<Longrightarrow> digit_val (digit_char d) = Some d"
  by (simp add: digit_val_def digit_char_def)

lemma digits_of_not_Nil [simp]: "digits_of b n \<noteq> []"
  by (subst digits_of.simps) simp

lemma number_append: "number b (xs @ [c]) = number b xs * b + (case digit_val c of None \<Rightarrow> 0 | Some d \<Rightarrow> d)"
  by (simp add: number_def)

lemma number_show_nat: "number 10 (show_nat n) = n"
proof (induction n rule: less_induct)
  case (less n)
  show ?case
  proof (cases "n < 10")
    case True
    then show ?thesis by (simp add: show_nat_def digits_of.simps [of 10 n] number_def digit_val_char)
  next
    case False
    with less.IH [of "n div 10"] show ?thesis
      by (simp add: show_nat_def digits_of.simps [of 10 n] number_append digit_val_char)
  qed
qed

lemma show_nat_digits: "list_all (is_digit 10) (show_nat n)"
proof (induction n rule: less_induct)
  case (less n)
  then show ?case
    by (cases "n < 10")
      (simp_all add: show_nat_def digits_of.simps [of 10 n] is_digit_def digit_val_char)
qed

text \<open>A printed number has no leading zero.\<close>

lemma show_nat_head: "0 < n \<Longrightarrow> \<exists>c cs. show_nat n = c # cs \<and> c \<noteq> CHR ''0''"
proof (induction n rule: less_induct)
  case (less n)
  show ?case
  proof (cases "n < 10")
    case True
    have "digit_char n \<noteq> CHR ''0''"
    proof
      assume "digit_char n = CHR ''0''"
      then have "digit_val (digit_char n) = Some 0" by (simp add: digit_val_def)
      with True less.prems show False by (simp add: digit_val_char)
    qed
    with True show ?thesis by (simp add: show_nat_def digits_of.simps [of 10 n])
  next
    case False
    with less.IH [of "n div 10"] obtain c cs where "digits_of 10 (n div 10) = c # cs" "c \<noteq> CHR ''0''"
      by (fastforce simp: show_nat_def div_greater_zero_iff)
    with False show ?thesis by (simp add: show_nat_def digits_of.simps [of 10 n])
  qed
qed

end
