(* ===== verification/Debug.thy ===== *)
theory Debug
  imports Instr Text
begin

text \<open>
  The execution logger (\<open>debug.c\<close>): the disassembly of an instruction, dumps of memory and
  registers, and the log of a machine with the snapshots it keeps in the machine state.  A
  function that prints returns what it prints; one that also changes the machine returns both.
  The box drawing characters are given by their bytes in UTF-8.  \<open>vm_print_perf_summary\<close> is
  in the theory \<open>PerfSummary\<close>.
\<close>

section \<open>Characters of the log\<close>

definition nl :: string where
  "nl = [CHR 0x0A]"

definition utf8 :: "nat list \<Rightarrow> string" where
  "utf8 bs = map char_of bs"

definition bar :: string where
  "bar = utf8 [0xE2, 0x94, 0x82]"

definition dbar :: string where
  "dbar = utf8 [0xE2, 0x95, 0x91]"

definition rule_line :: "nat \<Rightarrow> string" where
  "rule_line n = concat (replicate n (utf8 [0xE2, 0x94, 0x80]))"

definition double_line :: "nat \<Rightarrow> nat \<Rightarrow> string" where
  "double_line left right = utf8 [0xE2, 0x95, left] @ concat (replicate 63 (utf8 [0xE2, 0x95, 0x90])) @
     utf8 [0xE2, 0x95, right] @ nl"

section \<open>Instructions\<close>

definition opcode_names :: "string list" where
  "opcode_names = [
    ''ADD'', ''SUB'', ''MUL'', ''DIV'', ''MOD'', ''EXPT'', ''ABS'', ''SQRT'', ''LN'', ''LOG'',
    ''EXP'', ''SIN'', ''COS'', ''TAN'', ''ASIN'', ''ACOS'', ''ATAN'',
    ''AND'', ''OR'', ''XOR'', ''NOT'',
    ''EQ'', ''NE'', ''GT'', ''GE'', ''LT'', ''LE'',
    ''TIME'', ''DATE'', ''TOD'', ''DT'', ''ADD_TIME'', ''SUB_TIME'',
    ''YEAR'', ''MONTH'', ''DAY'', ''HOUR'', ''MINUTE'', ''SECOND'',
    ''LEN'', ''CONCAT'', ''LEFT'', ''RIGHT'', ''MID'', ''INSERT'', ''DELETE'', ''REPLACE'',
    ''TON'', ''TOF'', ''TP'',
    ''CTU'', ''CTD'', ''CTUD'',
    ''LIMIT'', ''SEL'', ''MUX'',
    ''RISING_EDGE'', ''FALLING_EDGE'', ''EDGE_BOTH'', ''RS_LATCH'', ''SR_LATCH'', ''DEMUX'',
    ''JMP'', ''JMP_IF'', ''JMP_IF_NOT'', ''EXIT'', ''HALT'', ''NOP'']"

definition instr_opcode :: "u32 \<Rightarrow> u8" where
  "instr_opcode instr = ucast (drop_bit 25 instr AND 0x7F)"

definition instr_ra :: "u32 \<Rightarrow> u8" where
  "instr_ra instr = ucast (drop_bit 17 instr AND 0xFF)"

definition instr_rb :: "u32 \<Rightarrow> u8" where
  "instr_rb instr = ucast (drop_bit 9 instr AND 0xFF)"

definition instr_cfield :: "u32 \<Rightarrow> 16 word" where
  "instr_cfield instr = ucast (instr AND 0x1FF)"

definition instr_has_fimm :: "u32 \<Rightarrow> bool" where
  "instr_has_fimm instr \<longleftrightarrow> drop_bit 8 instr AND 1 \<noteq> 0"

definition instr_imm8_signed :: "u32 \<Rightarrow> int" where
  "instr_imm8_signed instr = sint (ucast (instr AND 0xFF) :: u8)"

definition instr_c_as_reg_index :: "u32 \<Rightarrow> u8" where
  "instr_c_as_reg_index instr = ucast (instr AND 0xFF)"

text \<open>The entries of the array behind the names are null pointers.\<close>

definition opcode_name :: "u8 \<Rightarrow> string" where
  "opcode_name opcode =
     (if OPCODE_COUNT \<le> unat opcode then ''UNKNOWN''
      else if unat opcode < length opcode_names then opcode_names ! unat opcode
      else ''UNKNOWN'')"

definition fprintf_inst :: "u32 \<Rightarrow> string" where
  "fprintf_inst instr =
     (let opcode = instr_opcode instr; ra = instr_ra instr; rb = instr_rb instr in
      (if instr_has_fimm instr then
         pad_right CHR '' '' 10 (opcode_name opcode) @ '' R'' @ show_nat (unat ra) @ '', R'' @ show_nat (unat rb) @
         '', #'' @ show_int (instr_imm8_signed instr)
       else
         pad_right CHR '' '' 10 (opcode_name opcode) @ '' R'' @ show_nat (unat ra) @ '', R'' @ show_nat (unat rb) @
         '', R'' @ show_nat (unat (instr_c_as_reg_index instr))) @
      ''  [0x'' @ hex8 instr @ '']'')"

definition fprintf_binary :: "u32 \<Rightarrow> string" where
  "fprintf_binary num = concat (map (\<lambda>c. (if (c + 1) mod 8 = 0 \<and> c \<noteq> 31 then '' '' else []) @
     (if drop_bit c num AND 1 = 0 then ''0'' else ''1'')) (rev [0..<32]))"

section \<open>Dumps\<close>

definition printable :: "u8 \<Rightarrow> char" where
  "printable b = (if isprint (unat b) then char_of (unat b) else CHR ''.'')"

definition dump_row :: "(nat \<Rightarrow> u8) \<Rightarrow> nat \<Rightarrow> nat \<Rightarrow> string" where
  "dump_row m to i =
     ''  '' @ hex8 (of_nat i) @ '': '' @
     concat (map (\<lambda>j. hex2 (m (i + j)) @ '' '') (filter (\<lambda>j. i + j < to) [0..<16])) @ '' | '' @
     map (\<lambda>j. printable (m (i + j))) (filter (\<lambda>j. i + j < to) [0..<16]) @ nl"

definition fprintf_mem_bytes :: "(nat \<Rightarrow> u8) \<Rightarrow> u32 \<Rightarrow> u32 \<Rightarrow> string" where
  "fprintf_mem_bytes m from to =
     (if to \<le> from then [] else
      let to = (if VM_MEM_BYTES < unat to then of_nat VM_MEM_BYTES else to) in
      ''Memory dump [0x'' @ hex8 from @ '' - 0x'' @ hex8 to @ '']:'' @ nl @
      concat (map (\<lambda>k. dump_row m (unat to) (unat from + 16 * k))
        (filter (\<lambda>k. unat from + 16 * k < unat to) [0..<unat to])))"

definition fprintf_mem_nonzero :: "(nat \<Rightarrow> u8) \<Rightarrow> u32 \<Rightarrow> string" where
  "fprintf_mem_nonzero m stop =
     (let stop = (if VM_MEM_BYTES < unat stop then of_nat VM_MEM_BYTES else stop);
          hits = filter (\<lambda>i. m i \<noteq> 0) [0..<unat stop]
      in ''Non-zero memory bytes:'' @ nl @
         concat (map (\<lambda>i. ''  [0x'' @ hex8 (of_nat i) @ ''] = 0x'' @ hex2 (m i) @ '' ('' @
           pad_left CHR '' '' 3 (show_nat (unat (m i))) @ '') '' @ [CHR 0x27, printable (m i), CHR 0x27] @ nl) hits) @
         (if hits = [] then ''  (none)'' @ nl else []))"

definition fprintf_reg :: "(u8 \<Rightarrow> u32) \<Rightarrow> nat \<Rightarrow> string" where
  "fprintf_reg regs idx = ''R'' @ pad_left CHR ''0'' 3 (show_nat idx) @ '' = 0x'' @ hex8 (regs (of_nat idx)) @
     '' ('' @ pad_left CHR '' '' 10 (show_nat (unat (regs (of_nat idx)))) @ '')'' @ nl"

definition fprintf_reg_all :: "(u8 \<Rightarrow> u32) \<Rightarrow> nat \<Rightarrow> string" where
  "fprintf_reg_all regs n =
     ''All registers:'' @ nl @
     concat (map (\<lambda>i. (if i mod 4 = 0 then ''  '' else []) @
       ''R'' @ pad_left CHR ''0'' 3 (show_nat i) @ ''='' @ hex8 (regs (of_nat i)) @ '' '' @
       (if (i + 1) mod 4 = 0 then nl else [])) [0..<n]) @
     (if n mod 4 \<noteq> 0 then nl else [])"

section \<open>The log\<close>

definition logging :: "vm_state \<Rightarrow> bool" where
  "logging vm \<longleftrightarrow> logging_enabled vm \<and> log_file vm"

definition snapshot :: "vm_state \<Rightarrow> vm_state" where
  "snapshot vm = vm\<lparr>dbg_prev_reg := reg vm, dbg_prev_mem := map (mem vm) [0..<MEM_LOG_SIZE]\<rparr>"

text \<open>\<open>opened\<close>: \<open>fopen\<close> of the log file succeeds; \<open>date\<close>: the text of \<open>ctime\<close>.\<close>

definition init_logging :: "bool \<Rightarrow> string \<Rightarrow> vm_state \<Rightarrow> vm_state \<times> string" where
  "init_logging opened date vm =
     (if \<not> logging_enabled vm then (vm, [])
      else if \<not> opened then (vm\<lparr>log_file := False, logging_enabled := False\<rparr>, [])
      else
        (snapshot (vm\<lparr>log_file := True, dbg_instruction_count := 0, dbg_prev_pc := PC vm\<rparr>),
         double_line 0x94 0x97 @
         dbar @ ''           VM32 Execution Log - '' @ date @
         double_line 0xA0 0xA3 @
         dbar @ '' Memory: 67108864 bytes (64.00 MB)'' @ nl @
         dbar @ '' Registers: '' @ show_nat REG_COUNT @ nl @
         dbar @ '' Start PC: 0x'' @ hex8 (PC_START vm) @ nl @
         double_line 0x9A 0x9D @ nl))"

definition log_instruction :: "vm_state \<Rightarrow> u32 \<Rightarrow> u32 \<Rightarrow> vm_state \<times> string" where
  "log_instruction vm pc instr =
     (if \<not> logging vm then (vm, [])
      else let vm = vm\<lparr>dbg_instruction_count := dbg_instruction_count vm + 1\<rparr> in
        (vm,
         utf8 [0xE2, 0x94, 0x8C] @ rule_line 1 @ '' Instruction #'' @ show_nat (unat (dbg_instruction_count vm)) @
         '' '' @ rule_line 41 @ nl @
         bar @ '' PC: 0x'' @ hex8 pc @ nl @
         bar @ '' '' @ fprintf_inst instr @ nl @
         bar @ '' Binary: '' @ fprintf_binary instr @ nl))"

definition log_operand :: "vm_state \<Rightarrow> u8 \<Rightarrow> string \<Rightarrow> string" where
  "log_operand vm r field =
     (if unat r < REG_COUNT then
        bar @ ''   R'' @ show_nat (unat r) @ '' ('' @ field @ '') = 0x'' @ hex8 (reg vm r) @ '' ('' @
        pad_left CHR '' '' 10 (show_nat (unat (reg vm r))) @ '')'' @ nl
      else bar @ ''   R'' @ show_nat (unat r) @ '' ('' @ field @ '') = <invalid index>'' @ nl)"

definition log_before :: "vm_state \<Rightarrow> u32 \<Rightarrow> u32 \<Rightarrow> vm_state \<times> string" where
  "log_before vm pc instr =
     (if \<not> logging vm then (vm, [])
      else
        let vm = snapshot (vm\<lparr>dbg_prev_pc := pc\<rparr>);
            (vm, head) = log_instruction vm pc instr
        in (vm,
          head @ bar @ nl @ bar @ '' Operands BEFORE:'' @ nl @
          log_operand vm (instr_ra instr) ''A'' @
          log_operand vm (instr_rb instr) ''B'' @
          (if instr_has_fimm instr then
             bar @ ''   C (immediate) = #'' @ show_int (instr_imm8_signed instr) @ '' (raw=0x'' @
             hex2 (ucast (instr AND 0xFF)) @ '')'' @ nl
           else log_operand vm (instr_c_as_reg_index instr) ''C'')))"

definition log_after :: "vm_state \<Rightarrow> u32 \<Rightarrow> string" where
  "log_after vm pc =
     (if \<not> logging vm then []
      else
        let regs = filter (\<lambda>i. dbg_prev_reg vm (of_nat i) \<noteq> reg vm (of_nat i)) [0..<REG_COUNT];
            bytes = filter (\<lambda>i. dbg_prev_mem vm ! i \<noteq> mem vm i) [0..<MEM_LOG_SIZE]
        in bar @ nl @
          (if regs = [] then bar @ '' Register changes: (none)'' @ nl
           else bar @ '' Register CHANGES:'' @ nl @
             concat (map (\<lambda>i. bar @ ''   R'' @ pad_left CHR ''0'' 3 (show_nat i) @ '': 0x'' @
               hex8 (dbg_prev_reg vm (of_nat i)) @ '' -> 0x'' @ hex8 (reg vm (of_nat i)) @ nl) regs)) @
          (if bytes = [] then bar @ '' Memory changes: (none)'' @ nl
           else bar @ '' Memory CHANGES (first '' @ show_nat MEM_LOG_SIZE @ '' bytes):'' @ nl @
             concat (map (\<lambda>i. bar @ ''   [0x'' @ hex8 (of_nat i) @ '']: 0x'' @ hex2 (dbg_prev_mem vm ! i) @
               '' -> 0x'' @ hex2 (mem vm i) @ '' '' @ [CHR 0x27, printable (mem vm i), CHR 0x27] @ nl) bytes)) @
          bar @ nl @
          (if dbg_prev_pc vm \<noteq> pc then bar @ '' PC changed: 0x'' @ hex8 (dbg_prev_pc vm) @ '' -> 0x'' @ hex8 pc @ nl
           else bar @ '' PC: 0x'' @ hex8 pc @ nl) @
          utf8 [0xE2, 0x94, 0x94] @ rule_line 62 @ nl @ nl)"

definition close_logging :: "vm_state \<Rightarrow> vm_state \<times> string" where
  "close_logging vm =
     (if \<not> log_file vm then (vm, [])
      else (vm\<lparr>log_file := False\<rparr>,
        nl @ double_line 0x94 0x97 @
        dbar @ '' Execution Summary'' @ nl @
        double_line 0xA0 0xA3 @
        dbar @ '' Total instructions executed: '' @ show_nat (unat (dbg_instruction_count vm)) @ nl @
        dbar @ '' Final PC: 0x'' @ hex8 (PC vm) @ nl @
        double_line 0x9A 0x9D))"

section \<open>What the log changes\<close>

lemma instr_fields: "instr_opcode i = OPC i" "instr_ra i = RA i" "instr_rb i = RB i"
  "instr_has_fimm i \<longleftrightarrow> FIMM i" "instr_c_as_reg_index i = ucast (RC i)" "instr_imm8_signed i = sint (SEXTIMM8 i)"
  by (simp_all add: instr_opcode_def OPC_def instr_ra_def RA_def instr_rb_def RB_def instr_has_fimm_def FIMM_def
      instr_c_as_reg_index_def RC_def instr_imm8_signed_def sint_SEXTIMM8 ucast_and_FF)

text \<open>Logging changes nothing but the snapshots, the counter, and the state of the log.\<close>

definition log_frame :: "vm_state \<Rightarrow> vm_state \<Rightarrow> bool" where
  "log_frame vm vm' \<longleftrightarrow> vm' = vm\<lparr>log_file := log_file vm', logging_enabled := logging_enabled vm',
     dbg_prev_reg := dbg_prev_reg vm', dbg_prev_mem := dbg_prev_mem vm', dbg_prev_pc := dbg_prev_pc vm',
     dbg_instruction_count := dbg_instruction_count vm'\<rparr>"

lemma fst_log_before: "fst (log_before vm pc instr) = (if logging vm then vm\<lparr>dbg_prev_pc := pc, dbg_prev_reg := reg vm,
     dbg_prev_mem := map (mem vm) [0..<MEM_LOG_SIZE], dbg_instruction_count := dbg_instruction_count vm + 1\<rparr> else vm)"
  by (simp add: log_before_def log_instruction_def snapshot_def logging_def Let_def split_beta)

lemma log_frames: "log_frame vm (fst (init_logging opened date vm))" "log_frame vm (fst (log_instruction vm pc instr))"
  "log_frame vm (fst (log_before vm pc instr))" "log_frame vm (fst (close_logging vm))"
  by (simp_all add: log_frame_def init_logging_def log_instruction_def log_before_def close_logging_def
      snapshot_def Let_def split_beta)

lemma log_wf: "vm_wf vm \<Longrightarrow> vm_wf (fst (init_logging opened date vm))" "vm_wf vm \<Longrightarrow> vm_wf (fst (log_before vm pc instr))"
  by (auto simp: init_logging_def log_before_def log_instruction_def snapshot_def Let_def split_beta intro!: wf_intros)

end
