(* ===== verification/Helpers.thy ===== *)
theory Helpers
  imports Loader Text "HOL-Library.Signed_Division"
begin

text \<open>
  The helpers of \<open>vm_helpers.c\<close>: the tick timer, the parsing of command line values, the
  command line itself and the checks of the configuration.  Readings of the clock are arguments.
  \<open>getopt_long\<close> is a parameter: for the arguments it gives the options it recognises, in order,
  with the code of the option table and the argument text, and the positional arguments.
\<close>

section \<open>Time\<close>

definition clong :: "int \<Rightarrow> int res" where
  "clong n = (if - 9223372036854775808 \<le> n \<and> n \<le> 9223372036854775807 then Inr n else Inl Signed_Overflow)"

definition vm_init_timer :: "timespec \<Rightarrow> vm_state \<Rightarrow> vm_state" where
  "vm_init_timer now vm = vm\<lparr>last_tick_time := now\<rparr>"

definition vm_get_elapsed_ms :: "timespec \<Rightarrow> timespec \<Rightarrow> int res" where
  "vm_get_elapsed_ms start end =
     bindR (clong (sint (tv_sec end) - sint (tv_sec start))) (\<lambda>s.
     bindR (clong (s * 1000)) (\<lambda>ms.
     bindR (clong (sint (tv_nsec end) - sint (tv_nsec start))) (\<lambda>n.
     clong (ms + n sdiv 1000000))))"

text \<open>The second component is the time slept.\<close>

definition vm_wait_for_tick :: "timespec \<Rightarrow> timespec \<Rightarrow> vm_state \<Rightarrow> (vm_state \<times> int) res" where
  "vm_wait_for_tick current now vm =
     (if \<not> enable_tick_timing (config vm) \<or> clock_rate_hz (config vm) = 0 then Inr (vm, 0) else
      let interval_ns = 1000000000 div int (unat (clock_rate_hz (config vm))) in
      bindR (clong (sint (tv_sec current) - sint (tv_sec (last_tick_time vm)))) (\<lambda>s.
      bindR (clong (s * 1000000000)) (\<lambda>s_ns.
      bindR (clong (sint (tv_nsec current) - sint (tv_nsec (last_tick_time vm)))) (\<lambda>n.
      bindR (clong (s_ns + n)) (\<lambda>elapsed_ns.
      bindR (if elapsed_ns < interval_ns then clong (interval_ns - elapsed_ns) else Inr 0) (\<lambda>remaining_ns.
      Inr (vm\<lparr>last_tick_time := now\<rparr>, remaining_ns)))))))"

section \<open>Values\<close>

definition parse_u32 :: "string \<Rightarrow> u32 option" where
  "parse_u32 s =
     (case strtoul s of
        None \<Rightarrow> None
      | Some (value, erange, rest) \<Rightarrow>
          if erange \<or> rest \<noteq> [] \<or> 4294967295 < value then None else Some (of_nat value))"

definition parse_bool :: "string \<Rightarrow> bool option" where
  "parse_bool s =
     (if s = ''1'' \<or> strcasecmp_eq s ''true'' \<or> strcasecmp_eq s ''yes'' \<or> strcasecmp_eq s ''on'' then Some True
      else if s = ''0'' \<or> strcasecmp_eq s ''false'' \<or> strcasecmp_eq s ''no'' \<or> strcasecmp_eq s ''off'' then Some False
      else None)"

definition parse_hash_algo :: "string \<Rightarrow> hash_algorithm option" where
  "parse_hash_algo s =
     (if strcasecmp_eq s ''crc32'' then Some HASH_CRC32
      else if strcasecmp_eq s ''fnv1a'' \<or> strcasecmp_eq s ''simple_fnv1a'' then Some HASH_SIMPLE_FNV1A
      else None)"

definition path_is_directory :: "file_system \<Rightarrow> cstr \<Rightarrow> bool" where
  "path_is_directory fs path = (case fs_stat fs path of None \<Rightarrow> False | Some st \<Rightarrow> st_directory st)"

definition cstr_of :: "string \<Rightarrow> cstr" where
  "cstr_of s = map of_char s"

section \<open>The command line\<close>

record vm_cli_options =
  o_program_dir :: "cstr option"
  has_clock_rate_hz :: bool
  o_clock_rate_hz :: u32
  has_cycle_time_ms :: bool
  o_cycle_time_ms :: u32
  set_enable_cycle_check :: bool
  o_enable_cycle_check :: bool
  set_enable_hash_check :: bool
  o_enable_hash_check :: bool
  set_enable_tick_timing :: bool
  o_enable_tick_timing :: bool
  has_hash_algo :: bool
  o_hash_algo :: hash_algorithm

definition print_usage :: "string \<Rightarrow> string" where
  "print_usage progname =
     (let nl = [CHR 0x0A] in
      ''Usage: '' @ progname @ '' <program_dir> [options]'' @ nl @ nl @
      ''Options:'' @ nl @
      ''  --clock-rate-hz N         Set clock rate in Hz'' @ nl @
      ''  --cycle-time-ms N         Set cycle duration in ms'' @ nl @
      ''  --enable-cycle-check      Enable overrun check'' @ nl @
      ''  --disable-cycle-check     Disable overrun check'' @ nl @
      ''  --enable-hash-check       Enable hash verification'' @ nl @
      ''  --disable-hash-check      Disable hash verification'' @ nl @
      ''  --enable-tick-timing      Enable tick timing'' @ nl @
      ''  --disable-tick-timing     Disable tick timing'' @ nl @
      ''  --hash-algo crc32|fnv1a   Select hash algorithm'' @ nl @
      ''  -h, --help                Show this help'' @ nl)"

definition vm_cli_options_init :: vm_cli_options where
  "vm_cli_options_init = \<lparr>o_program_dir = None,
     has_clock_rate_hz = False, o_clock_rate_hz = 0, has_cycle_time_ms = False, o_cycle_time_ms = 0,
     set_enable_cycle_check = False, o_enable_cycle_check = False,
     set_enable_hash_check = False, o_enable_hash_check = False,
     set_enable_tick_timing = False, o_enable_tick_timing = False,
     has_hash_algo = False, o_hash_algo = HASH_SIMPLE_FNV1A\<rparr>"

text \<open>The body of the switch.  The second component is the value returned, if the option ends
  the parsing, the third what is printed.\<close>

definition cli_option :: "string \<Rightarrow> vm_cli_options \<Rightarrow> int \<Rightarrow> string \<Rightarrow> vm_cli_options \<times> int option \<times> string" where
  "cli_option prog opts c optarg =
     (let nl = [CHR 0x0A] in
      if c = 1 then
        let opts = opts\<lparr>has_clock_rate_hz := True\<rparr> in
        case parse_u32 optarg of
          None \<Rightarrow> (opts, Some (-1), ''Invalid value for --clock-rate-hz: '' @ optarg @ nl)
        | Some v \<Rightarrow> (opts\<lparr>o_clock_rate_hz := v\<rparr>, None, [])
      else if c = 2 then
        let opts = opts\<lparr>has_cycle_time_ms := True\<rparr> in
        case parse_u32 optarg of
          None \<Rightarrow> (opts, Some (-1), ''Invalid value for --cycle-time-ms: '' @ optarg @ nl)
        | Some v \<Rightarrow> (opts\<lparr>o_cycle_time_ms := v\<rparr>, None, [])
      else if c = 3 then (opts\<lparr>set_enable_cycle_check := True, o_enable_cycle_check := True\<rparr>, None, [])
      else if c = 4 then (opts\<lparr>set_enable_cycle_check := True, o_enable_cycle_check := False\<rparr>, None, [])
      else if c = 5 then (opts\<lparr>set_enable_hash_check := True, o_enable_hash_check := True\<rparr>, None, [])
      else if c = 6 then (opts\<lparr>set_enable_hash_check := True, o_enable_hash_check := False\<rparr>, None, [])
      else if c = 7 then (opts\<lparr>set_enable_tick_timing := True, o_enable_tick_timing := True\<rparr>, None, [])
      else if c = 8 then (opts\<lparr>set_enable_tick_timing := True, o_enable_tick_timing := False\<rparr>, None, [])
      else if c = 9 then
        let opts = opts\<lparr>has_hash_algo := True\<rparr> in
        case parse_hash_algo optarg of
          None \<Rightarrow> (opts, Some (-1), ''Invalid value for --hash-algo: '' @ optarg @ nl)
        | Some a \<Rightarrow> (opts\<lparr>o_hash_algo := a\<rparr>, None, [])
      else if c = 104 then (opts, Some 1, print_usage prog)
      else (opts, Some (-1), ''Unknown or malformed option'' @ nl @ print_usage prog))"

fun cli_loop :: "string \<Rightarrow> vm_cli_options \<Rightarrow> (int \<times> string) list \<Rightarrow> vm_cli_options \<times> int option \<times> string" where
  "cli_loop prog opts [] = (opts, None, [])"
| "cli_loop prog opts ((c, optarg) # es) =
     (case cli_option prog opts c optarg of
        (opts, Some rc, msg) \<Rightarrow> (opts, Some rc, msg)
      | (opts, None, msg) \<Rightarrow> cli_loop prog opts es)"

definition vm_parse_cli ::
  "(string list \<Rightarrow> (int \<times> string) list \<times> string list) \<Rightarrow> string \<Rightarrow> string list \<Rightarrow> vm_cli_options \<times> int \<times> string" where
  "vm_parse_cli getopt_long prog args =
     (let (events, rest) = getopt_long args in
      case cli_loop prog vm_cli_options_init events of
        (opts, Some rc, msg) \<Rightarrow> (opts, rc, msg)
      | (opts, None, msg) \<Rightarrow>
          let opts = (case rest of [] \<Rightarrow> opts | dir # _ \<Rightarrow> opts\<lparr>o_program_dir := Some (cstr_of dir)\<rparr>) in
          if 1 < length rest then (opts, -1, ''Too many positional arguments'' @ [CHR 0x0A] @ print_usage prog)
          else (opts, 0, []))"

definition vm_validate_config :: "file_system \<Rightarrow> vm_state \<Rightarrow> int" where
  "vm_validate_config fs vm =
     (if program_dir vm = None \<or> program_dir vm = Some [] then -1
      else if \<not> path_is_directory fs (case program_dir vm of None \<Rightarrow> [] | Some d \<Rightarrow> d) then -1
      else if clock_rate_hz (config vm) = 0 then -1
      else if cycle_time_ms (config vm) = 0 then -1
      else if hash_algo (config vm) \<noteq> HASH_CRC32 \<and> hash_algo (config vm) \<noteq> HASH_SIMPLE_FNV1A then -1
      else 0)"

text \<open>An option that was given changes the configuration.\<close>

definition set_config_if :: "bool \<Rightarrow> (vm_config \<Rightarrow> vm_config) \<Rightarrow> vm_state \<Rightarrow> vm_state" where
  "set_config_if given f vm = (if given then vm\<lparr>config := f (config vm)\<rparr> else vm)"

definition vm_apply_cli_options :: "bool \<Rightarrow> vm_state \<Rightarrow> vm_cli_options \<Rightarrow> vm_state \<times> int" where
  "vm_apply_cli_options strdup_ok vm opts =
     (if o_program_dir opts \<noteq> None \<and> \<not> strdup_ok then (vm\<lparr>program_dir := None\<rparr>, -1) else
      let vm = (if o_program_dir opts \<noteq> None then vm\<lparr>program_dir := o_program_dir opts\<rparr> else vm) in
      if has_clock_rate_hz opts \<and> o_clock_rate_hz opts = 0 then (vm, -1) else
      let vm = set_config_if (has_clock_rate_hz opts) (\<lambda>c. c\<lparr>clock_rate_hz := o_clock_rate_hz opts\<rparr>) vm in
      if has_cycle_time_ms opts \<and> o_cycle_time_ms opts = 0 then (vm, -1) else
      let vm = set_config_if (has_cycle_time_ms opts) (\<lambda>c. c\<lparr>cycle_time_ms := o_cycle_time_ms opts\<rparr>) vm;
          vm = set_config_if (set_enable_cycle_check opts) (\<lambda>c. c\<lparr>enable_cycle_check := o_enable_cycle_check opts\<rparr>) vm;
          vm = set_config_if (set_enable_hash_check opts) (\<lambda>c. c\<lparr>enable_hash_check := o_enable_hash_check opts\<rparr>) vm;
          vm = set_config_if (set_enable_tick_timing opts) (\<lambda>c. c\<lparr>enable_tick_timing := o_enable_tick_timing opts\<rparr>) vm;
          vm = set_config_if (has_hash_algo opts) (\<lambda>c. c\<lparr>hash_algo := o_hash_algo opts\<rparr>) vm
      in (vm, 0))"

definition show_bool :: "bool \<Rightarrow> string" where
  "show_bool b = (if b then ''true'' else ''false'')"

definition vm_print_config :: "vm_state \<Rightarrow> string" where
  "vm_print_config vm =
     (let nl = [CHR 0x0A] in
      ''program_dir: '' @ (case program_dir vm of None \<Rightarrow> ''(null)'' | Some d \<Rightarrow> map (\<lambda>b. char_of (unat b)) d) @ nl @
      ''clock_rate_hz: '' @ show_nat (unat (clock_rate_hz (config vm))) @ nl @
      ''cycle_time_ms: '' @ show_nat (unat (cycle_time_ms (config vm))) @ nl @
      ''enable_cycle_check: '' @ show_bool (enable_cycle_check (config vm)) @ nl @
      ''enable_hash_check: '' @ show_bool (enable_hash_check (config vm)) @ nl @
      ''enable_tick_timing: '' @ show_bool (enable_tick_timing (config vm)) @ nl @
      ''hash_algo: '' @ hash_algorithm_to_string (hash_algo (config vm)) @ nl)"

section \<open>Numbers on the command line\<close>

lemma takeWhile_all: "list_all P xs \<Longrightarrow> takeWhile P xs = xs \<and> dropWhile P xs = []"
  by (induction xs) auto

lemma show_nat_start: "\<exists>c cs. show_nat n = c # cs \<and> is_digit 10 c"
  using show_nat_digits [of n] by (cases "show_nat n") (auto simp: show_nat_def)

lemma digit_no_sign: "is_digit 10 c \<Longrightarrow> \<not> isspace c \<and> c \<noteq> CHR ''-'' \<and> c \<noteq> CHR ''+''"
  by (auto simp: is_digit_def digit_val_def isspace_def Let_def split: if_splits)

lemma strip_show_nat: "strip_sign (dropWhile isspace (show_nat n)) = (False, show_nat n)"
  using show_nat_start [of n] digit_no_sign by (auto simp: strip_sign_def)

lemma show_nat_not_Nil [simp]: "show_nat n \<noteq> []"
  by (simp add: show_nat_def)

lemma strtoul_show_nat: "strtoul (show_nat n) = Some (if 2 ^ 64 \<le> n then 2 ^ 64 - 1 else n, 2 ^ 64 \<le> n, [])"
proof -
  have "takeWhile (is_digit 10) (show_nat n) = show_nat n" "dropWhile (is_digit 10) (show_nat n) = []"
    using takeWhile_all [OF show_nat_digits, of n] by blast+
  then show ?thesis by (simp only: strtoul_def strip_show_nat Let_def prod.case number_show_nat) simp
qed

lemma parse_u32_number: "parse_u32 (show_nat n) = (if n < 2 ^ 32 then Some (of_nat n) else None)"
  by (simp add: parse_u32_def strtoul_show_nat)

text \<open>
  A number written in decimal is read back by the command line parser exactly
  if it fits into 32 bits, and rejected otherwise; it is never silently cut.
\<close>

theorem parse_u32_decimal:
  "parse_u32 (show_nat n) = (if n < 2 ^ 32 then Some (of_nat n) else None)"
  by (rule parse_u32_number)

section \<open>The configuration\<close>

definition known_algo :: "hash_algorithm \<Rightarrow> bool" where
  "known_algo a \<longleftrightarrow> a = HASH_CRC32 \<or> a = HASH_SIMPLE_FNV1A"

lemma cli_option_algo: "known_algo (o_hash_algo opts) \<Longrightarrow> known_algo (o_hash_algo (fst (cli_option prog opts c arg)))"
  by (auto simp: cli_option_def known_algo_def parse_hash_algo_def Let_def split: option.splits)

lemma cli_loop_algo: "known_algo (o_hash_algo opts) \<Longrightarrow> known_algo (o_hash_algo (fst (cli_loop prog opts es)))"
proof (induction es arbitrary: opts)
  case (Cons e es)
  obtain c arg where e: "e = (c, arg)" by force
  obtain opts' rc msg where o: "cli_option prog opts c arg = (opts', rc, msg)" by (cases "cli_option prog opts c arg") auto
  then have "known_algo (o_hash_algo opts')" using cli_option_algo [OF Cons.prems, of prog c arg] by simp
  then show ?case using Cons.IH o by (cases rc) (simp_all add: e)
qed simp

lemma vm_parse_cli_algo: "known_algo (o_hash_algo (fst (vm_parse_cli getopt_long prog args)))"
proof -
  obtain events rest where g: "getopt_long args = (events, rest)" by force
  obtain opts rc msg where l: "cli_loop prog vm_cli_options_init events = (opts, rc, msg)"
    by (cases "cli_loop prog vm_cli_options_init events") auto
  have "known_algo (o_hash_algo opts)"
    using cli_loop_algo [of vm_cli_options_init prog events] l by (simp add: vm_cli_options_init_def known_algo_def)
  then show ?thesis
    by (cases rc) (auto simp: vm_parse_cli_def g l Let_def split: list.splits)
qed

definition valid_numbers :: "vm_config \<Rightarrow> bool" where
  "valid_numbers c \<longleftrightarrow> clock_rate_hz c \<noteq> 0 \<and> cycle_time_ms c \<noteq> 0 \<and> known_algo (hash_algo c)"

lemma set_config_if_valid:
  "valid_numbers (config vm) \<Longrightarrow> (given \<Longrightarrow> valid_numbers (f (config vm))) \<Longrightarrow> valid_numbers (config (set_config_if given f vm))"
  by (simp add: set_config_if_def)

lemma set_config_if_dir [simp]: "program_dir (set_config_if given f vm) = program_dir vm"
  by (simp add: set_config_if_def)

lemma apply_cli_valid:
  assumes "valid_numbers (config vm)" "known_algo (o_hash_algo opts)" "vm_apply_cli_options strdup_ok vm opts = (vm', 0)"
  shows "valid_numbers (config vm') \<and> program_dir vm' = (if o_program_dir opts = None then program_dir vm else o_program_dir opts)"
proof -
  have dup: "\<not> (o_program_dir opts \<noteq> None \<and> \<not> strdup_ok)"
    using assms(3) unfolding vm_apply_cli_options_def by (rule contrapos_pn) simp
  have clock: "\<not> (has_clock_rate_hz opts \<and> o_clock_rate_hz opts = 0)"
    using assms(3) unfolding vm_apply_cli_options_def if_not_P [OF dup] by (rule contrapos_pn) (simp add: Let_def)
  have cycle: "\<not> (has_cycle_time_ms opts \<and> o_cycle_time_ms opts = 0)"
    using assms(3) unfolding vm_apply_cli_options_def if_not_P [OF dup] Let_def if_not_P [OF clock]
    by (rule contrapos_pn) simp
  from assms(3) have vm': "vm' = fst (vm_apply_cli_options strdup_ok vm opts)" by simp
  have numbers: "has_clock_rate_hz opts \<Longrightarrow> valid_numbers c \<Longrightarrow> valid_numbers (c\<lparr>clock_rate_hz := o_clock_rate_hz opts\<rparr>)"
    "has_cycle_time_ms opts \<Longrightarrow> valid_numbers c \<Longrightarrow> valid_numbers (c\<lparr>cycle_time_ms := o_cycle_time_ms opts\<rparr>)"
    "valid_numbers c \<Longrightarrow> valid_numbers (c\<lparr>hash_algo := o_hash_algo opts\<rparr>)"
    "valid_numbers c \<Longrightarrow> valid_numbers (c\<lparr>enable_cycle_check := b\<rparr>)"
    "valid_numbers c \<Longrightarrow> valid_numbers (c\<lparr>enable_hash_check := b\<rparr>)"
    "valid_numbers c \<Longrightarrow> valid_numbers (c\<lparr>enable_tick_timing := b\<rparr>)" for c b
    using clock cycle assms(2) by (simp_all add: valid_numbers_def)
  have "valid_numbers (config (if o_program_dir opts \<noteq> None then vm\<lparr>program_dir := o_program_dir opts\<rparr> else vm))"
    using assms(1) by simp
  then have "valid_numbers (config vm')"
    unfolding vm' vm_apply_cli_options_def if_not_P [OF dup] Let_def if_not_P [OF clock] if_not_P [OF cycle] fst_conv
    by (intro set_config_if_valid numbers)
  then show ?thesis
    unfolding vm' vm_apply_cli_options_def if_not_P [OF dup] Let_def if_not_P [OF clock] if_not_P [OF cycle] fst_conv
    by simp
qed

text \<open>
  The command line cannot produce an invalid machine: if the options are
  accepted and applied to a machine with a valid configuration, as a created one is, the numbers
  and the algorithm are valid afterwards, so the validation only depends on the directory; the
  directory is the positional argument if there is one.
\<close>

theorem cli_configuration_valid:
  assumes "valid_numbers (config vm)" "vm_parse_cli getopt_long prog args = (opts, 0, msg)"
    and "vm_apply_cli_options strdup_ok vm opts = (vm', 0)"
  shows "valid_numbers (config vm') \<and>
    program_dir vm' = (if o_program_dir opts = None then program_dir vm else o_program_dir opts) \<and>
    (vm_validate_config fs vm' = 0 \<longleftrightarrow> (\<exists>d. program_dir vm' = Some d \<and> d \<noteq> [] \<and> path_is_directory fs d))"
proof -
  have "known_algo (o_hash_algo opts)" using vm_parse_cli_algo [of getopt_long prog args] assms(2) by simp
  from apply_cli_valid [OF assms(1) this assms(3)] show ?thesis
    by (auto simp: vm_validate_config_def valid_numbers_def known_algo_def)
qed

theorem cli_configuration_valid_witness:
  "\<exists>vm'. vm_apply_cli_options True (vm_zero\<lparr>config := (config vm_zero)\<lparr>clock_rate_hz := 100, cycle_time_ms := 1000\<rparr>\<rparr>)
      (fst (vm_parse_cli (\<lambda>_. ([(1, ''50''), (9, ''CRC32'')], [''p''])) ''vm'' [])) = (vm', 0) \<and>
    clock_rate_hz (config vm') = 50 \<and>
    vm_validate_config \<lparr>fs_open = Map.empty, fs_readdir = Map.empty,
      fs_stat = (\<lambda>_. Some \<lparr>st_regular = False, st_directory = True, st_size = 0, st_mtime = 0\<rparr>)\<rparr> vm' = 0"
proof -
  let ?vm = "vm_zero\<lparr>config := (config vm_zero)\<lparr>clock_rate_hz := 100, cycle_time_ms := 1000\<rparr>\<rparr>"
  let ?fs = "\<lparr>fs_open = Map.empty, fs_readdir = Map.empty,
      fs_stat = (\<lambda>_. Some \<lparr>st_regular = False, st_directory = True, st_size = 0, st_mtime = 0\<rparr>)\<rparr>"
  let ?opts = "vm_cli_options_init\<lparr>has_clock_rate_hz := True, o_clock_rate_hz := 50, has_hash_algo := True,
      o_hash_algo := HASH_CRC32, o_program_dir := Some [112]\<rparr>"
  have n: "show_nat 50 = ''50''" by (simp add: show_nat_def digits_of.simps digit_char_def) code_simp
  have p: "parse_u32 ''50'' = Some 50" using parse_u32_number [of 50] unfolding n by simp
  have a: "parse_hash_algo ''CRC32'' = Some HASH_CRC32"
    by (simp add: parse_hash_algo_def strcasecmp_eq_def to_lower_def) code_simp
  have parse: "vm_parse_cli (\<lambda>_. ([(1, ''50''), (9, ''CRC32'')], [''p''])) ''vm'' [] = (?opts, 0, [])"
    by (simp add: vm_parse_cli_def cli_option_def p a cstr_of_def)
  have applied: "vm_apply_cli_options True ?vm ?opts = (?vm\<lparr>program_dir := Some [112],
      config := (config vm_zero)\<lparr>clock_rate_hz := 50, cycle_time_ms := 1000, hash_algo := HASH_CRC32\<rparr>\<rparr>, 0)"
    by (simp add: vm_apply_cli_options_def vm_cli_options_init_def set_config_if_def)
  have "valid_numbers (config ?vm)" by (simp add: valid_numbers_def known_algo_def vm_zero_def zero_config_def)
  from cli_configuration_valid [OF this parse applied, of ?fs] show ?thesis
    by (simp add: parse applied path_is_directory_def)
qed

end
