(* ===== verification/Runtime.thy ===== *)
theory Runtime
  imports Lifecycle Tables HotReload Helpers Debug
begin

text \<open>
  The runtime (\<open>vm_runtime.c\<close>): one instruction, one module, one cycle, and the cycle loop.
  What the runtime reads from outside is an argument: \<open>instr_env\<close> for one instruction (the
  readings of the clock, the outcome of allocations, the math library and the local time),
  \<open>cycle_env\<close> for one cycle (the directory, the stop flag of the signal handler, the clock).
  The cycle loop of \<open>run_program\<close> may run for ever, so it is run over a list of cycle
  environments.  The messages on the standard output are events; the text of the log file is
  that of \<open>Debug\<close> and not kept here.
\<close>

section \<open>Environments\<close>

record instr_env =
  ie_op :: op_env
  ie_calloc :: "u32 \<Rightarrow> bool"
  ie_malloc :: bool
  ie_t0 :: timespec
  ie_t1 :: timespec
  ie_t2 :: timespec
  ie_t3 :: timespec
  ie_tick :: timespec
  ie_tock :: timespec
  ie_now :: timespec

record cycle_env =
  ce_heap :: heap_env
  ce_fs :: file_system
  ce_stop :: bool
  ce_start :: timespec
  ce_end :: timespec
  ce_exec_end :: timespec
  ce_instr :: "nat \<Rightarrow> nat \<Rightarrow> instr_env"

datatype event =
    Decode_Failed u32 u32
  | Invalid_Opcode u32 u8 u32
  | Hash_Mismatch u32 u32 u32
  | Program_Hash_Mismatch u32
  | Cycle_Done u32 u64 int u64
  | Overrun u32 int
  | Cleanups_Run

record run_state =
  r_vm :: vm_state
  r_count :: u64
  r_total :: u64
  r_out :: "event list"

section \<open>Time\<close>

definition MAX_INSTRUCTIONS :: u64 where
  "MAX_INSTRUCTIONS = 100000"

definition ms_of_timespec :: "timespec \<Rightarrow> u64" where
  "ms_of_timespec now = tv_sec now * 1000 + tv_nsec now div 1000000"

definition vm_update_time_after_instruction :: "timespec \<Rightarrow> vm_state \<Rightarrow> vm_state" where
  "vm_update_time_after_instruction now vm =
     (if enable_tick_timing (config vm) \<and> clock_rate_hz (config vm) \<noteq> 0 then vm\<lparr>time_ms := ms_of_timespec now\<rparr>
      else if clock_rate_hz (config vm) \<noteq> 0 then
        let instr_ns = 1000000000 div (ucast (clock_rate_hz (config vm)) :: u64);
            vm = vm\<lparr>instr_ns_accum := instr_ns_accum vm + instr_ns\<rparr>;
            add_ms = instr_ns_accum vm div 1000000
        in if add_ms \<noteq> 0 then
             vm\<lparr>time_ms := time_ms vm + add_ms, instr_ns_accum := instr_ns_accum vm - add_ms * 1000000\<rparr>
           else vm
      else vm)"

definition ts_to_ns :: "timespec \<Rightarrow> u64" where
  "ts_to_ns t = tv_sec t * 1000000000 + tv_nsec t"

definition ts_diff_ns :: "timespec \<Rightarrow> timespec \<Rightarrow> u64" where
  "ts_diff_ns start end = ts_to_ns end - ts_to_ns start"

section \<open>One instruction\<close>

definition add_perf :: "instr_env \<Rightarrow> vm_perf_stats \<Rightarrow> vm_perf_stats" where
  "add_perf e p =
     (let fetch_ns = ts_diff_ns (ie_t0 e) (ie_t1 e);
          decode_ns = ts_diff_ns (ie_t1 e) (ie_t2 e);
          dispatch_ns = ts_diff_ns (ie_t2 e) (ie_t3 e);
          total_ns = ts_diff_ns (ie_t0 e) (ie_t3 e);
          p = p\<lparr>instructions_total := instructions_total p + 1,
                instr_exec_ns_total := instr_exec_ns_total p + total_ns,
                fetch_ns_total := fetch_ns_total p + fetch_ns,
                decode_ns_total := decode_ns_total p + decode_ns,
                dispatch_ns_total := dispatch_ns_total p + dispatch_ns\<rparr>;
          p = (if min_instr_ns p = 0 \<or> total_ns < min_instr_ns p then p\<lparr>min_instr_ns := total_ns\<rparr> else p)
      in if max_instr_ns p < total_ns then p\<lparr>max_instr_ns := total_ns\<rparr> else p)"

text \<open>The part behind the checks: call the handler with the decoded instruction, move on.\<close>

definition execute :: "instr_env \<Rightarrow> handler \<Rightarrow> vm_state \<Rightarrow> u32 \<Rightarrow> decoded_instr \<Rightarrow> vm_state res" where
  "execute e h vm instr d =
     (let old_pc = PC vm;
          vm = fst (log_before vm (PC vm) instr) in
      bindR (exec_op (ie_op e) h vm (raw_instr d)) (\<lambda>vm.
      let vm = (if PC vm = old_pc then vm\<lparr>PC := PC vm + 4\<rparr> else vm);
          vm = vm\<lparr>perf := add_perf e (perf vm)\<rparr> in
      bindR (vm_wait_for_tick (ie_tick e) (ie_tock e) vm) (\<lambda>(vm, _).
      Inr (vm_update_time_after_instruction (ie_now e) vm))))"

definition vm_run_instruction ::
  "instr_env \<Rightarrow> module_info \<Rightarrow> u32 \<Rightarrow> run_state \<Rightarrow> (run_state \<times> int) res" where
  "vm_run_instruction e m module_end r =
     (let vm = r_vm r in
      if module_end \<le> PC vm \<or> PC vm < mod_addr m then Inr (r, 1) else
      bindR (vm_mr32 vm (PC vm)) (\<lambda>instr.
      if instr = 0 then Inr (r, 1) else
      bindR (vm_decode_instruction (ie_calloc e) (ie_malloc e) vm (PC vm)) (\<lambda>(vm, d).
      case d of
        None \<Rightarrow> Inr (r\<lparr>r_vm := vm\<lparr>running := False\<rparr>, r_out := r_out r @ [Decode_Failed (cycle_count vm) (PC vm)]\<rparr>, 1)
      | Some d \<Rightarrow>
          let opcode = OPC instr in
          (case (if OPCODE_COUNT \<le> unat opcode then None else op_ex vm ! unat opcode) of
             None \<Rightarrow> Inr (r\<lparr>r_vm := vm\<lparr>running := False\<rparr>,
                            r_out := r_out r @ [Invalid_Opcode (cycle_count vm) opcode (PC vm)]\<rparr>, 1)
           | Some h \<Rightarrow>
               bindR (execute e h vm instr d) (\<lambda>vm.
               Inr (r\<lparr>r_vm := vm, r_count := r_count r + 1, r_total := r_total r + 1\<rparr>, 0))))))"

section \<open>One module\<close>

text \<open>The ways in which an instruction can end.\<close>

abbreviation outside :: "module_info \<Rightarrow> u32 \<Rightarrow> vm_state \<Rightarrow> bool" where
  "outside m module_end vm \<equiv> module_end \<le> PC vm \<or> PC vm < mod_addr m"

abbreviation handler_of :: "vm_state \<Rightarrow> u32 \<Rightarrow> handler option" where
  "handler_of vm instr \<equiv> (if OPCODE_COUNT \<le> unat (OPC instr) then None else op_ex vm ! unat (OPC instr))"

lemma run_instruction_cases [consumes 1, case_names outside zero undecoded invalid executed]:
  assumes "vm_run_instruction e m module_end r = Inr (r', rc)"
  obtains "outside m module_end (r_vm r)" "r' = r" "rc = 1"
  | "\<not> outside m module_end (r_vm r)" "vm_mr32 (r_vm r) (PC (r_vm r)) = Inr 0" "r' = r" "rc = 1"
  | instr vm1 where "\<not> outside m module_end (r_vm r)" "vm_mr32 (r_vm r) (PC (r_vm r)) = Inr instr" "instr \<noteq> 0"
      "vm_decode_instruction (ie_calloc e) (ie_malloc e) (r_vm r) (PC (r_vm r)) = Inr (vm1, None)"
      "r' = r\<lparr>r_vm := vm1\<lparr>running := False\<rparr>, r_out := r_out r @ [Decode_Failed (cycle_count vm1) (PC vm1)]\<rparr>" "rc = 1"
  | instr vm1 d where "\<not> outside m module_end (r_vm r)" "vm_mr32 (r_vm r) (PC (r_vm r)) = Inr instr" "instr \<noteq> 0"
      "vm_decode_instruction (ie_calloc e) (ie_malloc e) (r_vm r) (PC (r_vm r)) = Inr (vm1, Some d)"
      "handler_of vm1 instr = None"
      "r' = r\<lparr>r_vm := vm1\<lparr>running := False\<rparr>, r_out := r_out r @ [Invalid_Opcode (cycle_count vm1) (OPC instr) (PC vm1)]\<rparr>" "rc = 1"
  | instr vm1 d h vm2 where "\<not> outside m module_end (r_vm r)" "vm_mr32 (r_vm r) (PC (r_vm r)) = Inr instr" "instr \<noteq> 0"
      "vm_decode_instruction (ie_calloc e) (ie_malloc e) (r_vm r) (PC (r_vm r)) = Inr (vm1, Some d)"
      "handler_of vm1 instr = Some h" "execute e h vm1 instr d = Inr vm2"
      "r' = r\<lparr>r_vm := vm2, r_count := r_count r + 1, r_total := r_total r + 1\<rparr>" "rc = 0"
proof (cases "outside m module_end (r_vm r)")
  case True
  then have "vm_run_instruction e m module_end r = Inr (r, 1)"
    unfolding vm_run_instruction_def Let_def by (simp only: if_True)
  then have "r' = r" "rc = 1" using assms by simp_all
  with True show ?thesis by (rule that(1))
next
  case inside: False
  let ?dec = "vm_decode_instruction (ie_calloc e) (ie_malloc e) (r_vm r) (PC (r_vm r))"
  note step1 = vm_run_instruction_def [of e m module_end r, unfolded Let_def if_not_P [OF inside]]
  obtain instr where instr: "vm_mr32 (r_vm r) (PC (r_vm r)) = Inr instr"
    using assms unfolding step1 by (cases "vm_mr32 (r_vm r) (PC (r_vm r))") simp_all
  show ?thesis
  proof (cases "instr = 0")
    case True
    then have "vm_run_instruction e m module_end r = Inr (r, 1)" by (simp only: step1 instr bindR_simps if_True refl)
    then have "r' = r" "rc = 1" using assms by simp_all
    with inside instr [unfolded True] show ?thesis by (rule that(2))
  next
    case nonzero: False
    note step2 = step1 [unfolded instr bindR_simps if_not_P [OF nonzero]]
    obtain vm1 d where decode: "?dec = Inr (vm1, d)"
      using assms unfolding step2 by (cases ?dec) auto
    note step3 = step2 [unfolded decode bindR_simps prod.case]
    show ?thesis
    proof (cases d)
      case None
      show ?thesis
        by (rule that(3) [OF inside instr nonzero decode [unfolded None]])
          (use assms in \<open>simp_all add: step3 None\<close>)
    next
      case (Some dec)
      note step4 = step3 [unfolded Some option.case]
      show ?thesis
      proof (cases "handler_of vm1 instr")
        case None
        show ?thesis
          by (rule that(4) [OF inside instr nonzero decode [unfolded Some] None])
            (use assms in \<open>simp_all only: step4 None option.case sum.inject prod.inject\<close>)
      next
        case h: (Some h)
        note step5 = step4 [unfolded h option.case]
        obtain vm2 where exec: "execute e h vm1 instr dec = Inr vm2"
          using assms unfolding step5 by (cases "execute e h vm1 instr dec") simp_all
        show ?thesis
          by (rule that(5) [OF inside instr nonzero decode [unfolded Some] h exec])
            (use assms in \<open>simp_all only: step5 exec bindR_simps sum.inject prod.inject\<close>)
      qed
    qed
  qed
qed

lemma run_instruction_count:
  assumes "vm_run_instruction e m module_end r = Inr (r', rc)"
  shows "rc = 0 \<and> r_count r' = r_count r + 1 \<and> r_total r' = r_total r + 1 \<and> r_out r' = r_out r \<or>
    rc = 1 \<and> r_count r' = r_count r \<and> r_total r' = r_total r"
  using assms by (cases rule: run_instruction_cases) simp_all

function run_loop :: "(nat \<Rightarrow> instr_env) \<Rightarrow> module_info \<Rightarrow> u32 \<Rightarrow> run_state \<Rightarrow> run_state res" where
  "run_loop env m module_end r =
     (if running (r_vm r) \<and> r_count r < MAX_INSTRUCTIONS then
        bindR (vm_run_instruction (env (unat (r_count r))) m module_end r) (\<lambda>(r', rc).
        if rc \<noteq> 0 then Inr r' else run_loop env m module_end r')
      else Inr r)"
  by pat_completeness auto
termination
proof (relation "measure (\<lambda>(_, _, _, r). 100000 - unat (r_count r))")
  show "wf (measure (\<lambda>(_, _, _, r). 100000 - unat (r_count r)))" by simp
next
  fix env :: "nat \<Rightarrow> instr_env" and m module_end r x and r' rc
  assume go: "running (r_vm r) \<and> r_count r < MAX_INSTRUCTIONS"
    and step: "vm_run_instruction (env (unat (r_count r))) m module_end r = Inr x" "(r', rc) = x" "\<not> rc \<noteq> 0"
  then have count: "r_count r' = r_count r + 1" using run_instruction_count by fastforce
  have less: "unat (r_count r) < 100000" using go by (simp add: MAX_INSTRUCTIONS_def word_less_nat_alt)
  then have "unat (r_count r + 1) = unat (r_count r) + 1" by (simp add: unat_word_ariths)
  with less count show "((env, m, module_end, r'), env, m, module_end, r) \<in> measure (\<lambda>(_, _, _, r). 100000 - unat (r_count r))"
    by simp
qed

declare run_loop.simps [simp del]

definition vm_run_module :: "(nat \<Rightarrow> instr_env) \<Rightarrow> module_info \<Rightarrow> run_state \<Rightarrow> run_state res" where
  "vm_run_module env m r =
     (let vm = r_vm r in
      if modules vm = None \<or> modules vm = Some [] then Inr r else
      let vm = vm\<lparr>running := True, PC := mod_addr m\<rparr>;
          module_end = mod_addr m + mod_size m
      in run_loop env m module_end (r\<lparr>r_vm := vm, r_count := 0\<rparr>))"

fun run_modules :: "(nat \<Rightarrow> nat \<Rightarrow> instr_env) \<Rightarrow> nat \<Rightarrow> module_info list \<Rightarrow> run_state \<Rightarrow> run_state res" where
  "run_modules env i [] r = Inr r"
| "run_modules env i (m # ms) r = bindR (vm_run_module (env i) m r) (\<lambda>r. run_modules env (Suc i) ms r)"

section \<open>One cycle\<close>

text \<open>The checks of the checksums at the end of a cycle.\<close>

definition check_hashes :: "vm_state \<Rightarrow> u32 \<Rightarrow> event list res" where
  "check_hashes vm end_hash =
     (if \<not> enable_hash_check (config vm) then Inr []
      else
        let regs = (if 1 < cycle_count vm \<and> end_hash \<noteq> prev_cycle_hash vm
                    then [Hash_Mismatch (cycle_count vm) (prev_cycle_hash vm) end_hash] else []) in
        bindR (calculate_memory_hash (mem vm) (PC_START vm) (program_size vm)) (\<lambda>cur_prog_hash.
        Inr (regs @ (if cur_prog_hash \<noteq> program_hash vm then [Program_Hash_Mismatch (cycle_count vm)] else []))))"

definition end_of_cycle :: "cycle_env \<Rightarrow> u64 \<Rightarrow> run_state \<Rightarrow> (vm_state \<times> event list) res" where
  "end_of_cycle ce cycle_start_ms r =
     (let vm = r_vm r;
          vm = (if \<not> enable_tick_timing (config vm) then
                  let expected_end = cycle_start_ms + ucast (cycle_time_ms (config vm))
                  in if time_ms vm < expected_end then vm\<lparr>time_ms := expected_end\<rparr> else vm
                else vm);
          vm = update_all_timers vm;
          end_hash = calculate_registers_hash_ex (reg vm) REG_COUNT (hash_algo (config vm)) in
      bindR (check_hashes vm end_hash) (\<lambda>alarms.
      let vm = vm\<lparr>prev_cycle_hash := end_hash\<rparr> in
      bindR (vm_get_elapsed_ms (ce_start ce) (ce_end ce)) (\<lambda>elapsed_ms.
      bindR (clong (int (unat (cycle_time_ms (config vm))) - elapsed_ms)) (\<lambda>remaining_ms.
      let out = r_out r @ alarms @ [Cycle_Done (cycle_count vm) (r_total r) elapsed_ms (time_ms vm)];
          p = perf vm;
          p = p\<lparr>cycle_exec_ns_total := cycle_exec_ns_total p + ts_diff_ns (ce_start ce) (ce_exec_end ce),
                cycles_total := cycles_total p + 1\<rparr>;
          vm = vm\<lparr>perf := p\<rparr>
      in if remaining_ms > 0 then Inr (vm, out)
         else if enable_cycle_check (config vm) then
           Inr (vm\<lparr>perf := p\<lparr>overrun_cycles := overrun_cycles p + 1\<rparr>\<rparr>,
             out @ [Overrun (cycle_count vm) (- remaining_ms)])
         else Inr (vm, out)))))"

text \<open>The last component: whether the loop goes on.\<close>

definition run_cycle :: "cycle_env \<Rightarrow> vm_state \<Rightarrow> event list \<Rightarrow> (vm_state \<times> event list \<times> bool) res" where
  "run_cycle ce vm out =
     bindR (reload_phase (ce_heap ce) (ce_fs ce) vm) (\<lambda>vm.
     let vm = (if ce_stop ce then vm\<lparr>stop_requested := True\<rparr> else vm);
         vm = vm\<lparr>cycle_count := cycle_count vm + 1\<rparr> in
     if stop_requested vm then Inr (vm, out @ [Cleanups_Run], False)
     else
       let cycle_start_ms = time_ms vm;
           start_hash = calculate_registers_hash_ex (reg vm) REG_COUNT (hash_algo (config vm));
           vm = (if enable_hash_check (config vm) \<and> cycle_count vm = 1
                 then vm\<lparr>prev_cycle_hash := start_hash\<rparr> else vm) in
       bindR (run_modules (ce_instr ce) 0 (case modules vm of None \<Rightarrow> [] | Some ms \<Rightarrow> ms)
           \<lparr>r_vm = vm, r_count = 0, r_total = 0, r_out = out\<rparr>) (\<lambda>r.
       bindR (end_of_cycle ce cycle_start_ms r) (\<lambda>(vm, out).
       Inr (vm, out, True))))"

fun run_cycles :: "cycle_env list \<Rightarrow> vm_state \<Rightarrow> event list \<Rightarrow> (vm_state \<times> event list \<times> bool) res" where
  "run_cycles [] vm out = Inr (vm, out, True)"
| "run_cycles (ce # ces) vm out =
     bindR (run_cycle ce vm out) (\<lambda>(vm, out, go). if go then run_cycles ces vm out else Inr (vm, out, False))"

text \<open>\<open>tick\<close> and \<open>now\<close> are the readings of the clock in \<open>vm_init_timer\<close> and behind it.  The last
  component tells whether the machine would go on behind the given cycles.\<close>

definition run_program ::
  "bool \<Rightarrow> string \<Rightarrow> timespec \<Rightarrow> timespec \<Rightarrow> cycle_env list \<Rightarrow> vm_state \<Rightarrow> (vm_state \<times> event list \<times> bool) res" where
  "run_program opened date tick now ces vm =
     (let vm = vm_init_timer tick vm;
          vm = fst (init_logging opened date vm);
          vm = vm\<lparr>time_ms := ms_of_timespec now\<rparr>;
          vm = vm\<lparr>config := (config vm)\<lparr>hash_algo := HASH_CRC32\<rparr>\<rparr> in
      bindR (run_cycles ces vm []) (\<lambda>(vm, out, go).
      if go then Inr (vm, out, True) else Inr (fst (close_logging vm), out, False)))"

end
