(* ===== verification/Execution.thy ===== *)
theory Execution
  imports Runtime
begin

text \<open>
  What the runtime guarantees.  An instruction, a module and a cycle keep an invariant of the
  machine (\<open>vm_ok\<close>: arrays of the right lengths, a sane decode cache, modules inside the memory)
  and a frame (\<open>run_frame\<close>: configuration, modules, tables and the reload protocol are not
  touched, a requested stop stays requested), and fault only in the ways the handlers do.
\<close>

section \<open>The decode cache\<close>

text \<open>The cache is a proper table, not larger than its keys require, and its keys are addresses of
  words inside the memory; so it can always grow.\<close>

definition cache_sane :: "vm_state \<Rightarrow> bool" where
  "cache_sane vm \<longleftrightarrow> (\<forall>t. decoded_cache vm = Some t \<longrightarrow> ht_inv t \<and>
     unat (used t) \<le> card (dom (ht_map t)) \<and> unat (tbl_size t) \<le> max 8 (4 * card (dom (ht_map t))) \<and>
     dom (ht_map t) \<subseteq> {a. unat a + 4 \<le> VM_MEM_BYTES})"

lemma word_addresses: "finite {a :: u32. unat a + 4 \<le> VM_MEM_BYTES}" "card {a :: u32. unat a + 4 \<le> VM_MEM_BYTES} \<le> 67108864"
proof -
  have sub: "unat ` {a :: u32. unat a + 4 \<le> VM_MEM_BYTES} \<subseteq> {..<67108864}" by auto
  have inj: "inj_on unat {a :: u32. unat a + 4 \<le> VM_MEM_BYTES}" by (rule inj_onI) (simp add: word_unat_eq_iff)
  show "finite {a :: u32. unat a + 4 \<le> VM_MEM_BYTES}" by simp
  show "card {a :: u32. unat a + 4 \<le> VM_MEM_BYTES} \<le> 67108864"
    using card_inj_on_le [OF inj sub] by simp
qed

lemma cache_sane_room: "cache_sane vm \<Longrightarrow> decoded_cache vm = Some t \<Longrightarrow> ht_room t"
  using card_mono [OF word_addresses(1), of "dom (ht_map t)"] word_addresses(2)
  by (auto simp: cache_sane_def ht_room_def)

lemma decode_sane:
  assumes "cache_sane vm" "\<forall>m. ca m"
  shows "\<exists>c d. vm_decode_instruction ca mk vm a = Inr (vm\<lparr>decoded_cache := c\<rparr>, d) \<and> cache_sane (vm\<lparr>decoded_cache := c\<rparr>)"
proof (cases "decoded_cache vm")
  case None
  then show ?thesis
    using assms(1) by (intro exI [of _ None]) (simp add: vm_decode_instruction_def decode_instruction_cached_def cache_sane_def)
next
  case (Some t)
  with assms(1) have t: "ht_inv t" "unat (used t) \<le> card (dom (ht_map t))"
      "unat (tbl_size t) \<le> max 8 (4 * card (dom (ht_map t)))" "dom (ht_map t) \<subseteq> {a. unat a + 4 \<le> VM_MEM_BYTES}"
    by (simp_all add: cache_sane_def)
  have find: "hash_table_lookup t a = Inr (ht_map t a)" using t(1) by (rule hash_table_lookup_map)
  have same: "vm\<lparr>decoded_cache := Some t\<rparr> = vm" using Some by simp
  show ?thesis
  proof (cases "ht_map t a \<noteq> None \<or> VM_MEM_BYTES - 3 \<le> unat a \<or> \<not> mk")
    case True
    then have "\<exists>d. vm_decode_instruction ca mk vm a = Inr (vm, d)"
      using Some find vm_mr32_ok [of a vm]
      by (cases "ht_map t a") (auto simp: vm_decode_instruction_def decode_instruction_cached_def)
    with same assms(1) show ?thesis by metis
  next
    case False
    then have new: "ht_map t a = None" "unat a + 4 \<le> VM_MEM_BYTES" "mk" by auto
    let ?d = "decode (word_at (mem vm) (unat a))"
    have "ht_room t" using cache_sane_room [OF assms(1) Some] .
    from hash_table_insert_map [OF t(1) assms(2) this, of a ?d] obtain t' where t':
      "hash_table_insert ca t a ?d = Inr t'" "ht_inv t'" "ht_map t' = (ht_map t)(a \<mapsto> ?d)"
      "unat (used t') \<le> unat (used t) + 1"
      "tbl_size t' = tbl_size t \<or> unat (tbl_size t') = 2 * unat (tbl_size t) \<and> unat (tbl_size t) < 2 * (unat (used t) + 1)"
      by blast
    have fin: "finite (dom (ht_map t))" using t(4) word_addresses(1) by (rule finite_subset)
    have "card (dom (ht_map t')) = card (dom (ht_map t)) + 1"
      using new(1) fin by (simp add: t'(3) domIff)
    moreover have "dom (ht_map t') \<subseteq> {a. unat a + 4 \<le> VM_MEM_BYTES}"
      using t(4) new(2) by (simp add: t'(3))
    ultimately have "cache_sane (vm\<lparr>decoded_cache := Some t'\<rparr>)"
      using t' t(2,3) by (auto simp: cache_sane_def)
    moreover have "vm_decode_instruction ca mk vm a = Inr (vm\<lparr>decoded_cache := Some t'\<rparr>, Some ?d)"
      using new t'(1) Some
      by (simp add: vm_decode_instruction_def decode_instruction_cached_def find vm_mr32_ok)
    ultimately show ?thesis by blast
  qed
qed

section \<open>The frame of a run\<close>

definition run_frame :: "vm_state \<Rightarrow> vm_state \<Rightarrow> bool" where
  "run_frame vm vm' \<longleftrightarrow> config vm' = config vm \<and> modules vm' = modules vm \<and> PC_START vm' = PC_START vm \<and>
     program_hash vm' = program_hash vm \<and> program_size vm' = program_size vm \<and>
     program_dir vm' = program_dir vm \<and> program_dir_signature vm' = program_dir_signature vm \<and>
     reload_pending vm' = reload_pending vm \<and> cycle_count vm' = cycle_count vm \<and>
     prev_cycle_hash vm' = prev_cycle_hash vm \<and> op_ex vm' = op_ex vm \<and>
     labels vm' = labels vm \<and> breakpoints vm' = breakpoints vm \<and>
     (stop_requested vm \<longrightarrow> stop_requested vm')"

lemma run_frame_refl [simp]: "run_frame vm vm"
  by (simp add: run_frame_def)

lemma run_frame_trans [trans]: "run_frame a b \<Longrightarrow> run_frame b c \<Longrightarrow> run_frame a c"
  by (simp add: run_frame_def)

lemma run_frame_updates [simp]:
  "run_frame vm (vm\<lparr>running := b\<rparr>)" "run_frame vm (vm\<lparr>PC := p\<rparr>)" "run_frame vm (vm\<lparr>decoded_cache := c\<rparr>)"
  "run_frame vm (vm\<lparr>perf := q\<rparr>)" "run_frame vm (vm\<lparr>last_tick_time := t\<rparr>)" "run_frame vm (vm\<lparr>time_ms := x\<rparr>)"
  by (simp_all add: run_frame_def)

lemma log_before_frame:
  "run_frame vm (fst (log_before vm pc instr))" "decoded_cache (fst (log_before vm pc instr)) = decoded_cache vm"
  "PC (fst (log_before vm pc instr)) = PC vm" "reg (fst (log_before vm pc instr)) = reg vm"
  "mem (fst (log_before vm pc instr)) = mem vm" "time_ms (fst (log_before vm pc instr)) = time_ms vm"
  by (simp_all add: run_frame_def fst_log_before)

lemma op_frame_fields:
  assumes "op_frame vm vm'"
  shows "config vm' = config vm" "modules vm' = modules vm" "PC_START vm' = PC_START vm"
    "program_hash vm' = program_hash vm" "program_size vm' = program_size vm" "program_dir vm' = program_dir vm"
    "program_dir_signature vm' = program_dir_signature vm" "reload_pending vm' = reload_pending vm"
    "cycle_count vm' = cycle_count vm" "prev_cycle_hash vm' = prev_cycle_hash vm" "op_ex vm' = op_ex vm"
    "labels vm' = labels vm" "breakpoints vm' = breakpoints vm" "decoded_cache vm' = decoded_cache vm"
    "time_ms vm' = time_ms vm" "instr_ns_accum vm' = instr_ns_accum vm"
  by (subst assms [unfolded op_frame_def], simp)+

lemma exec_op_stop: "exec_op env h vm i = Inr vm' \<Longrightarrow> stop_requested vm \<Longrightarrow> stop_requested vm'"
proof (cases "h \<in> stateful")
  case True
  then show "exec_op env h vm i = Inr vm' \<Longrightarrow> stop_requested vm \<Longrightarrow> stop_requested vm'"
    by (auto simp: stateful_def op_ton_def op_tof_def op_tp_def ton_set_def tof_set_def tp_set_def
      op_ctu_def op_ctd_def op_ctud_def op_rising_edge_def op_falling_edge_def op_edge_both_def
      op_rs_latch_def op_sr_latch_def op_exit_def op_halt_def SetA_val_def Let_def)
next
  case False
  assume "exec_op env h vm i = Inr vm'" "stop_requested vm"
  with exec_op_plain [OF this(1) False] show "stop_requested vm'"
    unfolding plain_change_def by (elim ssubst) simp
qed

lemma exec_op_run_frame: "exec_op env h vm i = Inr vm' \<Longrightarrow> run_frame vm vm' \<and> decoded_cache vm' = decoded_cache vm"
  using op_frame_fields [OF exec_op_frame] exec_op_stop by (simp add: run_frame_def)

lemma wait_frame:
  "vm_wait_for_tick a b vm = Inr (vm', s) \<Longrightarrow> vm' = vm \<or> vm' = vm\<lparr>last_tick_time := b\<rparr>"
  by (auto simp: vm_wait_for_tick_def res_simps Let_def split: if_splits)

lemma wait_fault: "vm_wait_for_tick a b vm = Inl f \<Longrightarrow> f = Signed_Overflow"
  by (auto simp: vm_wait_for_tick_def clong_def res_simps Let_def split: if_splits)

lemma update_time_frame:
  "\<exists>t n. vm_update_time_after_instruction now vm = vm\<lparr>time_ms := t, instr_ns_accum := n\<rparr>"
proof (intro exI)
  let ?vm = "vm_update_time_after_instruction now vm"
  show "?vm = vm\<lparr>time_ms := time_ms ?vm, instr_ns_accum := instr_ns_accum ?vm\<rparr>"
    by (simp add: vm_update_time_after_instruction_def Let_def)
qed

section \<open>The invariant\<close>

definition modules_inside :: "vm_state \<Rightarrow> bool" where
  "modules_inside vm \<longleftrightarrow> (\<forall>ms. modules vm = Some ms \<longrightarrow>
     (\<forall>m \<in> set ms. unat (mod_addr m) + unat (mod_size m) + 3 \<le> VM_MEM_BYTES))"

definition program_inside :: "vm_state \<Rightarrow> bool" where
  "program_inside vm \<longleftrightarrow> unat (PC_START vm) + unat (program_size vm) \<le> VM_MEM_BYTES"

definition vm_ok :: "vm_state \<Rightarrow> bool" where
  "vm_ok vm \<longleftrightarrow> vm_wf vm \<and> cache_sane vm \<and> modules_inside vm \<and> program_inside vm"

definition run_fault :: "fault \<Rightarrow> bool" where
  "run_fault f \<longleftrightarrow> f \<in> {Bad_Conversion, Signed_Overflow, Overlapping_Copy}"

lemma vm_okI: "vm_ok vm \<Longrightarrow> vm_wf vm' \<Longrightarrow> run_frame vm vm' \<Longrightarrow> decoded_cache vm' = decoded_cache vm \<Longrightarrow> vm_ok vm'"
  by (simp add: vm_ok_def cache_sane_def modules_inside_def program_inside_def run_frame_def)

lemma vm_ok_updates [simp]:
  "vm_ok (vm\<lparr>running := b\<rparr>) = vm_ok vm" "vm_ok (vm\<lparr>PC := p\<rparr>) = vm_ok vm" "vm_ok (vm\<lparr>perf := q\<rparr>) = vm_ok vm"
  "vm_ok (vm\<lparr>last_tick_time := t\<rparr>) = vm_ok vm" "vm_ok (vm\<lparr>time_ms := x\<rparr>) = vm_ok vm"
  "vm_ok (vm\<lparr>instr_ns_accum := y\<rparr>) = vm_ok vm" "vm_ok (vm\<lparr>prev_cycle_hash := h\<rparr>) = vm_ok vm"
  "vm_ok (vm\<lparr>stop_requested := b\<rparr>) = vm_ok vm" "vm_ok (vm\<lparr>cycle_count := c\<rparr>) = vm_ok vm"
  by (simp_all add: vm_ok_def cache_sane_def modules_inside_def program_inside_def)

lemma allowed_run_fault: "allowed_fault h f \<Longrightarrow> run_fault f"
  by (auto simp: allowed_fault_def run_fault_def)

text \<open>The part of \<open>execute\<close> behind the handler.\<close>

lemma after_handler:
  assumes "bindR (vm_wait_for_tick a b vm) (\<lambda>(vm, _). Inr (vm_update_time_after_instruction now vm)) = Inr vm'"
  shows "run_frame vm vm' \<and> vm_ok vm' = vm_ok vm \<and> reg vm' = reg vm \<and> mem vm' = mem vm \<and> PC vm' = PC vm \<and>
    running vm' = running vm"
proof -
  from assms obtain vm1 s where w: "vm_wait_for_tick a b vm = Inr (vm1, s)" "vm' = vm_update_time_after_instruction now vm1"
    by (cases "vm_wait_for_tick a b vm") auto
  obtain t n where "vm' = vm1\<lparr>time_ms := t, instr_ns_accum := n\<rparr>" using update_time_frame w(2) by blast
  then show ?thesis using wait_frame [OF w(1)] by (auto simp: run_frame_def)
qed

text \<open>What an executed instruction does: the handler runs on the decoded word, the program counter
  moves on unless the handler moved it.\<close>

lemma execute_Inr:
  assumes "execute e h vm instr d = Inr vm'"
  shows "\<exists>vm1. exec_op (ie_op e) h (fst (log_before vm (PC vm) instr)) (raw_instr d) = Inr vm1 \<and>
    PC vm' = (if PC vm1 = PC vm then PC vm + 4 else PC vm1) \<and> reg vm' = reg vm1 \<and> mem vm' = mem vm1 \<and>
    running vm' = running vm1 \<and> run_frame vm vm' \<and> (vm_ok vm \<longrightarrow> vm_ok vm')"
proof -
  let ?vm0 = "fst (log_before vm (PC vm) instr)"
  from assms obtain vm1 where op: "exec_op (ie_op e) h ?vm0 (raw_instr d) = Inr vm1"
    by (cases "exec_op (ie_op e) h ?vm0 (raw_instr d)") (simp_all add: execute_def Let_def)
  let ?vm2 = "(if PC vm1 = PC vm then vm1\<lparr>PC := PC vm1 + 4\<rparr> else vm1)"
  let ?vm3 = "?vm2\<lparr>perf := add_perf e (perf ?vm2)\<rparr>"
  have "bindR (vm_wait_for_tick (ie_tick e) (ie_tock e) ?vm3) (\<lambda>(vm, _). Inr (vm_update_time_after_instruction (ie_now e) vm)) = Inr vm'"
    using assms unfolding execute_def Let_def op bindR_simps .
  note after = after_handler [OF this]
  have frame: "run_frame vm vm1" "decoded_cache vm1 = decoded_cache vm"
    using exec_op_run_frame [OF op] log_before_frame [of vm "PC vm" instr] run_frame_trans by auto
  have ok: "vm_ok vm1" if "vm_ok vm"
  proof -
    have "vm_wf vm1" using exec_op_wf [OF op] log_wf(2) that by (simp add: vm_ok_def)
    from vm_okI [OF that this frame] show ?thesis .
  qed
  have "run_frame vm1 ?vm3" by (simp add: run_frame_def)
  with frame(1) after have "run_frame vm vm'" using run_frame_trans by blast
  with op after ok show ?thesis by (intro exI [of _ vm1]) simp
qed

lemma execute_Inl: "execute e h vm instr d = Inl f \<Longrightarrow> run_fault f"
  by (auto simp: execute_def Let_def res_simps run_fault_def dest!: wait_fault exec_op_fault allowed_run_fault)

section \<open>Instructions and modules\<close>

definition env_ok :: "instr_env \<Rightarrow> bool" where
  "env_ok e \<longleftrightarrow> (\<forall>n. ie_calloc e n)"

definition module_inside :: "module_info \<Rightarrow> bool" where
  "module_inside m \<longleftrightarrow> unat (mod_addr m) + unat (mod_size m) + 3 \<le> VM_MEM_BYTES"

lemma module_end_inside:
  assumes "module_inside m" "PC vm < mod_addr m + mod_size m"
  shows "unat (PC vm) + 4 \<le> VM_MEM_BYTES"
proof -
  have "unat (mod_addr m + mod_size m) = unat (mod_addr m) + unat (mod_size m)"
    using assms(1) by (simp add: module_inside_def unat_word_ariths)
  with assms show ?thesis by (simp add: module_inside_def word_less_nat_alt)
qed

lemma decode_ok:
  assumes "vm_ok vm" "env_ok e"
  shows "\<exists>c d. vm_decode_instruction (ie_calloc e) (ie_malloc e) vm a = Inr (vm\<lparr>decoded_cache := c\<rparr>, d) \<and>
    vm_ok (vm\<lparr>decoded_cache := c\<rparr>)"
  using decode_sane [of vm "ie_calloc e" "ie_malloc e" a] assms
  by (auto simp: vm_ok_def env_ok_def modules_inside_def program_inside_def)

lemma run_instruction_ok:
  assumes "vm_run_instruction e m module_end r = Inr (r', rc)" "vm_ok (r_vm r)" "env_ok e"
  shows "vm_ok (r_vm r') \<and> run_frame (r_vm r) (r_vm r')"
  using assms(1)
proof (cases rule: run_instruction_cases)
  case (undecoded instr vm1)
  with decode_ok [OF assms(2,3), of "PC (r_vm r)"] show ?thesis by (auto simp: run_frame_def)
next
  case (invalid instr vm1 d)
  with decode_ok [OF assms(2,3), of "PC (r_vm r)"] show ?thesis by (auto simp: run_frame_def)
next
  case (executed instr vm1 d h vm2)
  have "vm_ok vm1" "run_frame (r_vm r) vm1"
    using decode_ok [OF assms(2,3), of "PC (r_vm r)"] executed(4) by (auto simp: run_frame_def)
  with execute_Inr [OF executed(6)] executed(7) show ?thesis using run_frame_trans by fastforce
qed (use assms in simp_all)

lemma run_instruction_fault:
  assumes "vm_run_instruction e m (mod_addr m + mod_size m) r = Inl f" "vm_ok (r_vm r)" "env_ok e" "module_inside m"
  shows "run_fault f"
proof -
  let ?vm = "r_vm r"
  have inside: "\<not> outside m (mod_addr m + mod_size m) ?vm"
    using assms(1) unfolding vm_run_instruction_def Let_def by (rule contrapos_pn) simp
  then have "unat (PC ?vm) + 4 \<le> VM_MEM_BYTES" using module_end_inside [OF assms(4), of ?vm] by (simp add: not_le)
  then have fetch: "vm_mr32 ?vm (PC ?vm) = Inr (word_at (mem ?vm) (unat (PC ?vm)))" by (rule vm_mr32_ok)
  let ?instr = "word_at (mem ?vm) (unat (PC ?vm))"
  obtain c d where dec: "vm_decode_instruction (ie_calloc e) (ie_malloc e) ?vm (PC ?vm) = Inr (?vm\<lparr>decoded_cache := c\<rparr>, d)"
    using decode_ok [OF assms(2,3)] by blast
  have nonzero: "?instr \<noteq> 0"
    using assms(1) unfolding vm_run_instruction_def Let_def if_not_P [OF inside] fetch bindR_simps
    by (rule contrapos_pn) simp
  note step = assms(1) [unfolded vm_run_instruction_def Let_def if_not_P [OF inside] fetch bindR_simps if_not_P [OF nonzero] dec prod.case]
  obtain d' where d: "d = Some d'" using step by (cases d) simp_all
  note step2 = step [unfolded d option.case]
  obtain h where h: "handler_of (?vm\<lparr>decoded_cache := c\<rparr>) ?instr = Some h"
    using step2 by (cases "handler_of (?vm\<lparr>decoded_cache := c\<rparr>) ?instr") (simp_all only: option.case sum.distinct)
  note step3 = step2 [unfolded h option.case]
  have "execute e h (?vm\<lparr>decoded_cache := c\<rparr>) ?instr d' = Inl f"
    using step3 by (cases "execute e h (?vm\<lparr>decoded_cache := c\<rparr>) ?instr d'") simp_all
  then show ?thesis by (rule execute_Inl)
qed

text \<open>Why the loop over a module ends.\<close>

definition stopped :: "module_info \<Rightarrow> run_state \<Rightarrow> bool" where
  "stopped m r \<longleftrightarrow> \<not> running (r_vm r) \<or> r_count r = MAX_INSTRUCTIONS \<or>
     outside m (mod_addr m + mod_size m) (r_vm r) \<or> vm_mr32 (r_vm r) (PC (r_vm r)) = Inr 0"

lemma run_loop_total:
  assumes "unat (r_count r) \<le> 100000"
  shows "case run_loop env m (mod_addr m + mod_size m) r of
      Inl f \<Rightarrow> vm_ok (r_vm r) \<longrightarrow> (\<forall>k. env_ok (env k)) \<longrightarrow> module_inside m \<longrightarrow> run_fault f
    | Inr r' \<Rightarrow> unat (r_count r') \<le> 100000 \<and> r_total r' - r_count r' = r_total r - r_count r \<and> stopped m r' \<and>
        (vm_ok (r_vm r) \<longrightarrow> (\<forall>k. env_ok (env k)) \<longrightarrow> vm_ok (r_vm r') \<and> run_frame (r_vm r) (r_vm r'))"
  using assms
proof (induction env m "mod_addr m + mod_size m" r rule: run_loop.induct)
  case (1 env m r)
  let ?fin = "mod_addr m + mod_size m"
  show ?case
  proof (cases "running (r_vm r) \<and> r_count r < MAX_INSTRUCTIONS")
    case False
    then have "stopped m r"
      using 1(2) by (auto simp: stopped_def MAX_INSTRUCTIONS_def word_less_nat_alt word_unat_eq_iff)
    with 1(2) show ?thesis unfolding run_loop.simps [of env m ?fin r] if_not_P [OF False] by simp
  next
    case go: True
    let ?e = "env (unat (r_count r))"
    show ?thesis
    proof (cases "vm_run_instruction ?e m ?fin r")
      case (Inl f)
      with go run_instruction_fault [OF Inl] show ?thesis by (simp add: run_loop.simps [of env m ?fin r])
    next
      case (Inr x)
      obtain r' rc where x: "x = (r', rc)" by force
      note step = Inr [unfolded x]
      note ok = run_instruction_ok [OF step]
      from run_instruction_count [OF step] show ?thesis
      proof
        assume done1: "rc = 1 \<and> r_count r' = r_count r \<and> r_total r' = r_total r"
        have "stopped m r'"
          using step done1 by (cases rule: run_instruction_cases) (auto simp: stopped_def)
        with go step done1 ok 1(2) show ?thesis by (simp add: run_loop.simps [of env m ?fin r])
      next
        assume more: "rc = 0 \<and> r_count r' = r_count r + 1 \<and> r_total r' = r_total r + 1 \<and> r_out r' = r_out r"
        have "unat (r_count r) < 100000" using go by (simp add: MAX_INSTRUCTIONS_def word_less_nat_alt)
        then have count: "unat (r_count r') \<le> 100000" using more by (simp add: unat_word_ariths)
        have eq: "run_loop env m ?fin r = run_loop env m ?fin r'"
          using go step more by (simp add: run_loop.simps [of env m ?fin r])
        have "r_total r' - r_count r' = r_total r - r_count r" using more by simp
        with 1(1) [OF go Inr x [symmetric] _ count] more ok show ?thesis
          unfolding eq by (auto split: sum.splits intro: run_frame_trans)
      qed
    qed
  qed
qed

lemma run_module_ends':
  assumes "vm_ok (r_vm r)" "\<forall>k. env_ok (env k)" "module_inside m" "modules (r_vm r) = Some ms" "m \<in> set ms"
  shows "case vm_run_module env m r of
      Inl f \<Rightarrow> run_fault f
    | Inr r' \<Rightarrow> unat (r_count r') \<le> 100000 \<and> r_total r' = r_total r + r_count r' \<and> stopped m r' \<and>
        vm_ok (r_vm r') \<and> run_frame (r_vm r) (r_vm r')"
proof -
  have ne: "\<not> (modules (r_vm r) = None \<or> modules (r_vm r) = Some [])" using assms(4,5) by auto
  let ?r = "r\<lparr>r_vm := (r_vm r)\<lparr>running := True, PC := mod_addr m\<rparr>, r_count := 0\<rparr>"
  have start: "run_frame (r_vm r) (r_vm ?r)" "vm_ok (r_vm ?r)" using assms(1) by (simp_all add: run_frame_def)
  have run: "vm_run_module env m r = run_loop env m (mod_addr m + mod_size m) ?r"
    unfolding vm_run_module_def Let_def if_not_P [OF ne] ..
  show ?thesis
    using run_loop_total [of ?r env m] start assms(2,3) unfolding run
    by (auto simp: diff_eq_eq split: sum.splits intro: run_frame_trans)
qed

text \<open>
  C6 (termination).  Running a module always comes to an end: of a machine that satisfies the
  invariant, with the module inside the memory, at most 100000 instructions are executed, jumps
  and loops or not, and the run ends because the machine stopped, the bound is reached, the
  program counter left the module, or it reached a zero word.  The invariant holds again, and
  configuration, modules, tables and reload protocol are untouched.  The only faults are those
  of the handlers and an overflow of the tick arithmetic; the memory is never left.
\<close>

theorem run_module_ends:
  assumes "vm_ok (r_vm r)" "\<forall>k. env_ok (env k)" "module_inside m" "modules (r_vm r) = Some ms" "m \<in> set ms"
  shows "case vm_run_module env m r of
      Inl f \<Rightarrow> f \<in> {Bad_Conversion, Signed_Overflow, Overlapping_Copy}
    | Inr r' \<Rightarrow> unat (r_count r') \<le> 100000 \<and> r_total r' = r_total r + r_count r' \<and> stopped m r' \<and>
        vm_ok (r_vm r') \<and> run_frame (r_vm r) (r_vm r')"
  using run_module_ends' [OF assms] by (simp add: run_fault_def split: sum.splits)

lemma run_modules_ok:
  assumes "\<forall>i k. env_ok (env i k)" "set ms \<subseteq> set all" "modules (r_vm r) = Some all" "vm_ok (r_vm r)"
  shows "case run_modules env i ms r of
      Inl f \<Rightarrow> run_fault f
    | Inr r' \<Rightarrow> vm_ok (r_vm r') \<and> run_frame (r_vm r) (r_vm r')"
  using assms
proof (induction ms arbitrary: i r)
  case (Cons m ms)
  have "module_inside m"
    using Cons.prems by (auto simp: vm_ok_def modules_inside_def module_inside_def)
  note one = run_module_ends' [of r "env i" m all]
  show ?case
  proof (cases "vm_run_module (env i) m r")
    case (Inl f)
    with one Cons.prems \<open>module_inside m\<close> show ?thesis by simp
  next
    case (Inr r1)
    with one Cons.prems \<open>module_inside m\<close> have r1: "vm_ok (r_vm r1)" "run_frame (r_vm r) (r_vm r1)" by simp_all
    then have "modules (r_vm r1) = Some all" using Cons.prems(3) by (simp add: run_frame_def)
    with Cons.IH [of r1 "Suc i"] Cons.prems r1 show ?thesis
      by (auto simp: Inr split: sum.splits intro: run_frame_trans)
  qed
qed simp

end
