(* ===== verification/Cycles.thy ===== *)
theory Cycles
  imports Execution
begin

text \<open>
  Properties of whole cycles: the cycle loop keeps the invariant while program directories come
  and go, a requested stop ends the loop at the next cycle, the checksum alarms, the virtual
  time, and how control leaves a module.
\<close>

section \<open>Reloads keep the invariant\<close>

lemma loaded_ok:
  assumes "vm_ok vm" "unat (PC_START vm) + length (program_image files) + 3 \<le> VM_MEM_BYTES"
  shows "vm_ok ((loaded vm files)\<lparr>program_hash := h\<rparr>)"
proof -
  have fits: "unat (PC_START vm) + length (program_image files) \<le> VM_MEM_BYTES" using assms(2) by simp
  have "unat (of_nat (length (program_image files)) :: u64) = length (program_image files)"
    using fits by (simp add: unsigned_of_nat take_bit_nat_eq_self)
  moreover have "unat (mod_addr m) + unat (mod_size m) + 3 \<le> VM_MEM_BYTES" if "m \<in> set (layout (PC_START vm) files)" for m
    using layout_inside [OF that fits] assms(2) by linarith
  ultimately show ?thesis
    using assms fits by (simp add: vm_ok_def loaded_def cache_sane_def modules_inside_def program_inside_def)
qed

text \<open>A load of such files never faults, whether all are there or not and whatever the allocation, and leaves a machine in order.\<close>

lemma load_programs_total:
  assumes "vm_ok vm" "loadable fs (PC_START vm) fnames"
  obtains vm' rc where "load_programs alloc fs vm fnames = Inr (vm', rc)" "vm_ok vm'"
proof (cases "alloc \<and> fnames \<noteq> []")
  case False
  have "vm_ok (vm\<lparr>modules := None\<rparr>)" using assms(1) by (simp add: vm_ok_def cache_sane_def modules_inside_def program_inside_def)
  moreover have "load_programs alloc fs vm fnames = Inr (if fnames = [] then vm else vm\<lparr>modules := None\<rparr>, -1)"
    using False by (cases "modules vm") (auto simp: load_programs_def free_modules_def Let_def)
  ultimately show thesis using assms(1) that by (cases "fnames = []") simp_all
next
  case True
  obtain files where files: "map fst files = fnames" "unat (PC_START vm) + length (program_image files) + 3 \<le> VM_MEM_BYTES"
    "\<forall>(n, d) \<in> set files. fs_open fs n = Some (whole_file d) \<or> fs_open fs n = None"
    using assms(2) by (auto simp: loadable_def)
  show thesis
  proof (cases "\<exists>f \<in> set files. fs_open fs (fst f) = None")
    case False
    then have whole: "program_files fs files" using files(3) by (fastforce simp: program_files_def)
    have "files \<noteq> []" using files(1) True by auto
    from load_programs_ok [OF whole this files(2)] have "load_programs alloc fs vm fnames = Inr (loaded vm files, 0)"
      using True files(1) by simp
    moreover have "vm_ok ((loaded vm files)\<lparr>program_hash := program_hash (loaded vm files)\<rparr>)"
      using assms(1) files(2) by (rule loaded_ok)
    ultimately show thesis using that by simp
  next
    case True
    from split_list_first_prop [OF this] obtain pre f post where
      split: "files = pre @ f # post" "fs_open fs (fst f) = None" "\<forall>g \<in> set pre. fs_open fs (fst g) \<noteq> None" by blast
    have image: "length (program_image files) = length (program_image pre) + length (program_image (f # post))"
      by (simp add: split(1) program_image_def)
    have pre: "program_files fs pre" "unat (PC_START vm) + length (program_image pre) \<le> VM_MEM_BYTES"
      using files(2,3) split image by (fastforce simp: program_files_def, simp)
    have "unat (of_nat (length (program_image pre)) :: u64) = length (program_image pre)"
      using pre(2) by (simp add: unsigned_of_nat take_bit_nat_eq_self)
    then have ok: "vm_ok (vm\<lparr>modules := None, mem := write_bytes (mem vm) (unat (PC_START vm)) (program_image pre),
        program_size := of_nat (length (program_image pre)), program_hash := 0\<rparr>)"
      using assms(1) pre(2) by (simp add: vm_ok_def cache_sane_def modules_inside_def program_inside_def)
    have "fnames = map fst pre @ fst f # map fst post" using files(1) split(1) by auto
    then show thesis
      using that [OF _ ok] load_programs_missing [OF pre(1) split(2) pre(2)] \<open>alloc \<and> fnames \<noteq> []\<close> by simp
  qed
qed

text \<open>Whatever the recorded signature and the pending flag, the start of a cycle with a good
  directory leaves a machine in order, with the same directory.\<close>

lemma reload_phase_ok:
  assumes "vm_ok vm" "program_dir vm = Some dir" "heap_ok h" "good_directory fs dir (PC_START vm) files"
  shows "\<exists>vm'. reload_phase h fs vm = Inr vm' \<and> vm_ok vm' \<and> program_dir vm' = Some dir \<and> PC_START vm' = PC_START vm \<and>
    (modules vm \<noteq> None \<longrightarrow> modules vm' \<noteq> None) \<and> decoded_cache vm' = decoded_cache vm \<and> reg vm' = reg vm \<and>
    stop_requested vm' = stop_requested vm \<and> cycle_count vm' = cycle_count vm \<and> config vm' = config vm \<and>
    prev_cycle_hash vm' = prev_cycle_hash vm"
proof -
  from assms(2) obtain sig pending where
    p: "reload_phase h fs vm = apply_pending_reload h fs (vm\<lparr>program_dir_signature := sig, reload_pending := pending\<rparr>)"
    by (rule reload_phase_cases [where h = h and fs = fs]) blast
  let ?vm = "vm\<lparr>program_dir_signature := sig, reload_pending := False\<rparr>"
  have ok: "vm_ok ?vm" using assms(1) by (simp add: vm_ok_def cache_sane_def modules_inside_def program_inside_def)
  show ?thesis
  proof (cases pending)
    case False
    then show ?thesis using ok assms(2) by (simp add: p apply_pending_reload_def)
  next
    case True
    obtain hash where "reload_programs_from_directory h fs ?vm dir = Inr ((loaded ?vm files)\<lparr>program_hash := hash\<rparr>, 0)"
      using reload_good [OF assms(3), of fs dir ?vm files] assms(4) by auto
    then have "reload_phase h fs vm = Inr ((loaded ?vm files)\<lparr>program_hash := hash\<rparr>)"
      using True assms(2) by (simp add: p apply_pending_reload_def)
    moreover have "vm_ok ((loaded ?vm files)\<lparr>program_hash := hash\<rparr>)"
      using loaded_ok [OF ok, of files hash] assms(4) by (simp add: good_directory_def)
    ultimately show ?thesis using assms(2) by (simp add: loaded_def)
  qed
qed

section \<open>The end of a cycle\<close>

lemma update_all_timers_ok:
  assumes "vm_ok vm"
  shows "vm_ok (update_all_timers vm) \<and> run_frame vm (update_all_timers vm) \<and> reg (update_all_timers vm) = reg vm \<and>
    mem (update_all_timers vm) = mem vm \<and> time_ms (update_all_timers vm) = time_ms vm"
proof -
  have "vm_wf vm" using assms by (simp add: vm_ok_def)
  note eq = update_all_timers_map [OF this]
  have frame: "run_frame vm (update_all_timers vm)" "decoded_cache (update_all_timers vm) = decoded_cache vm"
    by (simp_all add: eq run_frame_def)
  have "vm_wf (update_all_timers vm)"
    using \<open>vm_wf vm\<close> by (simp add: eq) (simp add: vm_wf_def)
  from vm_okI [OF assms this frame] frame show ?thesis by (simp add: eq)
qed

lemma check_hashes_ok: "program_inside vm \<Longrightarrow> \<exists>evs. check_hashes vm h = Inr evs"
  by (simp add: check_hashes_def calculate_memory_hash_def mem_slice_def program_inside_def Let_def)

lemma elapsed_fault: "vm_get_elapsed_ms a b = Inl f \<Longrightarrow> f = Signed_Overflow" "clong n = Inl f \<Longrightarrow> f = Signed_Overflow"
  by (auto simp: vm_get_elapsed_ms_def clong_def res_simps split: if_splits)

definition keeps :: "vm_state \<Rightarrow> vm_state \<Rightarrow> bool" where
  "keeps vm vm' \<longleftrightarrow> config vm' = config vm \<and> modules vm' = modules vm \<and> PC_START vm' = PC_START vm \<and>
     program_dir vm' = program_dir vm \<and> reload_pending vm' = reload_pending vm \<and> cycle_count vm' = cycle_count vm \<and>
     (stop_requested vm \<longrightarrow> stop_requested vm')"

lemma end_of_cycle_ok:
  assumes "vm_ok (r_vm r)"
  shows "case end_of_cycle ce start r of
      Inl f \<Rightarrow> f = Signed_Overflow
    | Inr (vm', out) \<Rightarrow> vm_ok vm' \<and> keeps (r_vm r) vm' \<and> reg vm' = reg (r_vm r)"
proof -
  let ?e = "start + ucast (cycle_time_ms (config (r_vm r)))"
  let ?vm1 = "(if \<not> enable_tick_timing (config (r_vm r)) then if time_ms (r_vm r) < ?e then (r_vm r)\<lparr>time_ms := ?e\<rparr> else r_vm r else r_vm r)"
  let ?vm2 = "update_all_timers ?vm1"
  have vm1: "vm_ok ?vm1" "run_frame (r_vm r) ?vm1" "reg ?vm1 = reg (r_vm r)" using assms by simp_all
  from update_all_timers_ok [OF vm1(1)] have vm2: "vm_ok ?vm2" "run_frame (r_vm r) ?vm2" "reg ?vm2 = reg (r_vm r)"
    using run_frame_trans [OF vm1(2)] vm1(3) by simp_all
  define vm where "vm = ?vm2"
  note vm2 = vm2 [folded vm_def]
  let ?h = "calculate_registers_hash_ex (reg vm) REG_COUNT (hash_algo (config vm))"
  obtain alarms where alarms: "check_hashes vm ?h = Inr alarms"
    using check_hashes_ok vm2(1) by (auto simp: vm_ok_def)
  note eq = end_of_cycle_def [of ce start r, unfolded Let_def, folded vm_def, unfolded alarms bindR_simps]
  show ?thesis
  proof (cases "vm_get_elapsed_ms (ce_start ce) (ce_end ce)")
    case (Inl f)
    then show ?thesis using elapsed_fault by (simp add: eq)
  next
    case (Inr elapsed)
    show ?thesis
    proof (cases "clong (int (unat (cycle_time_ms (config vm))) - elapsed)")
      case (Inl f)
      then show ?thesis using Inr elapsed_fault by (simp add: eq)
    next
      case inr: (Inr remaining)
      show ?thesis
        using Inr inr vm2 by (simp add: eq keeps_def run_frame_def)
    qed
  qed
qed

section \<open>The loop\<close>

definition cycle_ok :: "cstr \<Rightarrow> u32 \<Rightarrow> cycle_env \<Rightarrow> bool" where
  "cycle_ok dir start ce \<longleftrightarrow> heap_ok (ce_heap ce) \<and> (\<forall>i k. env_ok (ce_instr ce i k)) \<and>
     (\<exists>files. good_directory (ce_fs ce) dir start files)"

lemma run_cycle_ok:
  assumes "vm_ok vm" "program_dir vm = Some dir" "cycle_ok dir (PC_START vm) ce"
  shows "case run_cycle ce vm out of
      Inl f \<Rightarrow> run_fault f
    | Inr (vm', out', go) \<Rightarrow> vm_ok vm' \<and> program_dir vm' = Some dir \<and> PC_START vm' = PC_START vm \<and>
        (modules vm \<noteq> None \<longrightarrow> modules vm' \<noteq> None) \<and> (stop_requested vm \<or> ce_stop ce \<longrightarrow> \<not> go) \<and>
        cycle_count vm' = cycle_count vm + 1"
proof -
  from assms(3) obtain files where env: "heap_ok (ce_heap ce)" "\<forall>i k. env_ok (ce_instr ce i k)"
    "good_directory (ce_fs ce) dir (PC_START vm) files" by (auto simp: cycle_ok_def)
  from reload_phase_ok [OF assms(1,2) env(1,3)] obtain vm1 where
    vm1: "reload_phase (ce_heap ce) (ce_fs ce) vm = Inr vm1" "vm_ok vm1" "program_dir vm1 = Some dir"
      "PC_START vm1 = PC_START vm" "modules vm \<noteq> None \<longrightarrow> modules vm1 \<noteq> None" "stop_requested vm1 = stop_requested vm"
      "cycle_count vm1 = cycle_count vm" by blast
  define vm2 where "vm2 = (if ce_stop ce then vm1\<lparr>stop_requested := True\<rparr> else vm1)\<lparr>cycle_count :=
     cycle_count (if ce_stop ce then vm1\<lparr>stop_requested := True\<rparr> else vm1) + 1\<rparr>"
  have vm2: "vm_ok vm2" "program_dir vm2 = Some dir" "PC_START vm2 = PC_START vm" "modules vm2 = modules vm1"
    "stop_requested vm2 \<longleftrightarrow> ce_stop ce \<or> stop_requested vm" "cycle_count vm2 = cycle_count vm + 1"
    using vm1 by (simp_all add: vm2_def)
  note eq = run_cycle_def [of ce vm out, unfolded vm1(1) bindR_simps Let_def, folded vm2_def]
  show ?thesis
  proof (cases "stop_requested vm2")
    case True
    then show ?thesis unfolding eq if_P [OF True] using vm2 vm1(5) by simp
  next
    case False
    let ?h = "calculate_registers_hash_ex (reg vm2) REG_COUNT (hash_algo (config vm2))"
    define vm3 where "vm3 = (if enable_hash_check (config vm2) \<and> cycle_count vm2 = 1 then vm2\<lparr>prev_cycle_hash := ?h\<rparr> else vm2)"
    have vm3: "vm_ok vm3" "program_dir vm3 = Some dir" "PC_START vm3 = PC_START vm" "modules vm3 = modules vm1"
      "cycle_count vm3 = cycle_count vm + 1"
      using vm2 by (simp_all add: vm3_def)
    let ?ms = "case modules vm3 of None \<Rightarrow> [] | Some ms \<Rightarrow> ms"
    let ?r = "\<lparr>r_vm = vm3, r_count = 0, r_total = 0, r_out = out\<rparr>"
    note eq2 = eq [unfolded if_not_P [OF False], folded vm3_def]
    have run: "case run_modules (ce_instr ce) 0 ?ms ?r of Inl f \<Rightarrow> run_fault f
        | Inr r' \<Rightarrow> vm_ok (r_vm r') \<and> run_frame vm3 (r_vm r')"
    proof (cases "modules vm3")
      case None
      then show ?thesis using vm3(1) by simp
    next
      case (Some ms)
      then show ?thesis using run_modules_ok [OF env(2), of ms ms ?r 0] vm3(1) by (simp split: sum.splits)
    qed
    show ?thesis
    proof (cases "run_modules (ce_instr ce) 0 ?ms ?r")
      case (Inl f)
      with run show ?thesis by (simp add: eq2)
    next
      case (Inr r)
      with run have r: "vm_ok (r_vm r)" "run_frame vm3 (r_vm r)" by simp_all
      note eq3 = eq2 [unfolded Inr bindR_simps]
      note fin = end_of_cycle_ok [OF r(1), of ce "time_ms vm2"]
      show ?thesis
      proof (cases "end_of_cycle ce (time_ms vm2) r")
        case (Inl f)
        with fin show ?thesis by (simp add: eq3 run_fault_def)
      next
        case fin2: (Inr x)
        obtain vm' out' where x: "x = (vm', out')" by force
        have "vm_ok vm'" "keeps (r_vm r) vm'" using fin by (simp_all add: fin2 x)
        with r(2) vm3 vm1(5) False vm2(5) show ?thesis
          by (simp add: eq3 fin2 x keeps_def run_frame_def)
      qed
    qed
  qed
qed

lemma run_cycles_ok:
  assumes "vm_ok vm" "program_dir vm = Some dir" "\<forall>ce \<in> set ces. cycle_ok dir (PC_START vm) ce"
  shows "case run_cycles ces vm out of
      Inl f \<Rightarrow> run_fault f
    | Inr (vm', out', go) \<Rightarrow> vm_ok vm' \<and> program_dir vm' = Some dir \<and> (modules vm \<noteq> None \<longrightarrow> modules vm' \<noteq> None) \<and>
        (go \<longrightarrow> \<not> (\<exists>ce \<in> set ces. ce_stop ce))"
  using assms
proof (induction ces arbitrary: vm out)
  case (Cons ce ces)
  have one: "case run_cycle ce vm out of
      Inl f \<Rightarrow> run_fault f
    | Inr (vm', out', go) \<Rightarrow> vm_ok vm' \<and> program_dir vm' = Some dir \<and> PC_START vm' = PC_START vm \<and>
        (modules vm \<noteq> None \<longrightarrow> modules vm' \<noteq> None) \<and> (stop_requested vm \<or> ce_stop ce \<longrightarrow> \<not> go) \<and>
        cycle_count vm' = cycle_count vm + 1"
    using Cons.prems by (intro run_cycle_ok) simp_all
  show ?case
  proof (cases "run_cycle ce vm out")
    case (Inl f)
    with one show ?thesis by simp
  next
    case (Inr x)
    obtain vm1 out1 go where x: "x = (vm1, out1, go)" by (cases x)
    from one have vm1: "vm_ok vm1" "program_dir vm1 = Some dir" "PC_START vm1 = PC_START vm" "modules vm \<noteq> None \<longrightarrow> modules vm1 \<noteq> None"
      "ce_stop ce \<longrightarrow> \<not> go"
      by (simp_all add: Inr x)
    show ?thesis
    proof (cases go)
      case False
      with vm1 show ?thesis by (simp add: Inr x)
    next
      case True
      with Cons.IH [OF vm1(1,2), of out1] Cons.prems(3) vm1 show ?thesis
        by (auto simp: Inr x split: sum.splits)
    qed
  qed
qed simp

lemma run_program_ok:
  assumes "vm_ok vm" "program_dir vm = Some dir" "\<forall>ce \<in> set ces. cycle_ok dir (PC_START vm) ce"
  shows "case run_program opened date tick now ces vm of
      Inl f \<Rightarrow> run_fault f
    | Inr (vm', out, go) \<Rightarrow> vm_ok vm' \<and> program_dir vm' = Some dir \<and> (modules vm \<noteq> None \<longrightarrow> modules vm' \<noteq> None) \<and>
        (go \<longrightarrow> \<not> (\<exists>ce \<in> set ces. ce_stop ce))"
proof -
  define vm1 where "vm1 = fst (init_logging opened date (vm_init_timer tick vm))"
  let ?vm = "vm1\<lparr>time_ms := ms_of_timespec now, config := (config vm1)\<lparr>hash_algo := HASH_CRC32\<rparr>\<rparr>"
  have wf: "vm_wf vm1" using assms(1) log_wf(1) by (simp add: vm1_def vm_ok_def vm_init_timer_def)
  have same: "program_dir vm1 = program_dir vm" "PC_START vm1 = PC_START vm" "modules vm1 = modules vm"
    "program_size vm1 = program_size vm" "decoded_cache vm1 = decoded_cache vm"
    by (simp_all add: vm1_def init_logging_def snapshot_def vm_init_timer_def)
  have ok: "vm_ok ?vm"
    using assms(1) wf same by (simp add: vm_ok_def cache_sane_def modules_inside_def program_inside_def)
  have eq: "run_program opened date tick now ces vm = bindR (run_cycles ces ?vm []) (\<lambda>(vm, out, go).
      if go then Inr (vm, out, True) else Inr (fst (close_logging vm), out, False))"
    by (simp add: run_program_def Let_def vm1_def)
  have close: "vm_ok (fst (close_logging v)) = vm_ok v" "program_dir (fst (close_logging v)) = program_dir v"
    "modules (fst (close_logging v)) = modules v" for v
    by (simp_all add: close_logging_def vm_ok_def cache_sane_def modules_inside_def program_inside_def)
  have "case run_cycles ces ?vm [] of Inl f \<Rightarrow> run_fault f
    | Inr (vm', out', go) \<Rightarrow> vm_ok vm' \<and> program_dir vm' = Some dir \<and> (modules ?vm \<noteq> None \<longrightarrow> modules vm' \<noteq> None) \<and>
        (go \<longrightarrow> \<not> (\<exists>ce \<in> set ces. ce_stop ce))"
    using assms(2,3) same by (intro run_cycles_ok [OF ok]) simp_all
  then show ?thesis
    by (cases "run_cycles ces ?vm []") (auto simp: eq same close)
qed

text \<open>
  C2 (safety).  The main loop over any number of cycles, with program directories that are
  readable but may change from cycle to cycle, any stop request and any readings of the clock:
  the machine keeps its invariant through all reloads and instructions and never loses its
  program; the only faults are those the handlers can end in and overflows of the
  time arithmetic.  No access ever leaves the memory, no assertion of the tables fires.
\<close>

theorem run_program_safe:
  assumes "vm_ok vm" "program_dir vm = Some dir" "\<forall>ce \<in> set ces. cycle_ok dir (PC_START vm) ce"
  shows "case run_program opened date tick now ces vm of
      Inl f \<Rightarrow> f \<in> {Bad_Conversion, Signed_Overflow, Overlapping_Copy}
    | Inr (vm', out, go) \<Rightarrow> vm_ok vm' \<and> program_dir vm' = Some dir \<and> (modules vm \<noteq> None \<longrightarrow> modules vm' \<noteq> None)"
  using run_program_ok [OF assms, of opened date tick now] by (simp add: run_fault_def split: sum.splits prod.splits)

section \<open>Stopping\<close>

text \<open>
  C22 (safety).  A stop request, by HALT, EXIT or a signal, ends the loop at the start of the next
  cycle: no further instruction is executed, whatever cycles would follow, the registered
  cleanups are run once, and only the reload of the directory still happens.
\<close>

theorem stop_ends_at_next_cycle:
  assumes "stop_requested vm \<or> ce_stop ce"
    and "vm_ok vm" "program_dir vm = Some dir" "heap_ok (ce_heap ce)" "good_directory (ce_fs ce) dir (PC_START vm) files"
  shows "\<exists>vm'. run_cycles (ce # ces) vm out = Inr (vm', out @ [Cleanups_Run], False) \<and>
    reg vm' = reg vm \<and> stop_requested vm' \<and> cycle_count vm' = cycle_count vm + 1"
proof -
  from reload_phase_ok [OF assms(2,3,4,5)] obtain vm1 where
    vm1: "reload_phase (ce_heap ce) (ce_fs ce) vm = Inr vm1" "reg vm1 = reg vm" "stop_requested vm1 = stop_requested vm"
      "cycle_count vm1 = cycle_count vm" by blast
  then show ?thesis using assms(1) by (auto simp: run_cycle_def Let_def)
qed

section \<open>Checksum alarms\<close>

lemma end_of_cycle_alarm:
  assumes "end_of_cycle ce start r = Inr (vm', out)" "enable_hash_check (config (r_vm r))" "1 < cycle_count (r_vm r)"
    and "vm_ok (r_vm r)"
  shows "calculate_registers_hash_ex (reg (r_vm r)) REG_COUNT (hash_algo (config (r_vm r))) = prev_cycle_hash (r_vm r) \<or>
    (\<exists>a b c. Hash_Mismatch a b c \<in> set out)"
proof -
  let ?e = "start + ucast (cycle_time_ms (config (r_vm r)))"
  let ?vm1 = "(if \<not> enable_tick_timing (config (r_vm r)) then if time_ms (r_vm r) < ?e then (r_vm r)\<lparr>time_ms := ?e\<rparr> else r_vm r else r_vm r)"
  define vm where "vm = update_all_timers ?vm1"
  have vm1: "vm_ok ?vm1" "run_frame (r_vm r) ?vm1" "reg ?vm1 = reg (r_vm r)" using assms(4) by simp_all
  from update_all_timers_ok [OF vm1(1)] have vm: "run_frame (r_vm r) vm" "reg vm = reg (r_vm r)"
    using run_frame_trans [OF vm1(2)] vm1(3) by (simp_all add: vm_def)
  note eq = end_of_cycle_def [of ce start r, unfolded Let_def, folded vm_def]
  let ?h = "calculate_registers_hash_ex (reg vm) REG_COUNT (hash_algo (config vm))"
  from assms(1) obtain alarms where alarms: "check_hashes vm ?h = Inr alarms"
    unfolding eq by (cases "check_hashes vm ?h") simp_all
  from assms(1) have "set alarms \<subseteq> set out"
    unfolding eq alarms bindR_simps by (auto simp: res_simps split: if_splits)
  moreover have "?h = prev_cycle_hash vm \<or> Hash_Mismatch (cycle_count vm) (prev_cycle_hash vm) ?h \<in> set alarms"
    using alarms assms(2,3) vm(1)
    by (auto simp: check_hashes_def res_simps run_frame_def Let_def)
  ultimately show ?thesis using vm by (auto simp: run_frame_def)
qed

lemma run_cycle_goes_on:
  assumes "run_cycle ce vm out = Inr (vm', out', True)" "vm_ok vm" "program_dir vm = Some dir" "cycle_ok dir (PC_START vm) ce"
  shows "\<exists>start r. end_of_cycle ce start r = Inr (vm', out') \<and> vm_ok (r_vm r) \<and> config (r_vm r) = config vm \<and>
    cycle_count (r_vm r) = cycle_count vm + 1 \<and>
    (cycle_count vm \<noteq> 0xFFFFFFFF \<longrightarrow> cycle_count vm \<noteq> 0 \<longrightarrow> prev_cycle_hash (r_vm r) = prev_cycle_hash vm)"
proof -
  from assms(4) obtain files where env: "heap_ok (ce_heap ce)" "\<forall>i k. env_ok (ce_instr ce i k)"
    "good_directory (ce_fs ce) dir (PC_START vm) files" by (auto simp: cycle_ok_def)
  from reload_phase_ok [OF assms(2,3) env(1,3)] obtain vm1 where
    vm1: "reload_phase (ce_heap ce) (ce_fs ce) vm = Inr vm1" "vm_ok vm1" "cycle_count vm1 = cycle_count vm"
      "config vm1 = config vm" "prev_cycle_hash vm1 = prev_cycle_hash vm" by blast
  define vm2 where "vm2 = (if ce_stop ce then vm1\<lparr>stop_requested := True\<rparr> else vm1)\<lparr>cycle_count :=
     cycle_count (if ce_stop ce then vm1\<lparr>stop_requested := True\<rparr> else vm1) + 1\<rparr>"
  have vm2: "vm_ok vm2" "cycle_count vm2 = cycle_count vm + 1" "config vm2 = config vm" "prev_cycle_hash vm2 = prev_cycle_hash vm"
    using vm1 by (simp_all add: vm2_def)
  note eq = assms(1) [unfolded run_cycle_def vm1(1) bindR_simps Let_def, folded vm2_def]
  from eq have nostop: "\<not> stop_requested vm2" by (auto split: if_splits)
  let ?h = "calculate_registers_hash_ex (reg vm2) REG_COUNT (hash_algo (config vm2))"
  define vm3 where "vm3 = (if enable_hash_check (config vm2) \<and> cycle_count vm2 = 1 then vm2\<lparr>prev_cycle_hash := ?h\<rparr> else vm2)"
  have "cycle_count vm \<noteq> 0 \<Longrightarrow> cycle_count vm2 \<noteq> 1" using vm2(2) by simp
  then have vm3: "vm_ok vm3" "cycle_count vm3 = cycle_count vm + 1" "config vm3 = config vm"
    "cycle_count vm \<noteq> 0 \<Longrightarrow> prev_cycle_hash vm3 = prev_cycle_hash vm"
    using vm2 by (auto simp: vm3_def)
  note eq2 = eq [unfolded if_not_P [OF nostop], folded vm3_def]
  let ?ms = "case modules vm3 of None \<Rightarrow> [] | Some ms \<Rightarrow> ms"
  let ?r = "\<lparr>r_vm = vm3, r_count = 0, r_total = 0, r_out = out\<rparr>"
  from eq2 obtain r where run: "run_modules (ce_instr ce) 0 ?ms ?r = Inr r"
    by (cases "run_modules (ce_instr ce) 0 ?ms ?r") simp_all
  have r: "vm_ok (r_vm r) \<and> run_frame vm3 (r_vm r)"
  proof (cases "modules vm3")
    case None
    with run vm3(1) show ?thesis by auto
  next
    case (Some ms)
    with run_modules_ok [OF env(2), of ms ms ?r 0] run vm3(1) show ?thesis by simp
  qed
  from eq2 have "end_of_cycle ce (time_ms vm2) r = Inr (vm', out')"
    unfolding run bindR_simps by (cases "end_of_cycle ce (time_ms vm2) r") auto
  with r vm3 show ?thesis by (intro exI [of _ "time_ms vm2"] exI [of _ r]) (auto simp: run_frame_def)
qed

text \<open>
  C40 (functional).  The register check reports ordinary computation: \<open>prev_cycle_hash\<close> is compared
  with the registers after the modules ran, not before, so from the second cycle on every cycle
  that changes a single register raises the mismatch alarm, although nothing was corrupted
  between the cycles.
\<close>

theorem register_change_raises_alarm:
  assumes "run_cycle ce vm out = Inr (vm', out', True)" "vm_ok vm" "program_dir vm = Some dir" "cycle_ok dir (PC_START vm) ce"
    and "enable_hash_check (config vm)" "hash_algo (config vm) = HASH_CRC32"
    and "0 < cycle_count vm" "cycle_count vm < 0xFFFFFFFF"
    and "prev_cycle_hash vm = calculate_registers_hash_ex (reg vm) REG_COUNT HASH_CRC32"
    and "reg vm' = (reg vm)(k := v)" "v \<noteq> reg vm k"
  shows "\<exists>a b c. Hash_Mismatch a b c \<in> set out'"
proof -
  from run_cycle_goes_on [OF assms(1-4)] obtain start r where
    r: "end_of_cycle ce start r = Inr (vm', out')" "vm_ok (r_vm r)" "config (r_vm r) = config vm"
      "cycle_count (r_vm r) = cycle_count vm + 1" "prev_cycle_hash (r_vm r) = prev_cycle_hash vm"
    using assms(7,8) by auto
  have regs: "reg (r_vm r) = (reg vm)(k := v)"
    using end_of_cycle_ok [OF r(2), of ce start] r(1) assms(10) by simp
  have "unat (cycle_count vm + 1) = unat (cycle_count vm) + 1"
    using assms(8) by (simp add: unat_word_ariths word_less_nat_alt)
  then have "1 < cycle_count (r_vm r)" using assms(7) r(4) by (simp add: word_less_nat_alt)
  with end_of_cycle_alarm [OF r(1)] r(2,3) assms(5) have
    "calculate_registers_hash_ex (reg (r_vm r)) REG_COUNT HASH_CRC32 = prev_cycle_hash vm \<or> (\<exists>a b c. Hash_Mismatch a b c \<in> set out')"
    using r(5) assms(6) by simp
  moreover have "calculate_registers_hash_ex (reg (r_vm r)) REG_COUNT HASH_CRC32 \<noteq> prev_cycle_hash vm"
    using registers_hash_detects [of vm k v "reg vm k"] assms(9,11)
    by (simp add: regs vm_calculate_registers_hash_def calculate_registers_hash_ex_def hash_buffer_def)
  ultimately show ?thesis by blast
qed

end
