(* ===== verification/Control.thy ===== *)
theory Control
  imports Cycles
begin

text \<open>
  How control flows through a module and how time passes: the step of the machine on a current
  decode cache, jumps, the decode cache after a reload, the virtual clock.  At the end, one whole
  cycle of a machine with a one-instruction program is computed.
\<close>

section \<open>A step with a current cache\<close>

lemma run_instruction_execute:
  assumes "\<not> outside m module_end (r_vm r)" "unat (PC (r_vm r)) + 4 \<le> VM_MEM_BYTES"
    and "word_at (mem (r_vm r)) (unat (PC (r_vm r))) = w" "w \<noteq> 0"
    and "vm_decode_instruction (ie_calloc e) (ie_malloc e) (r_vm r) (PC (r_vm r)) = Inr (vm1, Some d)"
    and "handler_of vm1 w = Some h"
  shows "vm_run_instruction e m module_end r = bindR (execute e h vm1 w d)
     (\<lambda>vm. Inr (r\<lparr>r_vm := vm, r_count := r_count r + 1, r_total := r_total r + 1\<rparr>, 0))"
proof -
  have fetch: "vm_mr32 (r_vm r) (PC (r_vm r)) = Inr w" using vm_mr32_ok [OF assms(2)] assms(3) by simp
  show ?thesis
    unfolding vm_run_instruction_def Let_def if_not_P [OF assms(1)] fetch bindR_simps if_not_P [OF assms(4)]
      assms(5) prod.case option.case assms(6) ..
qed

lemma run_instruction_step:
  assumes "\<not> outside m module_end (r_vm r)" "unat (PC (r_vm r)) + 4 \<le> VM_MEM_BYTES"
    and "word_at (mem (r_vm r)) (unat (PC (r_vm r))) = w" "w \<noteq> 0"
    and "cache_current (r_vm r)" "cache_room (r_vm r)" "env_ok e" "ie_malloc e"
    and "handler_of (r_vm r) w = Some h"
  shows "\<exists>c. cache_current ((r_vm r)\<lparr>decoded_cache := c\<rparr>) \<and>
    vm_run_instruction e m module_end r = bindR (execute e h ((r_vm r)\<lparr>decoded_cache := c\<rparr>) w (decode w))
     (\<lambda>vm. Inr (r\<lparr>r_vm := vm, r_count := r_count r + 1, r_total := r_total r + 1\<rparr>, 0))"
proof -
  from decode_current [of "r_vm r" "ie_calloc e" "PC (r_vm r)"] assms(2,3,5-8) obtain c where
    c: "vm_decode_instruction (ie_calloc e) (ie_malloc e) (r_vm r) (PC (r_vm r)) =
        Inr ((r_vm r)\<lparr>decoded_cache := c\<rparr>, Some (decode w))"
      "cache_current ((r_vm r)\<lparr>decoded_cache := c\<rparr>)"
    by (auto simp: env_ok_def)
  have "op_ex ((r_vm r)\<lparr>decoded_cache := c\<rparr>) = op_ex (r_vm r)" by simp
  then have h: "handler_of ((r_vm r)\<lparr>decoded_cache := c\<rparr>) w = Some h" using assms(9) by (simp only:)
  from run_instruction_execute [OF assms(1-4) c(1) h] c(2) show ?thesis by blast
qed

section \<open>Jumps\<close>

lemma SEXTIMM8_range: "unat (SEXTIMM8 i) < 128 \<or> 4294967168 \<le> unat (SEXTIMM8 i)"
proof -
  have "- 128 \<le> sint (ucast i :: u8)" "sint (ucast i :: u8) < 128"
    using sint_greater_eq [of "ucast i :: u8"] sint_less [of "ucast i :: u8"] by simp_all
  then have s: "- 128 \<le> sint (SEXTIMM8 i)" "sint (SEXTIMM8 i) < 128" by (simp_all add: sint_SEXTIMM8)
  have "uint (SEXTIMM8 i) = sint (SEXTIMM8 i) mod 4294967296"
    using uint_sint [of "SEXTIMM8 i"] by (simp add: take_bit_eq_mod)
  moreover have "sint (SEXTIMM8 i) mod 4294967296 = sint (SEXTIMM8 i) + 4294967296" if "sint (SEXTIMM8 i) < 0"
    using mod_pos_pos_trivial [of "sint (SEXTIMM8 i) + 4294967296" 4294967296] that s by simp
  ultimately have "uint (SEXTIMM8 i) < 128 \<or> 4294967168 \<le> uint (SEXTIMM8 i)"
    using s by (cases "sint (SEXTIMM8 i) < 0") auto
  moreover have "uint (SEXTIMM8 i) = int (unat (SEXTIMM8 i))" by simp
  ultimately show ?thesis by linarith
qed

lemma execute_jmp:
  assumes "execute e OP_JMP vm instr d = Inr vm'"
  shows "PC vm' = (if jump_target vm (raw_instr d) = PC vm then PC vm + 4 else jump_target vm (raw_instr d)) \<and>
    reg vm' = reg vm \<and> mem vm' = mem vm \<and> run_frame vm vm'"
  using execute_Inr [OF assms]
  by (auto simp: op_jmp_def jump_target_def Bv_def log_before_frame)

text \<open>
  C25 (functional).  A jump from inside a module: with a register target the program counter
  becomes the target, except that a jump to itself falls through to the next instruction.  An
  immediate target is an absolute address between -128 and 127, not an offset; for a module that
  starts at address 128 or later it always leads out of the module, so the jump ends the module.
\<close>

theorem jmp_next_instruction:
  assumes "execute e OP_JMP vm instr (decode i) = Inr vm'" "\<not> outside m (mod_addr m + mod_size m) vm"
    and "module_inside m" "128 \<le> mod_addr m"
  shows "if FIMM i then PC vm' = SEXTIMM8 i \<and> outside m (mod_addr m + mod_size m) vm'
    else PC vm' = (if Bv vm i = PC vm then PC vm + 4 else Bv vm i)"
proof (cases "FIMM i")
  case True
  have fin: "unat (mod_addr m + mod_size m) \<le> 67108864"
    using assms(3) by (simp add: module_inside_def unat_word_ariths)
  have out: "SEXTIMM8 i < mod_addr m \<or> mod_addr m + mod_size m \<le> SEXTIMM8 i"
    using SEXTIMM8_range [of i] fin assms(4) by (auto simp: word_less_nat_alt word_le_nat_alt)
  then have "SEXTIMM8 i \<noteq> PC vm" using assms(2) by auto
  with True out execute_jmp [OF assms(1)] show ?thesis
    by (auto simp: jump_target_def decode_def)
next
  case False
  with execute_jmp [OF assms(1)] show ?thesis by (simp add: jump_target_def decode_def)
qed

section \<open>The decode cache after a reload\<close>

lemma apply_reload_cache: "apply_pending_reload h fs vm = Inr vm' \<Longrightarrow> decoded_cache vm' = decoded_cache vm \<and> op_ex vm' = op_ex vm"
proof (cases "program_dir vm")
  case None
  then show "apply_pending_reload h fs vm = Inr vm' \<Longrightarrow> ?thesis" by (simp add: apply_pending_reload_def)
next
  case (Some dir)
  assume a: "apply_pending_reload h fs vm = Inr vm'"
  show ?thesis
  proof (cases "reload_pending vm")
    case False
    with a Some show ?thesis by (auto simp: apply_pending_reload_def)
  next
    case True
    with a Some obtain vm1 rc where
      load: "reload_programs_from_directory h fs (vm\<lparr>reload_pending := False\<rparr>) dir = Inr (vm1, rc)" and
      vm': "vm' = (if rc \<noteq> 0 then vm1\<lparr>reload_pending := True\<rparr> else vm1)"
      by (auto simp: apply_pending_reload_def Let_def res_simps split: if_splits)
    from reload_outcome(1) [OF load] have "load_frame (vm\<lparr>reload_pending := False\<rparr>) vm1" .
    from load_frame_fields [OF this] vm' show ?thesis by simp
  qed
qed

lemma reload_phase_cache:
  assumes "reload_phase h fs vm = Inr vm'"
  shows "decoded_cache vm' = decoded_cache vm \<and> op_ex vm' = op_ex vm"
proof (cases "program_dir vm")
  case None
  with assms show ?thesis by (auto simp: reload_phase_def apply_pending_reload_def)
next
  case (Some dir)
  then obtain sig pending where
    "reload_phase h fs vm = apply_pending_reload h fs (vm\<lparr>program_dir_signature := sig, reload_pending := pending\<rparr>)"
    by (rule reload_phase_cases [where h = h and fs = fs]) blast
  with assms apply_reload_cache show ?thesis by fastforce
qed

text \<open>
  C23 (error).  A hot reload does not invalidate the decode cache.  At an address that was decoded
  before the reload, the runtime takes the handler of the new instruction but runs it on the
  operands of the old one.
\<close>

theorem reload_runs_stale_operands:
  assumes "reload_phase hp fs vm0 = Inr vm" "decoded_cache vm0 = Some t" "ht_inv t"
    and "ht_map t pc = Some (decode old)"
    and "r_vm r = vm\<lparr>PC := pc, running := True\<rparr>" "\<not> outside m module_end (r_vm r)"
    and "unat pc + 4 \<le> VM_MEM_BYTES" "word_at (mem vm) (unat pc) = new" "new \<noteq> 0"
    and "handler_of vm0 new = Some h" "vm_run_instruction e m module_end r = Inr (r', rc)"
  shows "rc = 0 \<and> (\<exists>vm'. exec_op (ie_op e) h (fst (log_before (r_vm r) pc new)) old = Inr vm' \<and>
    reg (r_vm r') = reg vm' \<and> mem (r_vm r') = mem vm')"
proof -
  have kept: "decoded_cache (r_vm r) = Some t" "op_ex (r_vm r) = op_ex vm0"
    using reload_phase_cache [OF assms(1)] assms(2,5) by simp_all
  have pc: "PC (r_vm r) = pc" "mem (r_vm r) = mem vm" using assms(5) by simp_all
  have dec: "vm_decode_instruction (ie_calloc e) (ie_malloc e) (r_vm r) (PC (r_vm r)) = Inr (r_vm r, Some (decode old))"
    using hash_table_lookup_map [OF assms(3)] assms(4) kept(1)
    by (simp add: vm_decode_instruction_def decode_instruction_cached_def pc)
  have h: "handler_of (r_vm r) new = Some h" using assms(10) kept(2) by (simp only:)
  have w: "unat (PC (r_vm r)) + 4 \<le> VM_MEM_BYTES" "word_at (mem (r_vm r)) (unat (PC (r_vm r))) = new"
    using assms(7,8) pc by simp_all
  from assms(11) obtain vm2 where x: "execute e h (r_vm r) new (decode old) = Inr vm2"
      "r' = r\<lparr>r_vm := vm2, r_count := r_count r + 1, r_total := r_total r + 1\<rparr>" "rc = 0"
    unfolding run_instruction_execute [OF assms(6) w assms(9) dec h]
    by (cases "execute e h (r_vm r) new (decode old)") auto
  from execute_Inr [OF x(1)] x(2,3) pc(1) show ?thesis by (auto simp: decode_def)
qed

section \<open>The virtual clock\<close>

text \<open>Without tick timing the time is virtual: nanoseconds are collected until they fill a
  millisecond.\<close>

definition virtual_ns :: "vm_state \<Rightarrow> nat" where
  "virtual_ns vm = unat (time_ms vm) * 1000000 + unat (instr_ns_accum vm)"

definition virtual_time :: "vm_state \<Rightarrow> bool" where
  "virtual_time vm \<longleftrightarrow> \<not> enable_tick_timing (config vm) \<and> clock_rate_hz (config vm) \<noteq> 0"

lemma virtual_step:
  assumes "virtual_time vm" "unat (instr_ns_accum vm) < 1000000" "unat (time_ms vm) + 1001 < 2 ^ 64"
  shows "virtual_ns (vm_update_time_after_instruction now vm) = virtual_ns vm + 1000000000 div unat (clock_rate_hz (config vm)) \<and>
    unat (instr_ns_accum (vm_update_time_after_instruction now vm)) < 1000000 \<and>
    unat (time_ms (vm_update_time_after_instruction now vm)) \<le> unat (time_ms vm) + 1001 \<and>
    config (vm_update_time_after_instruction now vm) = config vm"
proof -
  let ?s = "1000000000 div (ucast (clock_rate_hz (config vm)) :: u64)"
  define a where "a = instr_ns_accum vm + ?s"
  have rate: "unat (ucast (clock_rate_hz (config vm)) :: u64) = unat (clock_rate_hz (config vm))"
    using unat_u32_less [of "clock_rate_hz (config vm)"] by (simp add: unsigned_ucast_eq take_bit_nat_eq_self)
  have s: "unat ?s = 1000000000 div unat (clock_rate_hz (config vm))" by (simp add: unat_div rate)
  then have s_le: "unat ?s \<le> 1000000000" by (simp add: div_le_dividend)
  have a: "unat a = unat (instr_ns_accum vm) + unat ?s"
    using s_le assms(2) by (simp add: a_def unat_word_ariths)
  have q: "unat (a div 1000000) = unat a div 1000000" by (simp add: unat_div)
  have q_le: "unat a div 1000000 \<le> 1001" using a s_le assms(2) by simp
  have t: "unat (time_ms vm + a div 1000000) = unat (time_ms vm) + unat a div 1000000"
    using q q_le assms(3) by (simp add: unat_word_ariths)
  have r: "unat (a - a div 1000000 * 1000000) = unat a mod 1000000"
    by (simp add: minus_div_mult_eq_mod unat_mod)
  have nz: "a div 1000000 \<noteq> 0 \<longleftrightarrow> unat a div 1000000 \<noteq> 0" using q by (simp add: word_unat_eq_iff)
  have up: "vm_update_time_after_instruction now vm = (if a div 1000000 \<noteq> 0
      then vm\<lparr>instr_ns_accum := a - a div 1000000 * 1000000, time_ms := time_ms vm + a div 1000000\<rparr>
      else vm\<lparr>instr_ns_accum := a\<rparr>)"
    using assms(1) by (simp add: vm_update_time_after_instruction_def virtual_time_def Let_def a_def)
  show ?thesis
  proof (cases "unat a div 1000000 = 0")
    case True
    then have "unat a < 1000000" by (simp add: div_eq_0_iff)
    with True nz a s show ?thesis by (simp add: up virtual_ns_def)
  next
    case False
    have "unat a div 1000000 * 1000000 + unat a mod 1000000 = unat a" by simp
    with False nz t r a s q_le show ?thesis by (simp add: up virtual_ns_def algebra_simps)
  qed
qed

text \<open>
  C24 (bounds).  The virtual clock loses nothing: after any number of instructions it has advanced
  by exactly that many times the nanoseconds of one instruction at the configured rate, the rest
  that does not fill a millisecond being kept in the accumulator.
\<close>

theorem virtual_time_exact:
  assumes "virtual_time vm" "unat (instr_ns_accum vm) < 1000000" "unat (time_ms vm) + 1001 * n < 2 ^ 64"
  shows "virtual_ns ((vm_update_time_after_instruction now ^^ n) vm) =
      virtual_ns vm + n * (1000000000 div unat (clock_rate_hz (config vm))) \<and>
    unat (instr_ns_accum ((vm_update_time_after_instruction now ^^ n) vm)) < 1000000"
proof -
  let ?f = "vm_update_time_after_instruction now"
  have "virtual_ns ((?f ^^ n) vm) = virtual_ns vm + n * (1000000000 div unat (clock_rate_hz (config vm))) \<and>
    unat (instr_ns_accum ((?f ^^ n) vm)) < 1000000 \<and> unat (time_ms ((?f ^^ n) vm)) \<le> unat (time_ms vm) + 1001 * n \<and>
    config ((?f ^^ n) vm) = config vm"
    using assms(3)
  proof (induction n)
    case 0
    then show ?case using assms(2) by simp
  next
    case (Suc n)
    then have ih: "virtual_ns ((?f ^^ n) vm) = virtual_ns vm + n * (1000000000 div unat (clock_rate_hz (config vm)))"
      "unat (instr_ns_accum ((?f ^^ n) vm)) < 1000000" "unat (time_ms ((?f ^^ n) vm)) \<le> unat (time_ms vm) + 1001 * n"
      "config ((?f ^^ n) vm) = config vm" by simp_all
    have "virtual_time ((?f ^^ n) vm)" using assms(1) ih(4) by (simp add: virtual_time_def)
    from virtual_step [OF this ih(2), of now] ih Suc.prems show ?case by (simp add: algebra_simps)
  qed
  then show ?thesis by blast
qed

section \<open>A machine at work\<close>

text \<open>A machine with the four bytes 01 02 03 04 as its program, which are \<open>MUL R1, R129, R1\<close>, and the
  directory \<open>sample_dir\<close>, whose first program is the same.\<close>

definition sample_module :: module_info where
  "sample_module = \<lparr>mod_name = [], mod_addr = 0x3000, mod_size = 4\<rparr>"

definition sample_vm :: vm_state where
  "sample_vm = vm_zero\<lparr>op_ex := map Some default_op_ex @ replicate 60 None,
     config := \<lparr>clock_rate_hz = 100, cycle_time_ms = 1000, enable_cycle_check = True, enable_hash_check = True,
       enable_tick_timing = False, hash_algo = HASH_CRC32\<rparr>,
     PC_START := 0x3000, program_dir := Some [112], modules := Some [sample_module],
     mem := write_bytes (\<lambda>_. 0) 0x3000 [1, 2, 3, 4], decoded_cache := Some empty_cache,
     reg := (\<lambda>_. 0)(1 := 2, 129 := 3, 5 := 5, 6 := 7), cycle_count := 1,
     prev_cycle_hash := calculate_registers_hash_ex ((\<lambda>_. 0)(1 := 2, 129 := 3, 5 := 5, 6 := 7)) REG_COUNT HASH_CRC32\<rparr>"

definition sample_instr_env :: instr_env where
  "sample_instr_env = \<lparr>ie_op = sample_env, ie_calloc = \<lambda>_. True, ie_malloc = True,
     ie_t0 = zero_timespec, ie_t1 = zero_timespec, ie_t2 = zero_timespec, ie_t3 = zero_timespec,
     ie_tick = zero_timespec, ie_tock = zero_timespec, ie_now = zero_timespec\<rparr>"

definition sample_cycle :: cycle_env where
  "sample_cycle = \<lparr>ce_heap = sample_heap, ce_fs = sample_dir, ce_stop = False, ce_start = zero_timespec,
     ce_end = zero_timespec, ce_exec_end = zero_timespec, ce_instr = \<lambda>_ _. sample_instr_env\<rparr>"

lemma sample_word: "of_le32 1 2 3 4 = 0x04030201"
  by (simp add: of_le32_def)

lemma sample_fields: "OPC 0x04030201 = 2" "RA 0x04030201 = 1" "RB 0x04030201 = 129" "RC 0x04030201 = 1" "\<not> FIMM 0x04030201"
  by (simp_all add: OPC_def RA_def RB_def RC_def FIMM_def)

lemma sample_handler: "(map Some default_op_ex @ replicate 60 None) ! 2 = Some OP_MUL"
  by (simp add: default_op_ex_def)

lemma sample_vm_ok: "vm_ok sample_vm"
proof -
  have "length (map Some default_op_ex @ replicate 60 None) = OPCODE_COUNT" by (simp add: default_op_ex_def)
  then have "vm_wf sample_vm"
    unfolding sample_vm_def by (simp add: wf_intros)
  then show ?thesis
    using empty_cache_ok
    by (simp add: vm_ok_def cache_sane_def modules_inside_def program_inside_def sample_vm_def sample_module_def)
      (simp add: vm_zero_def)
qed

lemma sample_cycle_ok: "cycle_ok [112] 0x3000 sample_cycle"
  using sample_heap_ok sample_good by (auto simp: cycle_ok_def sample_cycle_def sample_instr_env_def env_ok_def)

lemma sample_env_ok: "env_ok sample_instr_env" "ie_malloc sample_instr_env"
  by (simp_all add: env_ok_def sample_instr_env_def)

lemma execute_plain:
  assumes "exec_op (ie_op e) h vm (raw_instr d) = Inr vm1" "\<not> logging vm" "PC vm1 = PC vm"
    and "\<not> enable_tick_timing (config vm1)"
  shows "\<exists>t n. execute e h vm w d = Inr (vm1\<lparr>PC := PC vm + 4, perf := add_perf e (perf vm1), time_ms := t, instr_ns_accum := n\<rparr>)"
proof -
  let ?vm = "vm1\<lparr>PC := PC vm + 4, perf := add_perf e (perf vm1)\<rparr>"
  obtain t n where u: "vm_update_time_after_instruction (ie_now e) ?vm = ?vm\<lparr>time_ms := t, instr_ns_accum := n\<rparr>"
    using update_time_frame by blast
  have "execute e h vm w d = Inr (vm_update_time_after_instruction (ie_now e) ?vm)"
    using assms by (simp add: execute_def fst_log_before vm_wait_for_tick_def Let_def)
  then show ?thesis unfolding u by blast
qed

text \<open>The run of the one module: one multiplication.\<close>

definition sample_done :: "vm_state \<Rightarrow> (u32, decoded_instr) hash_table option \<Rightarrow> u64 \<Rightarrow> u64 \<Rightarrow> vm_state" where
  "sample_done vm c t n = vm\<lparr>running := True, PC := 0x3000, decoded_cache := c, reg := (reg vm)(1 := reg vm 129 * reg vm 1),
     PC := 0x3004, perf := add_perf sample_instr_env (perf vm), time_ms := t, instr_ns_accum := n\<rparr>"

lemma sample_instruction:
  assumes "cache_current vm" "cache_room vm" "mem vm = write_bytes (\<lambda>_. 0) 0x3000 [1, 2, 3, 4]"
    and "op_ex vm = map Some default_op_ex @ replicate 60 None" "\<not> logging vm" "\<not> enable_tick_timing (config vm)"
  shows "\<exists>c t n. vm_run_instruction sample_instr_env sample_module 0x3004
      \<lparr>r_vm = vm\<lparr>running := True, PC := 0x3000\<rparr>, r_count = 0, r_total = 0, r_out = out\<rparr> =
    Inr (\<lparr>r_vm = sample_done vm c t n, r_count = 1, r_total = 1, r_out = out\<rparr>, 0)"
proof -
  let ?e = "sample_instr_env" and ?m = "sample_module"
  let ?vm = "vm\<lparr>running := True, PC := 0x3000\<rparr>"
  let ?r = "\<lparr>r_vm = ?vm, r_count = 0, r_total = 0, r_out = out\<rparr>"
  have word: "word_at (mem ?vm) 0x3000 = 0x04030201"
    using assms(3) sample_word by (simp add: word_at_def write_bytes_def)
  have cur: "cache_current ?vm" "cache_room ?vm" using assms(1,2) by (simp_all add: cache_current_def cache_room_def)
  have h: "handler_of (r_vm ?r) 0x04030201 = Some OP_MUL"
    using sample_handler by (simp add: sample_fields assms(4))
  have inside: "\<not> outside ?m 0x3004 (r_vm ?r)" "unat (PC (r_vm ?r)) + 4 \<le> VM_MEM_BYTES"
    "word_at (mem (r_vm ?r)) (unat (PC (r_vm ?r))) = 0x04030201" "cache_current (r_vm ?r)" "cache_room (r_vm ?r)"
    using word cur by (simp_all add: sample_module_def)
  note step = run_instruction_step [OF inside(1-3) _ inside(4,5) sample_env_ok h]
  obtain c where step: "vm_run_instruction ?e ?m 0x3004 ?r = bindR (execute ?e OP_MUL (?vm\<lparr>decoded_cache := c\<rparr>) 0x04030201 (decode 0x04030201))
     (\<lambda>vm. Inr (?r\<lparr>r_vm := vm, r_count := 1, r_total := 1\<rparr>, 0))"
    using step by (auto simp: sample_module_def)
  let ?vm1 = "?vm\<lparr>decoded_cache := c\<rparr>"
  have op: "exec_op (ie_op ?e) OP_MUL ?vm1 (raw_instr (decode 0x04030201)) = Inr (?vm1\<lparr>reg := (reg vm)(1 := reg vm 129 * reg vm 1)\<rparr>)"
    by (simp add: op_mul_def SetA_val_def Bv_def Cv_or_imm_def decode_def sample_fields)
  obtain t n where "execute ?e OP_MUL ?vm1 0x04030201 (decode 0x04030201) = Inr (?vm1\<lparr>reg := (reg vm)(1 := reg vm 129 * reg vm 1),
      PC := 0x3004, perf := add_perf ?e (perf vm), time_ms := t, instr_ns_accum := n\<rparr>)"
    using execute_plain [OF op, of "0x04030201"] assms(5,6) by (auto simp: logging_def)
  with step show ?thesis by (auto simp: sample_done_def)
qed

lemma sample_module_end:
  "vm_run_instruction sample_instr_env sample_module 0x3004 \<lparr>r_vm = sample_done vm c t n, r_count = k, r_total = l, r_out = out\<rparr> =
     Inr (\<lparr>r_vm = sample_done vm c t n, r_count = k, r_total = l, r_out = out\<rparr>, 1)"
  by (simp add: vm_run_instruction_def sample_done_def)

lemma sample_module_run:
  assumes "cache_current vm" "cache_room vm" "mem vm = write_bytes (\<lambda>_. 0) 0x3000 [1, 2, 3, 4]"
    and "op_ex vm = map Some default_op_ex @ replicate 60 None" "\<not> logging vm" "\<not> enable_tick_timing (config vm)"
    and "modules vm = Some [sample_module]"
  shows "\<exists>r. vm_run_module (\<lambda>_. sample_instr_env) sample_module \<lparr>r_vm = vm, r_count = 0, r_total = 0, r_out = out\<rparr> = Inr r \<and>
    reg (r_vm r) = (reg vm)(1 := reg vm 129 * reg vm 1)"
proof -
  let ?r = "\<lparr>r_vm = vm\<lparr>running := True, PC := 0x3000\<rparr>, r_count = 0, r_total = 0, r_out = out\<rparr>"
  obtain c t n where step: "vm_run_instruction sample_instr_env sample_module 0x3004 ?r =
      Inr (\<lparr>r_vm = sample_done vm c t n, r_count = 1, r_total = 1, r_out = out\<rparr>, 0)"
    using sample_instruction [OF assms(1-6)] by blast
  let ?r2 = "\<lparr>r_vm = sample_done vm c t n, r_count = 1, r_total = 1, r_out = out\<rparr>"
  have "run_loop (\<lambda>_. sample_instr_env) sample_module 0x3004 ?r = run_loop (\<lambda>_. sample_instr_env) sample_module 0x3004 ?r2"
    by (subst run_loop.simps) (simp add: step MAX_INSTRUCTIONS_def)
  moreover have "run_loop (\<lambda>_. sample_instr_env) sample_module 0x3004 ?r2 = Inr ?r2"
    by (subst run_loop.simps) (simp add: sample_module_end MAX_INSTRUCTIONS_def)
  ultimately have "vm_run_module (\<lambda>_. sample_instr_env) sample_module \<lparr>r_vm = vm, r_count = 0, r_total = 0, r_out = out\<rparr> = Inr ?r2"
    using assms(7) by (simp add: vm_run_module_def sample_module_def)
  then show ?thesis by (intro exI [of _ ?r2]) (simp add: sample_done_def)
qed

lemma clong_small: "0 \<le> x \<Longrightarrow> x < 4294967296 \<Longrightarrow> clong x = Inr x"
  by (simp add: clong_def)

lemma elapsed_zero: "vm_get_elapsed_ms t t = Inr 0"
  by (simp add: vm_get_elapsed_ms_def clong_def)

lemma end_of_cycle_returns:
  assumes "vm_ok (r_vm r)" "ce_end ce = ce_start ce"
  shows "\<exists>vm' out. end_of_cycle ce start r = Inr (vm', out)"
proof -
  let ?e = "start + ucast (cycle_time_ms (config (r_vm r)))"
  let ?vm1 = "(if \<not> enable_tick_timing (config (r_vm r)) then if time_ms (r_vm r) < ?e then (r_vm r)\<lparr>time_ms := ?e\<rparr> else r_vm r else r_vm r)"
  define vm where "vm = update_all_timers ?vm1"
  have "vm_ok ?vm1" using assms(1) by simp
  from update_all_timers_ok [OF this] have ok: "vm_ok vm" by (simp add: vm_def)
  let ?h = "calculate_registers_hash_ex (reg vm) REG_COUNT (hash_algo (config vm))"
  obtain alarms where alarms: "check_hashes vm ?h = Inr alarms"
    using check_hashes_ok ok by (auto simp: vm_ok_def)
  have "clong (int (unat (cycle_time_ms (config vm))) - 0) = Inr (int (unat (cycle_time_ms (config vm))))"
    using clong_small [of "int (unat (cycle_time_ms (config vm)))"] uint_lt2p [of "cycle_time_ms (config vm)"] by simp
  then show ?thesis
    unfolding end_of_cycle_def Let_def vm_def [symmetric] alarms bindR_simps assms(2) elapsed_zero by auto
qed

lemma sample_reload_phase: "\<exists>sig. reload_phase sample_heap sample_dir sample_vm = Inr (sample_vm\<lparr>program_dir_signature := sig, reload_pending := False\<rparr>)"
proof -
  have "program_dir sample_vm = Some [112]" "program_dir_signature sample_vm = 0" "reload_pending sample_vm = False"
    by (simp_all add: sample_vm_def vm_zero_def)
  then show ?thesis by (simp add: reload_phase_def directory_changed_def apply_pending_reload_def) blast
qed

text \<open>The whole cycle of the sample machine.\<close>

lemma sample_cycle_run:
  "\<exists>vm' out. run_cycle sample_cycle sample_vm [] = Inr (vm', out, True) \<and> reg vm' = (reg sample_vm)(1 := 6)"
proof -
  obtain sig where rel: "reload_phase sample_heap sample_dir sample_vm = Inr (sample_vm\<lparr>program_dir_signature := sig, reload_pending := False\<rparr>)"
    using sample_reload_phase by blast
  let ?vm = "sample_vm\<lparr>program_dir_signature := sig, reload_pending := False, cycle_count := 2\<rparr>"
  let ?r = "\<lparr>r_vm = ?vm, r_count = 0, r_total = 0, r_out = []\<rparr>"
  have fields: "modules sample_vm = Some [sample_module]" "\<not> stop_requested sample_vm" "cycle_count sample_vm = 1"
    "\<not> logging sample_vm" "\<not> enable_tick_timing (config sample_vm)" "reg sample_vm 129 * reg sample_vm 1 = 6"
    "mem sample_vm = write_bytes (\<lambda>_. 0) 0x3000 [1, 2, 3, 4]" "op_ex sample_vm = map Some default_op_ex @ replicate 60 None"
    "decoded_cache sample_vm = Some empty_cache"
    by (simp_all add: sample_vm_def logging_def) (simp_all add: vm_zero_def)
  have ok: "vm_ok ?vm" using sample_vm_ok by (simp add: vm_ok_def cache_sane_def modules_inside_def program_inside_def)
  have "cache_current ?vm" "cache_room ?vm"
    using empty_cache_ok by (simp_all add: cache_current_def cache_room_def fields ht_room_def)
  from sample_module_run [OF this, of "[]"] obtain r where
    r: "vm_run_module (\<lambda>_. sample_instr_env) sample_module ?r = Inr r" "reg (r_vm r) = (reg sample_vm)(1 := 6)"
    using fields by (auto simp: logging_def)
  have "module_inside sample_module" by (simp add: module_inside_def sample_module_def)
  with run_module_ends' [of ?r "\<lambda>_. sample_instr_env" sample_module "[sample_module]"] ok fields(1) sample_env_ok r(1)
  have rok: "vm_ok (r_vm r)" by simp
  obtain vm' out where fin: "end_of_cycle sample_cycle (time_ms sample_vm) r = Inr (vm', out)"
    using end_of_cycle_returns [OF rok, of sample_cycle "time_ms sample_vm"] by (auto simp: sample_cycle_def)
  have "reg vm' = (reg sample_vm)(1 := 6)"
    using end_of_cycle_ok [OF rok, of sample_cycle "time_ms sample_vm"] fin r(2) by simp
  moreover have "run_cycle sample_cycle sample_vm [] = Inr (vm', out, True)"
    using rel fin r(1) fields(1-3) by (simp add: run_cycle_def sample_cycle_def Let_def)
  ultimately show ?thesis by blast
qed

theorem register_change_raises_alarm_witness:
  "\<exists>vm' out a b c. run_cycle sample_cycle sample_vm [] = Inr (vm', out, True) \<and> Hash_Mismatch a b c \<in> set out"
proof -
  obtain vm' out where run: "run_cycle sample_cycle sample_vm [] = Inr (vm', out, True)" "reg vm' = (reg sample_vm)(1 := 6)"
    using sample_cycle_run by blast
  have fields: "program_dir sample_vm = Some [112]" "PC_START sample_vm = 0x3000" "enable_hash_check (config sample_vm)"
    "hash_algo (config sample_vm) = HASH_CRC32" "cycle_count sample_vm = 1" "reg sample_vm 1 = 2"
    "prev_cycle_hash sample_vm = calculate_registers_hash_ex (reg sample_vm) REG_COUNT HASH_CRC32"
    by (simp_all add: sample_vm_def)
  have "\<exists>a b c. Hash_Mismatch a b c \<in> set out"
    by (rule register_change_raises_alarm [OF run(1) sample_vm_ok fields(1) _ fields(3,4) _ _ fields(7) run(2)])
      (simp_all add: fields sample_cycle_ok)
  with run(1) show ?thesis by blast
qed

theorem run_program_safe_witness:
  "case run_program True [] zero_timespec zero_timespec [sample_cycle, sample_cycle] sample_vm of
     Inl f \<Rightarrow> f \<noteq> Out_Of_Bounds
   | Inr (vm', out, go) \<Rightarrow> vm_ok vm' \<and> modules vm' \<noteq> None"
proof -
  have fields: "program_dir sample_vm = Some [112]" "PC_START sample_vm = 0x3000" "modules sample_vm \<noteq> None"
    by (simp_all add: sample_vm_def)
  have "\<forall>ce \<in> set [sample_cycle, sample_cycle]. cycle_ok [112] (PC_START sample_vm) ce"
    using sample_cycle_ok by (simp add: fields)
  from run_program_safe [OF sample_vm_ok fields(1) this, of True "[]" zero_timespec zero_timespec] fields(3) show ?thesis
    by (auto split: sum.splits)
qed

theorem stop_ends_at_next_cycle_witness:
  "\<exists>vm'. run_cycles [sample_cycle, sample_cycle] (sample_vm\<lparr>stop_requested := True\<rparr>) [] = Inr (vm', [Cleanups_Run], False) \<and>
     reg vm' = reg sample_vm"
proof -
  let ?vm = "sample_vm\<lparr>stop_requested := True\<rparr>"
  have fields: "program_dir ?vm = Some [112]" "PC_START ?vm = 0x3000" by (simp_all add: sample_vm_def)
  have "heap_ok (ce_heap sample_cycle)" "good_directory (ce_fs sample_cycle) [112] (PC_START ?vm) sample_files"
    using sample_heap_ok sample_good fields(2) by (simp_all add: sample_cycle_def)
  moreover have "vm_ok ?vm" using sample_vm_ok by simp
  ultimately show ?thesis
    using stop_ends_at_next_cycle [of ?vm sample_cycle "[112]" sample_files "[sample_cycle]" "[]"] fields(1) by auto
qed

text \<open>The first address was decoded as \<open>ADD R4, R5, R6\<close> before the directory changed.\<close>

lemma sample_pending_reload:
  assumes "program_dir vm = Some [112]" "PC_START vm = 0x3000" "reload_pending vm"
  shows "\<exists>sig hash. reload_phase sample_heap sample_dir vm =
    Inr ((loaded (vm\<lparr>program_dir_signature := sig, reload_pending := False\<rparr>) sample_files)\<lparr>program_hash := hash\<rparr>)"
proof -
  from assms(1) obtain sig pending where p: "reload_pending vm \<Longrightarrow> pending"
      "reload_phase sample_heap sample_dir vm =
       apply_pending_reload sample_heap sample_dir (vm\<lparr>program_dir_signature := sig, reload_pending := pending\<rparr>)"
    by (rule reload_phase_cases [where h = sample_heap and fs = sample_dir]) blast
  let ?vm = "vm\<lparr>program_dir_signature := sig, reload_pending := False\<rparr>"
  obtain hash where "reload_programs_from_directory sample_heap sample_dir ?vm [112] =
      Inr ((loaded ?vm sample_files)\<lparr>program_hash := hash\<rparr>, 0)"
    using reload_good [OF sample_heap_ok, of sample_dir "[112]" ?vm sample_files] sample_good assms(2) by auto
  then have "reload_phase sample_heap sample_dir vm = Inr ((loaded ?vm sample_files)\<lparr>program_hash := hash\<rparr>)"
    using p assms by (simp add: apply_pending_reload_def)
  then show ?thesis by blast
qed

theorem reload_runs_stale_operands_witness:
  "\<exists>t vm r'. reload_phase sample_heap sample_dir (sample_vm\<lparr>reload_pending := True, decoded_cache := Some t\<rparr>) = Inr vm \<and>
     word_at (mem vm) 0x3000 = 0x04030201 \<and>
     vm_run_instruction sample_instr_env sample_module 0x3004
       \<lparr>r_vm = vm\<lparr>PC := 0x3000, running := True\<rparr>, r_count = 0, r_total = 0, r_out = []\<rparr> = Inr (r', 0) \<and>
     reg (r_vm r') 4 = 35 \<and> reg (r_vm r') 1 = 2"
proof -
  let ?old = "instr_word 0 4 5 6" and ?e = sample_instr_env and ?m = sample_module
  from empty_cache_ok have empty: "ht_inv empty_cache" "ht_room empty_cache" "ht_map empty_cache = Map.empty"
    by (simp_all add: ht_room_def)
  have "\<forall>m :: u32. (\<lambda>_. True) m" by simp
  from hash_table_insert_map [OF empty(1) this empty(2), of "0x3000" "decode ?old"]
  obtain t where "ht_inv t" "ht_map t = (ht_map empty_cache)(0x3000 \<mapsto> decode ?old)" by blast
  then have t: "ht_inv t" "ht_map t = [0x3000 \<mapsto> decode ?old]" by (simp_all add: empty(3))
  let ?vm0 = "sample_vm\<lparr>reload_pending := True, decoded_cache := Some t\<rparr>"
  have fields: "program_dir ?vm0 = Some [112]" "PC_START ?vm0 = 0x3000" "reload_pending ?vm0"
    "op_ex ?vm0 = map Some default_op_ex @ replicate 60 None" "\<not> logging ?vm0" "\<not> enable_tick_timing (config ?vm0)"
    "reg ?vm0 = (\<lambda>_. 0)(1 := 2, 129 := 3, 5 := 5, 6 := 7)"
    by (simp_all add: sample_vm_def logging_def) (simp add: vm_zero_def)
  obtain sig hash where rel: "reload_phase sample_heap sample_dir ?vm0 =
      Inr ((loaded (?vm0\<lparr>program_dir_signature := sig, reload_pending := False\<rparr>) sample_files)\<lparr>program_hash := hash\<rparr>)"
    using sample_pending_reload [OF fields(1-3)] by blast
  define vm where "vm = (loaded (?vm0\<lparr>program_dir_signature := sig, reload_pending := False\<rparr>) sample_files)\<lparr>program_hash := hash\<rparr>"
  note rel = rel [folded vm_def]
  have word: "word_at (mem vm) 0x3000 = 0x04030201"
    using sample_word fields(2) by (simp add: vm_def loaded_def word_at_def write_bytes_def)
  have vm: "decoded_cache vm = Some t" "op_ex vm = op_ex ?vm0" "\<not> logging vm" "\<not> enable_tick_timing (config vm)" "reg vm = reg ?vm0"
    using fields(5,6) by (simp_all add: vm_def loaded_def logging_def)
  let ?vm1 = "vm\<lparr>PC := 0x3000, running := True\<rparr>"
  let ?r = "\<lparr>r_vm = ?vm1, r_count = 0, r_total = 0, r_out = []\<rparr>"
  have inside: "\<not> outside ?m 0x3004 (r_vm ?r)" by (simp add: sample_module_def)
  have h: "handler_of ?vm0 0x04030201 = Some OP_MUL" "handler_of (r_vm ?r) 0x04030201 = Some OP_MUL"
    using sample_handler fields(4) vm(2) by (simp_all add: sample_fields)
  have dec: "vm_decode_instruction (ie_calloc ?e) (ie_malloc ?e) (r_vm ?r) (PC (r_vm ?r)) = Inr (r_vm ?r, Some (decode ?old))"
    using hash_table_lookup_map [OF t(1)] vm(1) by (simp add: vm_decode_instruction_def decode_instruction_cached_def t(2))
  have op: "exec_op (ie_op ?e) OP_MUL ?vm1 (raw_instr (decode ?old)) = Inr (op_mul ?vm1 ?old)" by (simp add: decode_def)
  have keep: "PC (op_mul ?vm1 ?old) = PC ?vm1" "config (op_mul ?vm1 ?old) = config vm" "\<not> logging ?vm1"
    using vm(3) by (simp_all add: op_mul_def SetA_val_def logging_def)
  from execute_plain [OF op keep(3,1)] keep(2) vm(4) obtain vm2 where ex: "execute ?e OP_MUL ?vm1 0x04030201 (decode ?old) = Inr vm2"
    by auto
  let ?r' = "?r\<lparr>r_vm := vm2, r_count := r_count ?r + 1, r_total := r_total ?r + 1\<rparr>"
  have run: "vm_run_instruction ?e ?m 0x3004 ?r = Inr (?r', 0)"
    using run_instruction_execute [OF inside _ _ _ dec h(2)] word ex by simp
  have cached: "decoded_cache ?vm0 = Some t" and entry: "ht_map t 0x3000 = Some (decode ?old)"
    and wordu: "word_at (mem vm) (unat (0x3000 :: u32)) = 0x04030201"
    using t(2) word by simp_all
  have rvm: "r_vm ?r = vm\<lparr>PC := 0x3000, running := True\<rparr>" by simp
  have "\<exists>vm'. exec_op (ie_op ?e) OP_MUL (fst (log_before (r_vm ?r) 0x3000 0x04030201)) ?old = Inr vm' \<and> reg (r_vm ?r') = reg vm'"
    using reload_runs_stale_operands [OF rel cached t(1) entry rvm inside _ wordu _ h(1) run] by auto
  then have "reg (r_vm ?r') = reg (op_mul ?vm1 ?old)"
    using keep(3) by (auto simp: fst_log_before)
  then have "reg (r_vm ?r') 4 = 35" "reg (r_vm ?r') 1 = 2"
    using vm(5) fields(7) by (simp_all add: op_mul_def SetA_val_def operand_simps)
  with rel word run show ?thesis by blast
qed

theorem jmp_next_instruction_witness:
  "\<exists>vm'. execute sample_instr_env OP_JMP (sample_vm\<lparr>PC := 0x3000\<rparr>) (instr_word 62 0 0 261) (decode (instr_word 62 0 0 261)) = Inr vm' \<and>
     PC vm' = 5"
proof -
  let ?i = "instr_word 62 0 0 261" and ?vm = "sample_vm\<lparr>PC := 0x3000\<rparr>"
  have f: "FIMM ?i" by (simp add: FIMM_instr_word)
  have s: "SEXTIMM8 ?i = 5" by (simp add: SEXTIMM8_def sext_def instr_word_def)
  have "execute sample_instr_env OP_JMP ?vm ?i (decode ?i) =
      Inr (vm_update_time_after_instruction zero_timespec (?vm\<lparr>PC := 5, perf := add_perf sample_instr_env (perf ?vm)\<rparr>))"
    by (simp add: execute_def fst_log_before vm_wait_for_tick_def Let_def op_jmp_def jump_target_def decode_def f s
      sample_vm_def logging_def sample_instr_env_def) (simp add: vm_zero_def)
  from jmp_next_instruction [OF this, of sample_module] this f s show ?thesis
    by (simp add: sample_module_def module_inside_def)
qed

theorem virtual_time_exact_witness:
  "virtual_ns ((vm_update_time_after_instruction zero_timespec ^^ 250) sample_vm) = 2500000000"
proof -
  have fields: "virtual_time sample_vm" "instr_ns_accum sample_vm = 0" "time_ms sample_vm = 0" "clock_rate_hz (config sample_vm) = 100"
    by (simp_all add: sample_vm_def virtual_time_def) (simp_all add: vm_zero_def)
  then show ?thesis
    using virtual_time_exact [of sample_vm 250 zero_timespec] by (simp add: virtual_ns_def)
qed

theorem run_module_ends_witness:
  "case vm_run_module (\<lambda>_. sample_instr_env) sample_module \<lparr>r_vm = sample_vm, r_count = 0, r_total = 0, r_out = []\<rparr> of
     Inl f \<Rightarrow> f \<noteq> Out_Of_Bounds
   | Inr r \<Rightarrow> unat (r_count r) \<le> 100000 \<and> stopped sample_module r"
proof -
  have "modules sample_vm = Some [sample_module]" "module_inside sample_module"
    by (simp_all add: sample_vm_def module_inside_def sample_module_def)
  then show ?thesis
    using run_module_ends [of "\<lparr>r_vm = sample_vm, r_count = 0, r_total = 0, r_out = []\<rparr>" "\<lambda>_. sample_instr_env"
      sample_module "[sample_module]"] sample_vm_ok sample_env_ok
    by (auto split: sum.splits)
qed

end
