(* ===== verification/Converter.thy ===== *)
theory Converter
  imports Debug Dispatch
begin

text \<open>
  The assembler \<open>asm2bin\<close> (\<open>tools/converter.c\<close>): lines of text to instruction words.  An error
  of a line is a value; the program stops at the first one with exit code 1, and what was written
  before stays in the output.  The messages are left out.
\<close>

section \<open>Opcodes\<close>

datatype cflags = CFLAG_NONE | CFLAG_ALLOW_IMM | CFLAG_C_MUST_REG

record op_entry =
  oe_name :: string
  oe_code :: nat
  oe_cflags :: cflags

abbreviation op_e :: "string \<Rightarrow> nat \<Rightarrow> cflags \<Rightarrow> op_entry" where
  "op_e n c f \<equiv> \<lparr>oe_name = n, oe_code = c, oe_cflags = f\<rparr>"

definition op_table :: "op_entry list" where
  "op_table = [
    op_e ''add'' 0 CFLAG_ALLOW_IMM,
    op_e ''sub'' 1 CFLAG_ALLOW_IMM,
    op_e ''mul'' 2 CFLAG_ALLOW_IMM,
    op_e ''div'' 3 CFLAG_ALLOW_IMM,
    op_e ''mod'' 4 CFLAG_ALLOW_IMM,
    op_e ''expt'' 5 CFLAG_ALLOW_IMM,
    op_e ''abs'' 6 CFLAG_NONE,
    op_e ''sqrt'' 7 CFLAG_NONE,
    op_e ''ln'' 8 CFLAG_NONE,
    op_e ''log'' 9 CFLAG_NONE,
    op_e ''exp'' 10 CFLAG_NONE,
    op_e ''sin'' 11 CFLAG_NONE,
    op_e ''cos'' 12 CFLAG_NONE,
    op_e ''tan'' 13 CFLAG_NONE,
    op_e ''asin'' 14 CFLAG_NONE,
    op_e ''acos'' 15 CFLAG_NONE,
    op_e ''atan'' 16 CFLAG_NONE,
    op_e ''and'' 17 CFLAG_ALLOW_IMM,
    op_e ''or'' 18 CFLAG_ALLOW_IMM,
    op_e ''xor'' 19 CFLAG_ALLOW_IMM,
    op_e ''not'' 20 CFLAG_NONE,
    op_e ''eq'' 21 CFLAG_ALLOW_IMM,
    op_e ''ne'' 22 CFLAG_ALLOW_IMM,
    op_e ''gt'' 23 CFLAG_ALLOW_IMM,
    op_e ''ge'' 24 CFLAG_ALLOW_IMM,
    op_e ''lt'' 25 CFLAG_ALLOW_IMM,
    op_e ''le'' 26 CFLAG_ALLOW_IMM,
    op_e ''time'' 27 CFLAG_NONE,
    op_e ''date'' 28 CFLAG_NONE,
    op_e ''tod'' 29 CFLAG_NONE,
    op_e ''dt'' 30 CFLAG_NONE,
    op_e ''add_time'' 31 CFLAG_ALLOW_IMM,
    op_e ''sub_time'' 32 CFLAG_ALLOW_IMM,
    op_e ''year'' 33 CFLAG_NONE,
    op_e ''month'' 34 CFLAG_NONE,
    op_e ''day'' 35 CFLAG_NONE,
    op_e ''hour'' 36 CFLAG_NONE,
    op_e ''minute'' 37 CFLAG_NONE,
    op_e ''second'' 38 CFLAG_NONE,
    op_e ''len'' 39 CFLAG_NONE,
    op_e ''concat'' 40 CFLAG_C_MUST_REG,
    op_e ''left'' 41 CFLAG_ALLOW_IMM,
    op_e ''right'' 42 CFLAG_ALLOW_IMM,
    op_e ''mid'' 43 CFLAG_ALLOW_IMM,
    op_e ''insert'' 44 CFLAG_ALLOW_IMM,
    op_e ''delete'' 45 CFLAG_ALLOW_IMM,
    op_e ''replace'' 46 CFLAG_ALLOW_IMM,
    op_e ''ton'' 47 CFLAG_ALLOW_IMM,
    op_e ''tof'' 48 CFLAG_ALLOW_IMM,
    op_e ''tp'' 49 CFLAG_ALLOW_IMM,
    op_e ''ctu'' 50 CFLAG_ALLOW_IMM,
    op_e ''ctd'' 51 CFLAG_ALLOW_IMM,
    op_e ''ctud'' 52 CFLAG_C_MUST_REG,
    op_e ''limit'' 53 CFLAG_ALLOW_IMM,
    op_e ''sel'' 54 CFLAG_C_MUST_REG,
    op_e ''mux'' 55 CFLAG_ALLOW_IMM,
    op_e ''rising_edge'' 56 CFLAG_ALLOW_IMM,
    op_e ''falling_edge'' 57 CFLAG_ALLOW_IMM,
    op_e ''edge_both'' 58 CFLAG_ALLOW_IMM,
    op_e ''rs_latch'' 59 CFLAG_ALLOW_IMM,
    op_e ''sr_latch'' 60 CFLAG_ALLOW_IMM,
    op_e ''demux'' 61 CFLAG_ALLOW_IMM,
    op_e ''jmp'' 62 CFLAG_ALLOW_IMM,
    op_e ''jmp_if'' 63 CFLAG_ALLOW_IMM,
    op_e ''jmp_if_not'' 64 CFLAG_ALLOW_IMM,
    op_e ''exit'' 65 CFLAG_ALLOW_IMM,
    op_e ''halt'' 66 CFLAG_NONE,
    op_e ''nop'' 67 CFLAG_NONE]"

fun index_of :: "op_entry list \<Rightarrow> string \<Rightarrow> nat \<Rightarrow> nat option" where
  "index_of [] name i = None"
| "index_of (e # es) name i = (if strcasecmp_eq (oe_name e) name then Some i else index_of es name (i + 1))"

definition opcode_from_name :: "string \<Rightarrow> nat option" where
  "opcode_from_name name = index_of op_table name 0"

section \<open>Operands\<close>

datatype operand = OP_REG int | OP_IMM int

text \<open>The conversion of a \<open>long\<close> to an \<open>int\<close> keeps the low 32 bits.\<close>

definition int_of_long :: "int \<Rightarrow> int" where
  "int_of_long v = sint (word_of_int v :: u32)"

definition parse_reg :: "string \<Rightarrow> int option" where
  "parse_reg tok =
     (case tok of
        [] \<Rightarrow> None
      | c # cs \<Rightarrow>
          if to_lower c \<noteq> CHR ''r'' then None
          else (case strtol cs 0 of
              None \<Rightarrow> None
            | Some (v, erange, rest) \<Rightarrow> if erange then None else Some (int_of_long v)))"

definition parse_immediate :: "string \<Rightarrow> int option" where
  "parse_immediate tok =
     (case tok of
        [] \<Rightarrow> None
      | c # cs \<Rightarrow>
          if c \<noteq> CHR ''#'' then None
          else (case strtol cs 0 of
              None \<Rightarrow> None
            | Some (v, erange, rest) \<Rightarrow> if erange then None else Some (int_of_long v)))"

definition check_reg_range :: "int \<Rightarrow> bool" where
  "check_reg_range r \<longleftrightarrow> 0 \<le> r \<and> r \<le> 255"

definition check_imm8_range :: "int \<Rightarrow> bool" where
  "check_imm8_range v \<longleftrightarrow> - 128 \<le> v \<and> v \<le> 127"

section \<open>Lines\<close>

datatype asm_error =
    Unknown_Opcode | Bad_A | A_Range | Bad_B | B_Range | C_Reg_Range | Imm_Not_Allowed | Imm_Range | Bad_C

text \<open>An operand A or B; missing ones are register 0.\<close>

definition parse_ab :: "asm_error \<Rightarrow> asm_error \<Rightarrow> string list \<Rightarrow> nat \<Rightarrow> asm_error + int" where
  "parse_ab bad off toks k =
     (if length toks \<le> k then Inr 0
      else case parse_reg (toks ! k) of
          None \<Rightarrow> Inl bad
        | Some r \<Rightarrow> if \<not> check_reg_range r then Inl off else Inr r)"

definition parse_c :: "cflags \<Rightarrow> string list \<Rightarrow> nat \<Rightarrow> asm_error + operand" where
  "parse_c flags toks k =
     (if length toks \<le> k then Inr (OP_REG 0)
      else case parse_reg (toks ! k) of
          Some r \<Rightarrow> if \<not> check_reg_range r then Inl C_Reg_Range else Inr (OP_REG r)
        | None \<Rightarrow>
            (case parse_immediate (toks ! k) of
               None \<Rightarrow> Inl Bad_C
             | Some v \<Rightarrow>
                 if flags \<noteq> CFLAG_ALLOW_IMM then Inl Imm_Not_Allowed
                 else if \<not> check_imm8_range v then Inl Imm_Range
                 else Inr (OP_IMM v)))"

definition c_field :: "operand \<Rightarrow> u32" where
  "c_field c = (case c of
     OP_REG v \<Rightarrow> word_of_int v AND 0xFF
   | OP_IMM v \<Rightarrow> push_bit 8 1 OR (ucast (word_of_int v :: u8) AND 0xFF))"

text \<open>The tokens of a line, of which the first is the operation.  The later test of
  \<open>CFLAG_C_MUST_REG\<close> and that of the opcode range cannot fail any more.\<close>

definition assemble_tokens :: "bool \<Rightarrow> string list \<Rightarrow> asm_error + u32" where
  "assemble_tokens raw_halt toks =
     (let tok = hd toks;
          tok = (if \<not> raw_halt \<and> strcasecmp_eq tok ''halt'' then ''exit'' else tok) in
      case opcode_from_name tok of
        None \<Rightarrow> Inl Unknown_Opcode
      | Some op \<Rightarrow>
          (case parse_ab Bad_A A_Range toks 1 of
             Inl e \<Rightarrow> Inl e
           | Inr a \<Rightarrow>
               (case parse_ab Bad_B B_Range toks 2 of
                  Inl e \<Rightarrow> Inl e
                | Inr b \<Rightarrow>
                    (case parse_c (oe_cflags (op_table ! op)) toks 3 of
                       Inl e \<Rightarrow> Inl e
                     | Inr c \<Rightarrow> Inr (instr_word (of_nat op) (word_of_int a AND 0xFF) (word_of_int b AND 0xFF) (c_field c))))))"

definition asm_delim :: "char \<Rightarrow> bool" where
  "asm_delim c \<longleftrightarrow> c = CHR '' '' \<or> c = CHR 0x09 \<or> c = CHR '',''"

text \<open>\<open>None\<close>: the line holds no instruction.\<close>

definition assemble_line :: "bool \<Rightarrow> string \<Rightarrow> (asm_error + u32) option" where
  "assemble_line raw_halt line =
     (let p = dropWhile isspace line in
      if p = [] \<or> hd p = CHR 0x0A \<or> hd p = CHR '';'' then None
      else
        let p = takeWhile (\<lambda>c. c \<noteq> CHR 0x0A) p;
            p = takeWhile (\<lambda>c. c \<noteq> CHR '';'') p;
            toks = tokens asm_delim p
        in if toks = [] then None else Some (assemble_tokens raw_halt toks))"

section \<open>Files\<close>

text \<open>What repeated calls of \<open>fgets\<close> with a buffer of 512 characters deliver.\<close>

function fgets_lines :: "string \<Rightarrow> string list" where
  "fgets_lines s =
     (if s = [] then []
      else let n = min 511 (min (length s) (length (takeWhile (\<lambda>c. c \<noteq> CHR 0x0A) s) + 1))
           in take n s # fgets_lines (drop n s))"
  by pat_completeness auto
termination by (relation "measure length") auto

declare fgets_lines.simps [simp del]

text \<open>\<open>write_ok n\<close>: the word behind the first \<open>n\<close> bytes can be written.\<close>

fun assemble_lines :: "bool \<Rightarrow> (nat \<Rightarrow> bool) \<Rightarrow> string list \<Rightarrow> u8 list \<Rightarrow> int \<times> u8 list" where
  "assemble_lines raw_halt write_ok [] out = (0, out)"
| "assemble_lines raw_halt write_ok (line # rest) out =
     (case assemble_line raw_halt line of
        None \<Rightarrow> assemble_lines raw_halt write_ok rest out
      | Some (Inl e) \<Rightarrow> (1, out)
      | Some (Inr word) \<Rightarrow>
          if \<not> write_ok (length out) then (1, out)
          else assemble_lines raw_halt write_ok rest (out @ le32 word))"

text \<open>\<open>main\<close>: the file contents for a path, or that it cannot be opened; which outputs can be
  created.  The result is the exit code and, if a file was created, what it holds.\<close>

definition converter_main ::
  "(string \<Rightarrow> string option) \<Rightarrow> (string \<Rightarrow> bool) \<Rightarrow> (nat \<Rightarrow> bool) \<Rightarrow> string list \<Rightarrow> int \<times> u8 list option" where
  "converter_main read can_create write_ok argv =
     (if length argv < 3 then (1, None) else
      let raw_halt = (4 \<le> length argv \<and> argv ! 3 = ''--raw-halt'') in
      case read (argv ! 1) of
        None \<Rightarrow> (1, None)
      | Some text \<Rightarrow>
          if \<not> can_create (argv ! 2) then (1, None)
          else let (rc, out) = assemble_lines raw_halt write_ok (fgets_lines text) [] in (rc, Some out))"

section \<open>The tables\<close>

lemma to_lower_letters [simp]:
  "to_lower CHR ''A'' = CHR ''a''" "to_lower CHR ''B'' = CHR ''b''" "to_lower CHR ''C'' = CHR ''c''"
  "to_lower CHR ''D'' = CHR ''d''" "to_lower CHR ''E'' = CHR ''e''" "to_lower CHR ''F'' = CHR ''f''"
  "to_lower CHR ''G'' = CHR ''g''" "to_lower CHR ''H'' = CHR ''h''" "to_lower CHR ''I'' = CHR ''i''"
  "to_lower CHR ''J'' = CHR ''j''" "to_lower CHR ''K'' = CHR ''k''" "to_lower CHR ''L'' = CHR ''l''"
  "to_lower CHR ''M'' = CHR ''m''" "to_lower CHR ''N'' = CHR ''n''" "to_lower CHR ''O'' = CHR ''o''"
  "to_lower CHR ''P'' = CHR ''p''" "to_lower CHR ''Q'' = CHR ''q''" "to_lower CHR ''R'' = CHR ''r''"
  "to_lower CHR ''S'' = CHR ''s''" "to_lower CHR ''T'' = CHR ''t''" "to_lower CHR ''U'' = CHR ''u''"
  "to_lower CHR ''V'' = CHR ''v''" "to_lower CHR ''W'' = CHR ''w''" "to_lower CHR ''X'' = CHR ''x''"
  "to_lower CHR ''Y'' = CHR ''y''" "to_lower CHR ''Z'' = CHR ''z''" "to_lower CHR ''a'' = CHR ''a''"
  "to_lower CHR ''b'' = CHR ''b''" "to_lower CHR ''c'' = CHR ''c''" "to_lower CHR ''d'' = CHR ''d''"
  "to_lower CHR ''e'' = CHR ''e''" "to_lower CHR ''f'' = CHR ''f''" "to_lower CHR ''g'' = CHR ''g''"
  "to_lower CHR ''h'' = CHR ''h''" "to_lower CHR ''i'' = CHR ''i''" "to_lower CHR ''j'' = CHR ''j''"
  "to_lower CHR ''k'' = CHR ''k''" "to_lower CHR ''l'' = CHR ''l''" "to_lower CHR ''m'' = CHR ''m''"
  "to_lower CHR ''n'' = CHR ''n''" "to_lower CHR ''o'' = CHR ''o''" "to_lower CHR ''p'' = CHR ''p''"
  "to_lower CHR ''q'' = CHR ''q''" "to_lower CHR ''r'' = CHR ''r''" "to_lower CHR ''s'' = CHR ''s''"
  "to_lower CHR ''t'' = CHR ''t''" "to_lower CHR ''u'' = CHR ''u''" "to_lower CHR ''v'' = CHR ''v''"
  "to_lower CHR ''w'' = CHR ''w''" "to_lower CHR ''x'' = CHR ''x''" "to_lower CHR ''y'' = CHR ''y''"
  "to_lower CHR ''z'' = CHR ''z''" "to_lower CHR ''_'' = CHR ''_''"
  by code_simp+

lemma lower_names: "map (map to_lower) opcode_names = map oe_name op_table"
  by (simp add: opcode_names_def op_table_def)

lemma lower_table: "map (map to_lower \<circ> oe_name) op_table = map oe_name op_table"
  by (simp add: op_table_def)

lemma distinct_table: "distinct (map oe_name op_table)"
  by (simp add: op_table_def)

lemma op_table_codes: "map oe_code op_table = [0..<68]"
  by (simp add: op_table_def upt_rec)

lemma length_tables [simp]: "length op_table = 68" "length opcode_names = 68"
  by (simp_all add: op_table_def opcode_names_def)

lemma index_of_nth:
  "distinct (map (map to_lower \<circ> oe_name) es) \<Longrightarrow> k < length es \<Longrightarrow>
   map to_lower (oe_name (es ! k)) = map to_lower name \<Longrightarrow> index_of es name i = Some (i + k)"
proof (induction es arbitrary: k i)
  case (Cons e es)
  show ?case
  proof (cases k)
    case 0
    with Cons.prems show ?thesis by (simp add: strcasecmp_eq_def)
  next
    case (Suc j)
    have "map to_lower (oe_name (es ! j)) \<in> set (map (map to_lower \<circ> oe_name) es)"
      using Cons.prems(2) Suc by (auto simp: image_iff)
    then have "map to_lower (oe_name e) \<noteq> map to_lower name" using Cons.prems Suc by auto
    with Cons Suc show ?thesis by (simp add: strcasecmp_eq_def)
  qed
qed simp

lemma opcode_from_lower:
  assumes "k < 68" "map to_lower name = oe_name (op_table ! k)"
  shows "opcode_from_name name = Some k"
proof -
  have "(map (map to_lower \<circ> oe_name) op_table) ! k = (map oe_name op_table) ! k" by (simp only: lower_table)
  then have "map to_lower (oe_name (op_table ! k)) = map to_lower name" using assms by simp
  with index_of_nth [of op_table k name 0] assms(1) show ?thesis
    using distinct_table by (simp add: opcode_from_name_def lower_table del: map_map)
qed

lemma opcode_from_opcode_names: "k < 68 \<Longrightarrow> opcode_from_name (opcode_names ! k) = Some k"
proof -
  assume k: "k < 68"
  have "(map (map to_lower) opcode_names) ! k = (map oe_name op_table) ! k" by (simp only: lower_names)
  with k show ?thesis by (intro opcode_from_lower) simp_all
qed

lemma opcode_from_table: "k < 68 \<Longrightarrow> opcode_from_name (oe_name (op_table ! k)) = Some k"
proof -
  assume k: "k < 68"
  have "(map (map to_lower \<circ> oe_name) op_table) ! k = (map oe_name op_table) ! k" by (simp only: lower_table)
  with k show ?thesis by (intro opcode_from_lower) simp_all
qed

section \<open>Numbers as operands\<close>

lemma takeWhile_digits: "takeWhile (is_digit 10) (show_nat n) = show_nat n" "dropWhile (is_digit 10) (show_nat n) = []"
  using show_nat_digits [of n] by (induction "show_nat n") (auto simp: list_all_iff)

lemma strip_base_show_nat: "0 < n \<Longrightarrow> strip_base (show_nat n) = (10, show_nat n)"
  using show_nat_head [of n] by (auto simp: strip_base_def split: list.splits)

lemma show_nat_0: "show_nat 0 = ''0''"
  by (simp add: show_nat_def digits_of.simps digit_char_def) code_simp

lemma strtol_zero: "strtol ''0'' 0 = Some (0, False, [])"
  by (simp add: strtol_def strip_sign_def strip_base_def isspace_def is_digit_def digit_val_def number_def LONG_MAX_def)

lemma digit_start: "\<exists>c cs. show_nat n = c # cs \<and> is_digit 10 c"
  using show_nat_digits [of n] by (cases "show_nat n") (auto simp: show_nat_def)

lemma digit_plain: "is_digit 10 c \<Longrightarrow> \<not> isspace c \<and> c \<noteq> CHR ''-'' \<and> c \<noteq> CHR ''+'' \<and> c \<noteq> CHR ''#'' \<and>
    \<not> asm_delim c \<and> c \<noteq> CHR 0x0A \<and> c \<noteq> CHR '';''"
  by (auto simp: is_digit_def digit_val_def isspace_def asm_delim_def Let_def split: if_splits)

lemma strip_sign_show_nat: "strip_sign (dropWhile isspace (show_nat n)) = (False, show_nat n)"
  using digit_start [of n] digit_plain by (auto simp: strip_sign_def)

lemma strtol_show_nat:
  assumes "int n \<le> LONG_MAX"
  shows "strtol (show_nat n) 0 = Some (int n, False, [])"
proof (cases "n = 0")
  case True
  then show ?thesis using strtol_zero by (simp add: show_nat_0)
next
  case False
  then show ?thesis
    using assms by (simp add: strtol_def strip_sign_show_nat strip_base_show_nat takeWhile_digits number_show_nat LONG_MAX_def Let_def)
      (simp add: show_nat_def)
qed

lemma strtol_minus:
  assumes "int n \<le> LONG_MAX" "0 < n"
  shows "strtol (CHR ''-'' # show_nat n) 0 = Some (- int n, False, [])"
proof -
  have "strip_sign (dropWhile isspace (CHR ''-'' # show_nat n)) = (True, show_nat n)"
    by (simp add: strip_sign_def isspace_def)
  then show ?thesis
    using assms by (simp add: strtol_def strip_base_show_nat takeWhile_digits number_show_nat LONG_MAX_def Let_def)
      (simp add: show_nat_def)
qed

lemma parse_reg_show_nat: "int n \<le> LONG_MAX \<Longrightarrow> parse_reg (CHR ''R'' # show_nat n) = Some (int_of_long (int n))"
  by (simp add: parse_reg_def strtol_show_nat)

lemma sint_cases: "sint (w :: u32) = int (unat w) \<and> unat w < 2147483648 \<or> sint w = int (unat w) - 4294967296 \<and> 2147483648 \<le> unat w"
proof (cases "bit w 31")
  case True
  have s: "sint w = uint w - 4294967296"
    using True take_bit_int_eq_self [of "uint w" 32] uint_bounded [of w]
    by (simp add: sint_uint signed_take_bit_eq_take_bit_minus bit_unsigned_iff)
  moreover have "sint w < 2147483648" "- 2147483648 \<le> sint w"
    using sint_less [of w] sint_greater_eq [of w] by simp_all
  moreover have "uint w = int (unat w)" by simp
  ultimately show ?thesis by linarith
next
  case False
  have "sint w = uint w"
    using False take_bit_int_eq_self [of "uint w" 32] uint_bounded [of w]
    by (simp add: sint_uint signed_take_bit_eq_take_bit_minus bit_unsigned_iff)
  with not_bit_31 [OF False] show ?thesis by simp
qed

lemma int_of_long_small: "- 2147483648 \<le> v \<Longrightarrow> v < 2147483648 \<Longrightarrow> int_of_long v = v"
  by (simp add: int_of_long_def signed_of_int signed_take_bit_int_eq_self)

text \<open>
  The number of a register is cut to 32 bits before its range is checked: \<open>R\<close> followed
  by any decimal number up to the maximum of \<open>long\<close> is accepted exactly if its remainder modulo
  \<open>2 ^ 32\<close> is below 256, and then means the register of that remainder.
\<close>

theorem register_number_wraps:
  assumes "int n \<le> LONG_MAX"
  shows "parse_ab Bad_A A_Range [CHR ''R'' # show_nat n] 0 =
    (if n mod 2 ^ 32 < 256 then Inr (int (n mod 2 ^ 32)) else Inl A_Range)"
proof -
  let ?w = "of_nat n :: u32"
  have w: "unat ?w = n mod 4294967296" by (simp add: unsigned_of_nat take_bit_eq_mod)
  have i: "int_of_long (int n) = sint ?w" by (simp add: int_of_long_def)
  define u where "u = unat ?w"
  have u: "u = n mod 4294967296" and c: "sint ?w = int u \<and> u < 2147483648 \<or> sint ?w = int u - 4294967296 \<and> 2147483648 \<le> u"
    and l: "u < 4294967296"
    using w sint_cases [of ?w] unat_u32_less [of ?w] by (simp_all add: u_def del: int_nat_eq of_nat_unat)
  from c l have "0 \<le> sint ?w \<and> sint ?w \<le> 255 \<longleftrightarrow> u < 256" "u < 256 \<Longrightarrow> sint ?w = int u"
    by linarith+
  then show ?thesis
    using assms by (simp add: parse_ab_def parse_reg_show_nat check_reg_range_def i flip: u)
qed

theorem register_number_wraps_witness:
  "parse_ab Bad_A A_Range [CHR ''R'' # show_nat 4294967297] 0 = Inr 1"
  using register_number_wraps [of 4294967297] by (simp add: LONG_MAX_def)

section \<open>The disassembly as input\<close>

lemma list_all_replicate: "list_all P (replicate k c) \<longleftrightarrow> k = 0 \<or> P c"
  by (induction k) auto

lemma tokens_skip: "delim d \<Longrightarrow> tokens delim (d # s) = tokens delim s"
  by (subst (1 2) tokens.simps) simp

lemma tokens_blanks: "delim d \<Longrightarrow> tokens delim (replicate k d @ s) = tokens delim s"
  by (induction k) (simp_all add: tokens_skip)

lemma tokens_word:
  assumes "t \<noteq> []" "list_all (\<lambda>c. \<not> delim c) t" "delim d"
  shows "tokens delim (t @ d # s) = t # tokens delim s"
proof -
  have "takeWhile (\<lambda>c. \<not> delim c) (t @ d # s) = t" "dropWhile (\<lambda>c. \<not> delim c) (t @ d # s) = d # s"
    using assms by (auto simp: list_all_iff takeWhile_append2 dropWhile_append2)
  moreover have "dropWhile delim (t @ d # s) = t @ d # s" using assms by (cases t) auto
  ultimately show ?thesis using assms(1, 3) by (subst tokens.simps) (simp add: tokens_skip)
qed

definition plain :: "char \<Rightarrow> bool" where
  "plain c \<longleftrightarrow> \<not> asm_delim c \<and> c \<noteq> CHR 0x0A \<and> c \<noteq> CHR '';'' \<and> \<not> isspace c"

lemma plain_names: "list_all (\<lambda>t. t \<noteq> [] \<and> list_all plain t) opcode_names"
  by code_simp

lemma plain_name: "k < 68 \<Longrightarrow> opcode_names ! k \<noteq> [] \<and> list_all plain (opcode_names ! k)"
  using plain_names by (auto simp: list_all_length)

lemma plain_chars: "plain CHR ''R''" "plain CHR ''#''" "plain CHR ''-''"
  by code_simp+

lemma plain_show_nat: "list_all plain (show_nat n)"
  using show_nat_digits [of n] digit_plain by (auto simp: list_all_iff plain_def)

lemma plain_show_int: "list_all plain (show_int v)"
  by (simp add: show_int_def plain_show_nat plain_chars)

lemma strtol_show_int:
  assumes "- 128 \<le> v" "v \<le> 127"
  shows "strtol (show_int v) 0 = Some (v, False, [])"
proof (cases "v < 0")
  case True
  then show ?thesis using assms strtol_minus [of "nat (- v)"] by (simp add: show_int_def LONG_MAX_def)
next
  case False
  then show ?thesis using assms strtol_show_nat [of "nat v"] by (simp add: show_int_def LONG_MAX_def)
qed

lemma parse_ab_register:
  "k < length toks \<Longrightarrow> toks ! k = CHR ''R'' # show_nat (unat (r :: u8)) \<Longrightarrow> parse_ab bad off toks k = Inr (int (unat r))"
  using unat_u8_less [of r]
  by (simp add: parse_ab_def parse_reg_show_nat int_of_long_small LONG_MAX_def check_reg_range_def del: of_nat_unat)

lemma parse_c_register:
  "k < length toks \<Longrightarrow> toks ! k = CHR ''R'' # show_nat (unat (r :: u8)) \<Longrightarrow> parse_c f toks k = Inr (OP_REG (int (unat r)))"
  using unat_u8_less [of r]
  by (simp add: parse_c_def parse_reg_show_nat int_of_long_small LONG_MAX_def check_reg_range_def del: of_nat_unat)

lemma parse_c_immediate:
  assumes "k < length toks" "toks ! k = CHR ''#'' # show_int v" "- 128 \<le> v" "v \<le> 127"
  shows "parse_c CFLAG_ALLOW_IMM toks k = Inr (OP_IMM v)"
proof -
  have "to_lower CHR ''#'' = CHR ''#''" by code_simp
  then have "parse_reg (toks ! k) = None" using assms(2) by (simp add: parse_reg_def)
  moreover have "parse_immediate (toks ! k) = Some v"
    using assms by (simp add: parse_immediate_def strtol_show_int int_of_long_small)
  ultimately show ?thesis using assms by (simp add: parse_c_def check_imm8_range_def)
qed

definition inst_tokens :: "u32 \<Rightarrow> string list" where
  "inst_tokens w = [opcode_names ! unat (OPC w), CHR ''R'' # show_nat (unat (RA w)), CHR ''R'' # show_nat (unat (RB w)),
     if FIMM w then CHR ''#'' # show_int (sint (SEXTIMM8 w)) else CHR ''R'' # show_nat (unat (ucast (RC w) :: u8))]"

lemma and_FF_u32: "ucast (ucast (w :: u32) :: u8) = w AND 0xFF"
  unfolding and_masks by (rule bit_word_eqI) (simp add: bit_simps)

lemma word_int_unat: "word_of_int (int (unat (b :: u8))) AND 0xFF = (ucast b :: u32)"
proof -
  have "(word_of_int (int (unat b)) :: u32) = ucast b" by simp
  moreover have "ucast b AND 0xFF = (ucast b :: u32)"
    using and_FF_u32 [of "ucast b"] by simp
  ultimately show ?thesis by (simp only:)
qed

lemma c_field_register: "\<not> FIMM w \<Longrightarrow> c_field (OP_REG (int (unat (ucast (RC w) :: u8)))) = push_bit 8 (b2w (FIMM w)) OR IMM8 w"
  unfolding c_field_def operand.case word_int_unat
  by (simp add: RC_def IMM8_def ucast_and_FF and_FF_u32)

lemma c_field_immediate: "FIMM w \<Longrightarrow> c_field (OP_IMM (sint (SEXTIMM8 w))) = push_bit 8 (b2w (FIMM w)) OR IMM8 w"
proof -
  assume f: "FIMM w"
  have "(word_of_int (sint (SEXTIMM8 w)) :: u8) = ucast w"
    by (simp add: sint_SEXTIMM8)
  then show ?thesis
    using f and_FF_u32 [of w] and_FF_u32 [of "ucast (ucast w :: u8)"]
    by (simp add: c_field_def IMM8_def)
qed

lemma list_all_digits_of: "list_all (\<lambda>c. c \<noteq> CHR 0x0A \<and> c \<noteq> CHR '';'' \<and> \<not> asm_delim c) (digits_of 16 n)"
proof (induction n rule: less_induct)
  case (less n)
  have "list_all (\<lambda>d. (\<lambda>c. c \<noteq> CHR 0x0A \<and> c \<noteq> CHR '';'' \<and> \<not> asm_delim c) (digit_char d)) [0..<16]"
    by code_simp
  then have "d < 16 \<Longrightarrow> (\<lambda>c. c \<noteq> CHR 0x0A \<and> c \<noteq> CHR '';'' \<and> \<not> asm_delim c) (digit_char d)" for d
    by (simp only: list_all_iff) simp
  with less show ?case
    by (cases "n < 16") (simp_all add: digits_of.simps [of 16 n])
qed

definition inst_tail :: "u32 \<Rightarrow> string" where
  "inst_tail w = ''[0x'' @ hex8 w @ '']''"

lemma plain_list_all: "list_all plain s \<Longrightarrow> list_all (\<lambda>c. \<not> asm_delim c) s"
  "list_all plain s \<Longrightarrow> list_all (\<lambda>c. c \<noteq> CHR 0x0A \<and> c \<noteq> CHR '';'') s"
  by (auto simp: list_all_iff plain_def)

lemma inst_tail_ok: "inst_tail w \<noteq> []" "list_all (\<lambda>c. \<not> asm_delim c) (inst_tail w)"
  "list_all (\<lambda>c. c \<noteq> CHR 0x0A \<and> c \<noteq> CHR '';'') (inst_tail w)"
proof -
  define d where "d = digits_of 16 (unat w)"
  have "list_all (\<lambda>c. \<not> asm_delim c) d" "list_all (\<lambda>c. c \<noteq> CHR 0x0A \<and> c \<noteq> CHR '';'') d"
    using list_all_digits_of [of "unat w"] by (simp_all add: d_def list_all_iff)
  then show "inst_tail w \<noteq> []" "list_all (\<lambda>c. \<not> asm_delim c) (inst_tail w)"
    "list_all (\<lambda>c. c \<noteq> CHR 0x0A \<and> c \<noteq> CHR '';'') (inst_tail w)"
    by (simp_all add: inst_tail_def hex8_def pad_left_def list_all_replicate asm_delim_def flip: d_def)
qed

lemma fprintf_inst_split:
  assumes "unat (OPC w) < 68"
  shows "\<exists>k. fprintf_inst w = inst_tokens w ! 0 @ replicate k CHR '' '' @ CHR '' '' # inst_tokens w ! 1 @ CHR '','' #
    CHR '' '' # inst_tokens w ! 2 @ CHR '','' # CHR '' '' # inst_tokens w ! 3 @ CHR '' '' # CHR '' '' # inst_tail w"
  using assms
  by (intro exI [of _ "10 - length (opcode_names ! unat (OPC w))"])
    (simp add: fprintf_inst_def instr_fields opcode_name_def OPCODE_COUNT_def inst_tokens_def inst_tail_def pad_right_def Let_def)

lemma plain_inst_tokens:
  assumes "unat (OPC w) < 68"
  shows "list_all (\<lambda>t. t \<noteq> [] \<and> list_all plain t) (inst_tokens w)"
  using plain_name [OF assms] by (simp add: inst_tokens_def plain_show_nat plain_show_int plain_chars)

lemma delims: "asm_delim CHR '' ''" "asm_delim CHR '',''"
  by (simp_all add: asm_delim_def)

lemma tokens_inst:
  assumes "unat (OPC w) < 68"
  shows "tokens asm_delim (fprintf_inst w) = inst_tokens w @ [inst_tail w]"
proof -
  from fprintf_inst_split [OF assms] obtain k where s: "fprintf_inst w = inst_tokens w ! 0 @ replicate k CHR '' '' @
    CHR '' '' # inst_tokens w ! 1 @ CHR '','' # CHR '' '' # inst_tokens w ! 2 @ CHR '','' # CHR '' '' #
    inst_tokens w ! 3 @ CHR '' '' # CHR '' '' # inst_tail w" by blast
  then have s: "fprintf_inst w = inst_tokens w ! 0 @ CHR '' '' # replicate k CHR '' '' @
    inst_tokens w ! 1 @ CHR '','' # CHR '' '' # inst_tokens w ! 2 @ CHR '','' # CHR '' '' #
    inst_tokens w ! 3 @ CHR '' '' # CHR '' '' # inst_tail w" by (simp add: replicate_app_Cons_same)
  have t: "inst_tokens w ! i \<noteq> []" "list_all (\<lambda>c. \<not> asm_delim c) (inst_tokens w ! i)" if "i < 4" for i
    using plain_inst_tokens [OF assms] that plain_list_all(1) by (auto simp: list_all_length inst_tokens_def)
  have last: "tokens asm_delim (inst_tail w) = [inst_tail w]"
  proof -
    have d: "dropWhile asm_delim (inst_tail w) = inst_tail w"
      by (simp add: inst_tail_def asm_delim_def)
    have t: "takeWhile (\<lambda>c. \<not> asm_delim c) (inst_tail w) = inst_tail w"
      "dropWhile (\<lambda>c. \<not> asm_delim c) (inst_tail w) = []"
      using inst_tail_ok(2) by (auto simp: list_all_iff)
    show ?thesis using inst_tail_ok(1) by (subst tokens.simps) (simp add: d t Let_def tokens.simps [of _ "[]"])
  qed
  have "tokens asm_delim (fprintf_inst w) = [inst_tokens w ! 0, inst_tokens w ! 1, inst_tokens w ! 2, inst_tokens w ! 3, inst_tail w]"
    unfolding s by (simp add: tokens_word tokens_skip tokens_blanks t delims last)
  then show ?thesis by (simp add: inst_tokens_def)
qed

lemma inst_text:
  assumes "unat (OPC w) < 68"
  shows "list_all (\<lambda>c. c \<noteq> CHR 0x0A \<and> c \<noteq> CHR '';'') (fprintf_inst w)"
    "\<exists>c cs. fprintf_inst w = c # cs \<and> \<not> isspace c"
proof -
  note o = assms
  have t: "inst_tokens w ! i \<noteq> []" "list_all plain (inst_tokens w ! i)" if "i < 4" for i
    using plain_inst_tokens [OF o] that by (auto simp: list_all_length inst_tokens_def)
  note p = t(2) [THEN plain_list_all(2)]
  from fprintf_inst_split [OF o] obtain k where s: "fprintf_inst w = inst_tokens w ! 0 @ replicate k CHR '' '' @
    CHR '' '' # inst_tokens w ! 1 @ CHR '','' # CHR '' '' # inst_tokens w ! 2 @ CHR '','' # CHR '' '' #
    inst_tokens w ! 3 @ CHR '' '' # CHR '' '' # inst_tail w" by blast
  show "list_all (\<lambda>c. c \<noteq> CHR 0x0A \<and> c \<noteq> CHR '';'') (fprintf_inst w)"
    unfolding s using p inst_tail_ok(3) [of w] by (simp add: list_all_replicate)
  obtain c cs where "inst_tokens w ! 0 = c # cs" using t(1) [of 0] by (cases "inst_tokens w ! 0") auto
  with t(2) [of 0] show "\<exists>c cs. fprintf_inst w = c # cs \<and> \<not> isspace c" by (simp add: s plain_def)
qed

lemma assemble_tokens_word:
  assumes "\<not> raw \<Longrightarrow> \<not> strcasecmp_eq (hd toks) ''halt''" "opcode_from_name (hd toks) = Some op"
    and "parse_ab Bad_A A_Range toks 1 = Inr a" "parse_ab Bad_B B_Range toks 2 = Inr b"
    and "parse_c (oe_cflags (op_table ! op)) toks 3 = Inr c"
  shows "assemble_tokens raw toks = Inr (instr_word (of_nat op) (word_of_int a AND 0xFF) (word_of_int b AND 0xFF) (c_field c))"
  using assms by (cases raw) (simp_all add: assemble_tokens_def Let_def)

text \<open>
  C20 (roundtrip).  The instruction printed by the debugger is a line of assembly: for every word with an opcode of
  the table and an immediate only where the operation allows one, the assembler gives the same word back from
  \<open>fprintf_inst\<close>'s text, the hexadecimal word behind it being ignored.  The exception is \<open>HALT\<close>
  without \<open>--raw-halt\<close>, which is assembled as \<open>EXIT\<close>.
\<close>

theorem disassembly_assembles:
  assumes "unat (OPC w) < 68"
    and "FIMM w \<Longrightarrow> oe_cflags (op_table ! unat (OPC w)) = CFLAG_ALLOW_IMM"
    and "raw \<or> unat (OPC w) \<noteq> 66"
  shows "assemble_line raw (fprintf_inst w @ [CHR 0x0A]) = Some (Inr w)"
proof -
  note t = inst_text [OF assms(1)]
  let ?s = "fprintf_inst w" and ?toks = "inst_tokens w @ [inst_tail w]" and ?n = "opcode_names ! unat (OPC w)"
  have line: "assemble_line raw (?s @ [CHR 0x0A]) = Some (assemble_tokens raw ?toks)"
  proof -
    obtain c cs where c: "?s = c # cs" "\<not> isspace c" using t(2) by blast
    then have p: "dropWhile isspace (?s @ [CHR 0x0A]) = ?s @ [CHR 0x0A]" "hd (?s @ [CHR 0x0A]) = c" by simp_all
    have n: "c \<noteq> CHR 0x0A" "c \<noteq> CHR '';''" using t(1) c(1) by simp_all
    have q: "takeWhile (\<lambda>c. c \<noteq> CHR 0x0A) (?s @ [CHR 0x0A]) = ?s" "takeWhile (\<lambda>c. c \<noteq> CHR '';'') ?s = ?s"
      using t(1) by (simp_all add: list_all_iff takeWhile_append2 takeWhile_eq_all_conv)
    show ?thesis by (simp add: assemble_line_def Let_def p n q tokens_inst [OF assms(1)])
  qed
  have halt: "\<not> strcasecmp_eq ?n ''halt''" if "\<not> raw"
  proof
    assume "strcasecmp_eq ?n ''halt''"
    moreover have "oe_name (op_table ! 66) = ''halt''" by (simp add: op_table_def)
    ultimately have "opcode_from_name ?n = Some 66"
      using lower_table by (intro opcode_from_lower) (simp_all add: strcasecmp_eq_def)
    then show False using opcode_from_opcode_names [OF assms(1)] assms(3) that by simp
  qed
  have ab: "parse_ab Bad_A A_Range ?toks 1 = Inr (int (unat (RA w)))" "parse_ab Bad_B B_Range ?toks 2 = Inr (int (unat (RB w)))"
    by (rule parse_ab_register; simp add: inst_tokens_def)+
  have "\<exists>c. parse_c (oe_cflags (op_table ! unat (OPC w))) ?toks 3 = Inr c \<and> c_field c = push_bit 8 (b2w (FIMM w)) OR IMM8 w"
  proof (cases "FIMM w")
    case True
    have "- 128 \<le> sint (SEXTIMM8 w)" "sint (SEXTIMM8 w) \<le> 127"
      using sint_greater_eq [of "ucast w :: u8"] sint_less [of "ucast w :: u8"] by (simp_all add: sint_SEXTIMM8)
    then show ?thesis using parse_c_immediate [of 3 ?toks] True assms(2) c_field_immediate [of w] by (simp add: inst_tokens_def)
  next
    case False
    then show ?thesis using parse_c_register [of 3 ?toks] c_field_register [of w] by (simp add: inst_tokens_def)
  qed
  then obtain c where c: "parse_c (oe_cflags (op_table ! unat (OPC w))) ?toks 3 = Inr c"
    "c_field c = push_bit 8 (b2w (FIMM w)) OR IMM8 w" by blast
  have "instr_word (of_nat (unat (OPC w))) (word_of_int (int (unat (RA w))) AND 0xFF) (word_of_int (int (unat (RB w))) AND 0xFF)
     (push_bit 8 (b2w (FIMM w)) OR IMM8 w) = w"
    using instr_word_of_fields [of w] unfolding word_int_unat by simp
  moreover have "hd ?toks = ?n" by (simp add: inst_tokens_def)
  ultimately show ?thesis
    using assemble_tokens_word [of raw ?toks, OF _ _ ab c(1)] halt opcode_from_opcode_names [OF assms(1)]
    by (simp only: line c(2) not_False_eq_True simp_thms)
qed

theorem disassembly_assembles_witness:
  "assemble_line False (fprintf_inst (instr_word 1 4 5 261) @ [CHR 0x0A]) = Some (Inr (instr_word 1 4 5 261))"
proof -
  have o: "OPC (instr_word 1 4 5 261) = 1" by (simp add: OPC_def instr_word_def)
  show ?thesis
    by (rule disassembly_assembles) (simp_all add: o op_table_def)
qed

text \<open>
  The assembler, the debugger and the machine number the operations alike: the assembler gives
  the debugger's name of every opcode that opcode, its own names too, and there are as many as the machine has
  handlers.
\<close>

theorem opcode_tables_agree:
  "map opcode_from_name opcode_names = map Some [0..<length default_op_ex] \<and>
   map (opcode_from_name \<circ> oe_name) op_table = map (Some \<circ> oe_code) op_table \<and>
   length op_table = length default_op_ex"
proof -
  have "map opcode_from_name opcode_names = map Some [0..<68]"
    by (rule nth_equalityI) (simp_all add: opcode_from_opcode_names)
  moreover have "map (opcode_from_name \<circ> oe_name) op_table = map Some [0..<68]"
    by (rule nth_equalityI) (simp_all add: opcode_from_table)
  moreover have "map (Some \<circ> oe_code) op_table = map Some [0..<68]"
    by (simp only: op_table_codes flip: map_map)
  moreover have "length default_op_ex = 68" by (simp add: default_op_ex_def)
  ultimately show ?thesis by (simp only: length_tables simp_thms)
qed

end
