(* ===== verification/VM_Main.thy ===== *)
theory VM_Main
  imports Control
begin

text \<open>
  The registered cleanups (\<open>cleanup.c\<close>) and the program \<open>main\<close> (\<open>main.c\<close>): from the command line
  to the exit code.  The main loop is given the cycles it is to run; a signal is the stop request
  of one of them.
\<close>

section \<open>Cleanups\<close>

record ('f, 'c) Cleanup =
  cl_fn :: "'f option"
  cl_ctx :: 'c

definition vm_register_cleanup :: "'f option \<Rightarrow> 'c \<Rightarrow> ('f, 'c) Cleanup list \<Rightarrow> ('f, 'c) Cleanup list" where
  "vm_register_cleanup fn ctx cleanup_list =
     (case fn of None \<Rightarrow> cleanup_list | Some _ \<Rightarrow> \<lparr>cl_fn = fn, cl_ctx = ctx\<rparr> # cleanup_list)"

text \<open>A cleanup acts on the state of the program and may register others, which wait for the next
  call.\<close>

fun cleanup_loop :: "('f \<Rightarrow> 'c \<Rightarrow> 's \<times> ('f, 'c) Cleanup list \<Rightarrow> 's \<times> ('f, 'c) Cleanup list) \<Rightarrow>
    ('f, 'c) Cleanup list \<Rightarrow> 's \<times> ('f, 'c) Cleanup list \<Rightarrow> 's \<times> ('f, 'c) Cleanup list" where
  "cleanup_loop call [] s = s"
| "cleanup_loop call (c # next) s =
     cleanup_loop call next (case cl_fn c of None \<Rightarrow> s | Some fn \<Rightarrow> call fn (cl_ctx c) s)"

definition run_cleanups :: "('f \<Rightarrow> 'c \<Rightarrow> 's \<times> ('f, 'c) Cleanup list \<Rightarrow> 's \<times> ('f, 'c) Cleanup list) \<Rightarrow>
    's \<times> ('f, 'c) Cleanup list \<Rightarrow> 's \<times> ('f, 'c) Cleanup list" where
  "run_cleanups call s = cleanup_loop call (snd s) (fst s, [])"

definition vm_request_stop :: "bool \<Rightarrow> bool" where
  "vm_request_stop vm_stop_requested = True"

text \<open>The signal handler, with the active machine.\<close>

definition handle_sigterm_global :: "bool \<times> vm_state option \<Rightarrow> bool \<times> vm_state option" where
  "handle_sigterm_global s =
     (True, case snd s of None \<Rightarrow> None | Some vm \<Rightarrow> Some (vm\<lparr>stop_requested := True\<rparr>))"

section \<open>The program\<close>

record main_env =
  me_vm :: bool
  me_mem :: bool
  me_now :: timespec
  me_getopt :: "string list \<Rightarrow> (int \<times> string) list \<times> string list"
  me_prog :: string
  me_strdup :: bool
  me_strdup_default :: bool
  me_heap :: heap_env
  me_fs :: file_system
  me_calloc :: "u32 \<Rightarrow> bool"
  me_malloc :: "nat \<Rightarrow> bool"
  me_log_opened :: bool
  me_date :: string
  me_tick :: timespec
  me_start :: timespec

text \<open>\<open>main\<close> returned a code, with what is left of the machine, or the machine goes on behind the
  given cycles.\<close>

datatype main_result = Exited int "vm_state option" | Running vm_state

definition default_program_dir :: cstr where
  "default_program_dir = cstr_of ''build/programs''"

definition vm_main :: "main_env \<Rightarrow> string list \<Rightarrow> cycle_env list \<Rightarrow> (main_result \<times> event list) res" where
  "vm_main me args ces =
     (case vm_create (me_vm me) (me_mem me) (me_now me) of
        None \<Rightarrow> Inr (Exited 1 None, [])
      | Some vm \<Rightarrow>
          let (opts, parse_rc, msg) = vm_parse_cli (me_getopt me) (me_prog me) args in
          if parse_rc \<noteq> 0 then Inr (Exited (if parse_rc > 0 then 0 else 1) (vm_destroy (Some vm)), []) else
          let (vm, rc) = vm_apply_cli_options (me_strdup me) vm opts in
          if rc \<noteq> 0 then Inr (Exited 1 (vm_destroy (Some vm)), []) else
          if program_dir vm = None \<and> \<not> me_strdup_default me then Inr (Exited 1 (vm_destroy (Some vm)), []) else
          let dir = (case program_dir vm of None \<Rightarrow> default_program_dir | Some d \<Rightarrow> d);
              vm = vm\<lparr>program_dir := Some dir\<rparr> in
          if vm_validate_config (me_fs me) vm \<noteq> 0 then Inr (Exited 1 (vm_destroy (Some vm)), []) else
          bindR (reload_programs_from_directory (me_heap me) (me_fs me) vm dir) (\<lambda>(vm, rc).
          if rc \<noteq> 0 then Inr (Exited 1 (vm_destroy (Some vm)), []) else
          let vm = vm\<lparr>program_dir_signature :=
                fst (directory_changed (me_heap me) (me_fs me) dir (program_dir_signature vm))\<rparr>;
              vm = timers_init vm in
          bindR (vm_tables_init (me_calloc me) (me_malloc me) vm) (\<lambda>(vm, _).
          bindR (run_program (me_log_opened me) (me_date me) (me_tick me) (me_start me) ces vm) (\<lambda>(vm, out, go).
          Inr (if go then Running vm else Exited 0 (vm_destroy (Some (vm_tables_destroy vm))), out)))))"

section \<open>Cleanups run once, the newest first\<close>

lemma register_fold:
  "fold (\<lambda>(f, c). vm_register_cleanup (Some f) c) fcs l = rev (map (\<lambda>(f, c). \<lparr>cl_fn = Some f, cl_ctx = c\<rparr>) fcs) @ l"
  by (induction fcs arbitrary: l) (auto simp: vm_register_cleanup_def)

lemma cleanup_loop_fold:
  "cleanup_loop call (map (\<lambda>(f, c). \<lparr>cl_fn = Some f, cl_ctx = c\<rparr>) fcs) s = fold (\<lambda>(f, c). call f c) fcs s"
  by (induction fcs arbitrary: s) auto

lemma run_cleanups_newest_first:
  "run_cleanups call (s, fold (\<lambda>(f, c). vm_register_cleanup (Some f) c) fcs []) =
   fold (\<lambda>(f, c). call f c) (rev fcs) (s, [])"
  unfolding run_cleanups_def register_fold by (simp add: rev_map cleanup_loop_fold)

section \<open>Setting up\<close>

lemma created_ok:
  assumes "vm_create True True now = Some vm"
  shows "vm_ok vm \<and> PC_START vm = 0x3000 \<and> program_dir vm = None"
proof -
  have vm: "vm = vm_state_init_common now vm_zero"
    using assms by (simp add: vm_create_def) (simp add: vm_zero_def)
  have "vm_wf vm" using init_common_wf [of vm_zero now] by (simp add: vm)
  then show ?thesis
    by (simp add: vm_ok_def cache_sane_def modules_inside_def program_inside_def vm init_common_eq)
      (simp add: vm_zero_def vm_state_init_opcode_table_def)
qed

lemma apply_cli_ok:
  assumes "vm_ok vm"
  shows "vm_ok (fst (vm_apply_cli_options dup vm opts)) \<and> PC_START (fst (vm_apply_cli_options dup vm opts)) = PC_START vm \<and>
    modules (fst (vm_apply_cli_options dup vm opts)) = modules vm"
proof -
  have "vm_ok (set_config_if g f v) = vm_ok v" "PC_START (set_config_if g f v) = PC_START v"
    "modules (set_config_if g f v) = modules v" for g f v
    by (simp_all add: set_config_if_def vm_ok_def cache_sane_def modules_inside_def program_inside_def)
  moreover have "vm_ok (vm\<lparr>program_dir := d\<rparr>)" for d
    using assms by (simp add: vm_ok_def cache_sane_def modules_inside_def program_inside_def)
  ultimately show ?thesis
    using assms by (simp add: vm_apply_cli_options_def Let_def)
qed

lemma timers_init_ok:
  assumes "vm_ok vm"
  shows "vm_ok (timers_init vm) \<and> PC_START (timers_init vm) = PC_START vm \<and> modules (timers_init vm) = modules vm \<and>
    program_dir (timers_init vm) = program_dir vm"
  using assms
  by (simp add: vm_ok_def cache_sane_def modules_inside_def program_inside_def timers_init_def) (simp add: vm_wf_def)

lemma create_table:
  fixes kt :: "'k key_type"
  assumes "ca MIN_TABLE_SIZE" "kt_cmp kt = (=)"
  shows "\<exists>t :: ('k, 'v) hash_table option. hash_table_create ca ok kt = Inr t \<and> (\<forall>x. t = Some x \<longrightarrow> ht_inv x \<and> ht_map x = Map.empty \<and>
    tbl_size x = 8 \<and> used x = 0)"
proof (cases ok)
  case True
  then show ?thesis using hash_table_create_map [of ca kt] assms by (auto simp: MIN_TABLE_SIZE_def)
qed (simp add: hash_table_create_def)

lemma tables_init_ok:
  assumes "vm_ok vm" "ca MIN_TABLE_SIZE"
  shows "\<exists>vm' rc. vm_tables_init ca mk vm = Inr (vm', rc) \<and> vm_ok vm' \<and> PC_START vm' = PC_START vm \<and> modules vm' = modules vm \<and>
    program_dir vm' = program_dir vm"
proof -
  obtain l :: "(cstr, u32) hash_table option" where l: "hash_table_create ca (mk 0) string_key_type = Inr l"
    using create_table [of ca string_key_type "mk 0"] assms(2) by (auto simp: string_key_type_def)
  obtain b :: "(u32, u32) hash_table option" where b: "hash_table_create ca (mk 1) uint32_key_type = Inr b"
    using create_table [of ca uint32_key_type "mk 1"] assms(2) by (auto simp: uint32_key_type_def)
  obtain d :: "(u32, decoded_instr) hash_table option" where d: "hash_table_create ca (mk 2) uint32_key_type = Inr d"
    "\<forall>x. d = Some x \<longrightarrow> ht_inv x \<and> ht_map x = Map.empty \<and> tbl_size x = 8 \<and> used x = 0"
    using create_table [of ca uint32_key_type "mk 2"] assms(2) by (auto simp: uint32_key_type_def)
  have ok: "vm_ok (vm\<lparr>labels := l', breakpoints := b', decoded_cache := d'\<rparr>)"
    if "d' = decoded_cache vm \<or> d' = d" for l' b' d'
  proof -
    have "cache_sane (vm\<lparr>labels := l', breakpoints := b', decoded_cache := d'\<rparr>)"
      using that
    proof
      assume "d' = decoded_cache vm"
      then show ?thesis using assms(1) by (simp add: vm_ok_def cache_sane_def)
    next
      assume "d' = d"
      then show ?thesis using d(2) by (auto simp: cache_sane_def)
    qed
    then show ?thesis using assms(1) by (simp add: vm_ok_def modules_inside_def program_inside_def)
  qed
  have swap: "vm\<lparr>breakpoints := None, labels := None\<rparr> = vm\<lparr>labels := None, breakpoints := None\<rparr>"
    "vm\<lparr>decoded_cache := None, breakpoints := None, labels := None\<rparr> = vm\<lparr>labels := None, breakpoints := None, decoded_cache := None\<rparr>"
    by simp_all
  show ?thesis
    using ok [where l' = l and b' = "breakpoints vm" and d' = "decoded_cache vm"]
      ok [where l' = None and b' = b and d' = "decoded_cache vm"] ok [where l' = None and b' = None and d' = d]
      ok [where l' = l and b' = b and d' = d]
    unfolding vm_tables_init_def l b d(1) bindR_simps Let_def
    by (cases "l = None"; cases "b = None"; cases "d = None") (auto simp: swap)
qed

section \<open>The whole run\<close>

lemma vm_destroy_None [simp]: "vm_destroy vm = None"
  by (simp add: vm_destroy_def Let_def split: option.splits)

text \<open>The start up to the main loop, with options that are accepted and a good directory.\<close>

lemma main_starts:
  assumes "me_vm me" "me_mem me" "me_strdup me" "me_strdup_default me" "heap_ok (me_heap me)" "me_calloc me MIN_TABLE_SIZE"
    and "vm_parse_cli (me_getopt me) (me_prog me) args = (opts, 0, msg)"
    and "\<not> (has_clock_rate_hz opts \<and> o_clock_rate_hz opts = 0)" "\<not> (has_cycle_time_ms opts \<and> o_cycle_time_ms opts = 0)"
    and "dir = (case o_program_dir opts of None \<Rightarrow> default_program_dir | Some d \<Rightarrow> d)" "dir \<noteq> []"
    and "path_is_directory (me_fs me) dir" "good_directory (me_fs me) dir 0x3000 files"
  shows "\<exists>vm. vm_ok vm \<and> program_dir vm = Some dir \<and> PC_START vm = 0x3000 \<and> modules vm \<noteq> None \<and>
    vm_main me args ces = bindR (run_program (me_log_opened me) (me_date me) (me_tick me) (me_start me) ces vm)
      (\<lambda>(vm, out, go). Inr (if go then Running vm else Exited 0 None, out))"
proof -
  obtain vm0 where vm0: "vm_create True True (me_now me) = Some vm0" by (auto simp: vm_create_def)
  note ok0 = created_ok [OF vm0]
  have valid0: "valid_numbers (config vm0)"
    using vm0 init_common_eq [of vm_zero "me_now me"]
    by (simp add: vm_create_def) (simp add: vm_zero_def valid_numbers_def known_algo_def)
  obtain vm1 where vm1: "vm_apply_cli_options True vm0 opts = (vm1, 0)"
    using assms(8,9) by (simp add: vm_apply_cli_options_def Let_def)
  have algo: "known_algo (o_hash_algo opts)"
    using vm_parse_cli_algo [of "me_getopt me" "me_prog me" args] assms(7) by simp
  note valid1 = apply_cli_valid [OF valid0 algo vm1]
  have ok1: "vm_ok vm1" "PC_START vm1 = 0x3000" using apply_cli_ok [of vm0 True opts] ok0 vm1 by simp_all
  let ?dir = "case program_dir vm1 of None \<Rightarrow> default_program_dir | Some d \<Rightarrow> d"
  have dir: "?dir = dir" using valid1 ok0 assms(10) by (simp split: option.splits)
  let ?vm2 = "vm1\<lparr>program_dir := Some dir\<rparr>"
  have ok2: "vm_ok ?vm2" using ok1 by (simp add: vm_ok_def cache_sane_def modules_inside_def program_inside_def)
  have validated: "vm_validate_config (me_fs me) ?vm2 = 0"
    using valid1 assms(11,12) by (auto simp: vm_validate_config_def valid_numbers_def known_algo_def)
  obtain hash where load: "reload_programs_from_directory (me_heap me) (me_fs me) ?vm2 dir =
      Inr ((loaded ?vm2 files)\<lparr>program_hash := hash\<rparr>, 0)"
    using reload_good [OF assms(5), of "me_fs me" dir ?vm2 files] assms(13) ok1 by auto
  define vm3 where "vm3 = (loaded ?vm2 files)\<lparr>program_hash := hash\<rparr>"
  have ok3: "vm_ok vm3" "program_dir vm3 = Some dir" "PC_START vm3 = 0x3000" "modules vm3 \<noteq> None"
    using loaded_ok [OF ok2, of files hash] assms(13) ok1 by (simp_all add: good_directory_def vm3_def loaded_def)
  define vm4 where "vm4 = timers_init (vm3\<lparr>program_dir_signature :=
     fst (directory_changed (me_heap me) (me_fs me) dir (program_dir_signature vm3))\<rparr>)"
  have "vm_ok (vm3\<lparr>program_dir_signature := s\<rparr>)" for s
    using ok3 by (simp add: vm_ok_def cache_sane_def modules_inside_def program_inside_def)
  from timers_init_ok [OF this] have ok4: "vm_ok vm4" "program_dir vm4 = Some dir" "PC_START vm4 = 0x3000" "modules vm4 \<noteq> None"
    using ok3 by (simp_all add: vm4_def)
  obtain vm5 rc where vm5: "vm_tables_init (me_calloc me) (me_malloc me) vm4 = Inr (vm5, rc)" "vm_ok vm5"
      "PC_START vm5 = PC_START vm4" "modules vm5 = modules vm4" "program_dir vm5 = program_dir vm4"
    using tables_init_ok [OF ok4(1), of "me_calloc me" "me_malloc me"] assms(6) by blast
  have "vm_main me args ces = bindR (run_program (me_log_opened me) (me_date me) (me_tick me) (me_start me) ces vm5)
      (\<lambda>(vm, out, go). Inr (if go then Running vm else Exited 0 None, out))"
    using assms(1-4) unfolding vm_main_def vm_destroy_None
    by (simp add: vm0 assms(7) vm1 dir validated load Let_def vm5(1) flip: vm3_def vm4_def)
  with vm5 ok4 show ?thesis by auto
qed

text \<open>
  C3 (safety).  The whole program, from its command line: started with accepted options on a readable
  directory, for any options, cycles, readings of the clock and changes of the directory to other readable ones,
  it never accesses memory out of bounds and never trips an assertion; it runs on in order, with a program, as
  long as no cycle was asked to stop, and a stopped one has given its machine back and returns 0,
  whatever exit code the program had set.
\<close>

theorem main_end_to_end:
  assumes "me_vm me" "me_mem me" "me_strdup me" "me_strdup_default me" "heap_ok (me_heap me)" "me_calloc me MIN_TABLE_SIZE"
    and "vm_parse_cli (me_getopt me) (me_prog me) args = (opts, 0, msg)"
    and "\<not> (has_clock_rate_hz opts \<and> o_clock_rate_hz opts = 0)" "\<not> (has_cycle_time_ms opts \<and> o_cycle_time_ms opts = 0)"
    and "dir = (case o_program_dir opts of None \<Rightarrow> default_program_dir | Some d \<Rightarrow> d)" "dir \<noteq> []"
    and "path_is_directory (me_fs me) dir" "good_directory (me_fs me) dir 0x3000 files"
    and "\<forall>ce \<in> set ces. cycle_ok dir 0x3000 ce"
  shows "case vm_main me args ces of
      Inl f \<Rightarrow> f \<in> {Bad_Conversion, Signed_Overflow, Overlapping_Copy}
    | Inr (Running vm, out) \<Rightarrow> vm_ok vm \<and> program_dir vm = Some dir \<and> modules vm \<noteq> None \<and> \<not> (\<exists>ce \<in> set ces. ce_stop ce)
    | Inr (Exited rc left, out) \<Rightarrow> rc = 0 \<and> left = None"
proof -
  from main_starts [OF assms(1-13)] obtain vm where
    vm: "vm_ok vm" "program_dir vm = Some dir" "PC_START vm = 0x3000" "modules vm \<noteq> None"
      "vm_main me args ces = bindR (run_program (me_log_opened me) (me_date me) (me_tick me) (me_start me) ces vm)
        (\<lambda>(vm, out, go). Inr (if go then Running vm else Exited 0 None, out))" by blast
  from run_program_ok [OF vm(1,2), of ces "me_log_opened me" "me_date me" "me_tick me" "me_start me"] assms(14) vm(3,4)
  show ?thesis
    unfolding vm(5)
    by (cases "run_program (me_log_opened me) (me_date me) (me_tick me) (me_start me) ces vm")
      (auto simp: run_fault_def split: prod.splits)
qed

definition sample_main :: main_env where
  "sample_main = \<lparr>me_vm = True, me_mem = True, me_now = zero_timespec,
     me_getopt = (\<lambda>_. ([(2, ''500'')], [''p''])), me_prog = ''vm'', me_strdup = True, me_strdup_default = True,
     me_heap = sample_heap,
     me_fs = sample_dir\<lparr>fs_stat := (fs_stat sample_dir)([112] \<mapsto> \<lparr>st_regular = False, st_directory = True, st_size = 0, st_mtime = 0\<rparr>)\<rparr>,
     me_calloc = \<lambda>_. True, me_malloc = \<lambda>_. True, me_log_opened = True, me_date = [],
     me_tick = zero_timespec, me_start = zero_timespec\<rparr>"

lemma sample_main_good: "good_directory (me_fs sample_main) [112] 0x3000 sample_files"
proof -
  have "is_program (me_fs sample_main) [112] = is_program sample_dir [112]"
    by (rule ext) (simp add: is_program_def file_is_regular_def sample_main_def)
  then show ?thesis
    using sample_good by (simp add: good_directory_def program_files_def) (simp add: sample_main_def)
qed

theorem main_end_to_end_witness:
  "case vm_main sample_main [] [sample_cycle, sample_cycle\<lparr>ce_stop := True\<rparr>] of
      Inl f \<Rightarrow> f \<noteq> Out_Of_Bounds
    | Inr (Running vm, out) \<Rightarrow> False
    | Inr (Exited rc left, out) \<Rightarrow> rc = 0"
proof -
  have n: "show_nat 500 = ''500''" by (simp add: show_nat_def digits_of.simps digit_char_def) code_simp
  have p: "parse_u32 ''500'' = Some 500" using parse_u32_number [of 500] unfolding n by simp
  let ?opts = "vm_cli_options_init\<lparr>has_cycle_time_ms := True, o_cycle_time_ms := 500, o_program_dir := Some [112]\<rparr>"
  have parse: "vm_parse_cli (me_getopt sample_main) (me_prog sample_main) [] = (?opts, 0, [])"
    by (simp add: vm_parse_cli_def cli_option_def p cstr_of_def sample_main_def)
  have dir: "path_is_directory (me_fs sample_main) [112]" by (simp add: path_is_directory_def sample_main_def)
  have cycles: "\<forall>ce \<in> set [sample_cycle, sample_cycle\<lparr>ce_stop := True\<rparr>]. cycle_ok [112] 0x3000 ce"
    using sample_cycle_ok by (simp add: cycle_ok_def)
  have env: "me_vm sample_main" "me_mem sample_main" "me_strdup sample_main" "me_strdup_default sample_main"
    "heap_ok (me_heap sample_main)" "me_calloc sample_main MIN_TABLE_SIZE"
    using sample_heap_ok by (simp_all add: sample_main_def)
  have opts: "\<not> (has_clock_rate_hz ?opts \<and> o_clock_rate_hz ?opts = 0)" "\<not> (has_cycle_time_ms ?opts \<and> o_cycle_time_ms ?opts = 0)"
    "[112] = (case o_program_dir ?opts of None \<Rightarrow> default_program_dir | Some d \<Rightarrow> d)"
    by (simp_all add: vm_cli_options_init_def)
  from main_end_to_end [OF env parse opts _ dir sample_main_good cycles] show ?thesis
    by (auto split: sum.splits main_result.splits)
qed

end
