(* ===== verification/Toolchain.thy ===== *)
theory Toolchain
  imports Converter VM_Main Control
begin

text \<open>
  From the source text to the fetched instruction: what the assembler writes, the loader places, and
  the machine reads back.  The lemmas join the theories \<open>Converter\<close>, \<open>Loader\<close> and \<open>Runtime\<close>.
\<close>

section \<open>What the assembler writes\<close>

text \<open>The words of the lines that hold an instruction.\<close>

definition assembled :: "bool \<Rightarrow> string list \<Rightarrow> u32 list" where
  "assembled raw lines = concat (map (\<lambda>l. case assemble_line raw l of Some (Inr w) \<Rightarrow> [w] | _ \<Rightarrow> []) lines)"

lemma assembled_simps [simp]:
  "assembled raw [] = []"
  "assembled raw (l # ls) = (case assemble_line raw l of Some (Inr w) \<Rightarrow> w # assembled raw ls | _ \<Rightarrow> assembled raw ls)"
  by (simp_all add: assembled_def split: option.split sum.split)

abbreviation word_bytes :: "u32 list \<Rightarrow> u8 list" where
  "word_bytes ws \<equiv> concat (map le32 ws)"

lemma assemble_lines_output:
  "assemble_lines raw ok lines out = (0, bytes) \<Longrightarrow> bytes = out @ word_bytes (assembled raw lines)"
proof (induction raw ok lines out rule: assemble_lines.induct)
  case (2 raw ok l ls out)
  show ?case
  proof (cases "assemble_line raw l")
    case None
    with 2 show ?thesis by simp
  next
    case (Some r)
    show ?thesis
    proof (cases r)
      case (Inl e)
      with Some 2(3) show ?thesis by simp
    next
      case (Inr w)
      with Some 2 show ?thesis by (simp split: if_splits)
    qed
  qed
qed simp

lemma length_word_bytes [simp]: "length (word_bytes ws) = 4 * length ws"
  by (induction ws) simp_all

text \<open>Every assembled word names an operation.\<close>

lemma index_of_bound: "index_of es name i = Some k \<Longrightarrow> i \<le> k \<and> k < i + length es"
  by (induction es arbitrary: i) (fastforce split: if_splits)+

lemma opcode_bound: "opcode_from_name name = Some op \<Longrightarrow> op < 68"
  using index_of_bound [of op_table name 0 op] by (simp add: opcode_from_name_def)

lemma c_field_bound: "unat (c_field c) < 512"
proof -
  have "take_bit 9 (c_field c) = c_field c"
  proof (rule bit_word_eqI)
    fix n
    have exp: "bit (256 :: u32) n \<Longrightarrow> n = 8"
      using bit_exp_iff [of 8 n, where ?'a = u32] by auto
    have "bit (c_field c) n \<Longrightarrow> n < 9"
      using exp by (cases c) (auto simp: c_field_def and_masks bit_simps)
    then show "bit (take_bit 9 (c_field c)) n = bit (c_field c) n"
      by (auto simp: bit_take_bit_iff)
  qed
  then have "unat (c_field c) = take_bit 9 (unat (c_field c))" by (metis unsigned_take_bit_eq)
  then show ?thesis using take_bit_nat_less_exp [of 9 "unat (c_field c)"] by simp
qed

lemma assemble_tokens_cases:
  assumes "assemble_tokens raw toks = Inr w"
  shows "\<exists>op a b c. op < 68 \<and> w = instr_word (of_nat op) (word_of_int a AND 0xFF) (word_of_int b AND 0xFF) (c_field c)"
  using assms opcode_bound
  by (fastforce simp: assemble_tokens_def Let_def split: option.splits sum.splits)

lemma assembled_opcode:
  assumes "w \<in> set (assembled raw lines)"
  shows "unat (OPC w) < 68"
proof -
  from assms obtain l where "assemble_line raw l = Some (Inr w)"
    by (induction lines) (auto split: option.splits sum.splits)
  then obtain toks where "assemble_tokens raw toks = Inr w"
    by (auto simp: assemble_line_def Let_def split: if_splits)
  then obtain op a b c where op: "op < 68"
    and w: "w = instr_word (of_nat op) (word_of_int a AND 0xFF) (word_of_int b AND 0xFF) (c_field c)"
    using assemble_tokens_cases by blast
  have "unat (of_nat op :: u32) = op" using op by (simp add: unsigned_of_nat take_bit_nat_eq_self)
  with op show ?thesis
    by (simp add: w OPC_instr_word and_FF_less c_field_bound unsigned_ucast_eq take_bit_nat_eq_self)
qed

section \<open>What the machine reads\<close>

lemma word_at_write:
  assumes "p + 4 * k + 4 \<le> q + length bs" "q \<le> p" "take (4 * length ws) (drop (p - q) bs) = word_bytes ws" "k < length ws"
  shows "word_at (write_bytes m q bs) (p + 4 * k) = ws ! k"
proof -
  have split: "word_bytes ws = word_bytes (take k ws) @ le32 (ws ! k) @ word_bytes (drop (Suc k) ws)"
    using arg_cong [OF id_take_nth_drop [OF assms(4)], of word_bytes] by simp
  have byte: "bs ! (p - q + (4 * k + j)) = le32 (ws ! k) ! j" if "j < 4" for j
  proof -
    have "bs ! (p - q + (4 * k + j)) = take (4 * length ws) (drop (p - q) bs) ! (4 * k + j)"
      using assms(1,2,4) that by (simp add: nth_append)
    also have "\<dots> = le32 (ws ! k) ! j"
      using that assms(4) by (simp add: assms(3) split nth_append min_absorb2)
    finally show ?thesis .
  qed
  have "write_bytes m q bs (p + 4 * k + j) = le32 (ws ! k) ! j" if "j < 4" for j
  proof -
    have "p + 4 * k + j - q = p - q + (4 * k + j)" using assms(2) by simp
    with byte [OF that] assms(1,2) that show ?thesis by (simp add: write_bytes_def)
  qed
  from this [of 0] this [of 1] this [of 2] this [of 3] show ?thesis
    by (simp add: word_at_def le32_def of_le32_le32 add.assoc)
qed

lemma layout_nth:
  assumes "j < length files" "unat p + length (program_image files) \<le> VM_MEM_BYTES"
  shows "layout p files ! j = \<lparr>mod_name = fst (files ! j),
      mod_addr = p + of_nat (length (program_image (take j files))), mod_size = of_nat (length (snd (files ! j)))\<rparr>"
  using assms
proof (induction p files arbitrary: j rule: layout.induct)
  case (2 p n d files)
  have fits: "unat p + length d \<le> VM_MEM_BYTES" using 2(3) by simp
  show ?case
  proof (cases j)
    case (Suc i)
    have "unat (p + of_nat (length d)) + length (program_image files) \<le> VM_MEM_BYTES"
      using 2(3) unat_end64(4) [OF fits] by simp
    with 2 Suc show ?thesis by (simp add: add.assoc)
  qed simp
qed simp

lemma program_image_split:
  "j < length files \<Longrightarrow> program_image files = program_image (take j files) @ snd (files ! j) @ program_image (drop (Suc j) files)"
  using arg_cong [OF id_take_nth_drop [of j files], of program_image] by (simp add: program_image_def)

text \<open>A source text and the file the assembler made of it.\<close>

definition built :: "file_system \<Rightarrow> string \<times> cstr \<Rightarrow> bool" where
  "built fs s \<longleftrightarrow> (\<exists>read can_create write_ok argv bytes. length argv = 3 \<and> read (argv ! 1) = Some (fst s) \<and>
     converter_main read can_create write_ok argv = (0, Some bytes) \<and> fs_open fs (snd s) = Some (whole_file bytes))"

abbreviation program_of :: "string \<times> cstr \<Rightarrow> u32 list" where
  "program_of s \<equiv> assembled False (fgets_lines (fst s))"

lemma built_file: "built fs s \<Longrightarrow> fs_open fs (snd s) = Some (whole_file (word_bytes (program_of s)))"
  using assemble_lines_output [of False _ "fgets_lines (fst s)" "[]"]
  by (auto simp: built_def converter_main_def Let_def split: if_splits prod.splits)

definition built_files :: "(string \<times> cstr) list \<Rightarrow> (cstr \<times> u8 list) list" where
  "built_files srcs = map (\<lambda>s. (snd s, word_bytes (program_of s))) srcs"

lemma built_files_simps [simp]:
  "length (built_files srcs) = length srcs" "map fst (built_files srcs) = map snd srcs" "built_files srcs = [] \<longleftrightarrow> srcs = []"
  "j < length srcs \<Longrightarrow> built_files srcs ! j = (snd (srcs ! j), word_bytes (program_of (srcs ! j)))"
  by (simp_all add: built_files_def)

lemma length_built: "length (program_image (built_files srcs)) = 4 * length (concat (map program_of srcs))"
  by (induction srcs) (simp_all add: built_files_def)

text \<open>Where the words of the j-th text are.\<close>

lemma loaded_module:
  assumes "j < length srcs" "unat (PC_START vm) + 4 * length (concat (map program_of srcs)) + 3 \<le> VM_MEM_BYTES"
  defines "m \<equiv> layout (PC_START vm) (built_files srcs) ! j" and "ws \<equiv> program_of (srcs ! j)"
  shows "mod_name m = snd (srcs ! j)" "unat (mod_size m) = 4 * length ws"
    "unat (mod_addr m + mod_size m) = unat (mod_addr m) + 4 * length ws"
    "unat (mod_addr m) = unat (PC_START vm) + 4 * length (concat (map program_of (take j srcs)))"
    "unat (mod_addr m) + 4 * length ws + 3 \<le> VM_MEM_BYTES"
    "k < length ws \<Longrightarrow> word_at (mem (loaded vm (built_files srcs))) (unat (mod_addr m) + 4 * k) = ws ! k"
proof -
  let ?fs = "built_files srcs" and ?p = "PC_START vm"
  have fits: "unat ?p + length (program_image ?fs) + 3 \<le> VM_MEM_BYTES" using assms(2) by (simp add: length_built)
  have j: "j < length ?fs" using assms(1) by simp
  have m: "m = \<lparr>mod_name = snd (srcs ! j), mod_addr = ?p + of_nat (length (program_image (take j ?fs))),
      mod_size = of_nat (4 * length ws)\<rparr>"
    using layout_nth [OF j, of ?p] fits assms(1) by (simp add: m_def ws_def)
  note split = program_image_split [OF j]
  have len: "length (program_image ?fs) = length (program_image (take j ?fs)) + 4 * length ws + length (program_image (drop (Suc j) ?fs))"
    using assms(1) by (subst split) (simp add: ws_def)
  have a: "unat (mod_addr m) = unat ?p + length (program_image (take j ?fs))"
    unfolding m using len fits by (simp add: unat_add_small)
  show "mod_name m = snd (srcs ! j)" by (simp add: m)
  have "program_image (take j ?fs) = program_image (built_files (take j srcs))" by (simp add: built_files_def take_map)
  then show "unat (mod_addr m) = unat (PC_START vm) + 4 * length (concat (map program_of (take j srcs)))"
    using a by (simp only: length_built)
  show sz: "unat (mod_size m) = 4 * length ws"
    using len fits unfolding m by (simp add: unsigned_of_nat take_bit_nat_eq_self del: of_nat_mult)
  show room: "unat (mod_addr m) + 4 * length ws + 3 \<le> VM_MEM_BYTES" using len fits a by simp
  show "unat (mod_addr m + mod_size m) = unat (mod_addr m) + 4 * length ws"
    using room sz by (simp add: unat_word_ariths)
  assume k: "k < length ws"
  have "take (4 * length ws) (drop (unat (mod_addr m) - unat ?p) (program_image ?fs)) = word_bytes ws"
    using assms(1) by (subst split) (simp add: a ws_def)
  then show "word_at (mem (loaded vm ?fs)) (unat (mod_addr m) + 4 * k) = ws ! k"
    using word_at_write [of "unat (mod_addr m)" k "unat ?p" "program_image ?fs" ws "mem vm"] k len a by (simp add: loaded_def)
qed

text \<open>With the program counter at the k-th word of a module, that word is fetched and executed by the handler its
  opcode names; the word 0 ends the module.\<close>

definition executes_at :: "vm_state \<Rightarrow> module_info \<Rightarrow> nat \<Rightarrow> u32 \<Rightarrow> bool" where
  "executes_at vm m k w \<longleftrightarrow> (\<forall>e r. r_vm r = vm\<lparr>PC := mod_addr m + of_nat (4 * k)\<rparr> \<longrightarrow> env_ok e \<longrightarrow> ie_malloc e \<longrightarrow>
     vm_mr32 vm (PC (r_vm r)) = Inr w \<and>
     (if w = 0 then vm_run_instruction e m (mod_addr m + mod_size m) r = Inr (r, 1)
      else \<exists>c. vm_run_instruction e m (mod_addr m + mod_size m) r =
        bindR (execute e (default_op_ex ! unat (OPC w)) ((r_vm r)\<lparr>decoded_cache := c\<rparr>) w (decode w))
          (\<lambda>vm. Inr (r\<lparr>r_vm := vm, r_count := r_count r + 1, r_total := r_total r + 1\<rparr>, 0))))"

lemma executes_loaded:
  assumes "j < length srcs" "unat (PC_START vm) + 4 * length (concat (map program_of srcs)) + 3 \<le> VM_MEM_BYTES"
    and "op_ex vm = map Some default_op_ex @ replicate 60 None"
    and "decoded_cache vm = Some t" "ht_inv t" "ht_room t" "ht_map t = Map.empty"
    and k: "k < length (program_of (srcs ! j))"
  shows "executes_at (loaded vm (built_files srcs)) (layout (PC_START vm) (built_files srcs) ! j) k (program_of (srcs ! j) ! k)"
  unfolding executes_at_def
proof (intro allI impI)
  let ?vm = "loaded vm (built_files srcs)"
  fix e and r :: run_state
  define m where "m = layout (PC_START vm) (built_files srcs) ! j"
  define w where "w = program_of (srcs ! j) ! k"
  note fold = m_def [symmetric] w_def [symmetric]
  assume "r_vm r = ?vm\<lparr>PC := mod_addr (layout (PC_START vm) (built_files srcs) ! j) + of_nat (4 * k)\<rparr>"
    and e: "env_ok e" "ie_malloc e"
  then have r: "r_vm r = ?vm\<lparr>PC := mod_addr m + of_nat (4 * k)\<rparr>" by (simp only: fold)
  note mod = loaded_module [OF assms(1,2), folded m_def]
  have pc: "unat (PC (r_vm r)) = unat (mod_addr m) + 4 * k"
    using mod(5) k by (simp add: r unat_add_small del: of_nat_mult)
  have inside: "unat (PC (r_vm r)) + 4 \<le> VM_MEM_BYTES" using mod(5) k pc by simp
  have word: "word_at (mem (r_vm r)) (unat (PC (r_vm r))) = w" using mod(6) [OF k] pc by (simp add: r w_def)
  have fetch: "vm_mr32 (r_vm r) (PC (r_vm r)) = Inr w" using vm_mr32_ok [OF inside] word by simp
  then have fetch': "vm_mr32 ?vm (PC (r_vm r)) = Inr w" by (simp add: r vm_mr32_def)
  have within: "\<not> outside m (mod_addr m + mod_size m) (r_vm r)"
    using pc k mod(3) by (simp add: word_le_nat_alt word_less_nat_alt not_le not_less)
  have opc: "unat (OPC w) < 68" using k by (intro assembled_opcode [of w False "fgets_lines (fst (srcs ! j))"]) (simp add: w_def)
  have "op_ex (r_vm r) = map Some default_op_ex @ replicate 60 None" by (simp add: r loaded_def assms(3))
  moreover have "length default_op_ex = 68" by (simp add: default_op_ex_def)
  ultimately have h: "handler_of (r_vm r) w = Some (default_op_ex ! unat (OPC w))"
    using opc by (simp add: nth_append)
  have "decoded_cache (r_vm r) = Some t" by (simp add: r loaded_def assms(4))
  then have cache: "cache_current (r_vm r)" "cache_room (r_vm r)"
    using assms(5-7) by (simp_all add: cache_current_def cache_room_def)
  have zero: "vm_run_instruction e m (mod_addr m + mod_size m) r = Inr (r, 1)" if "w = 0"
    unfolding vm_run_instruction_def Let_def if_not_P [OF within] fetch bindR_simps using that by simp
  note run_instruction_step [OF within inside word _ cache e h]
  with zero fetch' show "vm_mr32 ?vm (PC (r_vm r)) = Inr (program_of (srcs ! j) ! k) \<and>
     (if program_of (srcs ! j) ! k = 0
      then vm_run_instruction e (layout (PC_START vm) (built_files srcs) ! j)
        (mod_addr (layout (PC_START vm) (built_files srcs) ! j) + mod_size (layout (PC_START vm) (built_files srcs) ! j)) r = Inr (r, 1)
      else \<exists>c. vm_run_instruction e (layout (PC_START vm) (built_files srcs) ! j)
        (mod_addr (layout (PC_START vm) (built_files srcs) ! j) + mod_size (layout (PC_START vm) (built_files srcs) ! j)) r =
        bindR (execute e (default_op_ex ! unat (OPC (program_of (srcs ! j) ! k))) ((r_vm r)\<lparr>decoded_cache := c\<rparr>)
          (program_of (srcs ! j) ! k) (decode (program_of (srcs ! j) ! k)))
          (\<lambda>vm. Inr (r\<lparr>r_vm := vm, r_count := r_count r + 1, r_total := r_total r + 1\<rparr>, 0)))"
    unfolding fold by (cases "w = 0") auto
qed

text \<open>
  C4 (refinement).  From text to execution.  Texts that the assembler accepts are loaded in the order given, one module behind the
  other, a module as long as the instructions of its text; the word the machine fetches at the k-th word of
  the j-th module is the k-th instruction of the j-th text, and it is executed by the handler its line
  names and never reported as an invalid opcode, except the instruction that is the word 0, which ends the module.
\<close>

theorem assembled_programs_execute:
  assumes "\<forall>s \<in> set srcs. built fs s" "srcs \<noteq> []"
    and "unat (PC_START vm) + 4 * length (concat (map program_of srcs)) + 3 \<le> VM_MEM_BYTES"
    and "op_ex vm = map Some default_op_ex @ replicate 60 None"
    and "decoded_cache vm = Some t" "ht_inv t" "ht_room t" "ht_map t = Map.empty"
  shows "\<exists>vm' ms. load_programs True fs vm (map snd srcs) = Inr (vm', 0) \<and> modules vm' = Some ms \<and>
    map mod_name ms = map snd srcs \<and>
    (\<forall>j < length srcs.
      unat (mod_addr (ms ! j)) = unat (PC_START vm) + 4 * length (concat (map program_of (take j srcs))) \<and>
      unat (mod_size (ms ! j)) = 4 * length (program_of (srcs ! j)) \<and>
      (\<forall>k < length (program_of (srcs ! j)). executes_at vm' (ms ! j) k (program_of (srcs ! j) ! k)))"
proof -
  let ?fs = "built_files srcs" and ?vm = "loaded vm (built_files srcs)"
  let ?ms = "layout (PC_START vm) ?fs"
  have files: "program_files fs ?fs"
    using assms(1) built_file by (auto simp: program_files_def built_files_def)
  have load: "load_programs True fs vm (map snd srcs) = Inr (?vm, 0)"
    using load_programs_ok [OF files] assms(2,3) by (simp add: length_built)
  have names: "map mod_name ?ms = map snd srcs"
    using loaded_module(1) [OF _ assms(3)] by (intro nth_equalityI) simp_all
  have "modules ?vm = Some ?ms" by (simp add: loaded_def)
  then show ?thesis
    using load names loaded_module(2,4) [OF _ assms(3)] executes_loaded [OF _ assms(3-8)]
    by (intro exI [of _ ?vm] exI [of _ ?ms]) simp
qed

section \<open>The instruction that ends a module\<close>

lemma parse_R0: "parse_reg ''R0'' = Some 0" 
  using parse_reg_show_nat [of 0] by (simp add: show_nat_0 int_of_long_def LONG_MAX_def)

lemma add_R0_lines: "assemble_line raw ''add R0, R0, R0'' = Some (Inr 0)" "assemble_line raw ''add'' = Some (Inr 0)"
proof -
  have t: "tokens asm_delim ''add R0, R0, R0'' = [''add'', ''R0'', ''R0'', ''R0'']" "tokens asm_delim ''add'' = [''add'']"
    by (simp_all add: asm_delim_def tokens.simps)
  have o: "opcode_from_name ''add'' = Some 0" "\<not> strcasecmp_eq ''add'' ''halt''"
    by (simp_all add: opcode_from_name_def op_table_def strcasecmp_eq_def)
  show "assemble_line raw ''add R0, R0, R0'' = Some (Inr 0)" "assemble_line raw ''add'' = Some (Inr 0)"
    by (simp_all add: assemble_line_def isspace_def t assemble_tokens_def o parse_ab_def parse_c_def parse_R0
        check_reg_range_def c_field_def instr_word_def)
qed

text \<open>
  The instruction \<open>add R0, R0, R0\<close>, also written \<open>add\<close>, is the word 0, which the machine takes for the
  end of the module: where it is fetched, nothing is executed and the module is over.
\<close>

theorem add_R0_ends_module:
  assumes "assemble_line raw line = Some (Inr w)" "line = ''add R0, R0, R0'' \<or> line = ''add''"
    and "vm_mr32 (r_vm r) (PC (r_vm r)) = Inr w"
  shows "vm_run_instruction e m module_end r = Inr (r, 1)"
proof -
  have "w = 0" using assms(1,2) by (auto simp: add_R0_lines)
  then show ?thesis using assms(3) unfolding vm_run_instruction_def Let_def by simp
qed

section \<open>The alarm for a changed program\<close>

text \<open>
  C17 (safety).  The integrity alarm of the program.  As long as the program in memory is the one whose checksum the loader stored, the
  check at the end of a cycle raises no program alarm; after a write of one word anywhere into the program it raises it exactly
  if the word differs from the one it replaces.
\<close>

theorem program_alarm_exact:
  assumes "enable_hash_check (config vm)" "program_inside vm"
    and "calculate_memory_hash (mem vm) (PC_START vm) (program_size vm) = Inr (program_hash vm)"
    and "unat (PC_START vm) \<le> p" "p + 4 \<le> unat (PC_START vm) + unat (program_size vm)"
  shows "\<exists>out. check_hashes (vm\<lparr>mem := put_word (mem vm) p w\<rparr>) end_hash = Inr out \<and>
    (Program_Hash_Mismatch (cycle_count vm) \<in> set out \<longleftrightarrow> w \<noteq> word_at (mem vm) p)"
proof -
  obtain xs ys where split: "\<And>w. map (put_word (mem vm) p w)
      [unat (PC_START vm)..<unat (PC_START vm) + unat (program_size vm)] = xs @ le32 w @ ys"
    using mem_slice_split [OF assms(4,5)] by blast
  have same: "put_word (mem vm) p (word_at (mem vm) p) = mem vm"
    using le32_word_at [of "mem vm" p] by (auto simp: put_word_def le32_def fun_eq_iff)
  have hash: "calculate_memory_hash (put_word (mem vm) p v) (PC_START vm) (program_size vm) = Inr (crc32 (xs @ le32 v @ ys))" for v
    using assms(2) by (simp add: calculate_memory_hash_def mem_slice_def split program_inside_def)
  then have "program_hash vm = crc32 (xs @ le32 (word_at (mem vm) p) @ ys)"
    using hash [of "word_at (mem vm) p"] assms(3) by (simp add: same)
  then show ?thesis
    using assms(1) by (simp add: check_hashes_def hash crc32_word_inject Let_def)
qed

section \<open>An example\<close>

definition sample_text :: string where
  "sample_text = ''add R1'' @ [CHR 0x0A] @ ''exit''"

lemma sample_lines: "fgets_lines sample_text = [''add R1'' @ [CHR 0x0A], ''exit'']"
  by (simp add: sample_text_def fgets_lines.simps)

lemma sample_line_words:
  "assemble_line False (''add R1'' @ [CHR 0x0A]) = Some (Inr 0x20000)" "assemble_line False ''exit'' = Some (Inr 0x82000000)"
proof -
  have t: "tokens asm_delim ''add R1'' = [''add'', ''R1'']" "tokens asm_delim ''exit'' = [''exit'']"
    by (simp_all add: asm_delim_def tokens.simps)
  have o: "opcode_from_name ''add'' = Some 0" "\<not> strcasecmp_eq ''add'' ''halt''"
    "opcode_from_name ''exit'' = Some 65" "\<not> strcasecmp_eq ''exit'' ''halt''"
    by (simp_all add: opcode_from_name_def op_table_def strcasecmp_eq_def)
  have "show_nat 1 = ''1''" by code_simp
  then have "parse_reg ''R1'' = Some 1"
    using parse_reg_show_nat [of 1] by (simp add: int_of_long_def LONG_MAX_def)
  then show "assemble_line False (''add R1'' @ [CHR 0x0A]) = Some (Inr 0x20000)" "assemble_line False ''exit'' = Some (Inr 0x82000000)"
    by (simp_all add: assemble_line_def isspace_def t assemble_tokens_def o parse_ab_def parse_c_def
        check_reg_range_def c_field_def instr_word_def)
qed

lemma sample_words: "assembled False (fgets_lines sample_text) = [0x20000, 0x82000000]"
  by (simp only: sample_lines assembled_simps sample_line_words option.case sum.case)

definition sample_bin :: file_system where
  "sample_bin = \<lparr>fs_open = [[97] \<mapsto> whole_file (word_bytes [0x20000, 0x82000000])],
     fs_readdir = Map.empty, fs_stat = Map.empty\<rparr>"

lemma sample_built: "built sample_bin (sample_text, [97])"
proof -
  have "assemble_lines False (\<lambda>_. True) (fgets_lines sample_text) [] = (0, word_bytes [0x20000, 0x82000000])"
    by (simp only: sample_lines assemble_lines.simps sample_line_words option.case sum.case) simp
  then have "converter_main (\<lambda>_. Some sample_text) (\<lambda>_. True) (\<lambda>_. True) [''asm2bin'', ''a.asm'', ''a.bin''] =
      (0, Some (word_bytes [0x20000, 0x82000000]))"
    by (simp add: converter_main_def del: concat.simps)
  then show ?thesis
    unfolding built_def
    by (intro exI [of _ "\<lambda>_. Some sample_text"] exI [of _ "\<lambda>_. True"] exI [of _ "[''asm2bin'', ''a.asm'', ''a.bin'']"]
        exI [of _ "word_bytes [0x20000, 0x82000000]"]) (simp add: sample_bin_def)
qed

definition sample_target :: vm_state where
  "sample_target = vm_zero\<lparr>PC_START := 0x3000, op_ex := map Some default_op_ex @ replicate 60 None,
     decoded_cache := Some empty_cache\<rparr>"

theorem assembled_programs_execute_witness:
  "\<exists>vm' m. load_programs True sample_bin sample_target [[97]] = Inr (vm', 0) \<and> modules vm' = Some [m] \<and>
    mod_name m = [97] \<and> unat (mod_addr m) = 0x3000 \<and> unat (mod_size m) = 8 \<and>
    executes_at vm' m 0 0x20000 \<and> executes_at vm' m 1 0x82000000"
proof -
  let ?srcs = "[(sample_text, [97 :: u8])]"
  have target: "unat (PC_START sample_target) + 4 * length (concat (map program_of ?srcs)) + 3 \<le> VM_MEM_BYTES"
    "op_ex sample_target = map Some default_op_ex @ replicate 60 None" "decoded_cache sample_target = Some empty_cache"
    "PC_START sample_target = 0x3000"
    by (simp_all add: sample_target_def sample_words)
  have cache: "ht_inv empty_cache" "ht_room empty_cache" "ht_map empty_cache = Map.empty"
    using empty_cache_ok by (simp_all add: ht_room_def)
  have "\<exists>vm' ms. load_programs True sample_bin sample_target (map snd ?srcs) = Inr (vm', 0) \<and> modules vm' = Some ms \<and>
    map mod_name ms = map snd ?srcs \<and> (\<forall>j < length ?srcs.
      unat (mod_addr (ms ! j)) = unat (PC_START sample_target) + 4 * length (concat (map program_of (take j ?srcs))) \<and>
      unat (mod_size (ms ! j)) = 4 * length (program_of (?srcs ! j)) \<and>
      (\<forall>k < length (program_of (?srcs ! j)). executes_at vm' (ms ! j) k (program_of (?srcs ! j) ! k)))"
    by (rule assembled_programs_execute [OF _ _ target(1-3) cache]) (simp_all add: sample_built)
  then obtain vm' ms where load: "load_programs True sample_bin sample_target [[97]] = Inr (vm', 0)" "modules vm' = Some ms"
    and names: "map mod_name ms = [[97]]"
    and all: "unat (mod_addr (ms ! 0)) = 0x3000" "unat (mod_size (ms ! 0)) = 8"
      "\<forall>k < 2. executes_at vm' (ms ! 0) k ([0x20000, 0x82000000] ! k)"
    by (simp add: sample_words target(4)) (elim exE conjE, rule that, assumption+, simp)
  obtain m where "ms = [m]" "mod_name m = [97]" using names by auto
  with load all spec [OF all(3), of 0] spec [OF all(3), of 1] show ?thesis
    by (intro exI [of _ vm'] exI [of _ m]) simp
qed

theorem add_R0_ends_module_witness:
  "vm_run_instruction sample_instr_env \<lparr>mod_name = [97], mod_addr = 0, mod_size = 8\<rparr> 8
     \<lparr>r_vm = vm_zero, r_count = 0, r_total = 0, r_out = []\<rparr> = Inr (\<lparr>r_vm = vm_zero, r_count = 0, r_total = 0, r_out = []\<rparr>, 1)"
  by (rule add_R0_ends_module [of False "''add''" 0])
    (simp_all add: add_R0_lines vm_mr32_def load8_def vm_zero_def of_le32_def)

theorem program_alarm_exact_witness:
  "\<exists>out. check_hashes (vm_zero\<lparr>PC_START := 0x3000, program_size := 8, program_hash := crc32 [0, 0, 0, 0, 0, 0, 0, 0],
      config := zero_config\<lparr>enable_hash_check := True\<rparr>, mem := put_word (\<lambda>_. 0) 0x3004 7\<rparr>) 0 = Inr out \<and>
    Program_Hash_Mismatch 0 \<in> set out"
proof -
  let ?vm = "vm_zero\<lparr>PC_START := 0x3000, program_size := 8, program_hash := crc32 [0, 0, 0, 0, 0, 0, 0, 0],
      config := zero_config\<lparr>enable_hash_check := True\<rparr>\<rparr>"
  have fields: "mem ?vm = (\<lambda>_. 0)" "cycle_count ?vm = 0" "program_inside ?vm" "word_at (\<lambda>_. 0) 0x3004 = 0"
    by (simp_all add: program_inside_def word_at_def of_le32_def) (simp_all add: vm_zero_def)
  have "calculate_memory_hash (mem ?vm) (PC_START ?vm) (program_size ?vm) = Inr (program_hash ?vm)"
    by (simp add: fields(1) calculate_memory_hash_def mem_slice_def map_replicate_const)
  with program_alarm_exact [of ?vm "0x3004" 7 0] fields show ?thesis by simp
qed

end
