(* ===== verification/Legacy.thy ===== *)
theory Legacy
  imports Cycles
begin

text \<open>
  The copy of the machine that the C++ system hosts (\<open>system-master/iec/runtime/legacy\<close>).  Its hash
  tables, timers, tables, helpers, loader and hot reload are the same text as those of the
  prototype, so the definitions of the other theories model them too.  This theory holds what differs: one array of
  previous inputs for all edge detectors, the number of a latch, the exit code, the registers after a
  creation, no performance counters, and the cycle as a function of its own.

  The state has no counters and one array more: it is \<open>vm_state\<close>, whose fields
  \<open>perf\<close>, \<open>edge_prev_rising\<close>, \<open>edge_prev_falling\<close> and \<open>edge_prev_both\<close> are not used here, with \<open>edge_prev_input\<close>.
\<close>

section \<open>State and handlers\<close>

record legacy_vm =
  lvm :: vm_state
  edge_prev_input :: "bool list"

abbreviation upd_lvm :: "(vm_state \<Rightarrow> vm_state) \<Rightarrow> legacy_vm \<Rightarrow> legacy_vm" where
  "upd_lvm f s \<equiv> s\<lparr>lvm := f (lvm s)\<rparr>"

definition legacy_rising_edge :: "legacy_vm \<Rightarrow> u32 \<Rightarrow> legacy_vm" where
  "legacy_rising_edge s i =
     (let w = edge_id (lvm s) i; k = unat w in
      if bad_id w then upd_lvm (\<lambda>vm. SetA_val vm i 0) s else
      let inp = (Bv (lvm s) i \<noteq> 0);
          prev = edge_prev_input s ! k;
          rising = (inp \<and> \<not> prev);
          s = s\<lparr>edge_prev_input := (edge_prev_input s)[k := inp]\<rparr>
      in upd_lvm (\<lambda>vm. SetA_val vm i (if rising then 1 else 0)) s)"

definition legacy_falling_edge :: "legacy_vm \<Rightarrow> u32 \<Rightarrow> legacy_vm" where
  "legacy_falling_edge s i =
     (let w = edge_id (lvm s) i; k = unat w in
      if bad_id w then upd_lvm (\<lambda>vm. SetA_val vm i 0) s else
      let inp = (Bv (lvm s) i \<noteq> 0);
          prev = edge_prev_input s ! k;
          falling = (\<not> inp \<and> prev);
          s = s\<lparr>edge_prev_input := (edge_prev_input s)[k := inp]\<rparr>
      in upd_lvm (\<lambda>vm. SetA_val vm i (if falling then 1 else 0)) s)"

definition legacy_edge_both :: "legacy_vm \<Rightarrow> u32 \<Rightarrow> legacy_vm" where
  "legacy_edge_both s i =
     (let w = edge_id (lvm s) i; k = unat w in
      if bad_id w then upd_lvm (\<lambda>vm. SetA_val vm i 0) s else
      let inp = (Bv (lvm s) i \<noteq> 0);
          prev = edge_prev_input s ! k;
          changed = (inp \<noteq> prev);
          s = s\<lparr>edge_prev_input := (edge_prev_input s)[k := inp]\<rparr>
      in upd_lvm (\<lambda>vm. SetA_val vm i (if changed then 1 else 0)) s)"

text \<open>The latches take the value of register A, like the edge detectors.\<close>

definition legacy_rs_latch :: "vm_state \<Rightarrow> u32 \<Rightarrow> vm_state" where
  "legacy_rs_latch vm i =
     (let w = edge_id vm i; k = unat w in
      if bad_id w then SetA_val vm i 0 else
      let S = (reg vm (RB i) \<noteq> 0);
          R = (reg vm (ucast (RC i)) \<noteq> 0);
          vm = (if R then vm\<lparr>rs_latches := (rs_latches vm)[k := False]\<rparr>
                else if S then vm\<lparr>rs_latches := (rs_latches vm)[k := True]\<rparr> else vm)
      in SetA_val vm i (if rs_latches vm ! k then 1 else 0))"

definition legacy_sr_latch :: "vm_state \<Rightarrow> u32 \<Rightarrow> vm_state" where
  "legacy_sr_latch vm i =
     (let w = edge_id vm i; k = unat w in
      if bad_id w then SetA_val vm i 0 else
      let S = (reg vm (RB i) \<noteq> 0);
          R = (reg vm (ucast (RC i)) \<noteq> 0);
          vm = (if S then vm\<lparr>sr_latches := (sr_latches vm)[k := True]\<rparr>
                else if R then vm\<lparr>sr_latches := (sr_latches vm)[k := False]\<rparr> else vm)
      in SetA_val vm i (if sr_latches vm ! k then 1 else 0))"

text \<open>The exit code is the constant of the instruction if register A holds 0, else the number of that register.\<close>

definition legacy_exit :: "vm_state \<Rightarrow> u32 \<Rightarrow> vm_state" where
  "legacy_exit vm i = vm\<lparr>exit_code := if Av vm i = 0 then IMM8 i else ucast (RA i),
     running := False, stop_requested := True\<rparr>"

text \<open>The handlers; those not listed are the same text as in \<open>exec_op\<close>.\<close>

definition legacy_exec_op :: "op_env \<Rightarrow> handler \<Rightarrow> legacy_vm \<Rightarrow> u32 \<Rightarrow> legacy_vm res" where
  "legacy_exec_op env h s i = (case h of
     OP_RISING_EDGE \<Rightarrow> Inr (legacy_rising_edge s i)
   | OP_FALLING_EDGE \<Rightarrow> Inr (legacy_falling_edge s i)
   | OP_EDGE_BOTH \<Rightarrow> Inr (legacy_edge_both s i)
   | OP_RS_LATCH \<Rightarrow> Inr (upd_lvm (\<lambda>vm. legacy_rs_latch vm i) s)
   | OP_SR_LATCH \<Rightarrow> Inr (upd_lvm (\<lambda>vm. legacy_sr_latch vm i) s)
   | OP_EXIT \<Rightarrow> Inr (upd_lvm (\<lambda>vm. legacy_exit vm i) s)
   | _ \<Rightarrow> bindR (exec_op env h (lvm s) i) (\<lambda>vm. Inr (s\<lparr>lvm := vm\<rparr>)))"

section \<open>Life cycle\<close>

definition legacy_init_registers :: "vm_state \<Rightarrow> vm_state" where
  "legacy_init_registers vm =
     (let vm = fold (\<lambda>i vm. vm\<lparr>reg := (reg vm)(of_nat i := 0)\<rparr>) [0..<REG_COUNT] vm;
          vm = (if REG_COUNT > 0 then vm\<lparr>reg := (reg vm)(0 := 5)\<rparr> else vm)
      in if REG_COUNT > 1 then vm\<lparr>reg := (reg vm)(1 := 3)\<rparr> else vm)"

definition legacy_clear_iec_state :: "legacy_vm \<Rightarrow> legacy_vm" where
  "legacy_clear_iec_state s =
     s\<lparr>edge_prev_input := replicate (length (edge_prev_input s)) False,
       lvm := fold clear_iec_at [0..<MAX_TIMERS] ((lvm s)\<lparr>
         rs_latches := replicate (length (rs_latches (lvm s))) False,
         sr_latches := replicate (length (sr_latches (lvm s))) False\<rparr>)\<rparr>"

definition legacy_init_common :: "timespec \<Rightarrow> legacy_vm \<Rightarrow> legacy_vm" where
  "legacy_init_common now s =
     (let s = upd_lvm (\<lambda>vm. vm\<lparr>PC_START := DEFAULT_PC_START, PC := 0, running := True,
            time_ms := 0, instr_ns_accum := 0,
            program_hash := 0, program_size := 0, cycle_count := 0, prev_cycle_hash := 0, exit_code := 0,
            stop_requested := False, reload_pending := False,
            config := (config vm)\<lparr>clock_rate_hz := 100, cycle_time_ms := 1000,
              enable_cycle_check := True, enable_hash_check := False, enable_tick_timing := False,
              hash_algo := HASH_CRC32\<rparr>,
            logging_enabled := True, verbose_logging := False\<rparr>) s;
          s = upd_lvm vm_state_init_opcode_table s;
          s = upd_lvm legacy_init_registers s;
          s = legacy_clear_iec_state s
      in upd_lvm (\<lambda>vm. vm\<lparr>dbg_prev_pc := 0, dbg_instruction_count := 0,
            dbg_prev_reg := \<lambda>_. 0, dbg_prev_mem := replicate (length (dbg_prev_mem vm)) 0,
            last_tick_time := now\<rparr>) s)"

definition legacy_reset_runtime :: "timespec \<Rightarrow> legacy_vm \<Rightarrow> legacy_vm" where
  "legacy_reset_runtime now s =
     (let s = upd_lvm (\<lambda>vm. vm\<lparr>running := True, exit_code := 0, stop_requested := False, reload_pending := False,
            cycle_count := 0, prev_cycle_hash := 0, instr_ns_accum := 0, time_ms := 0,
            PC := PC_START vm\<rparr>) s;
          s = upd_lvm legacy_init_registers s;
          s = legacy_clear_iec_state s
      in upd_lvm (\<lambda>vm. vm\<lparr>dbg_prev_pc := 0, dbg_instruction_count := 0,
            dbg_prev_reg := \<lambda>_. 0, dbg_prev_mem := replicate (length (dbg_prev_mem vm)) 0,
            last_tick_time := now\<rparr>) s)"

definition legacy_zero :: legacy_vm where
  "legacy_zero = \<lparr>lvm = vm_zero, edge_prev_input = replicate MAX_TIMERS False\<rparr>"

definition legacy_create :: "bool \<Rightarrow> bool \<Rightarrow> timespec \<Rightarrow> legacy_vm option" where
  "legacy_create alloc_vm alloc_mem now =
     (if \<not> alloc_vm then None
      else if \<not> alloc_mem then None
      else Some (legacy_init_common now (upd_lvm (\<lambda>vm. vm\<lparr>program_dir := None, program_dir_signature := 0,
        modules := None, log_file := False, stop_requested := False, reload_pending := False\<rparr>) legacy_zero)))"

definition legacy_destroy :: "legacy_vm option \<Rightarrow> legacy_vm option" where
  "legacy_destroy s = (case s of None \<Rightarrow> None | Some s \<Rightarrow>
     (let vm = lvm s;
          vm = (if modules vm \<noteq> None then vm\<lparr>modules := None\<rparr> else vm);
          vm = (if log_file vm then vm\<lparr>log_file := False\<rparr> else vm);
          vm = (if program_dir vm \<noteq> None then vm\<lparr>program_dir := None\<rparr> else vm)
      in None))"

definition legacy_init_defaults :: "timespec \<Rightarrow> legacy_vm option \<Rightarrow> legacy_vm option \<times> int" where
  "legacy_init_defaults now s = (case s of None \<Rightarrow> (None, -1) | Some s \<Rightarrow> (Some (legacy_init_common now s), 0))"

definition legacy_reset :: "timespec \<Rightarrow> legacy_vm option \<Rightarrow> legacy_vm option \<times> int" where
  "legacy_reset now s = (case s of None \<Rightarrow> (None, -1) | Some s \<Rightarrow> (Some (legacy_reset_runtime now s), 0))"

section \<open>Instructions, modules and cycles\<close>

record legacy_run =
  l_vm :: legacy_vm
  l_count :: u64
  l_total :: u64
  l_out :: "event list"

text \<open>The part behind the checks.\<close>

definition legacy_execute :: "instr_env \<Rightarrow> handler \<Rightarrow> legacy_vm \<Rightarrow> u32 \<Rightarrow> decoded_instr \<Rightarrow> legacy_vm res" where
  "legacy_execute e h s instr d =
     (let old_pc = PC (lvm s);
          s = upd_lvm (\<lambda>vm. fst (log_before vm (PC vm) instr)) s in
      bindR (legacy_exec_op (ie_op e) h s (raw_instr d)) (\<lambda>s.
      let vm = (if PC (lvm s) = old_pc then (lvm s)\<lparr>PC := PC (lvm s) + 4\<rparr> else lvm s) in
      bindR (vm_wait_for_tick (ie_tick e) (ie_tock e) vm) (\<lambda>(vm, _).
      Inr (s\<lparr>lvm := vm_update_time_after_instruction (ie_now e) vm\<rparr>))))"

definition legacy_run_instruction ::
  "instr_env \<Rightarrow> module_info \<Rightarrow> u32 \<Rightarrow> legacy_run \<Rightarrow> (legacy_run \<times> int) res" where
  "legacy_run_instruction e m module_end r =
     (let s = l_vm r; vm = lvm s in
      if module_end \<le> PC vm \<or> PC vm < mod_addr m then Inr (r, 1) else
      bindR (vm_mr32 vm (PC vm)) (\<lambda>instr.
      if instr = 0 then Inr (r, 1) else
      bindR (vm_decode_instruction (ie_calloc e) (ie_malloc e) vm (PC vm)) (\<lambda>(vm, d).
      let s = s\<lparr>lvm := vm\<rparr> in
      case d of
        None \<Rightarrow> Inr (r\<lparr>l_vm := s\<lparr>lvm := vm\<lparr>running := False\<rparr>\<rparr>, l_out := l_out r @ [Decode_Failed (cycle_count vm) (PC vm)]\<rparr>, 1)
      | Some d \<Rightarrow>
          let opcode = OPC instr in
          (case (if OPCODE_COUNT \<le> unat opcode then None else op_ex vm ! unat opcode) of
             None \<Rightarrow> Inr (r\<lparr>l_vm := s\<lparr>lvm := vm\<lparr>running := False\<rparr>\<rparr>,
                            l_out := l_out r @ [Invalid_Opcode (cycle_count vm) opcode (PC vm)]\<rparr>, 1)
           | Some h \<Rightarrow>
               bindR (legacy_execute e h s instr d) (\<lambda>s.
               Inr (r\<lparr>l_vm := s, l_count := l_count r + 1, l_total := l_total r + 1\<rparr>, 0))))))"

lemma legacy_instruction_count:
  assumes "legacy_run_instruction e m module_end r = Inr (r', rc)"
  shows "rc = 0 \<and> l_count r' = l_count r + 1 \<and> l_total r' = l_total r + 1 \<and> l_out r' = l_out r \<or>
    rc = 1 \<and> l_count r' = l_count r \<and> l_total r' = l_total r"
proof (cases "outside m module_end (lvm (l_vm r))")
  case True
  with assms show ?thesis by (simp add: legacy_run_instruction_def Let_def split: if_splits)
next
  case False
  note step = assms [unfolded legacy_run_instruction_def Let_def if_not_P [OF False]]
  obtain w where w: "vm_mr32 (lvm (l_vm r)) (PC (lvm (l_vm r))) = Inr w"
    using step by (cases "vm_mr32 (lvm (l_vm r)) (PC (lvm (l_vm r)))") simp_all
  note step = step [unfolded w bindR_simps]
  show ?thesis
  proof (cases "w = 0")
    case True
    with step show ?thesis by simp
  next
    case nz: False
    note step = step [unfolded if_not_P [OF nz]]
    obtain vm d where d: "vm_decode_instruction (ie_calloc e) (ie_malloc e) (lvm (l_vm r)) (PC (lvm (l_vm r))) = Inr (vm, d)"
      using step by (cases "vm_decode_instruction (ie_calloc e) (ie_malloc e) (lvm (l_vm r)) (PC (lvm (l_vm r)))") auto
    note step = step [unfolded d bindR_simps prod.case]
    show ?thesis
      using step by (cases d; cases "handler_of vm w") (auto simp: res_simps)
  qed
qed

function legacy_run_loop :: "(nat \<Rightarrow> instr_env) \<Rightarrow> module_info \<Rightarrow> u32 \<Rightarrow> legacy_run \<Rightarrow> legacy_run res" where
  "legacy_run_loop env m module_end r =
     (if running (lvm (l_vm r)) \<and> l_count r < MAX_INSTRUCTIONS then
        bindR (legacy_run_instruction (env (unat (l_count r))) m module_end r) (\<lambda>(r', rc).
        if rc \<noteq> 0 then Inr r' else legacy_run_loop env m module_end r')
      else Inr r)"
  by pat_completeness auto
termination
proof (relation "measure (\<lambda>(_, _, _, r). 100000 - unat (l_count r))")
  show "wf (measure (\<lambda>(_, _, _, r). 100000 - unat (l_count r)))" by simp
next
  fix env :: "nat \<Rightarrow> instr_env" and m module_end r x and r' rc
  assume go: "running (lvm (l_vm r)) \<and> l_count r < MAX_INSTRUCTIONS"
    and step: "legacy_run_instruction (env (unat (l_count r))) m module_end r = Inr x" "(r', rc) = x" "\<not> rc \<noteq> 0"
  then have count: "l_count r' = l_count r + 1" using legacy_instruction_count by fastforce
  have less: "unat (l_count r) < 100000" using go by (simp add: MAX_INSTRUCTIONS_def word_less_nat_alt)
  then have "unat (l_count r + 1) = unat (l_count r) + 1" by (simp add: unat_word_ariths)
  with less count show "((env, m, module_end, r'), env, m, module_end, r) \<in> measure (\<lambda>(_, _, _, r). 100000 - unat (l_count r))"
    by simp
qed

declare legacy_run_loop.simps [simp del]

definition legacy_run_module :: "(nat \<Rightarrow> instr_env) \<Rightarrow> module_info \<Rightarrow> legacy_run \<Rightarrow> legacy_run res" where
  "legacy_run_module env m r =
     (let s = l_vm r in
      if modules (lvm s) = None \<or> modules (lvm s) = Some [] then Inr r else
      let s = upd_lvm (\<lambda>vm. vm\<lparr>running := True, PC := mod_addr m\<rparr>) s;
          module_end = mod_addr m + mod_size m
      in legacy_run_loop env m module_end (r\<lparr>l_vm := s, l_count := 0\<rparr>))"

fun legacy_run_modules :: "(nat \<Rightarrow> nat \<Rightarrow> instr_env) \<Rightarrow> nat \<Rightarrow> module_info list \<Rightarrow> legacy_run \<Rightarrow> legacy_run res" where
  "legacy_run_modules env i [] r = Inr r"
| "legacy_run_modules env i (m # ms) r =
     bindR (legacy_run_module (env i) m r) (\<lambda>r. legacy_run_modules env (Suc i) ms r)"

text \<open>The end of a cycle: the virtual time is read behind the modules, then moved on by a whole cycle.\<close>

definition legacy_end_of_cycle :: "legacy_run \<Rightarrow> legacy_vm" where
  "legacy_end_of_cycle r =
     (let vm = lvm (l_vm r);
          vm = (if \<not> enable_tick_timing (config vm) then
                  let cycle_start_ms = time_ms vm;
                      expected_end = cycle_start_ms + ucast (cycle_time_ms (config vm))
                  in if time_ms vm < expected_end then vm\<lparr>time_ms := expected_end\<rparr> else vm
                else vm);
          vm = update_all_timers vm;
          end_hash = calculate_registers_hash_ex (reg vm) REG_COUNT (hash_algo (config vm))
      in (l_vm r)\<lparr>lvm := vm\<lparr>prev_cycle_hash := end_hash\<rparr>\<rparr>)"

text \<open>\<open>global_stop\<close> is the flag \<open>vm_stop_requested\<close> of \<open>cleanup.c\<close>, \<open>ce_stop\<close> a stop request that arrives while the
  reload is looked for.  The last component is the return code.\<close>

definition vm_execute_single_cycle ::
  "bool \<Rightarrow> cycle_env \<Rightarrow> legacy_vm \<Rightarrow> event list \<Rightarrow> (legacy_vm \<times> event list \<times> int) res" where
  "vm_execute_single_cycle global_stop ce s out =
     (if global_stop \<or> stop_requested (lvm s) then Inr (s, out, 1) else
      bindR (reload_phase (ce_heap ce) (ce_fs ce) ((lvm s)\<lparr>cycle_count := cycle_count (lvm s) + 1\<rparr>)) (\<lambda>vm.
      let vm = (if ce_stop ce then vm\<lparr>stop_requested := True\<rparr> else vm) in
      if stop_requested vm then Inr (s\<lparr>lvm := vm\<rparr>, out @ [Cleanups_Run], 1) else
      let start_hash = calculate_registers_hash_ex (reg vm) REG_COUNT (hash_algo (config vm));
          vm = (if enable_hash_check (config vm) \<and> cycle_count vm = 1
                then vm\<lparr>prev_cycle_hash := start_hash\<rparr> else vm) in
      bindR (legacy_run_modules (ce_instr ce) 0 (case modules vm of None \<Rightarrow> [] | Some ms \<Rightarrow> ms)
          \<lparr>l_vm = s\<lparr>lvm := vm\<rparr>, l_count = 0, l_total = 0, l_out = out\<rparr>) (\<lambda>r.
      Inr (legacy_end_of_cycle r, l_out r, 0))))"

text \<open>The loop of \<open>run_program\<close> over a list of cycles; the last component tells whether it goes on behind them.\<close>

fun legacy_run_cycles :: "(bool \<times> cycle_env) list \<Rightarrow> legacy_vm \<Rightarrow> event list \<Rightarrow> (legacy_vm \<times> event list \<times> bool) res" where
  "legacy_run_cycles [] s out = Inr (s, out, \<not> stop_requested (lvm s))"
| "legacy_run_cycles ((global_stop, ce) # ces) s out =
     (if stop_requested (lvm s) then Inr (s, out, False) else
      bindR (vm_execute_single_cycle global_stop ce s out) (\<lambda>(s, out, rc).
      if rc \<noteq> 0 then Inr (s, out, False) else legacy_run_cycles ces s out))"

definition legacy_run_program ::
  "bool \<Rightarrow> string \<Rightarrow> timespec \<Rightarrow> (bool \<times> cycle_env) list \<Rightarrow> legacy_vm \<Rightarrow> (legacy_vm \<times> event list \<times> bool) res" where
  "legacy_run_program opened date tick ces s =
     (let s = upd_lvm (vm_init_timer tick) s;
          s = upd_lvm (\<lambda>vm. fst (init_logging opened date vm)) s in
      bindR (legacy_run_cycles ces s []) (\<lambda>(s, out, go).
      if go then Inr (s, out, True) else Inr (upd_lvm (\<lambda>vm. fst (close_logging vm)) s, out, False)))"

end
