(* ===== verification/LegacyRun.thy ===== *)
theory LegacyRun
  imports Legacy Control
begin

text \<open>
  What the hosted copy of the machine guarantees: the bounded loop over the instructions of a module as an interface
  both runtimes provide, the invariant through instructions, modules and cycles, and the behaviour
  that differs from the current machine.
\<close>

section \<open>The loop over instructions\<close>

locale instruction_loop =
  fixes step :: "'s \<Rightarrow> ('s \<times> int) res" and loop :: "'s \<Rightarrow> 's res" and go :: "'s \<Rightarrow> bool" and count :: "'s \<Rightarrow> u64"
    and ok :: "'s \<Rightarrow> bool" and frame :: "'s \<Rightarrow> 's \<Rightarrow> bool"
  assumes loop_eq: "loop s = (if go s \<and> count s < MAX_INSTRUCTIONS then
      bindR (step s) (\<lambda>(s', rc). if rc \<noteq> 0 then Inr s' else loop s') else Inr s)"
    and step_count: "step s = Inr (s', rc) \<Longrightarrow> rc = 0 \<and> count s' = count s + 1 \<or> rc = 1 \<and> count s' = count s"
    and step_ok: "step s = Inr (s', rc) \<Longrightarrow> ok s \<Longrightarrow> ok s' \<and> frame s s'"
    and step_fault: "step s = Inl f \<Longrightarrow> ok s \<Longrightarrow> run_fault f"
    and frame_refl: "frame s s" and frame_trans: "frame s t \<Longrightarrow> frame t u \<Longrightarrow> frame s u"
begin

lemma loop_ok:
  "unat (count s) \<le> 100000 \<Longrightarrow> ok s \<Longrightarrow>
   case loop s of Inl f \<Rightarrow> run_fault f | Inr s' \<Rightarrow> ok s' \<and> frame s s' \<and> unat (count s') \<le> 100000"
proof (induction "100000 - unat (count s)" arbitrary: s rule: less_induct)
  case less
  show ?case
  proof (cases "go s \<and> count s < MAX_INSTRUCTIONS")
    case False
    have "loop s = Inr s" by (subst loop_eq) (simp only: False if_False)
    with less.prems frame_refl show ?thesis by simp
  next
    case True
    then have eq: "loop s = bindR (step s) (\<lambda>(s', rc). if rc \<noteq> 0 then Inr s' else loop s')"
      by (subst loop_eq) (simp only: simp_thms if_True)
    show ?thesis
    proof (cases "step s")
      case (Inl f)
      with step_fault less.prems(2) show ?thesis by (simp add: eq)
    next
      case (Inr x)
      then obtain s' rc where st: "step s = Inr (s', rc)" by (cases x) simp
      note ok = step_ok [OF st less.prems(2)]
      from step_count [OF st] show ?thesis
      proof
        assume "rc = 1 \<and> count s' = count s"
        with ok less.prems(1) show ?thesis by (simp add: eq st)
      next
        assume c: "rc = 0 \<and> count s' = count s + 1"
        have lt: "unat (count s) < 100000" using True by (simp add: MAX_INSTRUCTIONS_def word_less_nat_alt)
        then have "unat (count s') = unat (count s) + 1" using c by (simp add: unat_word_ariths)
        with less.hyps [of s'] lt ok have
          "case loop s' of Inl f \<Rightarrow> run_fault f | Inr t \<Rightarrow> ok t \<and> frame s' t \<and> unat (count t) \<le> 100000" by simp
        moreover have "loop s = loop s'" using c by (simp add: eq st)
        ultimately show ?thesis using ok frame_trans by (auto split: sum.splits)
      qed
    qed
  qed
qed

end

text \<open>The current runtime provides it.\<close>

interpretation current: instruction_loop
  "\<lambda>r. vm_run_instruction (env (unat (r_count r))) m (mod_addr m + mod_size m) r"
  "run_loop env m (mod_addr m + mod_size m)" "\<lambda>r. running (r_vm r)" r_count
  "\<lambda>r. vm_ok (r_vm r) \<and> (\<forall>k. env_ok (env k)) \<and> module_inside m" "\<lambda>r r'. run_frame (r_vm r) (r_vm r')" for env m
proof unfold_locales
  show "run_loop env m (mod_addr m + mod_size m) r =
      (if running (r_vm r) \<and> r_count r < MAX_INSTRUCTIONS then
         bindR (vm_run_instruction (env (unat (r_count r))) m (mod_addr m + mod_size m) r)
           (\<lambda>(r', rc). if rc \<noteq> 0 then Inr r' else run_loop env m (mod_addr m + mod_size m) r')
       else Inr r)" for r
    by (rule run_loop.simps)
qed (auto dest: run_instruction_count run_instruction_ok run_instruction_fault intro: run_frame_trans)

section \<open>Handlers\<close>

definition legacy_ok :: "legacy_vm \<Rightarrow> bool" where
  "legacy_ok s \<longleftrightarrow> vm_ok (lvm s) \<and> length (edge_prev_input s) = MAX_TIMERS"

lemma legacy_ok_lvm: "legacy_ok s \<Longrightarrow> vm_ok vm \<Longrightarrow> legacy_ok (s\<lparr>lvm := vm\<rparr>)"
  by (simp add: legacy_ok_def)

text \<open>What a handler keeps.\<close>

definition legacy_frame :: "legacy_vm \<Rightarrow> legacy_vm \<Rightarrow> bool" where
  "legacy_frame s s' \<longleftrightarrow> run_frame (lvm s) (lvm s') \<and> length (edge_prev_input s') = length (edge_prev_input s)"

lemma legacy_frame_refl [simp]: "legacy_frame s s"
  by (simp add: legacy_frame_def)

lemma legacy_frame_trans: "legacy_frame a b \<Longrightarrow> legacy_frame b c \<Longrightarrow> legacy_frame a c"
  by (auto simp: legacy_frame_def intro: run_frame_trans)

lemma SetA_frame: "run_frame vm (SetA_val vm i v)" "decoded_cache (SetA_val vm i v) = decoded_cache vm"
  "vm_wf (SetA_val vm i v) = vm_wf vm"
  by (simp_all add: SetA_val_def run_frame_def)

lemma legacy_latch_frame:
  "run_frame vm (legacy_rs_latch vm i)" "decoded_cache (legacy_rs_latch vm i) = decoded_cache vm"
  "run_frame vm (legacy_sr_latch vm i)" "decoded_cache (legacy_sr_latch vm i) = decoded_cache vm"
  "run_frame vm (legacy_exit vm i)" "decoded_cache (legacy_exit vm i) = decoded_cache vm"
  by (simp_all add: legacy_rs_latch_def legacy_sr_latch_def legacy_exit_def SetA_val_def Let_def run_frame_def)

lemma legacy_latch_wf:
  "vm_wf vm \<Longrightarrow> vm_wf (legacy_rs_latch vm i)" "vm_wf vm \<Longrightarrow> vm_wf (legacy_sr_latch vm i)"
  "vm_wf vm \<Longrightarrow> vm_wf (legacy_exit vm i)"
  by (auto simp: legacy_rs_latch_def legacy_sr_latch_def legacy_exit_def SetA_val_def Let_def vm_wfD intro!: wf_intros)

lemma legacy_edge_lvm:
  "\<exists>v. lvm (legacy_rising_edge s i) = SetA_val (lvm s) i v" "length (edge_prev_input (legacy_rising_edge s i)) = length (edge_prev_input s)"
  "\<exists>v. lvm (legacy_falling_edge s i) = SetA_val (lvm s) i v" "length (edge_prev_input (legacy_falling_edge s i)) = length (edge_prev_input s)"
  "\<exists>v. lvm (legacy_edge_both s i) = SetA_val (lvm s) i v" "length (edge_prev_input (legacy_edge_both s i)) = length (edge_prev_input s)"
  by (auto simp: legacy_rising_edge_def legacy_falling_edge_def legacy_edge_both_def Let_def)

text \<open>The handlers with a text of their own.\<close>

definition legacy_own :: "handler set" where
  "legacy_own = {OP_RISING_EDGE, OP_FALLING_EDGE, OP_EDGE_BOTH, OP_RS_LATCH, OP_SR_LATCH, OP_EXIT}"

lemma legacy_exec_op_lift:
  "h \<notin> legacy_own \<Longrightarrow> legacy_exec_op env h s i = bindR (exec_op env h (lvm s) i) (\<lambda>vm. Inr (s\<lparr>lvm := vm\<rparr>))"
  by (cases h) (simp_all add: legacy_exec_op_def legacy_own_def)

lemma legacy_exec_op_own: "h \<in> legacy_own \<Longrightarrow> \<exists>s'. legacy_exec_op env h s i = Inr s'"
  by (auto simp: legacy_exec_op_def legacy_own_def)

lemma legacy_exec_op_ok:
  assumes "legacy_exec_op env h s i = Inr s'"
  shows "legacy_frame s s' \<and> decoded_cache (lvm s') = decoded_cache (lvm s) \<and> (vm_wf (lvm s) \<longrightarrow> vm_wf (lvm s'))"
proof -
  have edge: ?thesis if "lvm s' = SetA_val (lvm s) i v" "length (edge_prev_input s') = length (edge_prev_input s)" for v
    using that by (simp add: legacy_frame_def SetA_frame)
  have core: ?thesis if "s' = s\<lparr>lvm := vm\<rparr>" "run_frame (lvm s) vm" "decoded_cache vm = decoded_cache (lvm s)"
    "vm_wf (lvm s) \<longrightarrow> vm_wf vm" for vm
    using that by (simp add: legacy_frame_def)
  have lifted: ?thesis if "bindR (exec_op env h (lvm s) i) (\<lambda>vm. Inr (s\<lparr>lvm := vm\<rparr>)) = Inr s'"
  proof -
    from that obtain vm where vm: "exec_op env h (lvm s) i = Inr vm" "s' = s\<lparr>lvm := vm\<rparr>"
      by (cases "exec_op env h (lvm s) i") auto
    show ?thesis by (rule core [OF vm(2)]) (use exec_op_run_frame [OF vm(1)] exec_op_wf [OF vm(1)] in auto)
  qed
  show ?thesis
  proof (cases "h \<in> legacy_own")
    case False
    with assms lifted show ?thesis by (simp add: legacy_exec_op_lift)
  next
    case True
    then consider "s' = legacy_rising_edge s i" | "s' = legacy_falling_edge s i" | "s' = legacy_edge_both s i"
      | "s' = upd_lvm (\<lambda>vm. legacy_rs_latch vm i) s" | "s' = upd_lvm (\<lambda>vm. legacy_sr_latch vm i) s"
      | "s' = upd_lvm (\<lambda>vm. legacy_exit vm i) s"
      using assms by (auto simp: legacy_exec_op_def legacy_own_def)
    then show ?thesis
    proof cases
      case 1 then show ?thesis using edge legacy_edge_lvm(1,2) [of s i] by blast
    next
      case 2 then show ?thesis using edge legacy_edge_lvm(3,4) [of s i] by blast
    next
      case 3 then show ?thesis using edge legacy_edge_lvm(5,6) [of s i] by blast
    next
      case 4 then show ?thesis by (rule core) (simp_all add: legacy_latch_frame legacy_latch_wf)
    next
      case 5 then show ?thesis by (rule core) (simp_all add: legacy_latch_frame legacy_latch_wf)
    next
      case 6 then show ?thesis by (rule core) (simp_all add: legacy_latch_frame legacy_latch_wf)
    qed
  qed
qed

lemma legacy_exec_op_fault: "legacy_exec_op env h s i = Inl f \<Longrightarrow> run_fault f"
  using legacy_exec_op_own [of h env s i]
  by (cases "h \<in> legacy_own") (auto simp: legacy_exec_op_lift res_simps dest!: exec_op_fault allowed_run_fault)

section \<open>The virtual clock\<close>

text \<open>The clock in nanoseconds, modulo \<open>2 ^ 64\<close>, and what an instruction adds to it.\<close>

definition clock_ns :: "vm_state \<Rightarrow> u64" where
  "clock_ns vm = time_ms vm * 1000000 + instr_ns_accum vm"

definition instr_ns :: "vm_state \<Rightarrow> u64" where
  "instr_ns vm = 1000000000 div ucast (clock_rate_hz (config vm))"

lemma clock_step: "virtual_time vm \<Longrightarrow> clock_ns (vm_update_time_after_instruction now vm) = clock_ns vm + instr_ns vm"
  by (simp add: vm_update_time_after_instruction_def virtual_time_def clock_ns_def instr_ns_def Let_def algebra_simps)

lemma clock_cong:
  "time_ms vm' = time_ms vm \<Longrightarrow> instr_ns_accum vm' = instr_ns_accum vm \<Longrightarrow> clock_ns vm' = clock_ns vm"
  "config vm' = config vm \<Longrightarrow> instr_ns vm' = instr_ns vm" "config vm' = config vm \<Longrightarrow> virtual_time vm' = virtual_time vm"
  by (simp_all add: clock_ns_def instr_ns_def virtual_time_def)

lemma after_handler_clock:
  assumes "bindR (vm_wait_for_tick a b vm) (\<lambda>(vm, _). Inr (vm_update_time_after_instruction now vm)) = Inr vm'" "virtual_time vm"
  shows "clock_ns vm' = clock_ns vm + instr_ns vm"
proof -
  from assms(1) obtain vm1 s where w: "vm_wait_for_tick a b vm = Inr (vm1, s)" "vm' = vm_update_time_after_instruction now vm1"
    by (cases "vm_wait_for_tick a b vm") auto
  have "time_ms vm1 = time_ms vm" "instr_ns_accum vm1 = instr_ns_accum vm" "config vm1 = config vm"
    using wait_frame [OF w(1)] by auto
  then show ?thesis using clock_step [of vm1 now] assms(2) clock_cong [of vm1 vm] by (simp add: w(2))
qed

lemma legacy_exec_op_clock:
  assumes "legacy_exec_op env h s i = Inr s'"
  shows "clock_ns (lvm s') = clock_ns (lvm s)"
proof (cases "h \<in> legacy_own")
  case True
  then show ?thesis
    using assms legacy_edge_lvm(1,3,5) [of s i]
    by (auto simp: legacy_own_def legacy_exec_op_def legacy_rs_latch_def legacy_sr_latch_def legacy_exit_def
        SetA_val_def Let_def clock_ns_def split: if_splits)
next
  case False
  with assms obtain vm where vm: "exec_op env h (lvm s) i = Inr vm" "s' = s\<lparr>lvm := vm\<rparr>"
    by (auto simp: legacy_exec_op_lift res_simps)
  from op_frame_fields(15,16) [OF exec_op_frame [OF vm(1)]] show ?thesis
    by (simp add: vm(2) clock_ns_def)
qed

definition clock_frame :: "vm_state \<Rightarrow> vm_state \<Rightarrow> u64 \<Rightarrow> bool" where
  "clock_frame vm vm' n \<longleftrightarrow> (virtual_time vm \<longrightarrow> clock_ns vm' = clock_ns vm + n * instr_ns vm)"

lemma clock_frame_0: "time_ms vm' = time_ms vm \<Longrightarrow> instr_ns_accum vm' = instr_ns_accum vm \<Longrightarrow> clock_frame vm vm' 0"
  by (simp add: clock_frame_def clock_ns_def)

lemma clock_frame_trans:
  "clock_frame a b m \<Longrightarrow> clock_frame b c n \<Longrightarrow> run_frame a b \<Longrightarrow> clock_frame a c (m + n)"
  using clock_cong(2,3) [of b a] by (simp add: clock_frame_def run_frame_def algebra_simps)

section \<open>Instructions\<close>

lemma legacy_execute_ok:
  assumes "legacy_execute e h s instr d = Inr s'" "legacy_ok s"
  shows "legacy_ok s' \<and> legacy_frame s s' \<and> clock_frame (lvm s) (lvm s') 1"
proof -
  let ?s0 = "upd_lvm (\<lambda>vm. fst (log_before vm (PC vm) instr)) s"
  from assms(1) obtain s1 where op: "legacy_exec_op (ie_op e) h ?s0 (raw_instr d) = Inr s1"
    by (cases "legacy_exec_op (ie_op e) h ?s0 (raw_instr d)") (simp_all add: legacy_execute_def Let_def)
  let ?vm = "if PC (lvm s1) = PC (lvm s) then (lvm s1)\<lparr>PC := PC (lvm s1) + 4\<rparr> else lvm s1"
  have tail: "bindR (vm_wait_for_tick (ie_tick e) (ie_tock e) ?vm)
      (\<lambda>(vm, _). Inr (s1\<lparr>lvm := vm_update_time_after_instruction (ie_now e) vm\<rparr>)) = Inr s'"
    using assms(1) unfolding legacy_execute_def Let_def op bindR_simps .
  then have after: "bindR (vm_wait_for_tick (ie_tick e) (ie_tock e) ?vm)
      (\<lambda>(vm, _). Inr (vm_update_time_after_instruction (ie_now e) vm)) = Inr (lvm s')"
    and same: "edge_prev_input s' = edge_prev_input s1"
    by (auto simp: res_simps split: prod.splits)
  note clock = after_handler_clock [OF after]
  note after = after_handler [OF after]
  have s0: "legacy_frame s ?s0" "decoded_cache (lvm ?s0) = decoded_cache (lvm s)" "vm_wf (lvm ?s0)"
    using log_before_frame [of "lvm s" "PC (lvm s)" instr] log_wf(2) assms(2) by (simp_all add: legacy_frame_def legacy_ok_def vm_ok_def)
  from legacy_exec_op_ok [OF op] s0 have s1: "legacy_frame s s1" "decoded_cache (lvm s1) = decoded_cache (lvm s)" "vm_wf (lvm s1)"
    using legacy_frame_trans by auto
  have "vm_ok (lvm s1)"
    using vm_okI [of "lvm s" "lvm s1"] s1 assms(2) by (simp add: legacy_frame_def legacy_ok_def)
  then have "vm_ok (lvm s')" using after by simp
  moreover have "run_frame (lvm s1) (lvm s')" using after run_frame_trans [of "lvm s1" ?vm "lvm s'"] by simp
  moreover have "clock_frame (lvm s) (lvm s') 1"
  proof -
    have "clock_ns (lvm s1) = clock_ns (lvm s)"
      using legacy_exec_op_clock [OF op] by (simp add: fst_log_before clock_ns_def)
    moreover have "config (lvm s1) = config (lvm s)" using s1(1) by (simp add: legacy_frame_def run_frame_def)
    ultimately show ?thesis
      using clock clock_cong [of ?vm "lvm s1"] clock_cong(2,3) [of "lvm s1" "lvm s"] by (simp add: clock_frame_def)
  qed
  ultimately show ?thesis
    using s1(1) assms(2) same run_frame_trans [of "lvm s" "lvm s1"] by (simp add: legacy_ok_def legacy_frame_def)
qed

lemma legacy_execute_fault: "legacy_execute e h s instr d = Inl f \<Longrightarrow> run_fault f"
  by (auto simp: legacy_execute_def Let_def res_simps run_fault_def dest!: wait_fault legacy_exec_op_fault)

text \<open>What the loop keeps: the frame of the machine, and the clock moves on with the count of instructions.\<close>

definition loop_frame :: "legacy_run \<Rightarrow> legacy_run \<Rightarrow> bool" where
  "loop_frame r r' \<longleftrightarrow> legacy_frame (l_vm r) (l_vm r') \<and>
     clock_frame (lvm (l_vm r)) (lvm (l_vm r')) (l_total r' - l_total r)"

lemma loop_frame_refl [simp]: "loop_frame r r"
  by (simp add: loop_frame_def clock_frame_0)

lemma loop_frame_trans: "loop_frame a b \<Longrightarrow> loop_frame b c \<Longrightarrow> loop_frame a c"
  using clock_frame_trans [of "lvm (l_vm a)" "lvm (l_vm b)" "l_total b - l_total a" "lvm (l_vm c)" "l_total c - l_total b"]
  by (auto simp: loop_frame_def legacy_frame_def intro: run_frame_trans)

lemma legacy_decode_ok:
  assumes "legacy_ok s" "env_ok e"
  shows "\<exists>c d. vm_decode_instruction (ie_calloc e) (ie_malloc e) (lvm s) a = Inr ((lvm s)\<lparr>decoded_cache := c\<rparr>, d) \<and>
    legacy_ok (s\<lparr>lvm := (lvm s)\<lparr>decoded_cache := c\<rparr>\<rparr>) \<and> legacy_frame s (s\<lparr>lvm := (lvm s)\<lparr>decoded_cache := c\<rparr>\<rparr>)"
  using decode_ok [of "lvm s" e a] assms by (auto simp: legacy_ok_def legacy_frame_def)

lemma legacy_instruction_ok:
  assumes "legacy_ok (l_vm r)" "env_ok e" "module_inside m"
  shows "case legacy_run_instruction e m (mod_addr m + mod_size m) r of
      Inl f \<Rightarrow> run_fault f
    | Inr (r', rc) \<Rightarrow> legacy_ok (l_vm r') \<and> loop_frame r r'"
proof (cases "outside m (mod_addr m + mod_size m) (lvm (l_vm r))")
  case True
  then have "legacy_run_instruction e m (mod_addr m + mod_size m) r = Inr (r, 1)"
    unfolding legacy_run_instruction_def Let_def by (simp only: if_True)
  with assms(1) show ?thesis by simp
next
  case inside: False
  let ?s = "l_vm r"
  have "unat (PC (lvm ?s)) + 4 \<le> VM_MEM_BYTES" using module_end_inside [OF assms(3), of "lvm ?s"] inside by (simp add: not_le)
  then have fetch: "vm_mr32 (lvm ?s) (PC (lvm ?s)) = Inr (word_at (mem (lvm ?s)) (unat (PC (lvm ?s))))" by (rule vm_mr32_ok)
  define w where "w = word_at (mem (lvm ?s)) (unat (PC (lvm ?s)))"
  note eq = legacy_run_instruction_def [of e m "mod_addr m + mod_size m" r, unfolded Let_def if_not_P [OF inside] fetch bindR_simps,
    folded w_def]
  show ?thesis
  proof (cases "w = 0")
    case True
    with assms(1) show ?thesis by (simp add: eq)
  next
    case nz: False
    from legacy_decode_ok [OF assms(1,2)] obtain c d where
      dec: "vm_decode_instruction (ie_calloc e) (ie_malloc e) (lvm ?s) (PC (lvm ?s)) = Inr ((lvm ?s)\<lparr>decoded_cache := c\<rparr>, d)"
      and s: "legacy_ok (?s\<lparr>lvm := (lvm ?s)\<lparr>decoded_cache := c\<rparr>\<rparr>)" "legacy_frame ?s (?s\<lparr>lvm := (lvm ?s)\<lparr>decoded_cache := c\<rparr>\<rparr>)"
      by blast
    define vm where "vm = (lvm ?s)\<lparr>decoded_cache := c\<rparr>"
    note eq = eq [unfolded if_not_P [OF nz] dec bindR_simps prod.case, folded vm_def]
    have halted: "legacy_ok (?s\<lparr>lvm := vm\<lparr>running := False\<rparr>\<rparr>)" "legacy_frame ?s (?s\<lparr>lvm := vm\<lparr>running := False\<rparr>\<rparr>)"
      using s by (simp_all add: legacy_ok_def legacy_frame_def run_frame_def vm_def)
    show ?thesis
    proof (cases d)
      case None
      with halted show ?thesis by (simp add: eq loop_frame_def vm_def clock_frame_0)
    next
      case (Some dec)
      note eq = eq [unfolded Some option.case]
      show ?thesis
      proof (cases "handler_of vm w")
        case None
        show ?thesis unfolding eq None option.case using halted by (simp add: loop_frame_def vm_def clock_frame_0)
      next
        case h: (Some h)
        note eq = eq [unfolded h option.case]
        show ?thesis
        proof (cases "legacy_execute e h (?s\<lparr>lvm := vm\<rparr>) w dec")
          case (Inl f)
          then show ?thesis by (simp add: eq legacy_execute_fault)
        next
          case (Inr s')
          from legacy_execute_ok [OF Inr] s [folded vm_def] have s': "legacy_ok s'" "legacy_frame ?s s'" "clock_frame vm (lvm s') 1"
            using legacy_frame_trans by auto
          have "clock_frame (lvm ?s) vm 0" "run_frame (lvm ?s) vm" by (simp_all add: clock_frame_0 vm_def)
          from clock_frame_trans [OF this(1) s'(3) this(2)] s' show ?thesis by (simp add: eq Inr loop_frame_def)
        qed
      qed
    qed
  qed
qed

interpretation hosted: instruction_loop
  "\<lambda>r. legacy_run_instruction (env (unat (l_count r))) m (mod_addr m + mod_size m) r"
  "legacy_run_loop env m (mod_addr m + mod_size m)" "\<lambda>r. running (lvm (l_vm r))" l_count
  "\<lambda>r. legacy_ok (l_vm r) \<and> (\<forall>k. env_ok (env k)) \<and> module_inside m" loop_frame for env m
proof unfold_locales
  fix r r' :: legacy_run and rc f
  show "legacy_run_loop env m (mod_addr m + mod_size m) r =
      (if running (lvm (l_vm r)) \<and> l_count r < MAX_INSTRUCTIONS then
         bindR (legacy_run_instruction (env (unat (l_count r))) m (mod_addr m + mod_size m) r)
           (\<lambda>(r', rc). if rc \<noteq> 0 then Inr r' else legacy_run_loop env m (mod_addr m + mod_size m) r')
       else Inr r)"
    by (rule legacy_run_loop.simps)
  let ?step = "legacy_run_instruction (env (unat (l_count r))) m (mod_addr m + mod_size m) r"
  assume ok: "legacy_ok (l_vm r) \<and> (\<forall>k. env_ok (env k)) \<and> module_inside m"
  then have "case ?step of Inl f \<Rightarrow> run_fault f | Inr (r', rc) \<Rightarrow> legacy_ok (l_vm r') \<and> loop_frame r r'"
    by (intro legacy_instruction_ok) simp_all
  then show "?step = Inr (r', rc) \<Longrightarrow> (legacy_ok (l_vm r') \<and> (\<forall>k. env_ok (env k)) \<and> module_inside m) \<and> loop_frame r r'"
    "?step = Inl f \<Longrightarrow> run_fault f"
    using ok by simp_all
qed (auto dest: legacy_instruction_count intro: loop_frame_trans)

section \<open>Modules and cycles\<close>

lemma legacy_module_ok:
  assumes "legacy_ok (l_vm r)" "\<forall>k. env_ok (env k)" "module_inside m"
  shows "case legacy_run_module env m r of
      Inl f \<Rightarrow> run_fault f
    | Inr r' \<Rightarrow> legacy_ok (l_vm r') \<and> loop_frame r r'"
proof (cases "modules (lvm (l_vm r)) = None \<or> modules (lvm (l_vm r)) = Some []")
  case True
  then show ?thesis
    using assms(1) unfolding legacy_run_module_def Let_def if_P [OF True] by simp
next
  case False
  let ?r = "r\<lparr>l_vm := upd_lvm (\<lambda>vm. vm\<lparr>running := True, PC := mod_addr m\<rparr>) (l_vm r), l_count := 0\<rparr>"
  have eq: "legacy_run_module env m r = legacy_run_loop env m (mod_addr m + mod_size m) ?r"
    unfolding legacy_run_module_def Let_def if_not_P [OF False] ..
  have start: "legacy_ok (l_vm ?r)" "loop_frame r ?r"
    using assms(1) by (simp_all add: legacy_ok_def loop_frame_def legacy_frame_def run_frame_def clock_frame_0)
  have loop: "case legacy_run_loop env m (mod_addr m + mod_size m) ?r of Inl f \<Rightarrow> run_fault f
    | Inr s' \<Rightarrow> (legacy_ok (l_vm s') \<and> (\<forall>k. env_ok (env k)) \<and> module_inside m) \<and> loop_frame ?r s' \<and> unat (l_count s') \<le> 100000"
    by (rule hosted.loop_ok) (use start(1) assms(2,3) in simp_all)
  show ?thesis
  proof (cases "legacy_run_loop env m (mod_addr m + mod_size m) ?r")
    case (Inl f)
    with loop show ?thesis by (simp add: eq)
  next
    case (Inr r')
    with loop loop_frame_trans [OF start(2), of r'] show ?thesis by (simp add: eq)
  qed
qed

lemma legacy_modules_ok:
  assumes "\<forall>i k. env_ok (env i k)" "\<forall>m \<in> set ms. module_inside m" "legacy_ok (l_vm r)"
  shows "case legacy_run_modules env i ms r of
      Inl f \<Rightarrow> run_fault f
    | Inr r' \<Rightarrow> legacy_ok (l_vm r') \<and> loop_frame r r'"
  using assms
proof (induction ms arbitrary: i r)
  case (Cons m ms)
  have one: "case legacy_run_module (env i) m r of Inl f \<Rightarrow> run_fault f
    | Inr r' \<Rightarrow> legacy_ok (l_vm r') \<and> loop_frame r r'"
    using Cons.prems by (intro legacy_module_ok) simp_all
  show ?case
  proof (cases "legacy_run_module (env i) m r")
    case (Inl f)
    with one show ?thesis by simp
  next
    case (Inr r1)
    with one have r1: "legacy_ok (l_vm r1)" "loop_frame r r1" by simp_all
    with Cons.IH [of r1 "Suc i"] Cons.prems show ?thesis
      by (auto simp: Inr split: sum.splits intro: loop_frame_trans)
  qed
qed simp

text \<open>The machine of a host has no program directory, so it never reloads.\<close>

definition no_reload :: "vm_state \<Rightarrow> bool" where
  "no_reload vm \<longleftrightarrow> program_dir vm = None \<and> \<not> reload_pending vm"

lemma reload_phase_none: "no_reload vm \<Longrightarrow> reload_phase h fs vm = Inr vm"
  by (simp add: no_reload_def reload_phase_def apply_pending_reload_def)

definition host_env_ok :: "cycle_env \<Rightarrow> bool" where
  "host_env_ok ce \<longleftrightarrow> (\<forall>i k. env_ok (ce_instr ce i k))"

text \<open>What a cycle leaves alone: all of the setup but the count of the cycles and the checksum.\<close>

definition same_program :: "vm_state \<Rightarrow> vm_state \<Rightarrow> bool" where
  "same_program vm vm' \<longleftrightarrow> config vm' = config vm \<and> modules vm' = modules vm \<and> PC_START vm' = PC_START vm \<and>
     program_hash vm' = program_hash vm \<and> program_size vm' = program_size vm \<and> op_ex vm' = op_ex vm \<and>
     program_dir vm' = program_dir vm \<and> reload_pending vm' = reload_pending vm"

lemma legacy_end_ok:
  assumes "legacy_ok (l_vm r)"
  shows "legacy_ok (legacy_end_of_cycle r) \<and> same_program (lvm (l_vm r)) (lvm (legacy_end_of_cycle r)) \<and>
    cycle_count (lvm (legacy_end_of_cycle r)) = cycle_count (lvm (l_vm r)) \<and>
    (stop_requested (lvm (l_vm r)) \<longrightarrow> stop_requested (lvm (legacy_end_of_cycle r)))"
proof -
  let ?vm = "lvm (l_vm r)"
  let ?e = "time_ms ?vm + ucast (cycle_time_ms (config ?vm))"
  let ?vm1 = "if \<not> enable_tick_timing (config ?vm) then if time_ms ?vm < ?e then ?vm\<lparr>time_ms := ?e\<rparr> else ?vm else ?vm"
  have vm1: "vm_ok ?vm1" "run_frame ?vm ?vm1" using assms by (simp_all add: legacy_ok_def)
  define vm where "vm = update_all_timers ?vm1"
  from update_all_timers_ok [OF vm1(1)] have vm: "vm_ok vm" "run_frame ?vm vm"
    using run_frame_trans [OF vm1(2)] by (simp_all add: vm_def)
  have "legacy_end_of_cycle r = (l_vm r)\<lparr>lvm := vm\<lparr>prev_cycle_hash :=
      calculate_registers_hash_ex (reg vm) REG_COUNT (hash_algo (config vm))\<rparr>\<rparr>"
    unfolding legacy_end_of_cycle_def Let_def vm_def ..
  with vm assms show ?thesis by (simp add: legacy_ok_def same_program_def run_frame_def)
qed

lemma legacy_cycle_ok:
  assumes "legacy_ok s" "no_reload (lvm s)" "host_env_ok ce"
  shows "case vm_execute_single_cycle g ce s out of
      Inl f \<Rightarrow> run_fault f
    | Inr (s', out', rc) \<Rightarrow> legacy_ok s' \<and> no_reload (lvm s') \<and> same_program (lvm s) (lvm s') \<and>
        (rc = 0 \<or> rc = 1) \<and> (rc = 0 \<longrightarrow> \<not> g \<and> \<not> stop_requested (lvm s) \<and> cycle_count (lvm s') = cycle_count (lvm s) + 1) \<and>
        (g \<or> stop_requested (lvm s) \<longrightarrow> s' = s \<and> rc = 1)"
proof (cases "g \<or> stop_requested (lvm s)")
  case True
  then show ?thesis using assms(1,2) by (auto simp: vm_execute_single_cycle_def same_program_def)
next
  case False
  let ?vm0 = "(lvm s)\<lparr>cycle_count := cycle_count (lvm s) + 1\<rparr>"
  let ?vm1 = "if ce_stop ce then ?vm0\<lparr>stop_requested := True\<rparr> else ?vm0"
  have "no_reload ?vm0" using assms(2) by (simp add: no_reload_def)
  note reload = reload_phase_none [OF this, of "ce_heap ce" "ce_fs ce"]
  note eq = vm_execute_single_cycle_def [of g ce s out, unfolded if_not_P [OF False] reload bindR_simps Let_def]
  show ?thesis
  proof (cases "ce_stop ce")
    case True
    then have "vm_execute_single_cycle g ce s out = Inr (s\<lparr>lvm := ?vm0\<lparr>stop_requested := True\<rparr>\<rparr>, out @ [Cleanups_Run], 1)"
      unfolding eq by simp
    then show ?thesis using assms(1,2) False by (simp add: legacy_ok_def no_reload_def same_program_def)
  next
    case nostop: False
    let ?h = "calculate_registers_hash_ex (reg ?vm0) REG_COUNT (hash_algo (config ?vm0))"
    define vm where "vm = (if enable_hash_check (config ?vm0) \<and> cycle_count ?vm0 = 1 then ?vm0\<lparr>prev_cycle_hash := ?h\<rparr> else ?vm0)"
    have vm: "vm_ok vm" "same_program (lvm s) vm" "cycle_count vm = cycle_count (lvm s) + 1"
      using assms(1) by (simp_all add: vm_def legacy_ok_def same_program_def)
    have nstop: "\<not> stop_requested ?vm0" using False by simp
    note eq = eq [unfolded if_not_P [OF nostop] if_not_P [OF nstop], folded vm_def]
    let ?r = "\<lparr>l_vm = s\<lparr>lvm := vm\<rparr>, l_count = 0, l_total = 0, l_out = out\<rparr>"
    let ?ms = "case modules vm of None \<Rightarrow> [] | Some ms \<Rightarrow> ms"
    have inside: "\<forall>m \<in> set ?ms. module_inside m"
      using vm(1) by (cases "modules vm") (simp_all add: vm_ok_def modules_inside_def module_inside_def)
    have run: "case legacy_run_modules (ce_instr ce) 0 ?ms ?r of Inl f \<Rightarrow> run_fault f
      | Inr r' \<Rightarrow> legacy_ok (l_vm r') \<and> loop_frame ?r r'"
      by (rule legacy_modules_ok) (use inside assms(1,3) vm(1) in \<open>simp_all add: host_env_ok_def legacy_ok_def\<close>)
    show ?thesis
    proof (cases "legacy_run_modules (ce_instr ce) 0 ?ms ?r")
      case (Inl f)
      with run have "vm_execute_single_cycle g ce s out = Inl f" "run_fault f" unfolding eq Inl bindR_simps by simp_all
      then show ?thesis by simp
    next
      case (Inr r)
      with run have r: "legacy_ok (l_vm r)" "run_frame vm (lvm (l_vm r))" by (simp_all add: loop_frame_def legacy_frame_def)
      have "vm_execute_single_cycle g ce s out = Inr (legacy_end_of_cycle r, l_out r, 0)" unfolding eq Inr bindR_simps ..
      with legacy_end_ok [OF r(1)] r(2) vm assms(2) False show ?thesis
        by (simp add: same_program_def run_frame_def no_reload_def)
    qed
  qed
qed

lemma legacy_end_clock:
  assumes "legacy_ok (l_vm r)" "\<not> enable_tick_timing (config (lvm (l_vm r)))"
    and "unat (time_ms (lvm (l_vm r))) + unat (cycle_time_ms (config (lvm (l_vm r)))) < 2 ^ 64"
  shows "clock_ns (lvm (legacy_end_of_cycle r)) = clock_ns (lvm (l_vm r)) + ucast (cycle_time_ms (config (lvm (l_vm r)))) * 1000000"
proof -
  let ?vm = "lvm (l_vm r)"
  let ?p = "ucast (cycle_time_ms (config ?vm)) :: u64"
  have p: "unat ?p = unat (cycle_time_ms (config ?vm))"
    using unat_u32_less [of "cycle_time_ms (config ?vm)"] by (simp add: unsigned_ucast_eq take_bit_nat_eq_self)
  then have "unat (time_ms ?vm + ?p) = unat (time_ms ?vm) + unat ?p" using assms(3) by (simp add: unat_word_ariths)
  then have t: "time_ms (if time_ms ?vm < time_ms ?vm + ?p then ?vm\<lparr>time_ms := time_ms ?vm + ?p\<rparr> else ?vm) = time_ms ?vm + ?p"
    by (simp add: word_less_nat_alt word_unat_eq_iff)
  define vm1 where "vm1 = (if time_ms ?vm < time_ms ?vm + ?p then ?vm\<lparr>time_ms := time_ms ?vm + ?p\<rparr> else ?vm)"
  have vm1: "vm_ok vm1" "time_ms vm1 = time_ms ?vm + ?p" "instr_ns_accum vm1 = instr_ns_accum ?vm"
    using assms(1) t by (simp_all add: vm1_def legacy_ok_def)
  have "vm_wf vm1" using vm1(1) by (simp add: vm_ok_def)
  then have timers: "time_ms (update_all_timers vm1) = time_ms vm1" "instr_ns_accum (update_all_timers vm1) = instr_ns_accum vm1"
    by (simp_all add: update_all_timers_map)
  have "lvm (legacy_end_of_cycle r) = (update_all_timers vm1)\<lparr>prev_cycle_hash :=
      calculate_registers_hash_ex (reg (update_all_timers vm1)) REG_COUNT (hash_algo (config (update_all_timers vm1)))\<rparr>"
    using assms(2) unfolding legacy_end_of_cycle_def Let_def vm1_def by simp
  then show ?thesis by (simp add: clock_ns_def timers vm1(2,3) algebra_simps)
qed

text \<open>The machine with which the modules of a cycle start.\<close>

definition cycle_begin :: "vm_state \<Rightarrow> vm_state" where
  "cycle_begin vm = (let vm = vm\<lparr>cycle_count := cycle_count vm + 1\<rparr> in
     if enable_hash_check (config vm) \<and> cycle_count vm = 1
     then vm\<lparr>prev_cycle_hash := calculate_registers_hash_ex (reg vm) REG_COUNT (hash_algo (config vm))\<rparr> else vm)"

text \<open>
  C14 (bounds).  The hosted machine runs late.  Its cycle reads the start of the cycle behind the modules, so the time of
  their instructions comes on top of the cycle time instead of being part of it: a cycle that executes n instructions moves the
  virtual clock on by the cycle time and n times the time of an instruction, exactly.
\<close>

theorem hosted_cycle_drifts:
  assumes "legacy_ok s" "no_reload (lvm s)" "host_env_ok ce" "virtual_time (lvm s)" "\<not> stop_requested (lvm s)" "\<not> ce_stop ce"
    and "legacy_run_modules (ce_instr ce) 0 (case modules (lvm s) of None \<Rightarrow> [] | Some ms \<Rightarrow> ms)
      \<lparr>l_vm = s\<lparr>lvm := cycle_begin (lvm s)\<rparr>, l_count = 0, l_total = 0, l_out = out\<rparr> = Inr r"
    and "unat (time_ms (lvm (l_vm r))) + unat (cycle_time_ms (config (lvm s))) < 2 ^ 64"
  shows "\<exists>s'. vm_execute_single_cycle False ce s out = Inr (s', l_out r, 0) \<and>
    clock_ns (lvm s') = clock_ns (lvm s) + l_total r * instr_ns (lvm s) + ucast (cycle_time_ms (config (lvm s))) * 1000000"
proof -
  let ?vm0 = "(lvm s)\<lparr>cycle_count := cycle_count (lvm s) + 1\<rparr>"
  have go: "\<not> (False \<or> stop_requested (lvm s))" "\<not> stop_requested ?vm0" using assms(5) by simp_all
  have "no_reload ?vm0" using assms(2) by (simp add: no_reload_def)
  note reload = reload_phase_none [OF this, of "ce_heap ce" "ce_fs ce"]
  define vm where "vm = cycle_begin (lvm s)"
  note eq = vm_execute_single_cycle_def [of False ce s out, unfolded if_not_P [OF go(1)] reload bindR_simps Let_def
      if_not_P [OF assms(6)] if_not_P [OF go(2)], folded cycle_begin_def [of "lvm s", unfolded Let_def], folded vm_def]
  have vm: "vm_ok vm" "modules vm = modules (lvm s)" "config vm = config (lvm s)"
    "time_ms vm = time_ms (lvm s)" "instr_ns_accum vm = instr_ns_accum (lvm s)"
    using assms(1) by (simp_all add: vm_def cycle_begin_def Let_def legacy_ok_def)
  let ?r = "\<lparr>l_vm = s\<lparr>lvm := vm\<rparr>, l_count = 0, l_total = 0, l_out = out\<rparr>"
  let ?ms = "case modules vm of None \<Rightarrow> [] | Some ms \<Rightarrow> ms"
  have r: "legacy_run_modules (ce_instr ce) 0 ?ms ?r = Inr r" unfolding vm(2) by (simp only: vm_def assms(7))
  have run: "vm_execute_single_cycle False ce s out = Inr (legacy_end_of_cycle r, l_out r, 0)"
    unfolding eq r bindR_simps ..
  have inside: "\<forall>m \<in> set ?ms. module_inside m"
    using vm(1) by (cases "modules vm") (simp_all add: vm_ok_def modules_inside_def module_inside_def)
  have "case legacy_run_modules (ce_instr ce) 0 ?ms ?r of Inl f \<Rightarrow> run_fault f
    | Inr r' \<Rightarrow> legacy_ok (l_vm r') \<and> loop_frame ?r r'"
    by (rule legacy_modules_ok) (use inside assms(1,3) vm(1) in \<open>simp_all add: host_env_ok_def legacy_ok_def\<close>)
  then have rok: "legacy_ok (l_vm r)" "loop_frame ?r r" by (simp_all add: r)
  let ?vm = "lvm (l_vm r)"
  have conf: "config ?vm = config (lvm s)" using rok(2) vm(3) by (simp add: loop_frame_def legacy_frame_def run_frame_def)
  have clock: "clock_ns ?vm = clock_ns (lvm s) + l_total r * instr_ns (lvm s)"
    using rok(2) assms(4) clock_cong [of vm "lvm s"] vm by (simp add: loop_frame_def clock_frame_def)
  have timed: "\<not> enable_tick_timing (config ?vm)" using assms(4) conf by (simp add: virtual_time_def)
  have "clock_ns (lvm (legacy_end_of_cycle r)) = clock_ns ?vm + ucast (cycle_time_ms (config (lvm s))) * 1000000"
    using legacy_end_clock [OF rok(1) timed] assms(8) conf by simp
  with run clock show ?thesis by simp
qed

section \<open>Edge detectors that share their memory\<close>

text \<open>
  C26 (error).  All edge detectors of the hosted machine remember the previous input in one array.  Of two detectors with one number
  that look at the same input one after the other, the second never sees an edge, whatever their kinds are and whatever the
  input did before; in the current machine, a falling edge detector behind a rising edge detector answers from its own memory.
\<close>

theorem shared_edge_memory:
  assumes "length (edge_prev_input s) = MAX_TIMERS" "vm_wf (lvm s)"
    and "FIMM i" "FIMM j" "IMM8 j = IMM8 i" "unat (IMM8 i) < MAX_TIMERS" "RB j = RB i" "RA i \<noteq> RB i"
    and "first \<in> {legacy_rising_edge, legacy_falling_edge, legacy_edge_both}"
    and "second \<in> {legacy_rising_edge, legacy_falling_edge, legacy_edge_both}"
  shows "reg (lvm (second (first s i) j)) (RA j) = 0 \<and>
    reg (op_falling_edge (op_rising_edge (lvm s) i) j) (RA j) =
      b2w (reg (lvm s) (RB i) = 0 \<and> edge_prev_falling (lvm s) ! unat (IMM8 i))"
proof -
  have id: "\<not> bad_id (IMM8 i)" "edge_id vm i = IMM8 i" "edge_id vm j = IMM8 i" for vm
    using assms(3-6) by (simp_all add: bad_id_iff edge_id_def)
  have input: "Bv (SetA_val vm i v) j = Bv vm i" "Bv (SetA_val vm i v) i = Bv vm i" for vm v
    using assms(7,8) by (simp_all add: Bv_def SetA_val_def)
  have first: "\<exists>v. first s i = s\<lparr>edge_prev_input := (edge_prev_input s)[unat (IMM8 i) := Bv (lvm s) i \<noteq> 0], lvm := SetA_val (lvm s) i v\<rparr>"
    using assms(9) id by (auto simp: legacy_rising_edge_def legacy_falling_edge_def legacy_edge_both_def Let_def)
  then obtain v where f: "first s i = s\<lparr>edge_prev_input := (edge_prev_input s)[unat (IMM8 i) := Bv (lvm s) i \<noteq> 0], lvm := SetA_val (lvm s) i v\<rparr>"
    by blast
  have "reg (lvm (second (first s i) j)) (RA j) = 0"
    using assms(1,6,10) id input
    by (auto simp: f legacy_rising_edge_def legacy_falling_edge_def legacy_edge_both_def Let_def SetA_val_def)
  moreover have "reg (op_falling_edge (op_rising_edge (lvm s) i) j) (RA j) =
      b2w (reg (lvm s) (RB i) = 0 \<and> edge_prev_falling (lvm s) ! unat (IMM8 i))"
    using id assms(5-8) by (simp add: op_falling_edge_def op_rising_edge_def Let_def SetA_val_def Bv_def b2w_def)
  ultimately show ?thesis by blast
qed

section \<open>Creation\<close>

lemma legacy_init_registers_eq: "legacy_init_registers vm = vm\<lparr>reg := (\<lambda>_. 0)(0 := 5, 1 := 3)\<rparr>"
  using init_registers_zero [of vm] by (simp add: legacy_init_registers_def vm_state_init_registers_def REG_COUNT_def)

lemma legacy_create_ok:
  assumes "legacy_create True True now = Some s"
  shows "legacy_ok s" "no_reload (lvm s)" "\<not> stop_requested (lvm s)" "reg (lvm s) = (\<lambda>_. 0)(0 := 5, 1 := 3)"
    "modules (lvm s) = None" "PC_START (lvm s) = 0x3000" "decoded_cache (lvm s) = None"
proof -
  let ?v = "vm_zero\<lparr>PC_START := DEFAULT_PC_START, PC := 0, running := True, time_ms := 0, instr_ns_accum := 0,
     program_hash := 0, program_size := 0, cycle_count := 0, prev_cycle_hash := 0, exit_code := 0,
     stop_requested := False, reload_pending := False,
     config := (config vm_zero)\<lparr>clock_rate_hz := 100, cycle_time_ms := 1000,
       enable_cycle_check := True, enable_hash_check := False, enable_tick_timing := False, hash_algo := HASH_CRC32\<rparr>,
     logging_enabled := True, verbose_logging := False, op_ex := op_ex (vm_state_init_opcode_table vm_zero),
     reg := (\<lambda>_. 0)(0 := 5, 1 := 3), rs_latches := replicate 16 False, sr_latches := replicate 16 False\<rparr>"
  have wf: "vm_wf ?v" by (simp add: vm_wf_def vm_state_init_opcode_table_def) (simp add: vm_zero_def MEM_LOG_SIZE_def)
  have z: "upd_lvm (\<lambda>vm. vm\<lparr>program_dir := None, program_dir_signature := 0, modules := None, log_file := False,
      stop_requested := False, reload_pending := False\<rparr>) legacy_zero = legacy_zero"
    by (simp add: legacy_zero_def) (simp add: vm_zero_def)
  have s: "s = \<lparr>lvm = (fold clear_iec_at [0..<16] ?v)\<lparr>dbg_prev_pc := 0, dbg_instruction_count := 0,
      dbg_prev_reg := \<lambda>_. 0, dbg_prev_mem := replicate (length (dbg_prev_mem (fold clear_iec_at [0..<16] ?v))) 0,
      last_tick_time := now\<rparr>, edge_prev_input = replicate 16 False\<rparr>"
    using assms unfolding legacy_create_def z
    by (simp add: legacy_init_common_def legacy_zero_def legacy_clear_iec_state_def legacy_init_registers_eq Let_def
        vm_state_init_opcode_table_def) (simp add: vm_zero_def)
  note s = s [unfolded clear_loop [OF wf order.refl, unfolded MAX_TIMERS_eq]]
  have "vm_wf (lvm s)" using wf by (simp add: s) (simp add: vm_wf_def MEM_LOG_SIZE_def)
  then show "legacy_ok s"
    by (simp add: legacy_ok_def vm_ok_def cache_sane_def modules_inside_def program_inside_def s) (simp add: vm_zero_def DEFAULT_PC_START_def)
  show "no_reload (lvm s)" "\<not> stop_requested (lvm s)" "reg (lvm s) = (\<lambda>_. 0)(0 := 5, 1 := 3)"
    "modules (lvm s) = None" "PC_START (lvm s) = 0x3000" "decoded_cache (lvm s) = None"
    by (simp_all add: s no_reload_def DEFAULT_PC_START_def) (simp_all add: vm_zero_def)
qed

section \<open>A hosted machine at work\<close>

text \<open>The sample machine of the prototype, without a directory, and its cycle of one multiplication.\<close>

definition sample_hosted :: legacy_vm where
  "sample_hosted = \<lparr>lvm = sample_vm\<lparr>program_dir := None\<rparr>, edge_prev_input = replicate 16 False\<rparr>"

lemma sample_hosted_ok: "legacy_ok sample_hosted" "no_reload (lvm sample_hosted)" "virtual_time (lvm sample_hosted)"
  "host_env_ok sample_cycle"
proof -
  have "vm_ok (sample_vm\<lparr>program_dir := None\<rparr>)"
    using sample_vm_ok by (simp add: vm_ok_def cache_sane_def modules_inside_def program_inside_def)
  then show "legacy_ok sample_hosted" by (simp add: legacy_ok_def sample_hosted_def)
  show "no_reload (lvm sample_hosted)" "virtual_time (lvm sample_hosted)"
    by (simp_all add: no_reload_def virtual_time_def sample_hosted_def sample_vm_def) (simp add: vm_zero_def)
  show "host_env_ok sample_cycle" using sample_env_ok by (simp add: host_env_ok_def sample_cycle_def)
qed

lemma sample_hosted_run:
  assumes "cache_current (lvm s)" "cache_room (lvm s)" "mem (lvm s) = write_bytes (\<lambda>_. 0) 0x3000 [1, 2, 3, 4]"
    and "op_ex (lvm s) = map Some default_op_ex @ replicate 60 None" "\<not> logging (lvm s)" "\<not> enable_tick_timing (config (lvm s))"
    and "clock_rate_hz (config (lvm s)) = 100" "time_ms (lvm s) = 0" "instr_ns_accum (lvm s) = 0"
    and "modules (lvm s) = Some [sample_module]"
  shows "\<exists>r. legacy_run_modules (\<lambda>_ _. sample_instr_env) 0 [sample_module] \<lparr>l_vm = s, l_count = 0, l_total = 0, l_out = out\<rparr> = Inr r \<and>
    l_total r = 1 \<and> time_ms (lvm (l_vm r)) = 10"
proof -
  let ?e = "sample_instr_env" and ?m = "sample_module"
  let ?s = "s\<lparr>lvm := (lvm s)\<lparr>running := True, PC := 0x3000\<rparr>\<rparr>"
  let ?vm = "(lvm s)\<lparr>running := True, PC := 0x3000\<rparr>"
  let ?r = "\<lparr>l_vm = ?s, l_count = 0, l_total = 0, l_out = out\<rparr>"
  have word: "word_at (mem ?vm) 0x3000 = 0x04030201"
    using assms(3) sample_word by (simp add: word_at_def write_bytes_def)
  have fetch: "vm_mr32 ?vm 0x3000 = Inr 0x04030201" using word by (simp add: vm_mr32_ok)
  have cur: "cache_current ?vm" "cache_room ?vm" using assms(1,2) by (simp_all add: cache_current_def cache_room_def)
  obtain c where dec: "vm_decode_instruction (ie_calloc ?e) (ie_malloc ?e) ?vm 0x3000 = Inr (?vm\<lparr>decoded_cache := c\<rparr>, Some (decode 0x04030201))"
    using decode_current [of ?vm "ie_calloc ?e" "0x3000"] cur sample_env_ok word by (auto simp: env_ok_def)
  let ?vm1 = "?vm\<lparr>decoded_cache := c\<rparr>"
  let ?reg = "(reg (lvm s))(1 := reg (lvm s) 129 * reg (lvm s) 1)"
  let ?vm2 = "?vm1\<lparr>reg := ?reg, PC := 0x3004\<rparr>"
  define vm3 where "vm3 = vm_update_time_after_instruction (ie_now ?e) ?vm2"
  have h: "handler_of ?vm1 0x04030201 = Some OP_MUL" using sample_handler by (simp add: sample_fields assms(4))
  have op: "exec_op (ie_op ?e) OP_MUL ?vm1 (raw_instr (decode 0x04030201)) = Inr (?vm1\<lparr>reg := ?reg\<rparr>)"
    by (simp add: op_mul_def SetA_val_def Bv_def Cv_or_imm_def decode_def sample_fields)
  have "\<not> logging ?vm1" using assms(5) by (simp add: logging_def)
  then have quiet: "fst (log_before ?vm1 a w) = ?vm1" for a w by (simp only: fst_log_before if_False)
  have "legacy_exec_op (ie_op ?e) OP_MUL (s\<lparr>lvm := ?vm1\<rparr>) (raw_instr (decode 0x04030201)) = Inr (s\<lparr>lvm := ?vm1\<lparr>reg := ?reg\<rparr>\<rparr>)"
    using op by (simp add: legacy_exec_op_lift legacy_own_def)
  then have ex: "legacy_execute ?e OP_MUL (s\<lparr>lvm := ?vm1\<rparr>) 0x04030201 (decode 0x04030201) = Inr (s\<lparr>lvm := vm3\<rparr>)"
    using assms(6) quiet by (simp add: legacy_execute_def vm_wait_for_tick_def Let_def vm3_def)
  have step: "legacy_run_instruction ?e ?m 0x3004 ?r =
      Inr (\<lparr>l_vm = s\<lparr>lvm := vm3\<rparr>, l_count = 1, l_total = 1, l_out = out\<rparr>, 0)"
    using fetch dec h ex by (simp add: legacy_run_instruction_def sample_module_def Let_def)
  have vm3: "PC vm3 = 0x3004" "time_ms vm3 = 10"
    using assms(6-9) by (simp_all add: vm3_def vm_update_time_after_instruction_def Let_def)
  let ?r2 = "\<lparr>l_vm = s\<lparr>lvm := vm3\<rparr>, l_count = 1, l_total = 1, l_out = out\<rparr>"
  have "legacy_run_loop (\<lambda>_. ?e) ?m 0x3004 ?r = legacy_run_loop (\<lambda>_. ?e) ?m 0x3004 ?r2"
    by (subst legacy_run_loop.simps) (simp add: step MAX_INSTRUCTIONS_def)
  moreover have "legacy_run_loop (\<lambda>_. ?e) ?m 0x3004 ?r2 = Inr ?r2"
    by (subst legacy_run_loop.simps) (simp add: legacy_run_instruction_def vm3 MAX_INSTRUCTIONS_def)
  ultimately have "legacy_run_module (\<lambda>_. ?e) ?m \<lparr>l_vm = s, l_count = 0, l_total = 0, l_out = out\<rparr> = Inr ?r2"
    using assms(10) by (simp add: legacy_run_module_def sample_module_def)
  then show ?thesis using vm3 by simp
qed

text \<open>One cycle of one instruction takes 1010 ms of virtual time, not 1000.\<close>

theorem hosted_cycle_drifts_witness:
  "\<exists>s' out. vm_execute_single_cycle False sample_cycle sample_hosted [] = Inr (s', out, 0) \<and> clock_ns (lvm s') = 1010000000"
proof -
  have fields: "modules (lvm sample_hosted) = Some [sample_module]" "\<not> stop_requested (lvm sample_hosted)"
    "cycle_count (lvm sample_hosted) = 1"
    "\<not> logging (lvm sample_hosted)" "\<not> enable_tick_timing (config (lvm sample_hosted))"
    "mem (lvm sample_hosted) = write_bytes (\<lambda>_. 0) 0x3000 [1, 2, 3, 4]" "op_ex (lvm sample_hosted) = map Some default_op_ex @ replicate 60 None"
    "decoded_cache (lvm sample_hosted) = Some empty_cache" "clock_rate_hz (config (lvm sample_hosted)) = 100"
    "cycle_time_ms (config (lvm sample_hosted)) = 1000"
    "time_ms (lvm sample_hosted) = 0" "instr_ns_accum (lvm sample_hosted) = 0"
    by (simp_all add: sample_hosted_def sample_vm_def logging_def) (simp_all add: vm_zero_def)
  let ?vm = "(lvm sample_hosted)\<lparr>cycle_count := 2\<rparr>"
  let ?s = "sample_hosted\<lparr>lvm := ?vm\<rparr>"
  have cur: "cache_current (lvm ?s)" "cache_room (lvm ?s)"
    using empty_cache_ok by (simp_all add: cache_current_def cache_room_def fields ht_room_def)
  obtain r where r: "legacy_run_modules (\<lambda>_ _. sample_instr_env) 0 [sample_module] \<lparr>l_vm = ?s, l_count = 0, l_total = 0, l_out = []\<rparr> = Inr r"
    "l_total r = 1" "time_ms (lvm (l_vm r)) = 10"
    using sample_hosted_run [OF cur, of "[]"] fields by (auto simp: logging_def)
  have start: "cycle_begin (lvm sample_hosted) = ?vm" using fields by (simp add: cycle_begin_def)
  have frame: "clock_ns (lvm sample_hosted) = 0" "instr_ns (lvm sample_hosted) = 10000000"
    by (simp_all add: clock_ns_def instr_ns_def fields)
  obtain s' where "vm_execute_single_cycle False sample_cycle sample_hosted [] = Inr (s', l_out r, 0)"
    "clock_ns (lvm s') = 1010000000"
    using hosted_cycle_drifts [OF sample_hosted_ok(1,2,4,3), of "[]" r] r fields frame
    by (auto simp: start sample_cycle_def)
  then show ?thesis by blast
qed

text \<open>The input was 1 and has fallen; the hosted detector behind another misses it, the current one sees it.\<close>

definition sample_edges :: legacy_vm where
  "sample_edges = \<lparr>lvm = vm_zero\<lparr>edge_prev_falling := replicate 16 True\<rparr>, edge_prev_input = replicate 16 True\<rparr>"

theorem shared_edge_memory_witness:
  "reg (lvm (legacy_falling_edge (legacy_rising_edge sample_edges (instr_word 56 1 2 261)) (instr_word 57 3 2 261))) 3 = 0 \<and>
   reg (op_falling_edge (op_rising_edge (lvm sample_edges) (instr_word 56 1 2 261)) (instr_word 57 3 2 261)) 3 = 1"
proof -
  have words: "FIMM (instr_word 56 1 2 261)" "FIMM (instr_word 57 3 2 261)" "IMM8 (instr_word 56 1 2 261) = 5"
    "IMM8 (instr_word 57 3 2 261) = 5" "RB (instr_word 56 1 2 261) = 2" "RB (instr_word 57 3 2 261) = 2"
    "RA (instr_word 56 1 2 261) = 1" "RA (instr_word 57 3 2 261) = 3"
    by (simp_all add: instr_word_def FIMM_def IMM8_def RB_def RA_def)
  have "vm_wf (lvm sample_edges)" "length (edge_prev_input sample_edges) = MAX_TIMERS"
    "reg (lvm sample_edges) 2 = 0" "edge_prev_falling (lvm sample_edges) ! 5"
    by (simp_all add: sample_edges_def wf_intros) (simp_all add: vm_zero_def)
  then show ?thesis
    using shared_edge_memory [of sample_edges "instr_word 56 1 2 261" "instr_word 57 3 2 261" legacy_rising_edge legacy_falling_edge]
    by (simp add: words b2w_def)
qed

end
