(* ===== verification/HostedEquiv.thy ===== *)
theory HostedEquiv
  imports LegacyRun
begin

text \<open>
  The hosted machine against the current one: where a program uses none of the handlers with a text of their own, both
  compute the same.  The statistics are the only field the hosted machine does not have, and no handler reads them.
\<close>

section \<open>No handler reads the statistics\<close>

text \<open>Moves an update of the statistics outwards.\<close>

named_theorems perf_out

abbreviation with_perf :: "vm_perf_stats \<Rightarrow> vm_state \<Rightarrow> vm_state" where
  "with_perf p vm \<equiv> vm\<lparr>perf := p\<rparr>"

abbreviation map_res :: "('a \<Rightarrow> 'b) \<Rightarrow> 'a res \<Rightarrow> 'b res" where
  "map_res f r \<equiv> bindR r (\<lambda>x. Inr (f x))"

lemma perf_out_fields [perf_out]:
  "(with_perf p vm)\<lparr>reg := a\<rparr> = with_perf p (vm\<lparr>reg := a\<rparr>)"
  "(with_perf p vm)\<lparr>mem := b\<rparr> = with_perf p (vm\<lparr>mem := b\<rparr>)"
  "(with_perf p vm)\<lparr>PC := c\<rparr> = with_perf p (vm\<lparr>PC := c\<rparr>)"
  "(with_perf p vm)\<lparr>running := d\<rparr> = with_perf p (vm\<lparr>running := d\<rparr>)"
  "(with_perf p vm)\<lparr>stop_requested := d\<rparr> = with_perf p (vm\<lparr>stop_requested := d\<rparr>)"
  "(with_perf p vm)\<lparr>exit_code := c\<rparr> = with_perf p (vm\<lparr>exit_code := c\<rparr>)"
  "(with_perf p vm)\<lparr>ton_timers := ts\<rparr> = with_perf p (vm\<lparr>ton_timers := ts\<rparr>)"
  "(with_perf p vm)\<lparr>tof_timers := ts\<rparr> = with_perf p (vm\<lparr>tof_timers := ts\<rparr>)"
  "(with_perf p vm)\<lparr>tp_timers := ts\<rparr> = with_perf p (vm\<lparr>tp_timers := ts\<rparr>)"
  "(with_perf p vm)\<lparr>ctu_counters := cs\<rparr> = with_perf p (vm\<lparr>ctu_counters := cs\<rparr>)"
  "(with_perf p vm)\<lparr>ctd_counters := cs\<rparr> = with_perf p (vm\<lparr>ctd_counters := cs\<rparr>)"
  "(with_perf p vm)\<lparr>ctud_counters := cs\<rparr> = with_perf p (vm\<lparr>ctud_counters := cs\<rparr>)"
  "(with_perf p vm)\<lparr>ctu_prev_input := bs\<rparr> = with_perf p (vm\<lparr>ctu_prev_input := bs\<rparr>)"
  "(with_perf p vm)\<lparr>ctd_prev_input := bs\<rparr> = with_perf p (vm\<lparr>ctd_prev_input := bs\<rparr>)"
  "(with_perf p vm)\<lparr>ctud_prev_up := bs\<rparr> = with_perf p (vm\<lparr>ctud_prev_up := bs\<rparr>)"
  "(with_perf p vm)\<lparr>ctud_prev_down := bs\<rparr> = with_perf p (vm\<lparr>ctud_prev_down := bs\<rparr>)"
  by simp_all

lemma perf_out_read [perf_out]:
  "Av (with_perf p vm) i = Av vm i" "Bv (with_perf p vm) i = Bv vm i" "Cv (with_perf p vm) i = Cv vm i"
  "Cv_or_imm (with_perf p vm) i = Cv_or_imm vm i" "jump_target (with_perf p vm) i = jump_target vm i"
  "vm_mr32 (with_perf p vm) a = vm_mr32 vm a" "safe_strlen_at (with_perf p vm) a = safe_strlen_at vm a"
  by (simp_all add: Av_def Bv_def Cv_def Cv_or_imm_def jump_target_def vm_mr32_def safe_strlen_at_def Let_def)

lemma perf_out_write [perf_out]:
  "SetA_val (with_perf p vm) i v = with_perf p (SetA_val vm i v)"
  "SetA_res (with_perf p vm) i r = map_res (with_perf p) (SetA_res vm i r)"
  "with_mem (with_perf p vm) m = map_res (with_perf p) (with_mem vm m)"
  "vm_mw8 (with_perf p vm) a v8 = map_res (with_perf p) (vm_mw8 vm a v8)"
  "vm_mw32 (with_perf p vm) a v = map_res (with_perf p) (vm_mw32 vm a v)"
  "safe_memmove (with_perf p vm) a b n = map_res (with_perf p) (safe_memmove vm a b n)"
  by (auto simp: SetA_val_def SetA_res_def with_mem_def vm_mw8_def vm_mw32_def safe_memmove_def Let_def bindR_def split: sum.splits)

lemma bindR_assoc: "bindR (bindR r f) g = bindR r (\<lambda>x. bindR (f x) g)"
  by (simp add: bindR_def split: sum.split)

lemma bindR_if: "bindR (if c then r else s) f = (if c then bindR r f else bindR s f)"
  by simp

lemma with_perf_if: "with_perf p (if c then a else b) = (if c then with_perf p a else with_perf p b)"
  by simp

lemmas perf_calc = perf_out bindR_assoc bindR_if with_perf_if Let_def

lemma perf_out_arith:
  "op_add (with_perf p vm) i = with_perf p (op_add vm i)" "op_sub (with_perf p vm) i = with_perf p (op_sub vm i)"
  "op_mul (with_perf p vm) i = with_perf p (op_mul vm i)" "op_div (with_perf p vm) i = with_perf p (op_div vm i)"
  "op_mod (with_perf p vm) i = with_perf p (op_mod vm i)" "op_not (with_perf p vm) i = with_perf p (op_not vm i)"
  "op_and (with_perf p vm) i = with_perf p (op_and vm i)" "op_or (with_perf p vm) i = with_perf p (op_or vm i)"
  "op_xor (with_perf p vm) i = with_perf p (op_xor vm i)" "op_eq (with_perf p vm) i = with_perf p (op_eq vm i)"
  "op_ne (with_perf p vm) i = with_perf p (op_ne vm i)" "op_gt (with_perf p vm) i = with_perf p (op_gt vm i)"
  "op_ge (with_perf p vm) i = with_perf p (op_ge vm i)" "op_lt (with_perf p vm) i = with_perf p (op_lt vm i)"
  "op_le (with_perf p vm) i = with_perf p (op_le vm i)" "op_add_time (with_perf p vm) i = with_perf p (op_add_time vm i)"
  "op_sub_time (with_perf p vm) i = with_perf p (op_sub_time vm i)" "op_len (with_perf p vm) i = with_perf p (op_len vm i)"
  "op_limit (with_perf p vm) i = with_perf p (op_limit vm i)"
  by (simp_all add: op_add_def op_sub_def op_mul_def op_div_def op_mod_def op_not_def op_and_def op_or_def op_xor_def op_eq_def
      op_ne_def op_gt_def op_ge_def op_lt_def op_le_def op_add_time_def op_sub_time_def op_len_def op_limit_def perf_calc)

lemma perf_out_libm:
  "op_expt lm (with_perf p vm) i = map_res (with_perf p) (op_expt lm vm i)" "op_abs (with_perf p vm) i = map_res (with_perf p) (op_abs vm i)"
  "op_sqrt lm (with_perf p vm) i = map_res (with_perf p) (op_sqrt lm vm i)" "op_ln lm (with_perf p vm) i = map_res (with_perf p) (op_ln lm vm i)"
  "op_log lm (with_perf p vm) i = map_res (with_perf p) (op_log lm vm i)" "op_exp lm (with_perf p vm) i = map_res (with_perf p) (op_exp lm vm i)"
  "op_sin lm (with_perf p vm) i = map_res (with_perf p) (op_sin lm vm i)" "op_cos lm (with_perf p vm) i = map_res (with_perf p) (op_cos lm vm i)"
  "op_tan lm (with_perf p vm) i = map_res (with_perf p) (op_tan lm vm i)" "op_asin lm (with_perf p vm) i = map_res (with_perf p) (op_asin lm vm i)"
  "op_acos lm (with_perf p vm) i = map_res (with_perf p) (op_acos lm vm i)" "op_atan lm (with_perf p vm) i = map_res (with_perf p) (op_atan lm vm i)"
  by (simp_all add: op_expt_def op_abs_def op_sqrt_def op_ln_def op_log_def op_exp_def op_sin_def op_cos_def op_tan_def
      op_asin_def op_acos_def op_atan_def perf_calc)

lemma perf_out_calendar:
  "op_time t (with_perf p vm) i = map_res (with_perf p) (op_time t vm i)" "op_date t (with_perf p vm) i = map_res (with_perf p) (op_date t vm i)"
  "op_tod t (with_perf p vm) i = map_res (with_perf p) (op_tod t vm i)" "op_dt t (with_perf p vm) i = map_res (with_perf p) (op_dt t vm i)"
  "op_year t (with_perf p vm) i = map_res (with_perf p) (op_year t vm i)" "op_month t (with_perf p vm) i = map_res (with_perf p) (op_month t vm i)"
  "op_day t (with_perf p vm) i = map_res (with_perf p) (op_day t vm i)" "op_hour t (with_perf p vm) i = map_res (with_perf p) (op_hour t vm i)"
  "op_minute t (with_perf p vm) i = map_res (with_perf p) (op_minute t vm i)" "op_second t (with_perf p vm) i = map_res (with_perf p) (op_second t vm i)"
  by (simp_all add: op_time_def op_date_def op_tod_def op_dt_def op_year_def op_month_def op_day_def op_hour_def op_minute_def
      op_second_def SetA_int_def perf_calc)

lemma perf_out_string:
  "op_concat (with_perf p vm) i = map_res (with_perf p) (op_concat vm i)" "op_left (with_perf p vm) i = map_res (with_perf p) (op_left vm i)"
  "op_right (with_perf p vm) i = map_res (with_perf p) (op_right vm i)" "op_mid (with_perf p vm) i = map_res (with_perf p) (op_mid vm i)"
  "op_insert (with_perf p vm) i = map_res (with_perf p) (op_insert vm i)" "op_delete (with_perf p vm) i = map_res (with_perf p) (op_delete vm i)"
  "op_replace (with_perf p vm) i = map_res (with_perf p) (op_replace vm i)"
  by (simp_all add: op_concat_def op_left_def op_right_def op_mid_def op_insert_def op_delete_def op_replace_def perf_calc cong: if_cong)

lemma perf_out_block:
  "op_ton (with_perf p vm) i = with_perf p (op_ton vm i)" "op_tof (with_perf p vm) i = with_perf p (op_tof vm i)"
  "op_tp (with_perf p vm) i = with_perf p (op_tp vm i)" "op_ctu (with_perf p vm) i = with_perf p (op_ctu vm i)"
  "op_ctd (with_perf p vm) i = with_perf p (op_ctd vm i)" "op_ctud (with_perf p vm) i = with_perf p (op_ctud vm i)"
  by (simp_all add: op_ton_def op_tof_def op_tp_def op_ctu_def op_ctd_def op_ctud_def ton_set_def tof_set_def tp_set_def
      ton_Q_def tof_Q_def tp_Q_def perf_calc cong: if_cong)

lemma perf_out_select:
  "op_sel (with_perf p vm) i = map_res (with_perf p) (op_sel vm i)" "op_mux (with_perf p vm) i = map_res (with_perf p) (op_mux vm i)"
  "op_demux (with_perf p vm) i = map_res (with_perf p) (op_demux vm i)" "op_jmp (with_perf p vm) i = with_perf p (op_jmp vm i)"
  "op_jmp_if (with_perf p vm) i = with_perf p (op_jmp_if vm i)" "op_jmp_if_not (with_perf p vm) i = with_perf p (op_jmp_if_not vm i)"
  "op_halt (with_perf p vm) i = with_perf p (op_halt vm i)" "op_nop (with_perf p vm) i = with_perf p (op_nop vm i)"
  by (simp_all add: op_sel_def op_mux_def op_demux_def op_jmp_def op_jmp_if_def op_jmp_if_not_def op_halt_def op_nop_def perf_calc
      cong: if_cong)

lemmas perf_out_ops = perf_out_arith perf_out_libm perf_out_calendar perf_out_string perf_out_block perf_out_select

lemma exec_op_perf:
  "h \<notin> legacy_own \<Longrightarrow> exec_op env h (with_perf p vm) i = map_res (with_perf p) (exec_op env h vm i)"
  by (cases h) (simp_all add: legacy_own_def perf_out_ops)

section \<open>Instructions\<close>

lemma decode_perf:
  "vm_decode_instruction ca mk (with_perf p vm) a = map_res (\<lambda>(vm, d). (with_perf p vm, d)) (vm_decode_instruction ca mk vm a)"
proof (cases "decoded_cache vm")
  case (Some t)
  show ?thesis
  proof (cases "hash_table_lookup t a")
    case (Inr c)
    have "with_perf p vm\<lparr>decoded_cache := u\<rparr> = with_perf p (vm\<lparr>decoded_cache := u\<rparr>)" for u by simp
    then show ?thesis
      by (cases c; cases "VM_MEM_BYTES - 3 \<le> unat a"; cases mk; cases "vm_mr32 vm a")
        (auto simp: vm_decode_instruction_def decode_instruction_cached_def Some Inr perf_out bindR_def split: sum.splits)
  qed (simp add: vm_decode_instruction_def decode_instruction_cached_def Some)
qed (simp add: vm_decode_instruction_def decode_instruction_cached_def)

lemma decode_op_ex: "vm_decode_instruction ca mk vm a = Inr (vm', d) \<Longrightarrow> op_ex vm' = op_ex vm"
  by (auto simp: vm_decode_instruction_def decode_instruction_cached_def res_simps split: option.splits if_splits)

lemma wait_perf:
  "vm_wait_for_tick a b (with_perf p vm) = map_res (\<lambda>(vm, n). (with_perf p vm, n)) (vm_wait_for_tick a b vm)"
proof -
  have push: "(with_perf p vm)\<lparr>last_tick_time := t\<rparr> = with_perf p (vm\<lparr>last_tick_time := t\<rparr>)" for t by simp
  show ?thesis by (simp add: vm_wait_for_tick_def bindR_assoc push Let_def)
qed

lemma time_perf:
  "vm_update_time_after_instruction now (with_perf p vm) = with_perf p (vm_update_time_after_instruction now vm)"
  by (simp add: vm_update_time_after_instruction_def Let_def)

lemma log_perf: "fst (log_before (with_perf p vm) a w) = with_perf p (fst (log_before vm a w))"
  by (simp add: fst_log_before logging_def)

text \<open>A current machine seen as a hosted one: with statistics nobody reads and an array of edges of its own.\<close>

definition hosted_view :: "vm_perf_stats \<Rightarrow> bool list \<Rightarrow> vm_state \<Rightarrow> legacy_vm" where
  "hosted_view p ed vm = \<lparr>lvm = with_perf p vm, edge_prev_input = ed\<rparr>"

definition hosted_run :: "vm_perf_stats \<Rightarrow> bool list \<Rightarrow> run_state \<Rightarrow> legacy_run" where
  "hosted_run p ed r = \<lparr>l_vm = hosted_view p ed (r_vm r), l_count = r_count r, l_total = r_total r, l_out = r_out r\<rparr>"

lemma hosted_view_simps [simp]:
  "lvm (hosted_view p ed vm) = with_perf p vm" "(hosted_view p ed vm)\<lparr>lvm := with_perf p vm'\<rparr> = hosted_view p ed vm'"
  "l_vm (hosted_run p ed r) = hosted_view p ed (r_vm r)" "l_count (hosted_run p ed r) = r_count r"
  "l_total (hosted_run p ed r) = r_total r" "l_out (hosted_run p ed r) = r_out r"
  by (simp_all add: hosted_view_def hosted_run_def)

lemma execute_agrees:
  assumes "h \<notin> legacy_own"
  shows "legacy_execute e h (hosted_view p ed vm) w d = map_res (hosted_view p ed) (execute e h vm w d)"
proof -
  let ?vm = "fst (log_before vm (PC vm) w)"
  have op: "legacy_exec_op (ie_op e) h (hosted_view p ed ?vm) i = map_res (hosted_view p ed) (exec_op (ie_op e) h ?vm i)" for i
    using assms by (simp add: legacy_exec_op_lift exec_op_perf bindR_assoc)
  have drop: "with_perf p vm1 = with_perf p (with_perf q vm1)" for vm1 q by simp
  have tail: "bindR (vm_wait_for_tick (ie_tick e) (ie_tock e) (with_perf p vm1))
        (\<lambda>(v, _). Inr (hosted_view p ed vm0\<lparr>lvm := vm_update_time_after_instruction (ie_now e) v\<rparr>)) =
      map_res (hosted_view p ed) (bindR (vm_wait_for_tick (ie_tick e) (ie_tock e) (with_perf q vm1))
        (\<lambda>(v, _). Inr (vm_update_time_after_instruction (ie_now e) v)))" for vm1 q vm0
    unfolding drop [of vm1 q] wait_perf [of _ _ p "with_perf q vm1"] bindR_assoc
    by (rule bindR_cong [OF refl]) (auto simp: time_perf)
  show ?thesis
  proof (cases "exec_op (ie_op e) h ?vm (raw_instr d)")
    case (Inl f)
    then show ?thesis unfolding legacy_execute_def execute_def Let_def by (simp add: log_perf op)
  next
    case (Inr vm1)
    have l: "legacy_execute e h (hosted_view p ed vm) w d =
        bindR (vm_wait_for_tick (ie_tick e) (ie_tock e) (with_perf p (if PC vm1 = PC vm then vm1\<lparr>PC := PC vm1 + 4\<rparr> else vm1)))
          (\<lambda>(v, _). Inr (hosted_view p ed vm1\<lparr>lvm := vm_update_time_after_instruction (ie_now e) v\<rparr>))"
      unfolding legacy_execute_def Let_def by (simp add: log_perf op Inr perf_out_fields(3))
    have c: "execute e h vm w d = bindR (vm_wait_for_tick (ie_tick e) (ie_tock e)
          (with_perf (add_perf e (perf vm1)) (if PC vm1 = PC vm then vm1\<lparr>PC := PC vm1 + 4\<rparr> else vm1)))
        (\<lambda>(v, _). Inr (vm_update_time_after_instruction (ie_now e) v))"
      unfolding execute_def Let_def Inr bindR_simps by simp
    show ?thesis unfolding l c by (rule tail)
  qed
qed

text \<open>The handler the next instruction calls, if it gets so far, has no text of its own in the hosted machine.\<close>

definition alike :: "run_state \<Rightarrow> bool" where
  "alike r = (case vm_mr32 (r_vm r) (PC (r_vm r)) of Inl f \<Rightarrow> True | Inr w \<Rightarrow>
     (case handler_of (r_vm r) w of None \<Rightarrow> True | Some h \<Rightarrow> h \<notin> legacy_own))"

lemma instruction_agrees:
  assumes "alike r"
  shows "legacy_run_instruction e m module_end (hosted_run p ed r) =
    map_res (\<lambda>(r', rc). (hosted_run p ed r', rc)) (vm_run_instruction e m module_end r)"
proof (cases "outside m module_end (r_vm r)")
  case True
  then show ?thesis unfolding legacy_run_instruction_def vm_run_instruction_def Let_def by simp
next
  case inside: False
  then have inside': "\<not> outside m module_end (lvm (l_vm (hosted_run p ed r)))" by simp
  note eq = vm_run_instruction_def [of e m module_end r, unfolded Let_def if_not_P [OF inside]]
    legacy_run_instruction_def [of e m module_end "hosted_run p ed r", unfolded Let_def if_not_P [OF inside']]
  have fetch: "vm_mr32 (lvm (l_vm (hosted_run p ed r))) (PC (lvm (l_vm (hosted_run p ed r)))) = vm_mr32 (r_vm r) (PC (r_vm r))"
    by (simp add: perf_out)
  show ?thesis
  proof (cases "vm_mr32 (r_vm r) (PC (r_vm r))")
    case (Inl f)
    then show ?thesis unfolding eq fetch by simp
  next
    case (Inr w)
    note eq = eq [unfolded fetch Inr bindR_simps]
    show ?thesis
    proof (cases "w = 0")
      case True
      then show ?thesis unfolding eq by simp
    next
      case nz: False
      note eq = eq [unfolded if_not_P [OF nz]]
      have dec: "vm_decode_instruction (ie_calloc e) (ie_malloc e) (lvm (l_vm (hosted_run p ed r))) (PC (lvm (l_vm (hosted_run p ed r)))) =
          map_res (\<lambda>(vm, d). (with_perf p vm, d)) (vm_decode_instruction (ie_calloc e) (ie_malloc e) (r_vm r) (PC (r_vm r)))"
        by (simp add: decode_perf)
      show ?thesis
      proof (cases "vm_decode_instruction (ie_calloc e) (ie_malloc e) (r_vm r) (PC (r_vm r))")
        case (Inl f)
        then show ?thesis unfolding eq dec by simp
      next
        case dvm: (Inr x)
        obtain vm d where x: "x = (vm, d)" by (cases x)
        have ops: "op_ex vm = op_ex (r_vm r)" by (rule decode_op_ex [OF dvm [unfolded x]])
        note eq = eq [unfolded dec dvm x bindR_simps prod.case]
        show ?thesis
        proof (cases d)
          case None
          then show ?thesis unfolding eq by (simp add: hosted_run_def hosted_view_def)
        next
          case (Some i)
          have same: "handler_of (with_perf p vm) w = handler_of vm w" by simp
          note eq = eq [unfolded Some option.case same]
          show ?thesis
          proof (cases "handler_of vm w")
            case None
            show ?thesis unfolding eq None option.case by (simp add: hosted_run_def hosted_view_def)
          next
            case h: (Some h)
            have "handler_of (r_vm r) w = Some h" using h by (simp only: ops)
            then have "h \<notin> legacy_own" using assms by (simp only: alike_def Inr sum.case option.case simp_thms)
            note exec = execute_agrees [OF this, of e p ed vm w i]
            show ?thesis unfolding eq h option.case using exec
              by (cases "execute e h vm w i") (simp_all add: hosted_run_def)
          qed
        qed
      qed
    qed
  qed
qed

section \<open>Modules\<close>

function alike_loop :: "(nat \<Rightarrow> instr_env) \<Rightarrow> module_info \<Rightarrow> u32 \<Rightarrow> run_state \<Rightarrow> bool" where
  "alike_loop env m module_end r =
     (if running (r_vm r) \<and> r_count r < MAX_INSTRUCTIONS then
        if alike r then
          (case vm_run_instruction (env (unat (r_count r))) m module_end r of
             Inl f \<Rightarrow> True
           | Inr (r', rc) \<Rightarrow> if rc \<noteq> 0 then True else alike_loop env m module_end r')
        else False
      else True)"
  by pat_completeness auto
termination
proof (relation "measure (\<lambda>(_, _, _, r). 100000 - unat (r_count r))")
  fix env :: "nat \<Rightarrow> instr_env" and m module_end r x and r' rc
  assume go: "running (r_vm r) \<and> r_count r < MAX_INSTRUCTIONS"
    and step: "vm_run_instruction (env (unat (r_count r))) m module_end r = Inr x" "(r', rc) = x" "\<not> rc \<noteq> 0"
  then have count: "r_count r' = r_count r + 1" using run_instruction_count by fastforce
  have less: "unat (r_count r) < 100000" using go by (simp add: MAX_INSTRUCTIONS_def word_less_nat_alt)
  then have "unat (r_count r + 1) = unat (r_count r) + 1" by (simp add: unat_word_ariths)
  with less count show "((env, m, module_end, r'), env, m, module_end, r) \<in> measure (\<lambda>(_, _, _, r). 100000 - unat (r_count r))"
    by simp
qed simp

declare alike_loop.simps [simp del]

lemma loop_agrees:
  "alike_loop env m module_end r \<Longrightarrow>
   legacy_run_loop env m module_end (hosted_run p ed r) = map_res (hosted_run p ed) (run_loop env m module_end r)"
proof (induction env m module_end r rule: alike_loop.induct)
  case (1 env m module_end r)
  show ?case
  proof (cases "running (r_vm r) \<and> r_count r < MAX_INSTRUCTIONS")
    case False
    then have "legacy_run_loop env m module_end (hosted_run p ed r) = Inr (hosted_run p ed r)" "run_loop env m module_end r = Inr r"
      by (subst legacy_run_loop.simps run_loop.simps; auto)+
    then show ?thesis by simp
  next
    case go: True
    with 1(2) have al: "alike r" by (subst (asm) alike_loop.simps) (simp split: if_splits)
    let ?step = "vm_run_instruction (env (unat (r_count r))) m module_end r"
    have l: "legacy_run_loop env m module_end (hosted_run p ed r) =
        bindR (map_res (\<lambda>(r', rc). (hosted_run p ed r', rc)) ?step)
          (\<lambda>(r', rc). if rc \<noteq> 0 then Inr r' else legacy_run_loop env m module_end r')"
      using go by (subst legacy_run_loop.simps) (simp add: instruction_agrees [OF al])
    have c: "run_loop env m module_end r = bindR ?step (\<lambda>(r', rc). if rc \<noteq> 0 then Inr r' else run_loop env m module_end r')"
      using go by (subst run_loop.simps) simp
    show ?thesis
    proof (cases ?step)
      case (Inl f)
      then show ?thesis by (simp add: l c)
    next
      case (Inr x)
      obtain r' rc where x: "x = (r', rc)" by (cases x)
      show ?thesis
      proof (cases "rc = 0")
        case False
        then show ?thesis by (simp add: l c Inr x)
      next
        case True
        with 1(2) go al Inr x have "alike_loop env m module_end r'" by (subst (asm) alike_loop.simps) simp
        with 1(1) [OF go al Inr x [symmetric]] True show ?thesis by (simp add: l c Inr x)
      qed
    qed
  qed
qed

definition alike_module :: "(nat \<Rightarrow> instr_env) \<Rightarrow> module_info \<Rightarrow> run_state \<Rightarrow> bool" where
  "alike_module env m r \<longleftrightarrow>
     modules (r_vm r) = None \<or> modules (r_vm r) = Some [] \<or>
     alike_loop env m (mod_addr m + mod_size m) (r\<lparr>r_vm := (r_vm r)\<lparr>running := True, PC := mod_addr m\<rparr>, r_count := 0\<rparr>)"

lemma module_agrees:
  assumes "alike_module env m r"
  shows "legacy_run_module env m (hosted_run p ed r) = map_res (hosted_run p ed) (vm_run_module env m r)"
proof (cases "modules (r_vm r) = None \<or> modules (r_vm r) = Some []")
  case True
  then show ?thesis unfolding legacy_run_module_def vm_run_module_def Let_def by auto
next
  case False
  let ?r = "r\<lparr>r_vm := (r_vm r)\<lparr>running := True, PC := mod_addr m\<rparr>, r_count := 0\<rparr>"
  have start: "(hosted_run p ed r)\<lparr>l_vm := upd_lvm (\<lambda>vm. vm\<lparr>running := True, PC := mod_addr m\<rparr>) (l_vm (hosted_run p ed r)), l_count := 0\<rparr> =
      hosted_run p ed ?r"
    by (simp add: hosted_run_def hosted_view_def)
  have "alike_loop env m (mod_addr m + mod_size m) ?r" using assms False unfolding alike_module_def by blast
  note loop = loop_agrees [OF this, of p ed]
  have False': "\<not> (modules (lvm (l_vm (hosted_run p ed r))) = None \<or> modules (lvm (l_vm (hosted_run p ed r))) = Some [])"
    using False by simp
  show ?thesis
    unfolding legacy_run_module_def vm_run_module_def Let_def if_not_P [OF False] if_not_P [OF False'] start loop ..
qed

fun alike_modules :: "(nat \<Rightarrow> nat \<Rightarrow> instr_env) \<Rightarrow> nat \<Rightarrow> module_info list \<Rightarrow> run_state \<Rightarrow> bool" where
  "alike_modules env i [] r = True"
| "alike_modules env i (m # ms) r \<longleftrightarrow> alike_module (env i) m r \<and>
     (case vm_run_module (env i) m r of Inl f \<Rightarrow> True | Inr r' \<Rightarrow> alike_modules env (Suc i) ms r')"

lemma modules_agree:
  "alike_modules env i ms r \<Longrightarrow>
   legacy_run_modules env i ms (hosted_run p ed r) = map_res (hosted_run p ed) (run_modules env i ms r)"
proof (induction ms arbitrary: i r)
  case (Cons m ms)
  then show ?case by (cases "vm_run_module (env i) m r") (simp_all add: module_agrees)
qed simp

section \<open>Cycles\<close>

text \<open>Two machines that differ at most in the statistics, the virtual clock and the states of the timers.\<close>

definition timeless :: "vm_state \<Rightarrow> vm_state" where
  "timeless vm = vm\<lparr>time_ms := 0, perf := zero_perf, ton_timers := [], tof_timers := [], tp_timers := [], tonr_timers := [], tofr_timers := []\<rparr>"

definition same_but_time :: "vm_state \<Rightarrow> vm_state \<Rightarrow> bool" where
  "same_but_time a b \<longleftrightarrow> timeless a = timeless b"

lemma end_of_cycle_shape:
  assumes "end_of_cycle ce start r = Inr (vm', out')" "vm_wf (r_vm r)"
  shows "same_but_time ((r_vm r)\<lparr>prev_cycle_hash := calculate_registers_hash_ex (reg (r_vm r)) REG_COUNT (hash_algo (config (r_vm r)))\<rparr>) vm' \<and>
    (enable_tick_timing (config (r_vm r)) \<longrightarrow> vm' = (update_all_timers (r_vm r))\<lparr>prev_cycle_hash :=
      calculate_registers_hash_ex (reg (r_vm r)) REG_COUNT (hash_algo (config (r_vm r))), perf := perf vm'\<rparr>)"
proof -
  let ?vm = "r_vm r"
  define vm1 where "vm1 = (if \<not> enable_tick_timing (config ?vm) then
      if time_ms ?vm < start + ucast (cycle_time_ms (config ?vm)) then ?vm\<lparr>time_ms := start + ucast (cycle_time_ms (config ?vm))\<rparr> else ?vm
      else ?vm)"
  have wf: "vm_wf vm1" using assms(2) by (simp add: vm1_def)
  have timed: "enable_tick_timing (config ?vm) \<Longrightarrow> vm1 = ?vm" by (simp add: vm1_def)
  have vm1: "\<exists>t. vm1 = ?vm\<lparr>time_ms := t\<rparr>" unfolding vm1_def by (cases "enable_tick_timing (config ?vm)") (auto intro: exI [of _ "time_ms ?vm"])
  define vm2 where "vm2 = update_all_timers vm1"
  have kept: "reg vm2 = reg ?vm" "config vm2 = config ?vm" using vm1 wf by (auto simp: vm2_def update_all_timers_map)
  have "\<exists>q. vm' = vm2\<lparr>prev_cycle_hash := calculate_registers_hash_ex (reg vm2) REG_COUNT (hash_algo (config vm2)), perf := q\<rparr>"
    using assms(1) unfolding end_of_cycle_def Let_def vm1_def [symmetric] vm2_def [symmetric]
    by (auto simp: res_simps split: if_splits)
  then obtain q where vm': "vm' = vm2\<lparr>prev_cycle_hash := calculate_registers_hash_ex (reg ?vm) REG_COUNT (hash_algo (config ?vm)), perf := q\<rparr>"
    unfolding kept by blast
  have "same_but_time (?vm\<lparr>prev_cycle_hash := calculate_registers_hash_ex (reg ?vm) REG_COUNT (hash_algo (config ?vm))\<rparr>) vm'"
    using vm1 wf by (auto simp: vm' vm2_def update_all_timers_map same_but_time_def timeless_def)
  then show ?thesis using timed by (simp add: vm' vm2_def)
qed

lemma legacy_end_shape:
  assumes "vm_wf (r_vm r)"
  shows "\<exists>vm2. legacy_end_of_cycle (hosted_run p ed r) = hosted_view p ed vm2 \<and>
    same_but_time ((r_vm r)\<lparr>prev_cycle_hash := calculate_registers_hash_ex (reg (r_vm r)) REG_COUNT (hash_algo (config (r_vm r)))\<rparr>) vm2 \<and>
    (enable_tick_timing (config (r_vm r)) \<longrightarrow> vm2 = (update_all_timers (r_vm r))\<lparr>prev_cycle_hash :=
      calculate_registers_hash_ex (reg (r_vm r)) REG_COUNT (hash_algo (config (r_vm r)))\<rparr>)"
proof -
  let ?vm = "r_vm r" and ?h = "calculate_registers_hash_ex (reg (r_vm r)) REG_COUNT (hash_algo (config (r_vm r)))"
  let ?e = "time_ms ?vm + ucast (cycle_time_ms (config ?vm))"
  define vm1 where "vm1 = (if \<not> enable_tick_timing (config ?vm) then if time_ms ?vm < ?e then ?vm\<lparr>time_ms := ?e\<rparr> else ?vm else ?vm)"
  have wf: "vm_wf vm1" "vm_wf (with_perf p vm1)" using assms by (simp_all add: vm1_def)
  have timed: "enable_tick_timing (config ?vm) \<Longrightarrow> vm1 = ?vm" by (simp add: vm1_def)
  have vm1: "\<exists>t. vm1 = ?vm\<lparr>time_ms := t\<rparr>" unfolding vm1_def by (cases "enable_tick_timing (config ?vm)") (auto intro: exI [of _ "time_ms ?vm"])
  have tweak: "(if \<not> enable_tick_timing (config (with_perf p ?vm)) then
      if time_ms (with_perf p ?vm) < time_ms (with_perf p ?vm) + ucast (cycle_time_ms (config (with_perf p ?vm)))
      then (with_perf p ?vm)\<lparr>time_ms := time_ms (with_perf p ?vm) + ucast (cycle_time_ms (config (with_perf p ?vm)))\<rparr> else with_perf p ?vm
      else with_perf p ?vm) = with_perf p vm1"
    by (simp add: vm1_def)
  have timers: "update_all_timers (with_perf p vm1) = with_perf p (update_all_timers vm1)"
    using wf by (simp add: update_all_timers_map)
  have kept: "reg (update_all_timers vm1) = reg ?vm" "config (update_all_timers vm1) = config ?vm"
    using vm1 wf by (auto simp: update_all_timers_map)
  let ?vm2 = "(update_all_timers vm1)\<lparr>prev_cycle_hash := ?h\<rparr>"
  have "legacy_end_of_cycle (hosted_run p ed r) = hosted_view p ed ?vm2"
    unfolding legacy_end_of_cycle_def Let_def hosted_view_simps tweak timers by (simp add: kept hosted_view_def)
  moreover have "same_but_time (?vm\<lparr>prev_cycle_hash := ?h\<rparr>) ?vm2"
    using vm1 wf by (auto simp: update_all_timers_map same_but_time_def timeless_def)
  ultimately show ?thesis using timed by (intro exI [of _ ?vm2]) simp
qed

text \<open>Without a reload and a stop request a cycle of either machine runs the modules and ends.\<close>

abbreviation modules_of :: "vm_state \<Rightarrow> module_info list" where
  "modules_of vm \<equiv> case modules vm of None \<Rightarrow> [] | Some ms \<Rightarrow> ms"

lemma run_cycle_runs:
  assumes "no_reload vm" "\<not> stop_requested vm" "\<not> ce_stop ce"
  shows "run_cycle ce vm out = bindR (run_modules (ce_instr ce) 0 (modules_of vm) \<lparr>r_vm = cycle_begin vm, r_count = 0, r_total = 0, r_out = out\<rparr>)
      (\<lambda>r. bindR (end_of_cycle ce (time_ms vm) r) (\<lambda>(vm, out). Inr (vm, out, True)))"
proof -
  let ?vm0 = "vm\<lparr>cycle_count := cycle_count vm + 1\<rparr>"
  have nstop: "\<not> stop_requested ?vm0" "time_ms ?vm0 = time_ms vm" using assms(2) by simp_all
  note reload = reload_phase_none [OF assms(1), of "ce_heap ce" "ce_fs ce"]
  have ms: "modules_of (cycle_begin vm) = modules_of vm" by (simp add: cycle_begin_def Let_def)
  show ?thesis
    unfolding run_cycle_def reload bindR_simps Let_def if_not_P [OF assms(3)] if_not_P [OF nstop(1)]
      cycle_begin_def [of vm, unfolded Let_def, symmetric] ms nstop(2) ..
qed

lemma hosted_cycle_runs:
  assumes "no_reload vm" "\<not> stop_requested vm" "\<not> ce_stop ce"
    and "alike_modules (ce_instr ce) 0 (modules_of vm) \<lparr>r_vm = cycle_begin vm, r_count = 0, r_total = 0, r_out = out\<rparr>"
    and "run_modules (ce_instr ce) 0 (modules_of vm) \<lparr>r_vm = cycle_begin vm, r_count = 0, r_total = 0, r_out = out\<rparr> = Inr r"
  shows "vm_execute_single_cycle False ce (hosted_view p ed vm) out =
    Inr (legacy_end_of_cycle (hosted_run p ed r), l_out (hosted_run p ed r), 0)"
proof -
  let ?r = "\<lparr>r_vm = cycle_begin vm, r_count = 0, r_total = 0, r_out = out\<rparr>" and ?s = "hosted_view p ed vm"
  have go: "\<not> (False \<or> stop_requested (lvm ?s))" using assms(2) by simp
  have go': "\<not> stop_requested ((lvm ?s)\<lparr>cycle_count := cycle_count (lvm ?s) + 1\<rparr>)" using assms(2) by simp
  have "no_reload ((lvm ?s)\<lparr>cycle_count := cycle_count (lvm ?s) + 1\<rparr>)" using assms(1) by (simp add: no_reload_def)
  note reload = reload_phase_none [OF this, of "ce_heap ce" "ce_fs ce"]
  have begin': "cycle_begin (lvm ?s) = with_perf p (cycle_begin vm)" by (simp add: cycle_begin_def Let_def)
  have start: "\<lparr>l_vm = ?s\<lparr>lvm := with_perf p (cycle_begin vm)\<rparr>, l_count = 0, l_total = 0, l_out = out\<rparr> = hosted_run p ed ?r"
    by (simp add: hosted_run_def)
  have ms': "modules_of (with_perf p (cycle_begin vm)) = modules_of vm" by (simp add: cycle_begin_def Let_def)
  show ?thesis
    unfolding vm_execute_single_cycle_def if_not_P [OF go] reload bindR_simps Let_def if_not_P [OF assms(3)] if_not_P [OF go']
      cycle_begin_def [of "lvm ?s", unfolded Let_def, symmetric] begin' ms' start modules_agree [OF assms(4)] assms(5) ..
qed

text \<open>
  C11 (equivalence).  The hosted copy computes what the current machine computes.  If none of the instructions of a cycle is an edge detector, a latch or an
  exit, a cycle of the hosted machine takes the same machine to the same registers, memory, counters, modules, cache, checksums and flags
  as a cycle of the current machine, whatever statistics and edge memory it carries; only the virtual clock and
  the timers it moves may differ, and with real time not even these.
\<close>

theorem hosted_cycle_agrees:
  assumes "vm_ok vm" "no_reload vm" "\<not> stop_requested vm" "\<not> ce_stop ce" "\<forall>i k. env_ok (ce_instr ce i k)"
    and "alike_modules (ce_instr ce) 0 (case modules vm of None \<Rightarrow> [] | Some ms \<Rightarrow> ms)
      \<lparr>r_vm = cycle_begin vm, r_count = 0, r_total = 0, r_out = out\<rparr>"
    and "run_cycle ce vm out = Inr (vm', out', go)"
  shows "\<exists>vm2 out2. vm_execute_single_cycle False ce (hosted_view p ed vm) out = Inr (hosted_view p ed vm2, out2, 0) \<and>
    same_but_time vm' vm2 \<and> (enable_tick_timing (config vm) \<longrightarrow> with_perf p vm2 = with_perf p vm')"
proof -
  let ?r = "\<lparr>r_vm = cycle_begin vm, r_count = 0, r_total = 0, r_out = out\<rparr>"
  obtain r where r: "run_modules (ce_instr ce) 0 (modules_of vm) ?r = Inr r" and fin: "end_of_cycle ce (time_ms vm) r = Inr (vm', out')"
    using assms(7) unfolding run_cycle_runs [OF assms(2-4)] by (auto simp: res_simps)
  have cb: "vm_ok (cycle_begin vm)" using assms(1) by (simp add: cycle_begin_def Let_def)
  have conf: "config (cycle_begin vm) = config vm" "modules (cycle_begin vm) = modules vm" by (simp_all add: cycle_begin_def Let_def)
  have "vm_ok (r_vm r) \<and> run_frame (cycle_begin vm) (r_vm r)"
  proof (cases "modules vm")
    case None
    then have "r = ?r" using r by simp
    then show ?thesis using cb by simp
  next
    case (Some ms)
    with run_modules_ok [OF assms(5), of ms ms ?r 0] r cb conf(2) show ?thesis by simp
  qed
  then have frame: "vm_ok (r_vm r)" "config (r_vm r) = config vm" using conf(1) by (simp_all add: run_frame_def)
  then have wf: "vm_wf (r_vm r)" by (simp add: vm_ok_def)
  note cur = end_of_cycle_shape [OF fin wf]
  let ?e = "(update_all_timers (r_vm r))\<lparr>prev_cycle_hash := calculate_registers_hash_ex (reg (r_vm r)) REG_COUNT (hash_algo (config (r_vm r)))\<rparr>"
  obtain vm2 where host: "legacy_end_of_cycle (hosted_run p ed r) = hosted_view p ed vm2"
    "same_but_time ((r_vm r)\<lparr>prev_cycle_hash := calculate_registers_hash_ex (reg (r_vm r)) REG_COUNT (hash_algo (config (r_vm r)))\<rparr>) vm2"
    "enable_tick_timing (config (r_vm r)) \<longrightarrow> vm2 = ?e"
    using legacy_end_shape [OF wf, of p ed] by blast
  have "same_but_time vm' vm2" using cur host(2) by (simp add: same_but_time_def)
  moreover have "with_perf p vm2 = with_perf p vm'" if "enable_tick_timing (config vm)"
  proof -
    have t: "enable_tick_timing (config (r_vm r))" using that frame(2) by simp
    then obtain q where "vm' = ?e\<lparr>perf := q\<rparr>" using cur by blast
    then show ?thesis using host(3) t by simp
  qed
  ultimately show ?thesis using hosted_cycle_runs [OF assms(2-4,6) r, of p ed] host(1) by auto
qed

section \<open>The sample machine\<close>

lemma sample_alike:
  assumes "cache_current vm" "cache_room vm" "mem vm = write_bytes (\<lambda>_. 0) 0x3000 [1, 2, 3, 4]"
    and "op_ex vm = map Some default_op_ex @ replicate 60 None" "\<not> logging vm" "\<not> enable_tick_timing (config vm)"
    and "modules vm = Some [sample_module]"
  shows "alike_modules (\<lambda>_ _. sample_instr_env) 0 [sample_module] \<lparr>r_vm = vm, r_count = 0, r_total = 0, r_out = out\<rparr>"
proof -
  let ?r = "\<lparr>r_vm = vm\<lparr>running := True, PC := 0x3000\<rparr>, r_count = 0, r_total = 0, r_out = out\<rparr>"
  obtain c t n where step: "vm_run_instruction sample_instr_env sample_module 0x3004 ?r =
      Inr (\<lparr>r_vm = sample_done vm c t n, r_count = 1, r_total = 1, r_out = out\<rparr>, 0)"
    using sample_instruction [OF assms(1-6)] by blast
  let ?r2 = "\<lparr>r_vm = sample_done vm c t n, r_count = 1, r_total = 1, r_out = out\<rparr>"
  have word: "word_at (mem vm) 0x3000 = 0x04030201" "word_at (mem vm) 0x3004 = 0"
    using assms(3) sample_word by (simp_all add: word_at_def write_bytes_def of_le32_def)
  have first: "alike ?r"
    using sample_handler assms(4) word(1) by (simp add: alike_def vm_mr32_ok sample_fields legacy_own_def)
  have "(map Some default_op_ex @ replicate 60 None) ! 0 = Some OP_ADD" by (simp add: default_op_ex_def)
  then have second: "alike ?r2"
    using assms(4) word(2) by (simp add: alike_def vm_mr32_ok sample_done_def OPC_def legacy_own_def)
  have "alike_loop (\<lambda>_. sample_instr_env) sample_module 0x3004 ?r2"
    by (subst alike_loop.simps) (simp add: second sample_module_end)
  then have "alike_loop (\<lambda>_. sample_instr_env) sample_module 0x3004 ?r"
    by (subst alike_loop.simps) (simp add: first step)
  then show ?thesis by (simp add: alike_module_def sample_module_def split: sum.split)
qed

theorem hosted_cycle_agrees_witness:
  "\<exists>vm' out' vm2 out2. run_cycle sample_cycle (sample_vm\<lparr>program_dir := None\<rparr>) [] = Inr (vm', out', True) \<and>
     vm_execute_single_cycle False sample_cycle (hosted_view zero_perf [] (sample_vm\<lparr>program_dir := None\<rparr>)) [] =
       Inr (hosted_view zero_perf [] vm2, out2, 0) \<and> same_but_time vm' vm2"
proof -
  let ?vm = "sample_vm\<lparr>program_dir := None\<rparr>"
  have fields: "modules ?vm = Some [sample_module]" "\<not> stop_requested ?vm" "cycle_count ?vm = 1" "\<not> logging ?vm"
    "\<not> enable_tick_timing (config ?vm)" "mem ?vm = write_bytes (\<lambda>_. 0) 0x3000 [1, 2, 3, 4]"
    "op_ex ?vm = map Some default_op_ex @ replicate 60 None" "decoded_cache ?vm = Some empty_cache"
    by (simp_all add: sample_vm_def logging_def) (simp_all add: vm_zero_def)
  have ok: "vm_ok ?vm" "no_reload ?vm" using sample_hosted_ok(1,2) by (simp_all add: sample_hosted_def legacy_ok_def)
  have cb: "cycle_begin ?vm = ?vm\<lparr>cycle_count := 2\<rparr>" using fields(3) by (simp add: cycle_begin_def Let_def)
  have cur: "cache_current (cycle_begin ?vm)" "cache_room (cycle_begin ?vm)"
    using empty_cache_ok fields(8) by (simp_all add: cb cache_current_def cache_room_def ht_room_def)
  have alike: "alike_modules (\<lambda>_ _. sample_instr_env) 0 [sample_module] \<lparr>r_vm = cycle_begin ?vm, r_count = 0, r_total = 0, r_out = []\<rparr>"
    by (rule sample_alike) (use cur fields in \<open>simp_all add: cb logging_def\<close>)
  obtain r where r: "vm_run_module (\<lambda>_. sample_instr_env) sample_module \<lparr>r_vm = cycle_begin ?vm, r_count = 0, r_total = 0, r_out = []\<rparr> = Inr r"
    using sample_module_run [OF cur, of "[]"] fields by (auto simp: cb logging_def)
  have cbok: "vm_ok (cycle_begin ?vm)" "modules (cycle_begin ?vm) = Some [sample_module]" using ok fields(1) by (simp_all add: cb)
  have rok: "vm_ok (r_vm r)"
    using run_modules_ok [of "\<lambda>_ _. sample_instr_env" "[sample_module]" "[sample_module]" "\<lparr>r_vm = cycle_begin ?vm, r_count = 0, r_total = 0, r_out = []\<rparr>" 0]
      sample_env_ok cbok r by simp
  obtain vm' out' where fin: "end_of_cycle sample_cycle (time_ms (?vm\<lparr>cycle_count := 2\<rparr>)) r = Inr (vm', out')"
  proof -
    have "ce_end sample_cycle = ce_start sample_cycle" by (simp add: sample_cycle_def)
    from end_of_cycle_returns [OF rok this] that show thesis by blast
  qed
  have nstop: "\<not> stop_requested (?vm\<lparr>cycle_count := 2\<rparr>)" using fields(2) by simp
  have run: "run_cycle sample_cycle ?vm [] = Inr (vm', out', True)"
    using reload_phase_none [OF ok(2), of "ce_heap sample_cycle" "ce_fs sample_cycle"] nstop r fin fields(1,3)
    by (simp add: run_cycle_def sample_cycle_def Let_def cb)
  have "\<exists>vm2 out2. vm_execute_single_cycle False sample_cycle (hosted_view zero_perf [] ?vm) [] = Inr (hosted_view zero_perf [] vm2, out2, 0) \<and>
    same_but_time vm' vm2 \<and> (enable_tick_timing (config ?vm) \<longrightarrow> with_perf zero_perf vm2 = with_perf zero_perf vm')"
    by (rule hosted_cycle_agrees [OF ok fields(2) _ _ _ run])
      (use alike fields(1) sample_env_ok in \<open>simp_all add: sample_cycle_def\<close>)
  with run show ?thesis by blast
qed

end
