(* ===== verification/HostApi.thy ===== *)
theory HostApi
  imports LegacyRun VM_Main
begin

text \<open>
  The interface of the hosted machine (\<open>legacy/src/vm_api.c\<close>): one global machine and the calls the C++ system makes
  on it.  A function pointer is the name of the function.  The function \<open>vm_load_programs\<close>, which
  \<open>vm32_load_programs\<close> calls, is defined nowhere in the sources; it is the argument \<open>load\<close>.  The header
  \<open>vm_api.h\<close> documents what \<open>vm32_load_programs\<close> does: it copies the names and calls \<open>load_programs\<close>.
  Where a property needs to know more of \<open>load\<close>, it assumes just that, as \<open>calls_load_programs\<close>.
\<close>

section \<open>Operations\<close>

record vm_api =
  g_vm :: "legacy_vm option"
  g_log_cb :: "string option"

text \<open>What a creation reads from outside: the outcome of allocations and the clock.\<close>

record host_env =
  he_vm :: bool
  he_mem :: bool
  he_now :: timespec
  he_calloc :: "u32 \<Rightarrow> bool"
  he_malloc :: "nat \<Rightarrow> bool"

type_synonym loader = "legacy_vm \<Rightarrow> cstr list \<Rightarrow> int \<Rightarrow> (legacy_vm \<times> int) res"

definition vm32_init :: "host_env \<Rightarrow> vm_config option \<Rightarrow> vm_api \<Rightarrow> (vm_api \<times> int) res" where
  "vm32_init he cfg st =
     (if g_vm st \<noteq> None then Inr (st, -1) else
      let st = st\<lparr>g_vm := legacy_create (he_vm he) (he_mem he) (he_now he)\<rparr> in
      case g_vm st of
        None \<Rightarrow> Inr (st, -1)
      | Some s \<Rightarrow>
          let vm = lvm s;
              vm = (case cfg of None \<Rightarrow> vm | Some c \<Rightarrow> vm\<lparr>config := c\<rparr>);
              vm = vm\<lparr>stop_requested := False\<rparr>;
              vm = timers_init vm in
          bindR (vm_tables_init (he_calloc he) (he_malloc he) vm) (\<lambda>(vm, _).
          Inr (st\<lparr>g_vm := Some (s\<lparr>lvm := vm\<rparr>)\<rparr>, 0)))"

definition vm32_load_programs :: "loader \<Rightarrow> cstr list option \<Rightarrow> int \<Rightarrow> vm_api \<Rightarrow> (vm_api \<times> int) res" where
  "vm32_load_programs load fnames n st =
     (case (g_vm st, fnames) of
        (Some s, Some names) \<Rightarrow>
          if n \<le> 0 then Inr (st, -1)
          else bindR (load s names n) (\<lambda>(s, rc). Inr (st\<lparr>g_vm := Some s\<rparr>, rc))
      | _ \<Rightarrow> Inr (st, -1))"

definition vm32_execute_cycle :: "bool \<Rightarrow> cycle_env \<Rightarrow> vm_api \<Rightarrow> (vm_api \<times> event list) res" where
  "vm32_execute_cycle global_stop ce st =
     (case g_vm st of
        None \<Rightarrow> Inr (st, [])
      | Some s \<Rightarrow> bindR (vm_execute_single_cycle global_stop ce s []) (\<lambda>(s, out, _). Inr (st\<lparr>g_vm := Some s\<rparr>, out)))"

definition vm32_request_stop :: "vm_api \<Rightarrow> vm_api" where
  "vm32_request_stop st =
     (case g_vm st of
        None \<Rightarrow> st
      | Some s \<Rightarrow> st\<lparr>g_vm := Some (upd_lvm (\<lambda>vm. vm\<lparr>stop_requested := True\<rparr>) s)\<rparr>)"

definition vm32_is_running :: "vm_api \<Rightarrow> int" where
  "vm32_is_running st =
     (case g_vm st of None \<Rightarrow> 0 | Some s \<Rightarrow> if \<not> stop_requested (lvm s) then 1 else 0)"

definition vm32_shutdown :: "vm_api \<Rightarrow> vm_api" where
  "vm32_shutdown st =
     (case g_vm st of
        None \<Rightarrow> st
      | Some s \<Rightarrow>
          let s = upd_lvm (\<lambda>vm. vm\<lparr>stop_requested := True\<rparr>) s;
              s = upd_lvm vm_tables_destroy s
          in st\<lparr>g_vm := (case legacy_destroy (Some s) of _ \<Rightarrow> None), g_log_cb := None\<rparr>)"

definition vm32_set_log_callback :: "string option \<Rightarrow> vm_api \<Rightarrow> vm_api" where
  "vm32_set_log_callback cb st = st\<lparr>g_log_cb := cb\<rparr>"

text \<open>Before any call.\<close>

definition api_start :: vm_api where
  "api_start = \<lparr>g_vm = None, g_log_cb = None\<rparr>"

section \<open>Calls in any order\<close>

text \<open>What \<open>vm_api.h\<close> says of a load, over the program loader of the runtime; \<open>alloc\<close> is the outcome of the
  allocation of its module table and \<open>fs\<close> the files.\<close>

definition calls_load_programs :: "bool \<Rightarrow> file_system \<Rightarrow> loader \<Rightarrow> bool" where
  "calls_load_programs alloc fs load \<longleftrightarrow> (\<forall>s names n. 0 < n \<and> n \<le> int (length names) \<longrightarrow>
     load s names n = bindR (load_programs alloc fs (lvm s) (take (nat n) names)) (\<lambda>(vm, rc). Inr (s\<lparr>lvm := vm\<rparr>, rc)))"

definition documented_loader :: "(bool \<Rightarrow> file_system \<Rightarrow> loader) \<Rightarrow> bool" where
  "documented_loader load \<longleftrightarrow> (\<forall>alloc fs. calls_load_programs alloc fs (load alloc fs))"

text \<open>What a caller sees to: the count is not beyond the names, and the files leave the three bytes free that the loader
  needs when it lists the first words of a module.\<close>

definition load_call_ok :: "file_system \<Rightarrow> cstr list option \<Rightarrow> int \<Rightarrow> vm_api \<Rightarrow> bool" where
  "load_call_ok fs fnames n st \<longleftrightarrow> (\<forall>s names. g_vm st = Some s \<and> fnames = Some names \<and> 0 < n \<longrightarrow>
     n \<le> int (length names) \<and> loadable fs (PC_START (lvm s)) (take (nat n) names))"

inductive api_step :: "(bool \<Rightarrow> file_system \<Rightarrow> loader) \<Rightarrow> vm_api \<Rightarrow> vm_api \<Rightarrow> bool" for load where
  init: "he_calloc he MIN_TABLE_SIZE \<Longrightarrow> vm32_init he cfg st = Inr (st', rc) \<Longrightarrow> api_step load st st'"
| load: "load_call_ok fs fnames n st \<Longrightarrow> vm32_load_programs (load alloc fs) fnames n st = Inr (st', rc) \<Longrightarrow> api_step load st st'"
| cycle: "host_env_ok ce \<Longrightarrow> vm32_execute_cycle g ce st = Inr (st', out) \<Longrightarrow> api_step load st st'"
| stop: "api_step load st (vm32_request_stop st)"
| shutdown: "api_step load st (vm32_shutdown st)"
| callback: "api_step load st (vm32_set_log_callback cb st)"

inductive_cases api_stepE: "api_step load st st'"

text \<open>The invariant of the global machine.\<close>

definition host_ok :: "legacy_vm \<Rightarrow> bool" where
  "host_ok s \<longleftrightarrow> legacy_ok s \<and> no_reload (lvm s)"

definition api_ok :: "vm_api \<Rightarrow> bool" where
  "api_ok st \<longleftrightarrow> (\<forall>s. g_vm st = Some s \<longrightarrow> host_ok s)"

lemma tables_init_shape:
  assumes "vm_tables_init ca mk vm = Inr (vm', rc)"
  shows "vm' = vm\<lparr>labels := labels vm', breakpoints := breakpoints vm', decoded_cache := decoded_cache vm'\<rparr>"
proof -
  obtain l :: "(cstr, u32) hash_table option" where l: "hash_table_create ca (mk 0) string_key_type = Inr l"
    using assms by (cases "hash_table_create ca (mk 0) string_key_type :: (cstr, u32) hash_table option res") (simp_all add: vm_tables_init_def)
  note step = assms [unfolded vm_tables_init_def l bindR_simps Let_def]
  show ?thesis
  proof (cases "l = None")
    case True
    then have "vm' = vm\<lparr>labels := None\<rparr>" using step by simp
    then show ?thesis by simp
  next
    case False
    note step = step [unfolded if_not_P [OF False]]
    obtain b :: "(u32, u32) hash_table option" where b: "hash_table_create ca (mk 1) uint32_key_type = Inr b"
      using step by (cases "hash_table_create ca (mk 1) uint32_key_type :: (u32, u32) hash_table option res") simp_all
    note step = step [unfolded b bindR_simps]
    show ?thesis
    proof (cases "b = None")
      case True
      then have "vm' = vm\<lparr>breakpoints := None, labels := None\<rparr>" using step by simp
      then show ?thesis by simp
    next
      case False
      note step = step [unfolded if_not_P [OF False]]
      obtain d :: "(u32, decoded_instr) hash_table option" where d: "hash_table_create ca (mk 2) uint32_key_type = Inr d"
        using step by (cases "hash_table_create ca (mk 2) uint32_key_type :: (u32, decoded_instr) hash_table option res") simp_all
      show ?thesis
      proof (cases d)
        case None
        then have "vm' = vm\<lparr>decoded_cache := None, breakpoints := None, labels := None\<rparr>" using step by (simp add: d)
        then show ?thesis by simp
      next
        case (Some t)
        then have "vm' = vm\<lparr>labels := l, breakpoints := b, decoded_cache := d\<rparr>" using step by (simp add: d)
        then show ?thesis by simp
      qed
    qed
  qed
qed

lemma vm_ok_config [simp]: "vm_ok (vm\<lparr>config := c\<rparr>) = vm_ok vm"
  by (simp add: vm_ok_def cache_sane_def modules_inside_def program_inside_def)

lemma vm32_init_ok:
  assumes "api_ok st" "he_calloc he MIN_TABLE_SIZE"
  shows "\<exists>st' rc. vm32_init he cfg st = Inr (st', rc) \<and> api_ok st' \<and> (rc = 0 \<or> rc = -1 \<and> st' = st) \<and>
    (rc = 0 \<longrightarrow> g_vm st = None \<and> vm32_is_running st' = 1 \<and>
      (\<exists>s. g_vm st' = Some s \<and> modules (lvm s) = None \<and> PC_START (lvm s) = 0x3000 \<and> (\<forall>c. cfg = Some c \<longrightarrow> config (lvm s) = c)))"
proof (cases "g_vm st = None \<and> he_vm he \<and> he_mem he")
  case False
  have "vm32_init he cfg st = Inr (st, -1)"
    using False by (cases "g_vm st") (auto simp: vm32_init_def legacy_create_def)
  with assms(1) show ?thesis by simp
next
  case True
  obtain s where s: "legacy_create True True (he_now he) = Some s" by (simp add: legacy_create_def)
  note made = legacy_create_ok [OF s]
  let ?vm1 = "case cfg of None \<Rightarrow> lvm s | Some c \<Rightarrow> (lvm s)\<lparr>config := c\<rparr>"
  have ok1: "vm_ok (timers_init (?vm1\<lparr>stop_requested := False\<rparr>))"
    using made(1) timers_init_ok [of "?vm1\<lparr>stop_requested := False\<rparr>"]
    by (cases cfg) (simp_all add: legacy_ok_def)
  define vm2 where "vm2 = timers_init (?vm1\<lparr>stop_requested := False\<rparr>)"
  note ok2 = ok1 [folded vm2_def]
  from tables_init_ok [OF ok2, of "he_calloc he" "he_malloc he"] assms(2) obtain vm3 rc where
    vm3: "vm_tables_init (he_calloc he) (he_malloc he) vm2 = Inr (vm3, rc)" "vm_ok vm3" by blast
  obtain l b d where shape: "vm3 = vm2\<lparr>labels := l, breakpoints := b, decoded_cache := d\<rparr>"
    using tables_init_shape [OF vm3(1)] that by blast
  have fields: "program_dir vm3 = None" "\<not> reload_pending vm3" "\<not> stop_requested vm3" "modules vm3 = None" "PC_START vm3 = 0x3000"
    "\<forall>c. cfg = Some c \<longrightarrow> config vm3 = c"
    using made by (cases cfg; simp add: shape vm2_def timers_init_def no_reload_def)+
  have eq: "vm32_init he cfg st = Inr (st\<lparr>g_vm := Some (s\<lparr>lvm := vm3\<rparr>)\<rparr>, 0)"
    using True unfolding vm32_init_def Let_def by (simp add: s vm3(1) flip: vm2_def)
  show ?thesis
    using made(1) vm3(2) fields True
    by (simp add: eq api_ok_def host_ok_def legacy_ok_def no_reload_def vm32_is_running_def)
qed

lemma vm32_cycle_ok:
  assumes "api_ok st" "host_env_ok ce"
  shows "case vm32_execute_cycle g ce st of Inl f \<Rightarrow> run_fault f
    | Inr (st', out) \<Rightarrow> api_ok st' \<and> g_log_cb st' = g_log_cb st \<and> (g_vm st = None \<longleftrightarrow> g_vm st' = None) \<and>
        (\<forall>s. g_vm st = Some s \<longrightarrow> stop_requested (lvm s) \<or> g \<longrightarrow> st' = st \<and> out = [])"
proof (cases "g_vm st")
  case None
  then show ?thesis using assms(1) by (simp add: vm32_execute_cycle_def)
next
  case (Some s)
  have s: "legacy_ok s" "no_reload (lvm s)" using assms(1) Some by (simp_all add: api_ok_def host_ok_def)
  note one = legacy_cycle_ok [OF s assms(2), of g "[]"]
  show ?thesis
  proof (cases "vm_execute_single_cycle g ce s []")
    case (Inl f)
    with one show ?thesis by (simp add: vm32_execute_cycle_def Some)
  next
    case (Inr x)
    obtain s' out rc where x: "x = (s', out, rc)" by (cases x)
    have eq: "vm32_execute_cycle g ce st = Inr (st\<lparr>g_vm := Some s'\<rparr>, out)"
      by (simp add: vm32_execute_cycle_def Some Inr x)
    have silent: "st\<lparr>g_vm := Some s'\<rparr> = st \<and> out = []" if "stop_requested (lvm s) \<or> g"
    proof -
      have stop: "g \<or> stop_requested (lvm s)" using that by blast
      have "vm_execute_single_cycle g ce s [] = Inr (s, [], 1)"
        unfolding vm_execute_single_cycle_def if_P [OF stop] ..
      then have "s' = s" "out = []" by (simp_all add: Inr x)
      with Some show ?thesis by simp
    qed
    have "host_ok s'" using one unfolding Inr x sum.case prod.case host_ok_def by blast
    then have ok: "api_ok (st\<lparr>g_vm := Some s'\<rparr>)" by (simp add: api_ok_def)
    have quiet: "st\<lparr>g_vm := Some s'\<rparr> = st \<and> out = []" if "g_vm st = Some t" "stop_requested (lvm t) \<or> g" for t
      by (rule silent) (use that Some in simp)
    have "g_log_cb (st\<lparr>g_vm := Some s'\<rparr>) = g_log_cb st" "(g_vm st = None) = (g_vm (st\<lparr>g_vm := Some s'\<rparr>) = None)"
      using Some by simp_all
    with ok quiet show ?thesis unfolding eq sum.case prod.case by blast
  qed
qed

lemma vm32_load_idle:
  "\<not> (\<exists>s names. g_vm st = Some s \<and> fnames = Some names \<and> 0 < n) \<Longrightarrow> vm32_load_programs load fnames n st = Inr (st, -1)"
  by (auto simp: vm32_load_programs_def split: option.splits)

lemma vm32_load_eq:
  assumes "g_vm st = Some s" "fnames = Some names" "0 < n" "n \<le> int (length names)" "calls_load_programs alloc fs load"
  shows "vm32_load_programs load fnames n st =
    bindR (load_programs alloc fs (lvm s) (take (nat n) names)) (\<lambda>(vm, rc). Inr (st\<lparr>g_vm := Some (s\<lparr>lvm := vm\<rparr>)\<rparr>, rc))"
proof -
  have "load s names n = bindR (load_programs alloc fs (lvm s) (take (nat n) names)) (\<lambda>(vm, rc). Inr (s\<lparr>lvm := vm\<rparr>, rc))"
    using assms(3,4,5) by (simp add: calls_load_programs_def)
  then show ?thesis
    using assms(1,2,3) by (cases "load_programs alloc fs (lvm s) (take (nat n) names)") (auto simp: vm32_load_programs_def)
qed

text \<open>Whatever the files, a load leaves the stop request.\<close>

lemma vm32_load_running:
  assumes "vm32_load_programs load fnames n st = Inr (st', rc)" "calls_load_programs alloc fs load"
    and "\<forall>names. fnames = Some names \<longrightarrow> n \<le> int (length names)"
  shows "vm32_is_running st' = vm32_is_running st"
proof (cases "\<exists>s names. g_vm st = Some s \<and> fnames = Some names \<and> 0 < n")
  case False
  from vm32_load_idle [OF this] assms(1) show ?thesis by simp
next
  case True
  then obtain s names where s: "g_vm st = Some s" "fnames = Some names" "0 < n" by blast
  have len: "n \<le> int (length names)" using assms(3) s(2) by blast
  obtain vm rc' where vm: "load_programs alloc fs (lvm s) (take (nat n) names) = Inr (vm, rc')" "st' = st\<lparr>g_vm := Some (s\<lparr>lvm := vm\<rparr>)\<rparr>"
    using assms(1) unfolding vm32_load_eq [OF s len assms(2)]
    by (cases "load_programs alloc fs (lvm s) (take (nat n) names)") auto
  have "load_frame (lvm s) vm" using load_programs_frame [OF vm(1)] by blast
  from arg_cong [OF this [unfolded load_frame_def], of stop_requested] have "stop_requested vm = stop_requested (lvm s)" by simp
  with s(1) vm(2) show ?thesis by (simp add: vm32_is_running_def)
qed

lemma vm32_load_ok:
  assumes "api_ok st" "calls_load_programs alloc fs load" "load_call_ok fs fnames n st"
  obtains st' rc where "vm32_load_programs load fnames n st = Inr (st', rc)" "api_ok st'" "rc = 0 \<or> rc = -1"
proof (cases "\<exists>s names. g_vm st = Some s \<and> fnames = Some names \<and> 0 < n")
  case False
  from vm32_load_idle [OF this] assms(1) that show thesis by simp
next
  case True
  then obtain s names where s: "g_vm st = Some s" "fnames = Some names" "0 < n" by blast
  have len: "n \<le> int (length names)" and fit: "loadable fs (PC_START (lvm s)) (take (nat n) names)"
    using assms(3) s by (simp_all add: load_call_ok_def)
  have ok: "host_ok s" using assms(1) s(1) by (simp add: api_ok_def)
  then have "vm_ok (lvm s)" by (simp add: host_ok_def legacy_ok_def)
  from load_programs_total [OF this fit, of alloc] obtain vm rc where
    vm: "load_programs alloc fs (lvm s) (take (nat n) names) = Inr (vm, rc)" "vm_ok vm" .
  have frame: "load_frame (lvm s) vm" "rc = 0 \<or> rc = -1" using load_programs_frame [OF vm(1)] by blast+
  have "api_ok (st\<lparr>g_vm := Some (s\<lparr>lvm := vm\<rparr>)\<rparr>)"
    using ok vm(2) load_frame_fields(1,5) [OF frame(1)] by (simp add: api_ok_def host_ok_def legacy_ok_def no_reload_def)
  moreover have "vm32_load_programs load fnames n st = Inr (st\<lparr>g_vm := Some (s\<lparr>lvm := vm\<rparr>)\<rparr>, rc)"
    by (simp add: vm32_load_eq [OF s len assms(2)] vm(1))
  ultimately show thesis using that frame(2) by blast
qed

lemma api_stop_ok: "api_ok st \<Longrightarrow> api_ok (vm32_request_stop st)"
  by (cases "g_vm st") (simp_all add: api_ok_def vm32_request_stop_def host_ok_def legacy_ok_def no_reload_def)

lemma shutdown_None: "g_vm (vm32_shutdown st) = None"
  by (cases "g_vm st") (simp_all add: vm32_shutdown_def Let_def)

lemma callback_ok: "api_ok st \<Longrightarrow> api_ok (vm32_set_log_callback cb st)"
  by (simp add: api_ok_def vm32_set_log_callback_def)

lemma api_step_ok:
  assumes "api_step load st st'" "documented_loader load" "api_ok st"
  shows "api_ok st'"
  using assms(1)
proof (cases rule: api_step.cases)
  case (init he cfg rc)
  then show ?thesis using vm32_init_ok [OF assms(3), of he cfg] by auto
next
  case (load fs fnames n alloc rc)
  have "calls_load_programs alloc fs (load alloc fs)" using assms(2) by (simp add: documented_loader_def)
  from vm32_load_ok [OF assms(3) this load(1)] load(2) show ?thesis by auto
next
  case (cycle ce g out)
  then show ?thesis using vm32_cycle_ok [OF assms(3), of ce g] by simp
qed (use assms(3) api_stop_ok callback_ok shutdown_None in \<open>simp_all add: api_ok_def [of "vm32_shutdown st"]\<close>)

lemma api_reachable_ok: "(api_step load)\<^sup>*\<^sup>* st st' \<Longrightarrow> documented_loader load \<Longrightarrow> api_ok st \<Longrightarrow> api_ok st'"
  by (induction rule: rtranclp_induct) (auto intro: api_step_ok)

lemma api_start_ok: "api_ok api_start"
  by (simp add: api_ok_def api_start_def)

section \<open>Properties\<close>

text \<open>
  C5 (invariant).  The hosted machine, whatever calls the host makes in whatever order: the machine keeps its invariant,
  has no program directory and never reloads; creation never faults and gives a running machine if there was none, or fails and changes
  nothing; a cycle faults only in the ways of the handlers, never by leaving the memory; a load of files that are missing, or that can
  be read and leave three bytes of the memory free, never faults and reports 0 or -1.  The function that loads, which
  the sources lack, is relied on to do what \<open>vm_api.h\<close> says: to call \<open>load_programs\<close>.
\<close>

theorem hosted_machine_safe:
  assumes "documented_loader load" "(api_step load)\<^sup>*\<^sup>* api_start st"
  shows "api_ok st \<and>
    (\<forall>he cfg. he_calloc he MIN_TABLE_SIZE \<longrightarrow> (\<exists>st' rc. vm32_init he cfg st = Inr (st', rc) \<and>
       (rc = 0 \<longleftrightarrow> vm32_is_running st' = 1 \<and> g_vm st = None) \<and> (rc = 0 \<or> rc = -1 \<and> st' = st))) \<and>
    (\<forall>g ce. host_env_ok ce \<longrightarrow> (case vm32_execute_cycle g ce st of
       Inl f \<Rightarrow> f \<in> {Bad_Conversion, Signed_Overflow, Overlapping_Copy} | Inr (st', out) \<Rightarrow> api_ok st')) \<and>
    (\<forall>alloc fs fnames n. load_call_ok fs fnames n st \<longrightarrow>
       (\<exists>st' rc. vm32_load_programs (load alloc fs) fnames n st = Inr (st', rc) \<and> api_ok st' \<and> (rc = 0 \<or> rc = -1)))"
proof (intro conjI allI impI)
  show ok: "api_ok st" using api_reachable_ok [OF assms(2,1) api_start_ok] .
  show "\<exists>st' rc. vm32_init he cfg st = Inr (st', rc) \<and>
       (rc = 0 \<longleftrightarrow> vm32_is_running st' = 1 \<and> g_vm st = None) \<and> (rc = 0 \<or> rc = -1 \<and> st' = st)"
    if alloc: "he_calloc he MIN_TABLE_SIZE" for he cfg
  proof -
    from vm32_init_ok [OF ok alloc, of cfg] obtain st' rc where
      r: "vm32_init he cfg st = Inr (st', rc)" "rc = 0 \<or> rc = -1 \<and> st' = st" "rc = 0 \<longrightarrow> g_vm st = None \<and> vm32_is_running st' = 1"
      by blast
    have "vm32_is_running st = 0" if "g_vm st = None" using that by (simp add: vm32_is_running_def)
    with r show ?thesis by (intro exI [of _ st'] exI [of _ rc]) auto
  qed
  show "case vm32_execute_cycle g ce st of Inl f \<Rightarrow> f \<in> {Bad_Conversion, Signed_Overflow, Overlapping_Copy} | Inr (st', out) \<Rightarrow> api_ok st'"
    if "host_env_ok ce" for g ce
    using vm32_cycle_ok [OF ok that, of g] by (cases "vm32_execute_cycle g ce st") (auto simp: run_fault_def)
  show "\<exists>st' rc. vm32_load_programs (load alloc fs) fnames n st = Inr (st', rc) \<and> api_ok st' \<and> (rc = 0 \<or> rc = -1)"
    if call: "load_call_ok fs fnames n st" for alloc fs fnames n
  proof -
    have "calls_load_programs alloc fs (load alloc fs)" using assms(1) by (simp add: documented_loader_def)
    from vm32_load_ok [OF ok this call] show ?thesis by blast
  qed
qed

text \<open>The calls between a creation and a shutdown, whatever the files and the environment of the cycles.\<close>

inductive api_work :: "(bool \<Rightarrow> file_system \<Rightarrow> loader) \<Rightarrow> vm_api \<Rightarrow> vm_api \<Rightarrow> bool" for load where
  load: "\<forall>names. fnames = Some names \<longrightarrow> n \<le> int (length names) \<Longrightarrow>
    vm32_load_programs (load alloc fs) fnames n st = Inr (st', rc) \<Longrightarrow> api_work load st st'"
| cycle: "vm32_execute_cycle g ce st = Inr (st', out) \<Longrightarrow> api_work load st st'"
| stop: "api_work load st (vm32_request_stop st)"
| callback: "api_work load st (vm32_set_log_callback cb st)"

lemma stopped_cycle: "vm32_is_running st = 0 \<Longrightarrow> vm32_execute_cycle g ce st = Inr (st, [])"
proof (cases "g_vm st")
  case (Some s)
  assume "vm32_is_running st = 0"
  then have stop: "g \<or> stop_requested (lvm s)" by (simp add: vm32_is_running_def Some split: if_splits)
  have "vm_execute_single_cycle g ce s [] = Inr (s, [], 1)"
    unfolding vm_execute_single_cycle_def if_P [OF stop] ..
  with Some show ?thesis by (simp add: vm32_execute_cycle_def)
qed (simp add: vm32_execute_cycle_def)

lemma work_stopped:
  assumes "api_work load st st'" "documented_loader load" "vm32_is_running st = 0"
  shows "vm32_is_running st' = 0"
  using assms(1)
proof (cases rule: api_work.cases)
  case (load fnames n alloc fs rc)
  have "calls_load_programs alloc fs (load alloc fs)" using assms(2) by (simp add: documented_loader_def)
  from vm32_load_running [OF load(2) this load(1)] assms(3) show ?thesis by simp
next
  case (cycle g ce out)
  then show ?thesis using stopped_cycle [OF assms(3), of g ce] assms(3) by simp
next
  case stop
  then show ?thesis by (cases "g_vm st") (simp_all add: vm32_is_running_def vm32_request_stop_def)
next
  case (callback cb)
  then show ?thesis using assms(3) by (simp add: vm32_is_running_def vm32_set_log_callback_def)
qed

lemma shutdown_init:
  assumes "he_vm he" "he_mem he" "he_calloc he MIN_TABLE_SIZE"
  shows "\<exists>st'. vm32_init he cfg (vm32_shutdown st) = Inr (st', 0) \<and> vm32_is_running st' = 1"
proof -
  have ok: "api_ok (vm32_shutdown st)" using shutdown_None by (simp add: api_ok_def)
  from vm32_init_ok [OF this assms(3), of cfg] obtain st' rc where
    st': "vm32_init he cfg (vm32_shutdown st) = Inr (st', rc)" "rc = 0 \<longrightarrow> vm32_is_running st' = 1" by blast
  have "rc = 0"
    using st'(1) assms(1,2) shutdown_None [of st]
    by (auto simp: vm32_init_def legacy_create_def res_simps Let_def)
  with st' show ?thesis by blast
qed

text \<open>
  C15 (safety).  A stop request is final for the machine it is made to: whatever loads, cycles, further stop requests and log callbacks
  follow, the machine reports that it is not running and its cycles do nothing at all; it cannot be created again beside
  itself, and only a shutdown followed by a creation gives a running machine.  Of the function that loads, which the sources lack, it is
  assumed that it calls \<open>load_programs\<close>, as \<open>vm_api.h\<close> says.
\<close>

theorem stop_is_final:
  assumes "documented_loader load" "(api_work load)\<^sup>*\<^sup>* (vm32_request_stop st) st'"
  shows "vm32_is_running st' = 0 \<and> vm32_execute_cycle g ce st' = Inr (st', []) \<and>
    (g_vm st' \<noteq> None \<longrightarrow> vm32_init he cfg st' = Inr (st', -1)) \<and>
    (he_vm he \<and> he_mem he \<and> he_calloc he MIN_TABLE_SIZE \<longrightarrow>
      (\<exists>st''. vm32_init he cfg (vm32_shutdown st') = Inr (st'', 0) \<and> vm32_is_running st'' = 1))"
proof -
  have start: "vm32_is_running (vm32_request_stop st) = 0"
    by (cases "g_vm st") (simp_all add: vm32_is_running_def vm32_request_stop_def)
  from assms(2) have stopped: "vm32_is_running st' = 0"
    by (induction rule: rtranclp_induct) (use start work_stopped [OF _ assms(1)] in auto)
  have "g_vm st' \<noteq> None \<longrightarrow> vm32_init he cfg st' = Inr (st', -1)" by (simp add: vm32_init_def)
  with stopped stopped_cycle shutdown_init show ?thesis by blast
qed

section \<open>Examples\<close>

text \<open>A function that does what is documented, and no more.\<close>

definition calling_loader :: "bool \<Rightarrow> file_system \<Rightarrow> loader" where
  "calling_loader alloc fs s fnames n =
     bindR (load_programs alloc fs (lvm s) (take (nat n) fnames)) (\<lambda>(vm, rc). Inr (s\<lparr>lvm := vm\<rparr>, rc))"

lemma calling_loader_calls: "calls_load_programs alloc fs (calling_loader alloc fs)"
  by (simp add: calls_load_programs_def calling_loader_def)

lemma calling_loader_ok: "documented_loader calling_loader"
  by (simp add: documented_loader_def calling_loader_calls)

definition sample_host :: host_env where
  "sample_host = \<lparr>he_vm = True, he_mem = True, he_now = zero_timespec, he_calloc = \<lambda>_. True, he_malloc = \<lambda>_. True\<rparr>"

lemma sample_host_init: "\<exists>st s. vm32_init sample_host None api_start = Inr (st, 0) \<and> api_ok st \<and> vm32_is_running st = 1 \<and>
    g_vm st = Some s \<and> PC_START (lvm s) = 0x3000"
  using vm32_init_ok [OF api_start_ok, of sample_host None] shutdown_init [of sample_host None api_start]
  by (auto simp: sample_host_def vm32_shutdown_def api_start_def)

lemma sample_file_fits: "loadable sample_fs 0x3000 [[97]]"
  unfolding loadable_def
  by (rule exI [of _ "[([97], [1, 2, 3, 4, 5, 6, 7, 8])]"]) (simp add: sample_fs_open)

text \<open>A creation, then the load of a program of eight bytes: it does not fault, and the next cycle does not leave the memory.\<close>

theorem hosted_machine_safe_witness:
  "\<exists>st st' rc. vm32_init sample_host None api_start = Inr (st, 0) \<and>
     vm32_load_programs (calling_loader True sample_fs) (Some [[97]]) 1 st = Inr (st', rc) \<and> api_ok st' \<and>
     (\<forall>g ce. host_env_ok ce \<longrightarrow> vm32_execute_cycle g ce st' \<noteq> Inl Out_Of_Bounds)"
proof -
  from sample_host_init obtain st s where st: "vm32_init sample_host None api_start = Inr (st, 0)" "vm32_is_running st = 1"
    "g_vm st = Some s" "PC_START (lvm s) = 0x3000" by blast
  have "api_step calling_loader api_start st" by (rule api_step.init [OF _ st(1)]) (simp add: sample_host_def)
  then have reach: "(api_step calling_loader)\<^sup>*\<^sup>* api_start st" by simp
  have call: "load_call_ok sample_fs (Some [[97]]) 1 st" using st(3,4) sample_file_fits by (simp add: load_call_ok_def)
  with hosted_machine_safe [OF calling_loader_ok reach] obtain st' rc where
    load: "vm32_load_programs (calling_loader True sample_fs) (Some [[97]]) 1 st = Inr (st', rc)" "api_ok st'" by blast
  from reach api_step.load [where load = calling_loader, OF call load(1)] have reach': "(api_step calling_loader)\<^sup>*\<^sup>* api_start st'" by simp
  have "vm32_execute_cycle g ce st' \<noteq> Inl Out_Of_Bounds" if "host_env_ok ce" for g ce
  proof
    assume f: "vm32_execute_cycle g ce st' = Inl Out_Of_Bounds"
    have "case vm32_execute_cycle g ce st' of Inl f \<Rightarrow> f \<in> {Bad_Conversion, Signed_Overflow, Overlapping_Copy} | Inr (st', out) \<Rightarrow> api_ok st'"
      using hosted_machine_safe [OF calling_loader_ok reach'] that by blast
    then show False by (simp add: f)
  qed
  with st(1) load show ?thesis by blast
qed

theorem stop_is_final_witness:
  "\<exists>st st' rc. vm32_init sample_host None api_start = Inr (st, 0) \<and> vm32_is_running st = 1 \<and>
     vm32_load_programs (calling_loader True sample_fs) (Some [[97]]) 1 (vm32_request_stop st) = Inr (st', rc) \<and>
     vm32_is_running st' = 0 \<and> vm32_execute_cycle False sample_cycle st' = Inr (st', [])"
proof -
  from sample_host_init obtain st s where st: "vm32_init sample_host None api_start = Inr (st, 0)" "api_ok st" "vm32_is_running st = 1"
    "g_vm st = Some s" "PC_START (lvm s) = 0x3000" by blast
  have "load_call_ok sample_fs (Some [[97]]) 1 (vm32_request_stop st)"
    using st(4,5) sample_file_fits by (simp add: load_call_ok_def vm32_request_stop_def)
  from vm32_load_ok [OF api_stop_ok [OF st(2)] calling_loader_calls this, of True] obtain st' rc where
    load: "vm32_load_programs (calling_loader True sample_fs) (Some [[97]]) 1 (vm32_request_stop st) = Inr (st', rc)" .
  have "api_work calling_loader (vm32_request_stop st) st'" by (rule api_work.load [where load = calling_loader, OF _ load]) simp
  then have "(api_work calling_loader)\<^sup>*\<^sup>* (vm32_request_stop st) st'" by simp
  from stop_is_final [OF calling_loader_ok this, of False sample_cycle] st load show ?thesis by blast
qed

end
