(* ===== verification/System.thy ===== *)
theory System
  imports HostApi
begin

text \<open>
  The component system around the hosted machine (\<open>system-master\<close>): the service bus, the scheduler and its tasks,
  events, the component manager, the machine as a component, and the program that puts them together.
  The directory \<open>system/\<close> with the system log and the life cycle controller is not part of the sources:
  the log is the list of lines it received, and what the controller answers is an argument of \<open>system_main\<close>.
\<close>

section \<open>The service bus\<close>

text \<open>Services are looked up by their type; an object is represented by \<open>'o\<close>.\<close>

type_synonym ('t, 'o) system_bus = "'t \<Rightarrow> 'o option"

definition registerService :: "'t \<Rightarrow> 'o \<Rightarrow> ('t, 'o) system_bus \<Rightarrow> ('t, 'o) system_bus" where
  "registerService t service bus = bus(t \<mapsto> service)"

definition getService :: "'t \<Rightarrow> ('t, 'o) system_bus \<Rightarrow> 'o option" where
  "getService t bus = bus t"

section \<open>Tasks and the scheduler\<close>

text \<open>A pointer to something that ticks: a task, by its place in the task manager, or a unit of another class.\<close>

datatype 'u tickable = Task_Ref nat | Unit_Ref 'u

record 'u task =
  task_name :: string
  task_units :: "'u tickable list"

record 'u scheduler =
  sched_tasks :: "'u tickable list"

record 'u task_manager =
  tm_tasks :: "'u task list"
  scheduler_bound :: bool

definition Task_add :: "'u tickable \<Rightarrow> 'u task \<Rightarrow> 'u task" where
  "Task_add u t = t\<lparr>task_units := task_units t @ [u]\<rparr>"

definition Scheduler_addTask :: "'u tickable \<Rightarrow> 'u scheduler \<Rightarrow> 'u scheduler" where
  "Scheduler_addTask t s = s\<lparr>sched_tasks := sched_tasks s @ [t]\<rparr>"

text \<open>\<open>createTask\<close> returns a reference to the new task.\<close>

definition createTask :: "string \<Rightarrow> 'u task_manager \<Rightarrow> 'u task_manager \<times> nat" where
  "createTask name tm = (tm\<lparr>tm_tasks := tm_tasks tm @ [\<lparr>task_name = name, task_units = []\<rparr>]\<rparr>, length (tm_tasks tm))"

definition bindScheduler :: "'u task_manager \<Rightarrow> 'u task_manager" where
  "bindScheduler tm = tm\<lparr>scheduler_bound := True\<rparr>"

definition registerToScheduler :: "'u task_manager \<Rightarrow> 'u scheduler \<Rightarrow> 'u scheduler" where
  "registerToScheduler tm s =
     (if \<not> scheduler_bound tm then s
      else fold (\<lambda>k. Scheduler_addTask (Task_Ref k)) [0..<length (tm_tasks tm)] s)"

text \<open>\<open>tick\<close> of a tickable as the units of other classes it ticks, in order.  A task may hold tasks, itself included, so the
  calls need not end: \<open>None\<close> if the depth of calls exceeds the first argument.\<close>

fun tick_unit :: "nat \<Rightarrow> 'u task list \<Rightarrow> 'u tickable \<Rightarrow> 'u list option"
  and tick_units :: "nat \<Rightarrow> 'u task list \<Rightarrow> 'u tickable list \<Rightarrow> 'u list option" where
  "tick_unit depth ts (Unit_Ref u) = Some [u]"
| "tick_unit 0 ts (Task_Ref k) = None"
| "tick_unit (Suc depth) ts (Task_Ref k) = (if k < length ts then tick_units depth ts (task_units (ts ! k)) else None)"
| "tick_units depth ts [] = Some []"
| "tick_units depth ts (u # us) =
     (case tick_unit depth ts u of
        None \<Rightarrow> None
      | Some xs \<Rightarrow> (case tick_units depth ts us of None \<Rightarrow> None | Some ys \<Rightarrow> Some (xs @ ys)))"

definition Scheduler_tick :: "nat \<Rightarrow> 'u task list \<Rightarrow> 'u scheduler \<Rightarrow> 'u list option" where
  "Scheduler_tick depth ts s = tick_units depth ts (sched_tasks s)"

section \<open>Events\<close>

record ('e, 'l) event_manager =
  em_listeners :: "'e \<Rightarrow> 'l list option"

definition subscribe :: "'e \<Rightarrow> 'l \<Rightarrow> ('e, 'l) event_manager \<Rightarrow> ('e, 'l) event_manager" where
  "subscribe t l em = em\<lparr>em_listeners := (em_listeners em)(t \<mapsto> (case em_listeners em t of None \<Rightarrow> [] | Some ls \<Rightarrow> ls) @ [l])\<rparr>"

text \<open>The listeners called, in order.\<close>

definition publish :: "'e \<Rightarrow> ('e, 'l) event_manager \<Rightarrow> 'l list" where
  "publish t em = (case em_listeners em t of None \<Rightarrow> [] | Some ls \<Rightarrow> ls)"

section \<open>The component manager\<close>

text \<open>A component is a name; its calls act on the state of the system, and may fault like the machine.\<close>

fun initAll :: "('c \<Rightarrow> 's \<Rightarrow> ('s \<times> bool) res) \<Rightarrow> 'c list \<Rightarrow> 's \<Rightarrow> ('s \<times> bool) res" where
  "initAll init [] s = Inr (s, True)"
| "initAll init (c # cs) s = bindR (init c s) (\<lambda>(s, ok). if \<not> ok then Inr (s, False) else initAll init cs s)"

fun startAll :: "('c \<Rightarrow> 's \<Rightarrow> ('s \<times> bool) res) \<Rightarrow> 'c list \<Rightarrow> 's \<Rightarrow> ('s \<times> bool) res" where
  "startAll start [] s = Inr (s, True)"
| "startAll start (c # cs) s = bindR (start c s) (\<lambda>(s, ok). if \<not> ok then Inr (s, False) else startAll start cs s)"

definition stopAll :: "('c \<Rightarrow> 's \<Rightarrow> 's) \<Rightarrow> 'c list \<Rightarrow> 's \<Rightarrow> 's" where
  "stopAll stop cs s = fold stop (rev cs) s"

definition addComponent :: "'c \<Rightarrow> 'c list \<Rightarrow> 'c list" where
  "addComponent c cs = cs @ [c]"

section \<open>The components of the program\<close>

datatype component = EventManager_C | Logger_C | Scheduler_C | TaskManager_C | VM32_C

datatype service = EventManager_T | ILogger_T | Scheduler_T | TaskManager_T | ISystemLog_T

datatype object = Member_Of component | System_Log

datatype log_level = Info | Error

text \<open>The state of all components together: \<open>s_logger\<close> tells whether \<open>LoggerComponent\<close> has found the system log,
  \<open>s_bridge\<close> whether \<open>logger_bridge.cpp\<close> has a logger, \<open>s_log\<close> the lines the system log received, \<open>vm_has_bus\<close> whether the bus of
  \<open>VM32Component\<close> is set.\<close>

record sys =
  s_bus :: "(service, object) system_bus"
  s_events :: "(string, string) event_manager"
  s_scheduler :: "component scheduler"
  s_manager :: "component task_manager"
  s_logger :: bool
  s_log :: "(log_level \<times> string) list"
  s_bridge :: bool
  s_api :: vm_api
  vm_has_bus :: bool
  vm_program_files :: "cstr list"
  vm_component_config :: vm_config
  vm_initialized :: bool

definition system_log :: "log_level \<Rightarrow> string \<Rightarrow> sys \<Rightarrow> sys" where
  "system_log level msg s = s\<lparr>s_log := s_log s @ [(level, msg)]\<rparr>"

definition EventManagerComponent_init :: "sys \<Rightarrow> sys \<times> bool" where
  "EventManagerComponent_init s =
     (s\<lparr>s_bus := registerService EventManager_T (Member_Of EventManager_C) (s_bus s)\<rparr>, True)"

definition SchedulerComponent_init :: "sys \<Rightarrow> sys \<times> bool" where
  "SchedulerComponent_init s =
     (s\<lparr>s_bus := registerService Scheduler_T (Member_Of Scheduler_C) (s_bus s)\<rparr>, True)"

definition TaskManagerComponent_init :: "sys \<Rightarrow> sys \<times> bool" where
  "TaskManagerComponent_init s =
     (case getService Scheduler_T (s_bus s) of
        None \<Rightarrow> (s, False)
      | Some _ \<Rightarrow> (s\<lparr>s_manager := bindScheduler (s_manager s),
          s_bus := registerService TaskManager_T (Member_Of TaskManager_C) (s_bus s)\<rparr>, True))"

definition TaskManagerComponent_start :: "sys \<Rightarrow> sys \<times> bool" where
  "TaskManagerComponent_start s = (s\<lparr>s_scheduler := registerToScheduler (s_manager s) (s_scheduler s)\<rparr>, True)"

definition LoggerComponent_init :: "sys \<Rightarrow> sys \<times> bool" where
  "LoggerComponent_init s =
     (let s = s\<lparr>s_logger := (getService ISystemLog_T (s_bus s) \<noteq> None)\<rparr> in
      if \<not> s_logger s then (s, False)
      else (s\<lparr>s_bus := registerService ILogger_T (Member_Of Logger_C) (s_bus s)\<rparr>, True))"

definition LoggerComponent_start :: "sys \<Rightarrow> sys \<times> bool" where
  "LoggerComponent_start s = (system_log Info ''LoggerComponent started'' s, True)"

definition LoggerComponent_stop :: "sys \<Rightarrow> sys" where
  "LoggerComponent_stop s = system_log Info ''LoggerComponent stopped'' s"

definition LoggerComponent_info :: "string \<Rightarrow> sys \<Rightarrow> sys" where
  "LoggerComponent_info msg s = system_log Info msg s"

definition LoggerComponent_error :: "string \<Rightarrow> sys \<Rightarrow> sys" where
  "LoggerComponent_error msg s = system_log Error msg s"

text \<open>The callback of the machine's log, and the levels of \<open>vm_api.h\<close>.\<close>

definition VM32_LOG_INFO :: int where
  "VM32_LOG_INFO = 0"

definition VM32_LOG_ERROR :: int where
  "VM32_LOG_ERROR = 1"

definition VM32_LOG_DEBUG :: int where
  "VM32_LOG_DEBUG = 2"

definition vm32_bridge_set_system_logger :: "bool \<Rightarrow> sys \<Rightarrow> sys" where
  "vm32_bridge_set_system_logger logger s = s\<lparr>s_bridge := logger\<rparr>"

definition vm32_bridge_log_cb :: "int \<Rightarrow> string option \<Rightarrow> sys \<Rightarrow> sys" where
  "vm32_bridge_log_cb level msg s =
     (case msg of
        None \<Rightarrow> s
      | Some m \<Rightarrow>
          if \<not> s_bridge s then s
          else if level = VM32_LOG_ERROR then LoggerComponent_error m s
          else LoggerComponent_info m s)"

section \<open>The machine as a component\<close>

definition VM32Engine_loadPrograms :: "loader \<Rightarrow> cstr list \<Rightarrow> sys \<Rightarrow> (sys \<times> bool) res" where
  "VM32Engine_loadPrograms load files s =
     bindR (vm32_load_programs load (Some files) (int (length files)) (s_api s)) (\<lambda>(api, rc).
     Inr (s\<lparr>s_api := api\<rparr>, rc = 0))"

text \<open>Whether the programs could be loaded is not looked at.\<close>

definition VM32Engine_init :: "host_env \<Rightarrow> loader \<Rightarrow> vm_config \<Rightarrow> cstr list \<Rightarrow> sys \<Rightarrow> (sys \<times> bool) res" where
  "VM32Engine_init he load cfg files s =
     bindR (vm32_init he (Some cfg) (s_api s)) (\<lambda>(api, rc).
     let s = s\<lparr>s_api := api\<rparr> in
     if rc \<noteq> 0 then Inr (s, False) else
     bindR (if files \<noteq> [] then bindR (VM32Engine_loadPrograms load files s) (\<lambda>(s, _). Inr s) else Inr s) (\<lambda>s.
     Inr (s\<lparr>vm_initialized := True\<rparr>, True)))"

definition VM32Engine_executeCycle :: "bool \<Rightarrow> cycle_env \<Rightarrow> sys \<Rightarrow> (sys \<times> event list) res" where
  "VM32Engine_executeCycle g ce s = bindR (vm32_execute_cycle g ce (s_api s)) (\<lambda>(api, out). Inr (s\<lparr>s_api := api\<rparr>, out))"

definition VM32Engine_shutdown :: "sys \<Rightarrow> sys" where
  "VM32Engine_shutdown s = s\<lparr>s_api := vm32_shutdown (s_api s), vm_initialized := False\<rparr>"

definition VM32Engine_requestStop :: "sys \<Rightarrow> sys" where
  "VM32Engine_requestStop s = s\<lparr>s_api := vm32_request_stop (s_api s)\<rparr>"

definition VM32Component_config :: vm_config where
  "VM32Component_config = \<lparr>clock_rate_hz = 100, cycle_time_ms = 1000, enable_cycle_check = True,
     enable_hash_check = True, enable_tick_timing = False, hash_algo = HASH_CRC32\<rparr>"

definition VM32Component_init :: "host_env \<Rightarrow> loader \<Rightarrow> sys \<Rightarrow> (sys \<times> bool) res" where
  "VM32Component_init he load s =
     (if \<not> vm_has_bus s then Inr (s, False) else
      let s = (case getService ILogger_T (s_bus s) of
            None \<Rightarrow> s
          | Some _ \<Rightarrow> (vm32_bridge_set_system_logger True s)\<lparr>s_api := vm32_set_log_callback (Some ''vm32_bridge_log_cb'') (s_api s)\<rparr>) in
      bindR (VM32Engine_init he load (vm_component_config s) (vm_program_files s) s) (\<lambda>(s, ok).
      if \<not> ok then Inr (s, False) else Inr (s, True)))"

definition VM32Component_start :: "sys \<Rightarrow> sys \<times> bool" where
  "VM32Component_start s =
     (if \<not> vm_has_bus s then (s, False) else
      case getService TaskManager_T (s_bus s) of
        None \<Rightarrow> (s, False)
      | Some _ \<Rightarrow>
          let (tm, k) = createTask ''vm32-cycle'' (s_manager s)
          in (s\<lparr>s_manager := tm\<lparr>tm_tasks := (tm_tasks tm)[k := Task_add (Unit_Ref VM32_C) (tm_tasks tm ! k)]\<rparr>\<rparr>, True))"

definition VM32Component_stop :: "sys \<Rightarrow> sys" where
  "VM32Component_stop s = VM32Engine_shutdown (VM32Engine_requestStop s)"

definition VM32Component_tick :: "bool \<Rightarrow> cycle_env \<Rightarrow> sys \<Rightarrow> (sys \<times> event list) res" where
  "VM32Component_tick g ce s = VM32Engine_executeCycle g ce s"

section \<open>The program\<close>

text \<open>The virtual calls.\<close>

fun component_init :: "host_env \<Rightarrow> loader \<Rightarrow> component \<Rightarrow> sys \<Rightarrow> (sys \<times> bool) res" where
  "component_init he load EventManager_C s = Inr (EventManagerComponent_init s)"
| "component_init he load Logger_C s = Inr (LoggerComponent_init s)"
| "component_init he load Scheduler_C s = Inr (SchedulerComponent_init s)"
| "component_init he load TaskManager_C s = Inr (TaskManagerComponent_init s)"
| "component_init he load VM32_C s = VM32Component_init he load s"

fun component_start :: "component \<Rightarrow> sys \<Rightarrow> (sys \<times> bool) res" where
  "component_start EventManager_C s = Inr (s, True)"
| "component_start Logger_C s = Inr (LoggerComponent_start s)"
| "component_start Scheduler_C s = Inr (s, True)"
| "component_start TaskManager_C s = Inr (TaskManagerComponent_start s)"
| "component_start VM32_C s = Inr (VM32Component_start s)"

fun component_stop :: "component \<Rightarrow> sys \<Rightarrow> sys" where
  "component_stop EventManager_C s = s"
| "component_stop Logger_C s = LoggerComponent_stop s"
| "component_stop Scheduler_C s = s"
| "component_stop TaskManager_C s = s"
| "component_stop VM32_C s = VM32Component_stop s"

text \<open>A tick of the scheduler; the machine is the only unit that is not a task.  Each unit is given the environment of its cycle.\<close>

fun run_units :: "component list \<Rightarrow> (bool \<times> cycle_env) list \<Rightarrow> sys \<Rightarrow> sys res" where
  "run_units (VM32_C # us) ((g, ce) # envs) s =
     bindR (VM32Component_tick g ce s) (\<lambda>(s, _). run_units us envs s)"
| "run_units us envs s = Inr s"

definition SchedulerComponent_tick :: "nat \<Rightarrow> (bool \<times> cycle_env) list \<Rightarrow> sys \<Rightarrow> sys res option" where
  "SchedulerComponent_tick depth envs s =
     (case Scheduler_tick depth (tm_tasks (s_manager s)) (s_scheduler s) of
        None \<Rightarrow> None
      | Some us \<Rightarrow> Some (run_units us envs s))"

definition main_components :: "component list" where
  "main_components = addComponent VM32_C (addComponent TaskManager_C (addComponent Scheduler_C
     (addComponent Logger_C (addComponent EventManager_C []))))"

text \<open>The state when all objects are made, with the system log on the bus.\<close>

definition main_start :: sys where
  "main_start = \<lparr>s_bus = registerService ISystemLog_T System_Log Map.empty,
     s_events = \<lparr>em_listeners = Map.empty\<rparr>, s_scheduler = \<lparr>sched_tasks = []\<rparr>,
     s_manager = \<lparr>tm_tasks = [], scheduler_bound = False\<rparr>, s_logger = False, s_log = [], s_bridge = False,
     s_api = api_start, vm_has_bus = True,
     vm_program_files = [cstr_of ''build/bin/main.bin'', cstr_of ''build/bin/io.bin''],
     vm_component_config = VM32Component_config, vm_initialized = False\<rparr>"

text \<open>The exit code, and the state after the destructor of the machine's component, which stops it once more.
  \<open>lc_init\<close> and \<open>lc_start\<close> are the answers of the life cycle controller.\<close>

definition system_main :: "host_env \<Rightarrow> loader \<Rightarrow> bool \<Rightarrow> bool \<Rightarrow> (int \<times> sys) res" where
  "system_main he load lc_init lc_start =
     (if \<not> lc_init then Inr (1, VM32Component_stop main_start) else
      bindR (initAll (component_init he load) main_components main_start) (\<lambda>(s, ok).
      if \<not> ok then Inr (1, VM32Component_stop s) else
      if \<not> lc_start then Inr (1, VM32Component_stop s) else
      bindR (startAll component_start main_components s) (\<lambda>(s, ok).
      if \<not> ok then Inr (1, VM32Component_stop s) else
      let s = stopAll component_stop main_components s
      in Inr (0, VM32Component_stop s))))"

end
