(* ===== verification/SystemRun.thy ===== *)
theory SystemRun
  imports System
begin

text \<open>
  What the component system guarantees: a tick of the scheduler is a traversal of the tasks, which ends if no task is inside
  itself; the life cycle calls keep the machine in order; which order of the components gets the machine ticked; and what the
  program does from start to end.
\<close>

section \<open>A tick as a traversal\<close>

text \<open>The tree of tasks and units behind a pointer.\<close>

datatype 'u unit_tree = Leaf 'u | Group "'u unit_tree list"

fun leaves :: "'u unit_tree \<Rightarrow> 'u list" where
  "leaves (Leaf u) = [u]"
| "leaves (Group trees) = concat (map leaves trees)"

inductive unfolds :: "'u task list \<Rightarrow> 'u tickable \<Rightarrow> 'u unit_tree \<Rightarrow> bool" for ts where
  unit: "unfolds ts (Unit_Ref u) (Leaf u)"
| task: "k < length ts \<Longrightarrow> list_all2 (unfolds ts) (task_units (ts ! k)) trees \<Longrightarrow> unfolds ts (Task_Ref k) (Group trees)"

inductive_simps unfolds_unit: "unfolds ts (Unit_Ref u) t"
inductive_simps unfolds_task: "unfolds ts (Task_Ref k) t"

text \<open>No task is inside itself: a rank that sinks from a task to the tasks it holds.\<close>

definition ranked :: "(nat \<Rightarrow> nat) \<Rightarrow> 'u task list \<Rightarrow> bool" where
  "ranked rank ts \<longleftrightarrow> (\<forall>k < length ts. \<forall>j. Task_Ref j \<in> set (task_units (ts ! k)) \<longrightarrow> j < length ts \<and> rank j < rank k)"

lemma tick_units_all:
  assumes "\<forall>u \<in> set us. \<exists>t. unfolds ts u t \<and> tick_unit depth ts u = Some (leaves t)"
  shows "\<exists>trees. list_all2 (unfolds ts) us trees \<and> tick_units depth ts us = Some (concat (map leaves trees))"
  using assms
proof (induction us)
  case (Cons u us)
  then obtain t trees where "unfolds ts u t" "tick_unit depth ts u = Some (leaves t)"
    "list_all2 (unfolds ts) us trees" "tick_units depth ts us = Some (concat (map leaves trees))" by auto
  then show ?case by (intro exI [of _ "t # trees"]) simp
qed simp

lemma unfolds_unique:
  "unfolds ts u t \<Longrightarrow> unfolds ts u t' \<Longrightarrow> t' = t"
proof (induction u t arbitrary: t' rule: unfolds.induct)
  case (unit u)
  then show ?case by (simp add: unfolds_unit)
next
  case (task k trees)
  from task.prems obtain trees' where t': "t' = Group trees'" "list_all2 (unfolds ts) (task_units (ts ! k)) trees'"
    by (auto simp: unfolds_task)
  have "trees' = trees"
    using task.IH t'(2) unfolding list_all2_conv_all_nth by (intro nth_equalityI) auto
  with t' show ?case by simp
qed

lemma unfolds_unique_list:
  "list_all2 (unfolds ts) us trees \<Longrightarrow> list_all2 (unfolds ts) us trees' \<Longrightarrow> trees' = trees"
proof (induction us trees arbitrary: trees' rule: list_all2_induct)
  case (Cons u us t trees)
  from Cons.prems obtain x xs where "trees' = x # xs" "unfolds ts u x" "list_all2 (unfolds ts) us xs"
    by (auto simp: list_all2_Cons1)
  with Cons unfolds_unique [of ts u t x] show ?case by simp
qed simp

lemma tick_task:
  assumes "ranked rank ts" "k < length ts" "rank k < depth"
  shows "\<exists>t. unfolds ts (Task_Ref k) t \<and> tick_unit depth ts (Task_Ref k) = Some (leaves t)"
  using assms(2,3)
proof (induction "rank k" arbitrary: k depth rule: less_induct)
  case less
  obtain d where d: "depth = Suc d" using less.prems(2) by (cases depth) auto
  have "\<exists>t. unfolds ts u t \<and> tick_unit d ts u = Some (leaves t)" if u: "u \<in> set (task_units (ts ! k))" for u
  proof (cases u)
    case (Task_Ref j)
    then have j: "j < length ts" "rank j < rank k" using assms(1) less.prems(1) u by (auto simp: ranked_def)
    with less.prems(2) d have "rank j < d" by simp
    from less.hyps [OF j(2,1) this] Task_Ref show ?thesis by simp
  next
    case (Unit_Ref v)
    then show ?thesis by (intro exI [of _ "Leaf v"]) (simp add: unfolds.unit)
  qed
  then obtain trees where "list_all2 (unfolds ts) (task_units (ts ! k)) trees"
    "tick_units d ts (task_units (ts ! k)) = Some (concat (map leaves trees))"
    using tick_units_all [of "task_units (ts ! k)" ts d] by blast
  then show ?case
    using less.prems(1) by (intro exI [of _ "Group trees"]) (simp add: d unfolds.task)
qed

lemma tick_units_None: "u \<in> set us \<Longrightarrow> tick_unit depth ts u = None \<Longrightarrow> tick_units depth ts us = None"
  by (induction us) (auto split: option.splits)

lemma self_holding_task_hangs:
  assumes "k < length ts" "Task_Ref k \<in> set (task_units (ts ! k))"
  shows "tick_unit depth ts (Task_Ref k) = None"
proof (induction depth)
  case (Suc depth)
  then show ?case using tick_units_None [OF assms(2) Suc.IH] by simp
qed simp

text \<open>
  C16 (termination).  A tick of the scheduler ends if no task holds itself, directly or through others, and then ticks the units
  of the tasks in the order of a depth first traversal, each as often as it occurs; the depth of calls is at most the rank of the tasks. A
  task that holds itself never returns from its tick, at any depth.
\<close>

theorem scheduler_tick_traverses:
  assumes "ranked rank (ts :: 'u task list)" "\<forall>k. Task_Ref k \<in> set (sched_tasks s) \<longrightarrow> k < length ts \<and> rank k < depth"
  shows "\<exists>trees. list_all2 (unfolds ts) (sched_tasks s) trees \<and>
    Scheduler_tick depth ts s = Some (concat (map leaves trees)) \<and>
    (\<forall>trees'. list_all2 (unfolds ts) (sched_tasks s) trees' \<longrightarrow> trees' = trees)
    \<and> (\<forall>ts' k d. k < length ts' \<and> Task_Ref k \<in> set (task_units (ts' ! k :: 'u task)) \<longrightarrow> tick_unit d ts' (Task_Ref k) = None)"
proof -
  have "\<exists>t. unfolds ts u t \<and> tick_unit depth ts u = Some (leaves t)" if "u \<in> set (sched_tasks s)" for u
  proof (cases u)
    case (Task_Ref k)
    then show ?thesis using tick_task [OF assms(1), of k depth] assms(2) that by simp
  next
    case (Unit_Ref v)
    then show ?thesis by (intro exI [of _ "Leaf v"]) (simp add: unfolds.unit)
  qed
  then obtain trees where t: "list_all2 (unfolds ts) (sched_tasks s) trees" "tick_units depth ts (sched_tasks s) = Some (concat (map leaves trees))"
    using tick_units_all [of "sched_tasks s" ts depth] by blast
  with unfolds_unique_list [OF t(1)] self_holding_task_hangs show ?thesis unfolding Scheduler_tick_def by blast
qed

section \<open>The contract of a component\<close>

text \<open>What the component manager may rely on: no call of a component breaks an invariant of the system; then no sequence of
  its own calls does.\<close>

locale component_contract =
  fixes init :: "'c \<Rightarrow> 's \<Rightarrow> ('s \<times> bool) res" and start :: "'c \<Rightarrow> 's \<Rightarrow> ('s \<times> bool) res" and stop :: "'c \<Rightarrow> 's \<Rightarrow> 's"
    and inv :: "'s \<Rightarrow> bool" and bad :: "fault \<Rightarrow> bool"
  assumes init_inv: "inv s \<Longrightarrow> case init c s of Inl f \<Rightarrow> bad f | Inr (s', ok) \<Rightarrow> inv s'"
    and start_inv: "inv s \<Longrightarrow> case start c s of Inl f \<Rightarrow> bad f | Inr (s', ok) \<Rightarrow> inv s'"
    and stop_inv: "inv s \<Longrightarrow> inv (stop c s)"
begin

lemma initAll_inv: "inv s \<Longrightarrow> case initAll init cs s of Inl f \<Rightarrow> bad f | Inr (s', ok) \<Rightarrow> inv s'"
proof (induction cs arbitrary: s)
  case (Cons c cs)
  with init_inv [OF Cons.prems, of c] show ?case by (cases "init c s") auto
qed simp

lemma startAll_inv: "inv s \<Longrightarrow> case startAll start cs s of Inl f \<Rightarrow> bad f | Inr (s', ok) \<Rightarrow> inv s'"
proof (induction cs arbitrary: s)
  case (Cons c cs)
  with start_inv [OF Cons.prems, of c] show ?case by (cases "start c s") auto
qed simp

lemma stopAll_inv: "inv s \<Longrightarrow> inv (stopAll stop cs s)"
proof -
  have "inv s \<Longrightarrow> inv (fold stop xs s)" for xs by (induction xs arbitrary: s) (simp_all add: stop_inv)
  then show "inv s \<Longrightarrow> inv (stopAll stop cs s)" by (simp add: stopAll_def)
qed

text \<open>Initialisation goes through the components in order and ends at the first that fails.\<close>

lemma initAll_append:
  "initAll init (xs @ ys) s = bindR (initAll init xs s) (\<lambda>(s, ok). if \<not> ok then Inr (s, False) else initAll init ys s)"
proof (induction xs arbitrary: s)
  case (Cons x xs)
  then show ?case by (cases "init x s") auto
qed simp

end

text \<open>The invariant: the machine behind the interface is in order.\<close>

definition sys_ok :: "sys \<Rightarrow> bool" where
  "sys_ok s \<longleftrightarrow> api_ok (s_api s)"

lemma sys_ok_simps [simp]:
  "sys_ok (s\<lparr>s_bus := b\<rparr>) = sys_ok s" "sys_ok (s\<lparr>s_scheduler := c\<rparr>) = sys_ok s" "sys_ok (s\<lparr>s_manager := m\<rparr>) = sys_ok s"
  "sys_ok (s\<lparr>s_logger := g\<rparr>) = sys_ok s" "sys_ok (s\<lparr>s_log := l\<rparr>) = sys_ok s" "sys_ok (s\<lparr>s_bridge := r\<rparr>) = sys_ok s"
  "sys_ok (s\<lparr>vm_initialized := i\<rparr>) = sys_ok s" "sys_ok (s\<lparr>s_api := a\<rparr>) = api_ok a"
  by (simp_all add: sys_ok_def)

text \<open>Neither the creation of the machine nor the load behind it faults: the machine is new, so the programs are laid
  out from 0x3000.\<close>

lemma engine_load_ok:
  assumes "sys_ok s" "calls_load_programs alloc fs load" "load_call_ok fs (Some files) (int (length files)) (s_api s)"
  obtains s' ok where "VM32Engine_loadPrograms load files s = Inr (s', ok)" "sys_ok s'" "vm_program_files s' = vm_program_files s"
proof -
  have "api_ok (s_api s)" using assms(1) by (simp add: sys_ok_def)
  from vm32_load_ok [OF this assms(2,3)] obtain api rc where
    "vm32_load_programs load (Some files) (int (length files)) (s_api s) = Inr (api, rc)" "api_ok api" by blast
  with that [of "s\<lparr>s_api := api\<rparr>" "rc = 0"] show thesis by (simp add: VM32Engine_loadPrograms_def)
qed

lemma engine_init_ok:
  assumes "sys_ok s" "calls_load_programs alloc fs load" "he_calloc he MIN_TABLE_SIZE" "loadable fs 0x3000 files"
  obtains s' ok where "VM32Engine_init he load cfg files s = Inr (s', ok)" "sys_ok s'" "vm_program_files s' = vm_program_files s"
proof -
  from vm32_init_ok [of "s_api s" he "Some cfg"] assms(1,3) obtain api rc where
    api: "vm32_init he (Some cfg) (s_api s) = Inr (api, rc)" "api_ok api" "rc = 0 \<longrightarrow> (\<exists>m. g_vm api = Some m \<and> PC_START (lvm m) = 0x3000)"
    by (auto simp: sys_ok_def)
  let ?s = "s\<lparr>s_api := api\<rparr>"
  have ok: "sys_ok ?s" using api(2) by simp
  show thesis
  proof (cases "rc \<noteq> 0 \<or> files = []")
    case True
    then show thesis
      using api(1,2) that [of "if rc \<noteq> 0 then ?s else ?s\<lparr>vm_initialized := True\<rparr>" "rc = 0"] by (auto simp: VM32Engine_init_def Let_def)
  next
    case False
    have call: "load_call_ok fs (Some files) (int (length files)) (s_api ?s)"
      using api(3) False assms(4) by (auto simp: load_call_ok_def)
    from engine_load_ok [OF ok assms(2) call] obtain s1 ok1 where
      s1: "VM32Engine_loadPrograms load files ?s = Inr (s1, ok1)" "sys_ok s1" "vm_program_files s1 = vm_program_files ?s" .
    with that [of "s1\<lparr>vm_initialized := True\<rparr>" True] False show thesis by (simp add: VM32Engine_init_def api(1) Let_def)
  qed
qed

text \<open>The machine's component with the logger attached, and its initialisation over it.\<close>

definition attach_logger :: "sys \<Rightarrow> sys" where
  "attach_logger s = (case getService ILogger_T (s_bus s) of None \<Rightarrow> s
    | Some _ \<Rightarrow> (vm32_bridge_set_system_logger True s)\<lparr>s_api := vm32_set_log_callback (Some ''vm32_bridge_log_cb'') (s_api s)\<rparr>)"

lemma attach_logger_frame:
  "sys_ok s \<Longrightarrow> sys_ok (attach_logger s)" "s_scheduler (attach_logger s) = s_scheduler s"
  "s_manager (attach_logger s) = s_manager s" "s_log (attach_logger s) = s_log s"
  "vm_program_files (attach_logger s) = vm_program_files s"
  using callback_ok by (cases "getService ILogger_T (s_bus s)"; simp add: attach_logger_def sys_ok_def vm32_bridge_set_system_logger_def)+

lemma vm_component_init_eq:
  "VM32Component_init he load s = (if \<not> vm_has_bus s then Inr (s, False) else
     VM32Engine_init he load (vm_component_config (attach_logger s)) (vm_program_files (attach_logger s)) (attach_logger s))"
proof -
  have "bindR r (\<lambda>(s, ok). if \<not> ok then Inr (s, False) else Inr (s, True)) = r" for r :: "(sys \<times> bool) res"
    by (cases r) auto
  then show ?thesis unfolding VM32Component_init_def attach_logger_def Let_def by simp
qed

text \<open>What a component keeps: the machine in order, and programs that can be loaded.\<close>

definition sys_ready :: "file_system \<Rightarrow> sys \<Rightarrow> bool" where
  "sys_ready fs s \<longleftrightarrow> sys_ok s \<and> loadable fs 0x3000 (vm_program_files s)"

lemma vm_component_init_ok:
  assumes "sys_ready fs s" "calls_load_programs alloc fs load" "he_calloc he MIN_TABLE_SIZE"
  obtains s' ok where "VM32Component_init he load s = Inr (s', ok)" "sys_ready fs s'"
proof (cases "vm_has_bus s")
  case False
  with assms(1) that show thesis by (simp add: VM32Component_init_def)
next
  case True
  let ?t = "attach_logger s"
  have t: "sys_ok ?t" "loadable fs 0x3000 (vm_program_files ?t)"
    using assms(1) attach_logger_frame by (simp_all add: sys_ready_def)
  from engine_init_ok [OF t(1) assms(2,3) t(2), of "vm_component_config ?t"] obtain s' ok where
    s': "VM32Engine_init he load (vm_component_config ?t) (vm_program_files ?t) ?t = Inr (s', ok)" "sys_ok s'" "vm_program_files s' = vm_program_files ?t" .
  have "VM32Component_init he load s = Inr (s', ok)" using True by (simp add: vm_component_init_eq s'(1))
  moreover have "sys_ready fs s'" using s'(2,3) t(2) by (simp add: sys_ready_def)
  ultimately show thesis by (rule that)
qed

lemma vm_component_stop_ok: "sys_ok (VM32Component_stop s)" "g_vm (s_api (VM32Component_stop s)) = None"
  using shutdown_None by (simp_all add: VM32Component_stop_def VM32Engine_shutdown_def VM32Engine_requestStop_def api_ok_def)

interpretation system: component_contract "component_init he load" component_start component_stop
  "\<lambda>s. sys_ready fs s \<and> calls_load_programs alloc fs load \<and> he_calloc he MIN_TABLE_SIZE" "\<lambda>_. False" for he load alloc fs
proof unfold_locales
  fix c s
  assume s: "sys_ready fs s \<and> calls_load_programs alloc fs load \<and> he_calloc he MIN_TABLE_SIZE"
  show "case component_init he load c s of Inl f \<Rightarrow> False
      | Inr (s', ok) \<Rightarrow> sys_ready fs s' \<and> calls_load_programs alloc fs load \<and> he_calloc he MIN_TABLE_SIZE"
  proof (cases "c = VM32_C")
    case True
    from s have "sys_ready fs s" "calls_load_programs alloc fs load" "he_calloc he MIN_TABLE_SIZE" by blast+
    from vm_component_init_ok [OF this] obtain s' ok where "VM32Component_init he load s = Inr (s', ok)" "sys_ready fs s'" .
    with True s show ?thesis by simp
  next
    case False
    then show ?thesis
      using s by (cases c) (auto simp: sys_ready_def EventManagerComponent_init_def LoggerComponent_init_def SchedulerComponent_init_def
          TaskManagerComponent_init_def Let_def split: option.splits)
  qed
  show "case component_start c s of Inl f \<Rightarrow> False
      | Inr (s', ok) \<Rightarrow> sys_ready fs s' \<and> calls_load_programs alloc fs load \<and> he_calloc he MIN_TABLE_SIZE"
    using s by (cases c) (auto simp: sys_ready_def LoggerComponent_start_def TaskManagerComponent_start_def VM32Component_start_def
        system_log_def Let_def split: option.splits prod.splits)
  show "sys_ready fs (component_stop c s) \<and> calls_load_programs alloc fs load \<and> he_calloc he MIN_TABLE_SIZE"
    using s vm_component_stop_ok by (cases c) (simp_all add: sys_ready_def LoggerComponent_stop_def system_log_def
        VM32Component_stop_def VM32Engine_shutdown_def VM32Engine_requestStop_def)
qed

section \<open>Which order gets the machine ticked\<close>

lemma engine_init_frame:
  assumes "VM32Engine_init he load cfg files s = Inr (s', ok)"
  shows "s_scheduler s' = s_scheduler s \<and> s_manager s' = s_manager s \<and> s_bus s' = s_bus s \<and> s_log s' = s_log s \<and>
    vm_has_bus s' = vm_has_bus s \<and> (g_vm (s_api s) = None \<and> he_vm he \<and> he_mem he \<and> he_calloc he MIN_TABLE_SIZE \<longrightarrow> ok)"
proof (cases "vm32_init he (Some cfg) (s_api s)")
  case (Inl f)
  with assms show ?thesis by (simp add: VM32Engine_init_def)
next
  case (Inr x)
  obtain api rc where x: "x = (api, rc)" by force
  note step = assms [unfolded VM32Engine_init_def Inr x bindR_simps prod.case Let_def]
  have rc: "rc = 0" if "g_vm (s_api s) = None" "he_vm he" "he_mem he" "he_calloc he MIN_TABLE_SIZE"
    using Inr that by (auto simp: x vm32_init_def legacy_create_def res_simps Let_def)
  show ?thesis
  proof (cases "rc \<noteq> 0 \<or> files = []")
    case True
    with step rc show ?thesis by (auto split: if_splits)
  next
    case False
    with step show ?thesis
      by (cases "vm32_load_programs load (Some files) (int (length files)) api") (auto simp: VM32Engine_loadPrograms_def)
  qed
qed

lemma init_frame:
  assumes "component_init he load c s = Inr (s', ok)"
  shows "s_scheduler s' = s_scheduler s \<and> tm_tasks (s_manager s') = tm_tasks (s_manager s) \<and>
    (scheduler_bound (s_manager s) \<or> c = TaskManager_C \<and> ok \<longrightarrow> scheduler_bound (s_manager s'))"
proof (cases "c = VM32_C")
  case False
  then show ?thesis
    using assms by (cases c) (auto simp: EventManagerComponent_init_def LoggerComponent_init_def SchedulerComponent_init_def
        TaskManagerComponent_init_def bindScheduler_def Let_def split: option.splits if_splits)
next
  case True
  then show ?thesis
    using assms engine_init_frame [of he load _ _ "attach_logger s" s' ok]
    by (auto simp: vm_component_init_eq attach_logger_frame split: if_splits)
qed

lemma initAll_frame:
  assumes "initAll (component_init he load) cs s = Inr (s', ok)"
  shows "s_scheduler s' = s_scheduler s \<and> tm_tasks (s_manager s') = tm_tasks (s_manager s) \<and>
    (scheduler_bound (s_manager s) \<or> TaskManager_C \<in> set cs \<and> ok \<longrightarrow> scheduler_bound (s_manager s'))"
  using assms
proof (induction cs arbitrary: s)
  case (Cons c cs)
  then obtain s1 ok1 where one: "component_init he load c s = Inr (s1, ok1)"
    by (cases "component_init he load c s") auto
  note f = init_frame [OF one]
  show ?case
  proof (cases ok1)
    case False
    with Cons.prems one f show ?thesis by auto
  next
    case True
    with Cons.prems one have "initAll (component_init he load) cs s1 = Inr (s', ok)" by simp
    from Cons.IH [OF this] f True show ?thesis by auto
  qed
qed auto

lemma takeWhile_before: "x \<notin> set xs \<Longrightarrow> takeWhile (\<lambda>c. c \<noteq> x) (xs @ x # ys) = xs"
  by (induction xs) auto

lemma startAll_append:
  "startAll start (xs @ ys) s = Inr (s', True) \<longleftrightarrow>
   (\<exists>t. startAll start xs s = Inr (t, True) \<and> startAll start ys t = Inr (s', True))"
proof (induction xs arbitrary: s)
  case (Cons x xs)
  show ?case
  proof (cases "start x s")
    case (Inr r)
    then show ?thesis using Cons.IH by (cases r) auto
  qed simp
qed simp

lemma startAll_others:
  assumes "startAll component_start cs s = Inr (s', ok)" "TaskManager_C \<notin> set cs" "VM32_C \<notin> set cs"
  shows "s_scheduler s' = s_scheduler s \<and> s_manager s' = s_manager s"
  using assms
proof (induction cs arbitrary: s)
  case (Cons c cs)
  obtain s1 where "component_start c s = Inr (s1, True)" "s_scheduler s1 = s_scheduler s" "s_manager s1 = s_manager s"
    using Cons.prems(2,3) by (cases c) (auto simp: LoggerComponent_start_def system_log_def)
  with Cons show ?case by simp
qed simp

lemma start_machine:
  "component_start VM32_C s = Inr (s', True) \<Longrightarrow> s_scheduler s' = s_scheduler s \<and>
     s_manager s' = (s_manager s)\<lparr>tm_tasks := tm_tasks (s_manager s) @ [\<lparr>task_name = ''vm32-cycle'', task_units = [Unit_Ref VM32_C]\<rparr>]\<rparr>"
  by (auto simp: VM32Component_start_def createTask_def Task_add_def Let_def split: if_splits option.splits)

lemma register_all: "fold (\<lambda>k. Scheduler_addTask (Task_Ref k)) ks s = s\<lparr>sched_tasks := sched_tasks s @ map Task_Ref ks\<rparr>"
  by (induction ks arbitrary: s) (simp_all add: Scheduler_addTask_def)

lemma start_manager:
  "component_start TaskManager_C s = Inr (s', ok) \<Longrightarrow> scheduler_bound (s_manager s) \<Longrightarrow> s_manager s' = s_manager s \<and>
     s_scheduler s' = (s_scheduler s)\<lparr>sched_tasks := sched_tasks (s_scheduler s) @ map Task_Ref [0..<length (tm_tasks (s_manager s))]\<rparr>"
  by (auto simp: TaskManagerComponent_start_def registerToScheduler_def register_all)

lemma machine_started_first:
  assumes "startAll component_start (xs @ VM32_C # ys @ TaskManager_C # zs) s1 = Inr (s2, True)"
    and "distinct (xs @ VM32_C # ys @ TaskManager_C # zs)"
    and "sched_tasks (s_scheduler s1) = []" "tm_tasks (s_manager s1) = []" "scheduler_bound (s_manager s1)"
  shows "tm_tasks (s_manager s2) = [\<lparr>task_name = ''vm32-cycle'', task_units = [Unit_Ref VM32_C]\<rparr>] \<and>
    sched_tasks (s_scheduler s2) = [Task_Ref 0]"
proof -
  from assms(1) obtain t1 t2 t3 t4 where
    t: "startAll component_start xs s1 = Inr (t1, True)" "component_start VM32_C t1 = Inr (t2, True)"
      "startAll component_start ys t2 = Inr (t3, True)" "component_start TaskManager_C t3 = Inr (t4, True)"
      "startAll component_start zs t4 = Inr (s2, True)"
    by (auto simp: startAll_append res_simps simp del: component_start.simps split: if_splits)
  have no: "TaskManager_C \<notin> set xs" "VM32_C \<notin> set xs" "TaskManager_C \<notin> set ys" "VM32_C \<notin> set ys"
    "TaskManager_C \<notin> set zs" "VM32_C \<notin> set zs" using assms(2) by auto
  note f = startAll_others [OF t(1) no(1,2)] start_machine [OF t(2)] startAll_others [OF t(3) no(3,4)]
    startAll_others [OF t(5) no(5,6)]
  have "scheduler_bound (s_manager t3)" using f assms(5) by simp
  note f = f start_manager [OF t(4) this]
  show ?thesis using f assms(3,4) by simp
qed

lemma machine_started_later:
  assumes "startAll component_start (xs @ TaskManager_C # ys @ VM32_C # zs) s1 = Inr (s2, True)"
    and "distinct (xs @ TaskManager_C # ys @ VM32_C # zs)"
    and "sched_tasks (s_scheduler s1) = []" "tm_tasks (s_manager s1) = []" "scheduler_bound (s_manager s1)"
  shows "sched_tasks (s_scheduler s2) = []"
proof -
  from assms(1) obtain t1 t2 t3 t4 where
    t: "startAll component_start xs s1 = Inr (t1, True)" "component_start TaskManager_C t1 = Inr (t2, True)"
      "startAll component_start ys t2 = Inr (t3, True)" "component_start VM32_C t3 = Inr (t4, True)"
      "startAll component_start zs t4 = Inr (s2, True)"
    by (auto simp: startAll_append res_simps simp del: component_start.simps split: if_splits)
  have no: "TaskManager_C \<notin> set xs" "VM32_C \<notin> set xs" "TaskManager_C \<notin> set ys" "VM32_C \<notin> set ys"
    "TaskManager_C \<notin> set zs" "VM32_C \<notin> set zs" using assms(2) by auto
  note f = startAll_others [OF t(1) no(1,2)] startAll_others [OF t(3) no(3,4)] start_machine [OF t(4)]
    startAll_others [OF t(5) no(5,6)]
  have "scheduler_bound (s_manager t1)" using f assms(5) by simp
  note f = f start_manager [OF t(2) this]
  show ?thesis using f assms(3,4) by simp
qed

text \<open>
  C12 (error).  The task manager hands its tasks to the scheduler once, when it is started.  So, whatever the order of the components that
  start, a tick of the scheduler runs a cycle of the machine exactly if the machine's component
  started before the task manager; else it does nothing.  The program starts them the other way round: its machine is never ticked.
\<close>

theorem machine_ticked_iff_started_first:
  assumes "initAll (component_init he load) cs main_start = Inr (s1, True)"
    and "startAll component_start cs s1 = Inr (s2, True)"
    and "distinct cs" "TaskManager_C \<in> set cs" "VM32_C \<in> set cs"
  shows "Scheduler_tick (Suc depth) (tm_tasks (s_manager s2)) (s_scheduler s2) =
      Some (if VM32_C \<in> set (takeWhile (\<lambda>c. c \<noteq> TaskManager_C) cs) then [VM32_C] else []) \<and>
    (cs = main_components \<longrightarrow> SchedulerComponent_tick (Suc depth) envs s2 = Some (Inr s2))"
proof -
  have init: "sched_tasks (s_scheduler s1) = []" "tm_tasks (s_manager s1) = []" "scheduler_bound (s_manager s1)"
    using initAll_frame [OF assms(1)] assms(4) by (simp_all add: main_start_def)
  from assms(4) obtain ws vs where cs: "cs = ws @ TaskManager_C # vs" "TaskManager_C \<notin> set ws" by (meson split_list_first)
  have before: "takeWhile (\<lambda>c. c \<noteq> TaskManager_C) cs = ws" using cs takeWhile_before by simp
  have tick: "Scheduler_tick (Suc depth) (tm_tasks (s_manager s2)) (s_scheduler s2) =
      Some (if VM32_C \<in> set (takeWhile (\<lambda>c. c \<noteq> TaskManager_C) cs) then [VM32_C] else [])"
  proof (cases "VM32_C \<in> set ws")
    case True
    then obtain xs ys where "cs = xs @ VM32_C # ys @ TaskManager_C # vs" using cs by (auto simp: in_set_conv_decomp)
    with machine_started_first [of xs ys vs s1 s2] assms(2,3) init show ?thesis using True before by (simp add: Scheduler_tick_def)
  next
    case False
    then obtain ys zs where "cs = ws @ TaskManager_C # ys @ VM32_C # zs" using cs assms(5) by (auto simp: in_set_conv_decomp)
    with machine_started_later [of ws ys zs s1 s2] assms(2,3) init show ?thesis using False before by (simp add: Scheduler_tick_def)
  qed
  have "VM32_C \<notin> set (takeWhile (\<lambda>c. c \<noteq> TaskManager_C) main_components)" by (simp add: main_components_def addComponent_def)
  with tick show ?thesis by (auto simp: SchedulerComponent_tick_def)
qed

section \<open>The program from start to end\<close>

text \<open>The state in which the machine's component is initialised.\<close>

definition before_machine :: sys where
  "before_machine = main_start\<lparr>s_logger := True, s_manager := bindScheduler (s_manager main_start),
     s_bus := registerService TaskManager_T (Member_Of TaskManager_C) (registerService Scheduler_T (Member_Of Scheduler_C)
       (registerService ILogger_T (Member_Of Logger_C) (registerService EventManager_T (Member_Of EventManager_C) (s_bus main_start))))\<rparr>"

lemma before_machine_facts: "vm_has_bus before_machine" "s_log (attach_logger before_machine) = []"
  "g_vm (s_api (attach_logger before_machine)) = None" "sys_ok (attach_logger before_machine)"
  "s_bus (attach_logger before_machine) = s_bus before_machine" "vm_has_bus (attach_logger before_machine)"
proof -
  have "vm_has_bus before_machine" "s_log before_machine = []" "sys_ok before_machine" "g_vm (s_api before_machine) = None"
    by (simp_all add: before_machine_def main_start_def sys_ok_def api_start_ok) (simp add: api_start_def)
  then show "vm_has_bus before_machine" "s_log (attach_logger before_machine) = []"
    "g_vm (s_api (attach_logger before_machine)) = None" "sys_ok (attach_logger before_machine)"
    "s_bus (attach_logger before_machine) = s_bus before_machine" "vm_has_bus (attach_logger before_machine)"
    using attach_logger_frame(1)
    by (simp_all add: attach_logger_def vm32_bridge_set_system_logger_def vm32_set_log_callback_def split: option.split)
qed

lemma init_main_components:
  "initAll (component_init he load) main_components main_start =
   VM32Engine_init he load (vm_component_config (attach_logger before_machine)) (vm_program_files (attach_logger before_machine))
     (attach_logger before_machine)" (is "_ = ?e")
proof -
  have front: "initAll (component_init he load) [EventManager_C, Logger_C, Scheduler_C, TaskManager_C] main_start = Inr (before_machine, True)"
    by (simp add: EventManagerComponent_init_def LoggerComponent_init_def SchedulerComponent_init_def TaskManagerComponent_init_def
        getService_def registerService_def main_start_def before_machine_def Let_def)
  have split: "main_components = [EventManager_C, Logger_C, Scheduler_C, TaskManager_C] @ [VM32_C]"
    by (simp add: main_components_def addComponent_def)
  have "initAll (component_init he load) [VM32_C] before_machine = ?e"
    using before_machine_facts(1) by (cases ?e) (auto simp: vm_component_init_eq)
  then show ?thesis unfolding split system.initAll_append front by simp
qed

text \<open>The engine is made exactly if the machine can be allocated.\<close>

lemma engine_made:
  assumes "VM32Engine_init he load cfg files s = Inr (s', ok)" "g_vm (s_api s) = None" "he_calloc he MIN_TABLE_SIZE"
  shows "ok \<longleftrightarrow> he_vm he \<and> he_mem he"
proof (cases "he_vm he \<and> he_mem he")
  case False
  then have "vm32_init he cfg (s_api s) = Inr ((s_api s)\<lparr>g_vm := None\<rparr>, -1)" for cfg
    using assms(2) by (auto simp: vm32_init_def legacy_create_def)
  with assms(1) False show ?thesis by (auto simp: VM32Engine_init_def)
qed (use engine_init_frame [OF assms(1)] assms(2,3) in simp)

text \<open>The start of the components behind a successful initialisation, and the stop.\<close>

lemma main_starts_and_stops:
  assumes "getService TaskManager_T (s_bus s) = Some (Member_Of TaskManager_C)" "vm_has_bus s" "s_log s = []"
  obtains s6 where "startAll component_start main_components s = Inr (s6, True)"
    "s_log (stopAll component_stop main_components s6) = [(Info, ''LoggerComponent started''), (Info, ''LoggerComponent stopped'')]"
proof -
  have "\<exists>s6. startAll component_start main_components s = Inr (s6, True) \<and> s_log s6 = [(Info, ''LoggerComponent started'')]"
    using assms by (simp add: main_components_def addComponent_def LoggerComponent_start_def system_log_def
        TaskManagerComponent_start_def VM32Component_start_def createTask_def)
  then obtain s6 where s6: "startAll component_start main_components s = Inr (s6, True)" "s_log s6 = [(Info, ''LoggerComponent started'')]" by blast
  then have "s_log (stopAll component_stop main_components s6) = [(Info, ''LoggerComponent started''), (Info, ''LoggerComponent stopped'')]"
    by (simp add: stopAll_def main_components_def addComponent_def LoggerComponent_stop_def system_log_def
        VM32Component_stop_def VM32Engine_shutdown_def VM32Engine_requestStop_def)
  with s6(1) that show thesis by blast
qed

lemma main_start_ready: "loadable fs 0x3000 [cstr_of ''build/bin/main.bin'', cstr_of ''build/bin/io.bin''] \<Longrightarrow> sys_ready fs main_start"
  by (simp add: sys_ready_def sys_ok_def main_start_def api_start_ok)

text \<open>
  C27 (functional).  The program, with a life cycle controller that agrees, whether its two program files are there or not: it does not
  fault and ends with exit code 0, has written the two lines of the
  logger to the system log and nothing else, although the machine was given a log callback and although the programs may be missing, and has
  given the machine back; if the machine cannot be created it ends with exit code 1 before any component
  starts.  The files, where they are there, fit into the memory with three bytes to spare, and the function that loads them, which the
  sources lack, calls \<open>load_programs\<close>, as \<open>vm_api.h\<close> says.
\<close>

theorem system_main_lifecycle:
  assumes "calls_load_programs alloc fs load" "loadable fs 0x3000 [cstr_of ''build/bin/main.bin'', cstr_of ''build/bin/io.bin'']"
    and "he_calloc he MIN_TABLE_SIZE"
  shows "\<exists>s. system_main he load True True = Inr (if he_vm he \<and> he_mem he then 0 else 1, s) \<and> g_vm (s_api s) = None \<and>
    s_log s = (if he_vm he \<and> he_mem he then [(Info, ''LoggerComponent started''), (Info, ''LoggerComponent stopped'')] else [])"
proof -
  let ?t = "attach_logger before_machine"
  define e where "e = VM32Engine_init he load (vm_component_config ?t) (vm_program_files ?t) ?t"
  have init: "initAll (component_init he load) main_components main_start = e" by (simp add: init_main_components e_def)
  note t = before_machine_facts
  have "case e of Inl f \<Rightarrow> False | Inr (s', ok) \<Rightarrow> True"
    using system.initAll_inv [of fs main_start alloc load he main_components] main_start_ready [OF assms(2)] assms(1,3)
    by (cases e) (simp_all add: init)
  then obtain s5 ok where e: "e = Inr (s5, ok)" by (cases e) auto
  note f = engine_init_frame [of he load "vm_component_config ?t" "vm_program_files ?t" ?t s5 ok, folded e_def, OF e]
  note made = engine_made [OF e [unfolded e_def] t(3) assms(3)]
  show ?thesis
  proof (cases ok)
    case False
    then have "system_main he load True True = Inr (1, VM32Component_stop s5)" by (simp add: system_main_def init e)
    with made False f t(2) vm_component_stop_ok show ?thesis
      by (simp add: VM32Component_stop_def VM32Engine_shutdown_def VM32Engine_requestStop_def)
  next
    case True
    have bus: "getService TaskManager_T (s_bus s5) = Some (Member_Of TaskManager_C)" "vm_has_bus s5" "s_log s5 = []"
      using f t by (simp_all add: before_machine_def getService_def registerService_def)
    from main_starts_and_stops [OF this] obtain s6 where s6: "startAll component_start main_components s5 = Inr (s6, True)"
      "s_log (stopAll component_stop main_components s6) = [(Info, ''LoggerComponent started''), (Info, ''LoggerComponent stopped'')]" .
    then have "system_main he load True True = Inr (0, VM32Component_stop (stopAll component_stop main_components s6))"
      using True by (simp add: system_main_def init e)
    with s6(2) show ?thesis
      using made True vm_component_stop_ok(2) by (simp add: VM32Component_stop_def VM32Engine_shutdown_def VM32Engine_requestStop_def)
  qed
qed

section \<open>Examples\<close>

text \<open>A task of the unit 1 and a second task, which holds the unit 2.\<close>

definition sample_tasks :: "nat task list" where
  "sample_tasks = [\<lparr>task_name = ''a'', task_units = [Unit_Ref 1, Task_Ref 1]\<rparr>, \<lparr>task_name = ''b'', task_units = [Unit_Ref 2]\<rparr>]"

theorem scheduler_tick_traverses_witness:
  "Scheduler_tick 2 sample_tasks \<lparr>sched_tasks = [Task_Ref 0, Unit_Ref 3, Task_Ref 1]\<rparr> = Some [1, 2, 3, 2]"
proof -
  let ?s = "\<lparr>sched_tasks = [Task_Ref 0, Unit_Ref 3, Task_Ref 1]\<rparr>"
  let ?trees = "[Group [Leaf 1, Group [Leaf 2]], Leaf 3, Group [Leaf 2]]"
  have r: "ranked (\<lambda>k. 1 - k) sample_tasks" by (auto simp: ranked_def sample_tasks_def less_Suc_eq)
  have d: "\<forall>k. Task_Ref k \<in> set (sched_tasks ?s) \<longrightarrow> k < length sample_tasks \<and> 1 - k < (2 :: nat)"
    by (auto simp: sample_tasks_def)
  have u: "list_all2 (unfolds sample_tasks) (sched_tasks ?s) ?trees"
    by (simp add: unfolds_task unfolds_unit sample_tasks_def)
  from scheduler_tick_traverses [OF r d] obtain trees where
    t: "Scheduler_tick 2 sample_tasks ?s = Some (concat (map leaves trees))"
      "\<forall>trees'. list_all2 (unfolds sample_tasks) (sched_tasks ?s) trees' \<longrightarrow> trees' = trees" by blast
  from u t(2) have "?trees = trees" by blast
  from t(1) [folded this] show ?thesis by simp
qed

text \<open>A file system with one of the two programs of the system, and one with none.\<close>

definition main_only :: file_system where
  "main_only = \<lparr>fs_open = [cstr_of ''build/bin/main.bin'' \<mapsto> whole_file [1, 2, 3, 4, 5, 6, 7, 8]], fs_readdir = Map.empty, fs_stat = Map.empty\<rparr>"

lemma main_only_loadable: "loadable main_only 0x3000 [cstr_of ''build/bin/main.bin'', cstr_of ''build/bin/io.bin'']"
  unfolding loadable_def
  by (rule exI [of _ "[(cstr_of ''build/bin/main.bin'', [1, 2, 3, 4, 5, 6, 7, 8]), (cstr_of ''build/bin/io.bin'', [])]"])
    (auto simp: main_only_def cstr_of_def dest: arg_cong [where f = length])

lemma engine_init_total:
  assumes "g_vm (s_api s) = None" "sys_ready main_only s"
  shows "\<exists>s'. VM32Engine_init sample_host (calling_loader True main_only) cfg (vm_program_files s) s = Inr (s', True)"
proof -
  have s: "sys_ok s" "loadable main_only 0x3000 (vm_program_files s)" "he_calloc sample_host MIN_TABLE_SIZE"
    using assms(2) by (simp_all add: sys_ready_def sample_host_def)
  from engine_init_ok [OF s(1) calling_loader_calls s(3,2), of True cfg] obtain s' ok where
    e: "VM32Engine_init sample_host (calling_loader True main_only) cfg (vm_program_files s) s = Inr (s', ok)" by blast
  from engine_init_frame [OF e] assms(1) e show ?thesis by (auto simp: sample_host_def)
qed

theorem machine_ticked_iff_started_first_witness:
  "\<exists>s1 s2. initAll (component_init sample_host (calling_loader True main_only)) [EventManager_C, Logger_C, Scheduler_C, VM32_C, TaskManager_C] main_start = Inr (s1, True) \<and>
    startAll component_start [EventManager_C, Logger_C, Scheduler_C, VM32_C, TaskManager_C] s1 = Inr (s2, True) \<and>
    Scheduler_tick 1 (tm_tasks (s_manager s2)) (s_scheduler s2) = Some [VM32_C]"
proof -
  let ?cs = "[EventManager_C, Logger_C, Scheduler_C, VM32_C, TaskManager_C]"
  define s3 where "s3 = main_start\<lparr>s_logger := True,
     s_bus := registerService Scheduler_T (Member_Of Scheduler_C) (registerService ILogger_T (Member_Of Logger_C)
       (registerService EventManager_T (Member_Of EventManager_C) (s_bus main_start)))\<rparr>"
  let ?t = "attach_logger s3"
  have s3: "vm_has_bus s3" "sys_ok s3" "g_vm (s_api s3) = None" "sys_ready main_only s3"
    using main_start_ready [OF main_only_loadable]
    by (simp_all add: s3_def main_start_def sys_ok_def api_start_ok sys_ready_def) (simp add: api_start_def)
  have t: "g_vm (s_api ?t) = None" "s_bus ?t = s_bus s3" "sys_ready main_only ?t" "vm_has_bus ?t"
    using s3 attach_logger_frame(1) by (simp_all add: sys_ready_def) (simp_all add: attach_logger_def vm32_bridge_set_system_logger_def vm32_set_log_callback_def split: option.split)
  from engine_init_total [OF t(1,3)] obtain s4 where
    s4: "VM32Engine_init sample_host (calling_loader True main_only) (vm_component_config ?t) (vm_program_files ?t) ?t = Inr (s4, True)" by blast
  note f = engine_init_frame [OF s4]
  define s5 where "s5 = s4\<lparr>s_manager := bindScheduler (s_manager s4), s_bus := registerService TaskManager_T (Member_Of TaskManager_C) (s_bus s4)\<rparr>"
  have front: "initAll (component_init sample_host (calling_loader True main_only)) [EventManager_C, Logger_C, Scheduler_C] main_start = Inr (s3, True)"
    by (simp add: EventManagerComponent_init_def LoggerComponent_init_def SchedulerComponent_init_def
        getService_def registerService_def main_start_def s3_def Let_def)
  have vm: "initAll (component_init sample_host (calling_loader True main_only)) [VM32_C] s3 = Inr (s4, True)"
    using s3(1) by (simp add: vm_component_init_eq s4)
  have tm: "initAll (component_init sample_host (calling_loader True main_only)) [TaskManager_C] s4 = Inr (s5, True)"
    using f t(2) by (simp add: TaskManagerComponent_init_def s5_def s3_def getService_def registerService_def)
  have cs: "?cs = [EventManager_C, Logger_C, Scheduler_C] @ [VM32_C] @ [TaskManager_C]" by simp
  have init: "initAll (component_init sample_host (calling_loader True main_only)) ?cs main_start = Inr (s5, True)"
    unfolding cs system.initAll_append front bindR_simps prod.case vm tm by simp
  have bus: "vm_has_bus s5" "getService TaskManager_T (s_bus s5) \<noteq> None"
    using f t s3(1) by (simp_all add: s5_def getService_def registerService_def)
  then have "\<exists>s6. startAll component_start ?cs s5 = Inr (s6, True)"
    by (auto simp: LoggerComponent_start_def system_log_def VM32Component_start_def TaskManagerComponent_start_def createTask_def)
  then obtain s6 where start: "startAll component_start ?cs s5 = Inr (s6, True)" by blast
  from machine_ticked_iff_started_first [OF init start, of 0] init start show ?thesis by (intro exI [of _ s5] exI [of _ s6]) simp
qed

theorem system_main_lifecycle_witness:
  "\<exists>s. system_main sample_host (calling_loader True main_only) True True = Inr (0, s) \<and> g_vm (s_api s) = None"
  using system_main_lifecycle [OF calling_loader_calls main_only_loadable, of sample_host True] by (auto simp: sample_host_def)

end
