(* ===== verification/Iec.thy ===== *)
theory Iec
  imports System
begin

text \<open>
  The IEC layer of the component system (\<open>system-master/core/iec\<close>, \<open>runtime\<close>, \<open>logging\<close>, \<open>metrics\<close>): the program as a unit
  that ticks, with its inputs, expressions, outputs, runtime data and diagnostics, and the log lines with the runtime data.
  Endpoints and expressions are interfaces; what their implementations do to the world is an argument
  (\<open>iec_env\<close>).  A reference to a value is an address or null.
\<close>

section \<open>Runtime data and metrics\<close>

record runtime_context =
  correlationId :: u64
  cycleId :: u64

definition newCycle :: "runtime_context \<Rightarrow> runtime_context" where
  "newCycle rt = (let rt = rt\<lparr>cycleId := cycleId rt + 1\<rparr> in rt\<lparr>correlationId := correlationId rt + 1\<rparr>)"

record metrics =
  cycleCount :: u64

definition onCycle :: "metrics \<Rightarrow> metrics" where
  "onCycle m = m\<lparr>cycleCount := cycleCount m + 1\<rparr>"

section \<open>Structured log lines\<close>

definition StructuredLogger_format :: "runtime_context \<Rightarrow> string \<Rightarrow> string" where
  "StructuredLogger_format ctx message =
     ''cid='' @ show_nat (unat (correlationId ctx)) @
     '' cycle='' @ show_nat (unat (cycleId ctx)) @
     '' | '' @ message"

definition StructuredLogger_info :: "runtime_context \<Rightarrow> string \<Rightarrow> sys \<Rightarrow> sys" where
  "StructuredLogger_info ctx message s = system_log Info (StructuredLogger_format ctx message) s"

definition StructuredLogger_error :: "runtime_context \<Rightarrow> string \<Rightarrow> sys \<Rightarrow> sys" where
  "StructuredLogger_error ctx message s = system_log Error (StructuredLogger_format ctx message) s"

section \<open>Types, values, variables and memory\<close>

record iec_type =
  type_name :: string

definition BuiltinTypes_BOOL :: iec_type where
  "BuiltinTypes_BOOL = \<lparr>type_name = ''BOOL''\<rparr>"

definition BuiltinTypes_INT :: iec_type where
  "BuiltinTypes_INT = \<lparr>type_name = ''INT''\<rparr>"

definition BuiltinTypes_REAL :: iec_type where
  "BuiltinTypes_REAL = \<lparr>type_name = ''REAL''\<rparr>"

type_synonym iec_value_ref = "nat option"

record iec_variable =
  var_name :: string
  var_type :: iec_type
  var_value :: iec_value_ref

definition IecVariable_new :: "string \<Rightarrow> iec_type \<Rightarrow> iec_variable" where
  "IecVariable_new name type = \<lparr>var_name = name, var_type = type, var_value = None\<rparr>"

definition bindValue :: "iec_value_ref \<Rightarrow> iec_variable \<Rightarrow> iec_variable" where
  "bindValue v var = var\<lparr>var_value := v\<rparr>"

record iec_memory =
  mem_vars :: "iec_variable list"
  mem_inputs :: "iec_variable list"
  mem_outputs :: "iec_variable list"

definition IecMemory_addVar :: "iec_variable \<Rightarrow> iec_memory \<Rightarrow> iec_memory" where
  "IecMemory_addVar v m = m\<lparr>mem_vars := mem_vars m @ [v]\<rparr>"

definition IecMemory_addInput :: "iec_variable \<Rightarrow> iec_memory \<Rightarrow> iec_memory" where
  "IecMemory_addInput v m = m\<lparr>mem_inputs := mem_inputs m @ [v]\<rparr>"

definition IecMemory_addOutput :: "iec_variable \<Rightarrow> iec_memory \<Rightarrow> iec_memory" where
  "IecMemory_addOutput v m = m\<lparr>mem_outputs := mem_outputs m @ [v]\<rparr>"

section \<open>Inputs, outputs and expressions\<close>

datatype 'x iec_expression = Assignment iec_value_ref iec_value_ref | Expression 'x

text \<open>What the implementations of the interfaces do.\<close>

record ('e, 'x, 'w) iec_env =
  ep_read :: "'e \<Rightarrow> iec_value_ref \<Rightarrow> 'w \<Rightarrow> 'w"
  ep_write :: "'e \<Rightarrow> iec_value_ref \<Rightarrow> 'w \<Rightarrow> 'w"
  ex_evaluate :: "'x \<Rightarrow> 'w \<Rightarrow> 'w"

record 'e iec_io =
  io_inputs :: "('e \<times> iec_value_ref) list"
  io_outputs :: "('e \<times> iec_value_ref) list"

definition IecIoBinding_addInput :: "'e \<Rightarrow> iec_value_ref \<Rightarrow> 'e iec_io \<Rightarrow> 'e iec_io" where
  "IecIoBinding_addInput e target io = io\<lparr>io_inputs := io_inputs io @ [(e, target)]\<rparr>"

definition IecIoBinding_addOutput :: "'e \<Rightarrow> iec_value_ref \<Rightarrow> 'e iec_io \<Rightarrow> 'e iec_io" where
  "IecIoBinding_addOutput e source io = io\<lparr>io_outputs := io_outputs io @ [(e, source)]\<rparr>"

definition readInputs :: "('e, 'x, 'w) iec_env \<Rightarrow> 'e iec_io \<Rightarrow> 'w \<Rightarrow> 'w" where
  "readInputs env io w = fold (\<lambda>(e, target). ep_read env e target) (io_inputs io) w"

definition writeOutputs :: "('e, 'x, 'w) iec_env \<Rightarrow> 'e iec_io \<Rightarrow> 'w \<Rightarrow> 'w" where
  "writeOutputs env io w = fold (\<lambda>(e, source). ep_write env e source) (io_outputs io) w"

text \<open>The assignment is a skeleton: it copies nothing.\<close>

fun evaluate :: "('e, 'x, 'w) iec_env \<Rightarrow> 'x iec_expression \<Rightarrow> 'w \<Rightarrow> 'w" where
  "evaluate env (Assignment target source) w = w"
| "evaluate env (Expression x) w = ex_evaluate env x w"

section \<open>Diagnostics, cycles and programs\<close>

datatype iec_status = Idle | Running | Error_Status

definition onCycleStart :: "iec_status \<Rightarrow> iec_status" where
  "onCycleStart st = Running"

definition onCycleEnd :: "iec_status \<Rightarrow> iec_status" where
  "onCycleEnd st = Idle"

definition onError :: "iec_status \<Rightarrow> iec_status" where
  "onError st = Error_Status"

text \<open>The context of an execution refers to the runtime data and the diagnostics of its program.\<close>

type_synonym iec_context = "runtime_context \<times> iec_status"

definition beginCycle :: "iec_context \<Rightarrow> iec_context" where
  "beginCycle ctx = (let rt = newCycle (fst ctx) in (rt, onCycleStart (snd ctx)))"

definition endCycle :: "iec_context \<Rightarrow> iec_context" where
  "endCycle ctx = (fst ctx, onCycleEnd (snd ctx))"

definition executeCycle ::
  "('e, 'x, 'w) iec_env \<Rightarrow> 'x iec_expression list \<Rightarrow> iec_context \<times> 'w \<Rightarrow> iec_context \<times> 'w" where
  "executeCycle env exprs = (\<lambda>(ctx, w).
     (let ctx = beginCycle ctx;
          w = fold (evaluate env) exprs w
      in (endCycle ctx, w)))"

record ('e, 'x) iec_program =
  prog_name :: string
  prog_runtime :: runtime_context
  prog_memory :: iec_memory
  prog_status :: iec_status
  prog_engine :: "'x iec_expression list"
  prog_io :: "'e iec_io"

definition IecProgram_new :: "string \<Rightarrow> ('e, 'x) iec_program" where
  "IecProgram_new name = \<lparr>prog_name = name, prog_runtime = \<lparr>correlationId = 0, cycleId = 0\<rparr>,
     prog_memory = \<lparr>mem_vars = [], mem_inputs = [], mem_outputs = []\<rparr>, prog_status = Idle, prog_engine = [],
     prog_io = \<lparr>io_inputs = [], io_outputs = []\<rparr>\<rparr>"

definition IecProgram_addExpression :: "'x iec_expression \<Rightarrow> ('e, 'x) iec_program \<Rightarrow> ('e, 'x) iec_program" where
  "IecProgram_addExpression x p = p\<lparr>prog_engine := prog_engine p @ [x]\<rparr>"

definition IecProgram_tick ::
  "('e, 'x, 'w) iec_env \<Rightarrow> ('e, 'x) iec_program \<times> 'w \<Rightarrow> ('e, 'x) iec_program \<times> 'w" where
  "IecProgram_tick env = (\<lambda>(p, w).
     (let w = readInputs env (prog_io p) w;
          ((rt, st), w) = executeCycle env (prog_engine p) ((prog_runtime p, prog_status p), w);
          w = writeOutputs env (prog_io p) w
      in (p\<lparr>prog_runtime := rt, prog_status := st\<rparr>, w)))"

section \<open>Assignments\<close>

text \<open>Assignments have no effect: a list of expressions acts like those that are not assignments.\<close>

definition plain_expressions :: "'x iec_expression list \<Rightarrow> 'x list" where
  "plain_expressions exprs = concat (map (\<lambda>x. case x of Assignment _ _ \<Rightarrow> [] | Expression y \<Rightarrow> [y]) exprs)"

lemma fold_evaluate: "fold (evaluate env) exprs w = fold (ex_evaluate env) (plain_expressions exprs) w"
proof (induction exprs arbitrary: w)
  case (Cons x exprs)
  then show ?case by (cases x) (simp_all add: plain_expressions_def)
qed (simp add: plain_expressions_def)

section \<open>Log lines read back\<close>

text \<open>A reader of log lines: both numbers and the message.\<close>

definition expect :: "string \<Rightarrow> string \<Rightarrow> string option" where
  "expect p s = (if take (length p) s = p then Some (drop (length p) s) else None)"

definition parse_log_line :: "string \<Rightarrow> (nat \<times> nat \<times> string) option" where
  "parse_log_line s =
     (case expect ''cid='' s of None \<Rightarrow> None | Some s1 \<Rightarrow>
      case expect '' cycle='' (dropWhile (is_digit 10) s1) of None \<Rightarrow> None | Some s2 \<Rightarrow>
      case expect '' | '' (dropWhile (is_digit 10) s2) of None \<Rightarrow> None | Some msg \<Rightarrow>
      Some (number 10 (takeWhile (is_digit 10) s1), number 10 (takeWhile (is_digit 10) s2), msg))"

lemma expect_append [simp]: "expect p (p @ s) = Some s"
  by (simp add: expect_def)

lemma digits_then:
  assumes "p = CHR '' '' # q"
  shows "takeWhile (is_digit 10) (show_nat n @ p @ s) = show_nat n" "dropWhile (is_digit 10) (show_nat n @ p @ s) = p @ s"
proof -
  have "\<not> is_digit 10 (CHR '' '')" by (simp add: is_digit_def digit_val_def)
  then show "takeWhile (is_digit 10) (show_nat n @ p @ s) = show_nat n" "dropWhile (is_digit 10) (show_nat n @ p @ s) = p @ s"
    using show_nat_digits [of n] by (simp_all add: assms list_all_iff takeWhile_append2 dropWhile_append2)
qed

text \<open>
  C28 (roundtrip).  A structured log line can be read back: the two numbers are those of the runtime data and the message is the whole message, even one that
  looks like a log line itself.  Lines of different cycles or messages differ.\<close>

theorem log_line_reads_back:
  "parse_log_line (StructuredLogger_format ctx msg) = Some (unat (correlationId ctx), unat (cycleId ctx), msg) \<and>
   (StructuredLogger_format ctx msg = StructuredLogger_format ctx' msg' \<longleftrightarrow> ctx = ctx' \<and> msg = msg')"
proof -
  have parse: "parse_log_line (StructuredLogger_format ctx msg) = Some (unat (correlationId ctx), unat (cycleId ctx), msg)"
    for ctx :: runtime_context and msg
    unfolding parse_log_line_def StructuredLogger_format_def
    by (simp only: expect_append option.case digits_then [OF refl] number_show_nat)
  moreover have "ctx = ctx' \<and> msg = msg'" if "StructuredLogger_format ctx msg = StructuredLogger_format ctx' msg'"
  proof -
    have "Some (unat (correlationId ctx), unat (cycleId ctx), msg) = Some (unat (correlationId ctx'), unat (cycleId ctx'), msg')"
      unfolding parse [symmetric] that ..
    then show ?thesis by (cases ctx; cases ctx') (simp add: word_unat_eq_iff)
  qed
  ultimately show ?thesis by auto
qed

end
