(* ===== verification/Mvp.thy ===== *)
theory Mvp
  imports VMState
begin

text \<open>
  The first prototype (\<open>code/mvp.c\<close>, \<open>code/mvp.h\<close>): a machine of 32 registers with three instructions and a table of handlers.
  Its loop has no bound, so it is a partial function; as no instruction jumps backwards, it ends on every
  memory a 32-bit instruction pointer can reach.  Memory that could not be allocated is \<open>None\<close>.
\<close>

section \<open>Machine and fields of instructions\<close>

datatype mvp_handler = Handler_Add | Handler_Mov_Imm | Handler_Halt

datatype mvp_fault = Null_Pointer | Read_Outside

text \<open>The one line the machine prints.\<close>

datatype mvp_event = Unhandled_Opcode u32 u32

record mvp =
  m_regs :: "u32 list"
  m_ip :: u32
  m_sp :: u32
  m_flags :: u32
  m_mem :: "u8 list option"
  m_running :: bool
  m_handlers :: "mvp_handler option list"

definition mvp_create :: "bool \<Rightarrow> bool \<Rightarrow> nat \<Rightarrow> mvp_fault + mvp" where
  "mvp_create alloc_vm alloc_mem mem_size =
     (if \<not> alloc_vm then Inl Null_Pointer else
      Inr \<lparr>m_regs = replicate 32 0, m_ip = 0, m_sp = of_nat mem_size - 4, m_flags = 0,
           m_mem = (if alloc_mem then Some (replicate mem_size 0) else None), m_running = True,
           m_handlers = replicate 256 None\<rparr>)"

definition mvp_destroy :: "mvp option \<Rightarrow> mvp option" where
  "mvp_destroy vm = (case vm of None \<Rightarrow> None | Some _ \<Rightarrow> None)"

definition MVP_OP_NOP :: nat where "MVP_OP_NOP = 0x00"
definition MVP_OP_ADD :: nat where "MVP_OP_ADD = 0x01"
definition MVP_OP_SUB :: nat where "MVP_OP_SUB = 0x02"
definition MVP_OP_MOV :: nat where "MVP_OP_MOV = 0x10"
definition MVP_OP_HALT :: nat where "MVP_OP_HALT = 0xFF"

definition get_rd :: "u32 \<Rightarrow> u32" where
  "get_rd instr = drop_bit 19 instr AND 0x1F"

definition get_rs1 :: "u32 \<Rightarrow> u32" where
  "get_rs1 instr = drop_bit 14 instr AND 0x1F"

definition get_rs2 :: "u32 \<Rightarrow> u32" where
  "get_rs2 instr = drop_bit 9 instr AND 0x1F"

definition get_opcode :: "u32 \<Rightarrow> u32" where
  "get_opcode instr = drop_bit 24 instr AND 0xFF"

definition get_imm14 :: "u32 \<Rightarrow> u32" where
  "get_imm14 instr =
     (let imm = instr AND 0x3FFF
      in if imm AND push_bit 13 1 \<noteq> 0 then imm OR NOT 0x3FFF else imm)"

section \<open>Handlers and the loop\<close>

definition vm_fetch32 :: "mvp \<Rightarrow> mvp_fault + u32" where
  "vm_fetch32 vm =
     (let addr = unat (m_ip vm) in
      case m_mem vm of
        None \<Rightarrow> Inl Null_Pointer
      | Some bs \<Rightarrow>
          if addr + 4 \<le> length bs
          then Inr (of_le32 (bs ! addr) (bs ! (addr + 1)) (bs ! (addr + 2)) (bs ! (addr + 3)))
          else Inl Read_Outside)"

definition handler_add :: "mvp \<Rightarrow> u32 \<Rightarrow> mvp" where
  "handler_add vm instr =
     (let rd = unat (get_rd instr); rs1 = unat (get_rs1 instr); rs2 = unat (get_rs2 instr);
          vm = vm\<lparr>m_regs := (m_regs vm)[rd := m_regs vm ! rs1 + m_regs vm ! rs2]\<rparr>
      in vm\<lparr>m_ip := m_ip vm + 4\<rparr>)"

definition handler_mov_imm :: "mvp \<Rightarrow> u32 \<Rightarrow> mvp" where
  "handler_mov_imm vm instr =
     (let rd = unat (get_rd instr); rs1 = unat (get_rs1 instr);
          imm = get_imm14 instr;
          vm = vm\<lparr>m_regs := (m_regs vm)[rd := m_regs vm ! rs1 + imm]\<rparr>
      in vm\<lparr>m_ip := m_ip vm + 4\<rparr>)"

definition handler_halt :: "mvp \<Rightarrow> u32 \<Rightarrow> mvp" where
  "handler_halt vm instr = vm\<lparr>m_running := False\<rparr>"

fun call_handler :: "mvp_handler \<Rightarrow> mvp \<Rightarrow> u32 \<Rightarrow> mvp" where
  "call_handler Handler_Add vm instr = handler_add vm instr"
| "call_handler Handler_Mov_Imm vm instr = handler_mov_imm vm instr"
| "call_handler Handler_Halt vm instr = handler_halt vm instr"

definition mvp_init_table :: "mvp \<Rightarrow> mvp" where
  "mvp_init_table vm =
     vm\<lparr>m_handlers := (replicate 256 None)[MVP_OP_ADD := Some Handler_Add, MVP_OP_MOV := Some Handler_Mov_Imm,
       MVP_OP_HALT := Some Handler_Halt]\<rparr>"

partial_function (option) mvp_loop :: "mvp \<Rightarrow> mvp_event list \<Rightarrow> (mvp_fault + mvp \<times> mvp_event list) option" where
  "mvp_loop vm out =
     (if \<not> m_running vm then Some (Inr (vm, out)) else
      case vm_fetch32 vm of
        Inl f \<Rightarrow> Some (Inl f)
      | Inr instr \<Rightarrow>
          (case m_handlers vm ! unat (get_opcode instr) of
             Some h \<Rightarrow> mvp_loop (call_handler h vm instr) out
           | None \<Rightarrow> mvp_loop (vm\<lparr>m_running := False\<rparr>) (out @ [Unhandled_Opcode (get_opcode instr) (m_ip vm)])))"

definition mvp_run :: "mvp \<Rightarrow> (mvp_fault + mvp \<times> mvp_event list) option" where
  "mvp_run vm = mvp_loop (mvp_init_table vm) []"

section \<open>The meaning of a program\<close>

text \<open>The words of the memory, and what they do one after the other: a word is split by division, and the constant of a move is a
  number from \<open>-8192\<close> to \<open>8191\<close>.\<close>

fun le_words :: "u8 list \<Rightarrow> u32 list" where
  "le_words (a # b # c # d # bs) = of_le32 a b c d # le_words bs"
| "le_words _ = []"

definition constant14 :: "u32 \<Rightarrow> int" where
  "constant14 w = (let k = uint w mod 16384 in if k < 8192 then k else k - 16384)"

fun mvp_meaning :: "u32 list \<Rightarrow> mvp \<Rightarrow> mvp_fault + mvp \<times> mvp_event list" where
  "mvp_meaning [] vm = Inl Read_Outside"
| "mvp_meaning (w # ws) vm =
     (let op = unat w div 2 ^ 24; rd = unat w div 2 ^ 19 mod 32; rs1 = unat w div 2 ^ 14 mod 32; rs2 = unat w div 2 ^ 9 mod 32;
          r = m_regs vm
      in if op = 0x01 then mvp_meaning ws (vm\<lparr>m_regs := r[rd := r ! rs1 + r ! rs2], m_ip := m_ip vm + 4\<rparr>)
         else if op = 0x10 then mvp_meaning ws (vm\<lparr>m_regs := r[rd := r ! rs1 + of_int (constant14 w)], m_ip := m_ip vm + 4\<rparr>)
         else if op = 0xFF then Inr (vm\<lparr>m_running := False\<rparr>, [])
         else Inr (vm\<lparr>m_running := False\<rparr>, [Unhandled_Opcode (of_nat op) (m_ip vm)]))"

lemma take_bit_u32: "take_bit LENGTH(32) (unat (w :: u32)) = unat w"
  using unat_u32_less [of w] by (simp add: take_bit_nat_eq_self)

lemma field5: "unat (drop_bit k (w :: u32) AND 0x1F) = unat w div 2 ^ k mod 32"
proof -
  have "drop_bit k w AND 0x1F = take_bit 5 (drop_bit k w)" by (simp add: take_bit_eq_mask mask_eq_exp_minus_1)
  then have "unat (drop_bit k w AND 0x1F) = take_bit 5 (drop_bit k (unat w))"
    by (simp only: unsigned_take_bit_eq unsigned_drop_bit_eq take_bit_u32)
  then show ?thesis by (simp add: take_bit_eq_mod drop_bit_eq_div)
qed

lemma opcode_value: "unat (get_opcode w) = unat w div 2 ^ 24"
proof -
  have "get_opcode w = take_bit 8 (drop_bit 24 w)" by (simp add: get_opcode_def take_bit_eq_mask mask_eq_exp_minus_1)
  then have "unat (get_opcode w) = take_bit 8 (drop_bit 24 (unat w))"
    by (simp only: unsigned_take_bit_eq unsigned_drop_bit_eq take_bit_u32)
  then have "unat (get_opcode w) = unat w div 2 ^ 24 mod 256" by (simp add: take_bit_eq_mod drop_bit_eq_div)
  moreover have "unat w div 2 ^ 24 < 256" using unat_u32_less [of w] by (simp add: less_mult_imp_div_less)
  ultimately show ?thesis by simp
qed

lemma imm14_value: "get_imm14 w = of_int (constant14 w)"
proof -
  have low: "w AND 0x3FFF = take_bit 14 w" by (simp add: take_bit_eq_mask mask_eq_exp_minus_1)
  have k: "uint (take_bit 14 w) = uint w mod 16384"
    unfolding unsigned_take_bit_eq [of 14 w] by (simp add: take_bit_eq_mod)
  have top: "take_bit 14 w AND push_bit 13 1 \<noteq> 0 \<longleftrightarrow> \<not> uint w mod 16384 < 8192"
  proof -
    have "take_bit 14 w AND push_bit 13 1 \<noteq> 0 \<longleftrightarrow> bit w 13"
      unfolding bit_iff_and_push_bit_not_eq_0 [symmetric] by (simp add: bit_take_bit_iff)
    also have "\<dots> \<longleftrightarrow> bit (uint w) 13" by (simp add: bit_uint_iff)
    also have "\<dots> \<longleftrightarrow> odd (uint w div 8192)" unfolding bit_iff_odd by simp
    also have "\<dots> \<longleftrightarrow> \<not> uint w mod 16384 < 8192"
    proof -
      define a where "a = uint w div 8192"
      have "uint w mod 16384 = (a mod 2) * 8192 + uint w mod 8192" "0 \<le> uint w mod 8192" "uint w mod 8192 < 8192"
        using zmod_zmult2_eq [of 2 "uint w" 8192] by (simp_all add: a_def)
      then show ?thesis unfolding a_def [symmetric] by (cases "a mod 2 = 0") (auto simp: odd_iff_mod_2_eq_one)
    qed
    finally show ?thesis .
  qed
  have ext: "take_bit 14 w OR NOT 0x3FFF = take_bit 14 w - 16384"
  proof -
    have m: "(0x3FFF :: u32) = mask 14" by (simp add: mask_eq_exp_minus_1)
    have "take_bit 14 w AND NOT (mask 14) = 0" by (rule bit_word_eqI) (auto simp: bit_simps)
    then have "take_bit 14 w OR NOT (mask 14) = take_bit 14 w + NOT (mask 14)" by (simp add: disjunctive_add_eq_or)
    then show ?thesis unfolding m by (simp add: mask_eq_exp_minus_1 not_eq_complement)
  qed
  have "of_int (uint w mod 16384) = take_bit 14 w" using k by (metis word_of_int_uint of_int_uint)
  then show ?thesis
    unfolding get_imm14_def constant14_def Let_def low ext
    using top by simp
qed

lemma le_words_drop:
  "le_words (drop k bs) = (if k + 4 \<le> length bs
     then of_le32 (bs ! k) (bs ! (k + 1)) (bs ! (k + 2)) (bs ! (k + 3)) # le_words (drop (k + 4) bs) else [])"
proof (cases "k + 4 \<le> length bs")
  case True
  then have "drop k bs = bs ! k # bs ! (k + 1) # bs ! (k + 2) # bs ! (k + 3) # drop (k + 4) bs"
    by (simp add: Cons_nth_drop_Suc [symmetric] numeral_eq_Suc)
  then show ?thesis using True by simp
next
  case False
  then have "length (drop k bs) < 4" by simp
  then show ?thesis using False by (cases "drop k bs" rule: le_words.cases) simp_all
qed

lemma table_lookup:
  "m_handlers (mvp_init_table vm) ! unat (get_opcode w) =
     (if unat w div 2 ^ 24 = 0x01 then Some Handler_Add else if unat w div 2 ^ 24 = 0x10 then Some Handler_Mov_Imm
      else if unat w div 2 ^ 24 = 0xFF then Some Handler_Halt else None)"
proof -
  have "unat w div 2 ^ 24 < 256" using unat_u32_less [of w] by (simp add: less_mult_imp_div_less)
  then show ?thesis
    unfolding mvp_init_table_def opcode_value by (simp add: nth_list_update MVP_OP_ADD_def MVP_OP_MOV_def MVP_OP_HALT_def)
qed

lemma mvp_loop_meaning:
  assumes "m_mem vm = Some bs" "length bs < 2 ^ 32" "m_running vm" "m_handlers vm = m_handlers (mvp_init_table vm)"
  shows "mvp_loop vm [] = Some (mvp_meaning (le_words (drop (unat (m_ip vm)) bs)) vm)"
  using assms
proof (induction "length bs - unat (m_ip vm)" arbitrary: vm rule: less_induct)
  case less
  let ?k = "unat (m_ip vm)"
  show ?case
  proof (cases "?k + 4 \<le> length bs")
    case False
    then show ?thesis using less.prems
      by (subst mvp_loop.simps) (simp add: vm_fetch32_def le_words_drop [of ?k bs])
  next
    case True
    define w where "w = of_le32 (bs ! ?k) (bs ! (?k + 1)) (bs ! (?k + 2)) (bs ! (?k + 3))"
    have fetch: "vm_fetch32 vm = Inr w" using True less.prems(1) by (simp add: vm_fetch32_def w_def Let_def)
    have words: "le_words (drop ?k bs) = w # le_words (drop (?k + 4) bs)" using True by (simp add: le_words_drop [of ?k bs] w_def)
    have next_ip: "unat (m_ip vm + 4) = ?k + 4" using True less.prems(2) by (simp add: unat_word_ariths)
    have table: "m_handlers vm ! unat (get_opcode w) =
       (if unat w div 2 ^ 24 = 0x01 then Some Handler_Add else if unat w div 2 ^ 24 = 0x10 then Some Handler_Mov_Imm
        else if unat w div 2 ^ 24 = 0xFF then Some Handler_Halt else None)"
      unfolding less.prems(4) by (rule table_lookup)
    have go: "mvp_loop (vm\<lparr>m_regs := r, m_ip := m_ip vm + 4\<rparr>) [] =
        Some (mvp_meaning (le_words (drop (?k + 4) bs)) (vm\<lparr>m_regs := r, m_ip := m_ip vm + 4\<rparr>))" for r
      using less.hyps [of "vm\<lparr>m_regs := r, m_ip := m_ip vm + 4\<rparr>"] less.prems True next_ip
      by (simp add: mvp_init_table_def)
    have stop: "mvp_loop (vm\<lparr>m_running := False\<rparr>) out = Some (Inr (vm\<lparr>m_running := False\<rparr>, out))" for out
      by (subst mvp_loop.simps) simp
    have op: "of_nat (unat w div 2 ^ 24) = get_opcode w" unfolding opcode_value [symmetric] by simp
    have one: "mvp_loop vm [] = (case m_handlers vm ! unat (get_opcode w) of
             Some h \<Rightarrow> mvp_loop (call_handler h vm w) []
           | None \<Rightarrow> mvp_loop (vm\<lparr>m_running := False\<rparr>) ([] @ [Unhandled_Opcode (get_opcode w) (m_ip vm)]))"
      using less.prems(3) by (subst mvp_loop.simps) (simp add: fetch)
    show ?thesis
      unfolding one table words
      by (simp add: handler_add_def handler_mov_imm_def handler_halt_def Let_def field5 get_rd_def get_rs1_def get_rs2_def
          imm14_value go stop op [simplified])
  qed
qed

text \<open>
  C13 (refinement).  The first prototype runs every program to its end and does what the words of the memory mean: on a memory of less than 4 GB, from address 0, the
  loop returns, and its outcome is that of the words one after the other, up to the first word that is a halt or has no handler, or to the
  read behind the end of the memory.
\<close>

theorem mvp_runs_program:
  assumes "m_mem vm = Some bs" "length bs < 2 ^ 32" "m_running vm" "m_ip vm = 0"
  shows "mvp_run vm = Some (mvp_meaning (le_words bs) (mvp_init_table vm))"
  using mvp_loop_meaning [of "mvp_init_table vm" bs] assms by (simp add: mvp_run_def) (simp add: mvp_init_table_def)

text \<open>The program \<open>MOV R1, R0, -3; ADD R2, R1, R1; HALT\<close> in 12 bytes.\<close>

definition sample_mvp :: mvp where
  "sample_mvp = \<lparr>m_regs = replicate 32 0, m_ip = 0, m_sp = 8, m_flags = 0,
     m_mem = Some [0xFD, 0x3F, 0x08, 0x10, 0x00, 0x42, 0x10, 0x01, 0x00, 0x00, 0x00, 0xFF], m_running = True,
     m_handlers = replicate 256 None\<rparr>"

theorem mvp_runs_program_witness:
  "\<exists>vm. mvp_run sample_mvp = Some (Inr (vm, [])) \<and> m_regs vm ! 1 = -3 \<and> m_regs vm ! 2 = -6 \<and> m_ip vm = 8 \<and> \<not> m_running vm"
proof -
  have words: "of_le32 0xFD 0x3F 0x08 0x10 = 0x10083FFD" "of_le32 0x00 0x42 0x10 0x01 = 0x01104200" "of_le32 0 0 0 0xFF = 0xFF000000"
    by (simp_all add: of_le32_def)
  have "constant14 0x10083FFD = -3" by (simp add: constant14_def)
  then have "mvp_meaning [0x10083FFD, 0x01104200, 0xFF000000] (mvp_init_table sample_mvp) =
      Inr ((mvp_init_table sample_mvp)\<lparr>m_regs := (replicate 32 0)[1 := -3, 2 := -6], m_ip := 8, m_running := False\<rparr>, [])"
    by (simp add: mvp_init_table_def sample_mvp_def)
  then show ?thesis
    using mvp_runs_program [of sample_mvp] by (simp add: sample_mvp_def words mvp_init_table_def)
qed

end
