(* ===== verification/OldDebug.thy ===== *)
theory OldDebug
  imports Converter System
begin

text \<open>
  The older debugger \<open>debug.c\<close> beside the sources of the hosted machine
  (\<open>system-master/iec/runtime/legacy/debug.c\<close>): a log in global variables, with a callback that
  gets a message besides the text in the log file.  Its names have the prefix \<open>old_\<close> where \<open>Debug\<close> has the same.

  \<open>old_log\<close> holds the globals of the file; \<open>od_text\<close> is the text in the log file and \<open>od_calls\<close>
  the calls of the callback.  The registers, the memory and the program counter are globals of a machine that is not
  in the sources, hence arguments.  To print a null pointer as a string is undefined: the result is then a fault.
\<close>

section \<open>State\<close>

record old_log =
  od_logging_enabled :: bool
  od_verbose_logging :: bool
  od_log_file :: bool
  od_prev_reg :: "u8 \<Rightarrow> u32"
  od_prev_mem :: "u8 list"
  od_prev_pc :: u32
  od_instruction_count :: u64
  od_log_cb :: bool
  od_text :: string
  od_calls :: "(int \<times> string) list"

definition old_log_init :: old_log where
  "old_log_init = \<lparr>od_logging_enabled = True, od_verbose_logging = True, od_log_file = False,
     od_prev_reg = (\<lambda>_. 0), od_prev_mem = replicate MEM_LOG_SIZE 0, od_prev_pc = 0, od_instruction_count = 0,
     od_log_cb = False, od_text = [], od_calls = []\<rparr>"

definition old_opcode_names :: "string list" where
  "old_opcode_names = [
    ''ADD'', ''SUB'', ''MUL'', ''DIV'', ''MOD'', ''EXPT'', ''ABS'', ''SQRT'', ''LN'', ''LOG'',
    ''EXP'', ''SIN'', ''COS'', ''TAN'', ''ASIN'', ''ACOS'', ''ATAN'',
    ''AND'', ''OR'', ''XOR'', ''NOT'',
    ''EQ'', ''NE'', ''GT'', ''GE'', ''LT'', ''LE'',
    ''TIME'', ''DATE'', ''TOD'', ''DT'', ''ADD_TIME'', ''SUB_TIME'',
    ''YEAR'', ''MONTH'', ''DAY'', ''HOUR'', ''MINUTE'', ''SECOND'',
    ''LEN'', ''CONCAT'', ''LEFT'', ''RIGHT'', ''MID'', ''INSERT'', ''DELETE'', ''REPLACE'',
    ''TON'', ''TOF'', ''TP'',
    ''CTU'', ''CTD'', ''CTUD'',
    ''LIMIT'', ''SEL'', ''MUX'',
    ''JMP'', ''JMP_IF'', ''JMP_IF_NOT'',
    ''HALT'', ''EXIT'']"

definition old_set_log_callback :: "bool \<Rightarrow> old_log \<Rightarrow> old_log" where
  "old_set_log_callback cb l = l\<lparr>od_log_cb := cb\<rparr>"

text \<open>The buffer of 4096 bytes holds 4095 characters and the null character.\<close>

definition vm32_call_cb :: "int \<Rightarrow> string \<Rightarrow> old_log \<Rightarrow> old_log" where
  "vm32_call_cb level msg l =
     (if \<not> od_log_cb l then l else l\<lparr>od_calls := od_calls l @ [(level, take 4095 msg)]\<rparr>)"

definition old_print :: "string \<Rightarrow> old_log \<Rightarrow> old_log" where
  "old_print s l = l\<lparr>od_text := od_text l @ s\<rparr>"

section \<open>Instructions\<close>

text \<open>The entries of the array behind the 61 names are null pointers, the result then is \<open>None\<close>.\<close>

definition old_opcode_name :: "u8 \<Rightarrow> string option" where
  "old_opcode_name opcode =
     (if OPCODE_COUNT \<le> unat opcode then Some ''UNKNOWN''
      else if unat opcode < length old_opcode_names then Some (old_opcode_names ! unat opcode)
      else None)"

definition string_arg :: "string option \<Rightarrow> string res" where
  "string_arg s = (case s of None \<Rightarrow> Inl Null_Pointer | Some s \<Rightarrow> Inr s)"

definition hex4 :: "u32 \<Rightarrow> string" where
  "hex4 w = pad_left CHR ''0'' 4 (digits_of 16 (unat w))"

definition old_fprintf_binary :: "u32 \<Rightarrow> string" where
  "old_fprintf_binary num = concat (map (\<lambda>c. (if (c + 1) mod 8 = 0 \<and> c \<noteq> 31 then '' '' else []) @
     show_nat (unat (drop_bit c num AND 1))) (rev [0..<32]))"

definition old_fprintf_inst :: "u32 \<Rightarrow> string res" where
  "old_fprintf_inst instr =
     (let opcode = OPC instr; ra = RA instr; rb = RB instr; rc = RC instr in
      bindR (string_arg (old_opcode_name opcode)) (\<lambda>name.
      Inr (pad_right CHR '' '' 10 name @ '' R'' @ show_nat (unat ra) @ '', R'' @ show_nat (unat rb) @
        '', R'' @ show_nat (unat rc) @ ''  [0x'' @ hex8 instr @ '']'')))"

definition old_disassemble :: "u32 \<Rightarrow> u8 \<times> u8 \<times> u8 \<times> 16 word" where
  "old_disassemble instr =
     (ucast (drop_bit 25 instr AND 0x7F), ucast (drop_bit 17 instr AND 0xFF),
      ucast (drop_bit 9 instr AND 0xFF), ucast (instr AND 0x1FF))"

section \<open>Dumps\<close>

definition old_printable :: "u8 \<Rightarrow> char" where
  "old_printable b = (if 32 \<le> b \<and> b < 127 then char_of (unat b) else CHR ''.'')"

definition old_dump_row :: "(nat \<Rightarrow> u8) \<Rightarrow> nat \<Rightarrow> nat \<Rightarrow> string" where
  "old_dump_row m to i =
     ''  '' @ hex4 (of_nat i) @ '': '' @
     concat (map (\<lambda>j. hex2 (m (i + j)) @ '' '') (filter (\<lambda>j. i + j < to) [0..<16])) @ '' | '' @
     map (\<lambda>j. old_printable (m (i + j))) (filter (\<lambda>j. i + j < to) [0..<16]) @ nl"

text \<open>The end is not compared with the size of the memory, whose bytes \<open>m\<close> gives.\<close>

definition old_fprintf_mem_bytes :: "(nat \<Rightarrow> u8) \<Rightarrow> u32 \<Rightarrow> u32 \<Rightarrow> string res" where
  "old_fprintf_mem_bytes m from to =
     (if from < to \<and> VM_MEM_BYTES < unat to then Inl Out_Of_Bounds
      else Inr (''Memory dump [0x'' @ hex4 from @ '' - 0x'' @ hex4 to @ '']:'' @ nl @
        concat (map (\<lambda>k. old_dump_row m (unat to) (unat from + 16 * k))
          (filter (\<lambda>k. unat from + 16 * k < unat to) [0..<unat to]))))"

definition old_fprintf_mem_nonzero :: "(nat \<Rightarrow> u8) \<Rightarrow> u32 \<Rightarrow> string res" where
  "old_fprintf_mem_nonzero m stop =
     (if VM_MEM_BYTES < unat stop then Inl Out_Of_Bounds
      else let hits = filter (\<lambda>i. m i \<noteq> 0) [0..<unat stop] in
        Inr (''Non-zero memory bytes:'' @ nl @
         concat (map (\<lambda>i. ''  [0x'' @ hex4 (of_nat i) @ ''] = 0x'' @ hex2 (m i) @ '' ('' @
           pad_left CHR '' '' 3 (show_nat (unat (m i))) @ '') '' @ [CHR 0x27, old_printable (m i), CHR 0x27] @ nl) hits) @
         (if hits = [] then ''  (none)'' @ nl else [])))"

definition old_fprintf_reg :: "(u8 \<Rightarrow> u32) \<Rightarrow> int \<Rightarrow> string res" where
  "old_fprintf_reg regs idx =
     (if idx < 0 \<or> int REG_COUNT \<le> idx then Inl Out_Of_Bounds
      else Inr (''R'' @ pad_left CHR ''0'' 3 (show_int idx) @ '' = 0x'' @ hex8 (regs (of_int idx)) @
        '' ('' @ pad_left CHR '' '' 10 (show_nat (unat (regs (of_int idx)))) @ '')'' @ nl))"

definition old_fprintf_reg_all :: "(u8 \<Rightarrow> u32) \<Rightarrow> nat \<Rightarrow> string res" where
  "old_fprintf_reg_all regs n =
     (if REG_COUNT < n then Inl Out_Of_Bounds
      else Inr (''All registers:'' @ nl @
        concat (map (\<lambda>i. (if i mod 4 = 0 then ''  '' else []) @
          ''R'' @ pad_left CHR ''0'' 3 (show_nat i) @ ''='' @ hex8 (regs (of_nat i)) @ '' '' @
          (if (i + 1) mod 4 = 0 then nl else [])) [0..<n]) @
        (if n mod 4 \<noteq> 0 then nl else [])))"

section \<open>The log\<close>

text \<open>\<open>opened\<close>: \<open>fopen\<close> succeeds, which empties the file; \<open>date\<close>: the text of \<open>ctime\<close>;
  \<open>start\<close>: the global start address.\<close>

definition old_init_logging :: "bool \<Rightarrow> string \<Rightarrow> u32 \<Rightarrow> old_log \<Rightarrow> old_log" where
  "old_init_logging opened date start l =
     (if \<not> od_logging_enabled l then l
      else if \<not> opened then l\<lparr>od_log_file := False, od_logging_enabled := False\<rparr>
      else
        let l = l\<lparr>od_log_file := True, od_text := []\<rparr>;
            l = vm32_call_cb VM32_LOG_INFO ''VM32 logging initialized'' l;
            l = old_print (double_line 0x94 0x97 @
              dbar @ ''           VM32 Execution Log - '' @ date @
              double_line 0xA0 0xA3 @
              dbar @ '' Memory: 67108864 bytes (64.00 MB)'' @ nl @
              dbar @ '' Registers: '' @ show_nat REG_COUNT @ nl @
              dbar @ '' Start PC: 0x'' @ hex4 start @ nl @
              double_line 0x9A 0x9D @ nl) l
        in l\<lparr>od_instruction_count := 0\<rparr>)"

abbreviation od_logging :: "old_log \<Rightarrow> bool" where
  "od_logging l \<equiv> od_logging_enabled l \<and> od_log_file l"

definition old_log_instruction :: "u32 \<Rightarrow> u32 \<Rightarrow> old_log \<Rightarrow> old_log res" where
  "old_log_instruction pc instr l =
     (if \<not> od_logging l then Inr l
      else
        bindR (if od_log_cb l then
            bindR (string_arg (old_opcode_name (OPC instr))) (\<lambda>name.
            Inr (vm32_call_cb VM32_LOG_DEBUG (''PC=0x'' @ hex4 pc @ '' instr=0x'' @ hex8 instr @ '' '' @ name) l))
          else Inr l) (\<lambda>l.
        let l = l\<lparr>od_instruction_count := od_instruction_count l + 1\<rparr> in
        bindR (old_fprintf_inst instr) (\<lambda>text.
        Inr (old_print (utf8 [0xE2, 0x94, 0x8C] @ rule_line 1 @ '' Instruction #'' @
          show_nat (unat (od_instruction_count l)) @ '' '' @ rule_line 41 @ nl @
          bar @ '' PC: 0x'' @ hex4 pc @ nl @
          bar @ '' '' @ text @ nl @
          bar @ '' Binary: '' @ old_fprintf_binary instr @ nl) l))))"

definition old_operand :: "(u8 \<Rightarrow> u32) \<Rightarrow> u8 \<Rightarrow> string \<Rightarrow> string" where
  "old_operand regs r field = bar @ ''   R'' @ show_nat (unat r) @ '' ('' @ field @ '') = 0x'' @ hex8 (regs r) @
     '' ('' @ show_nat (unat (regs r)) @ '')'' @ nl"

definition old_log_before :: "(u8 \<Rightarrow> u32) \<Rightarrow> (nat \<Rightarrow> u8) \<Rightarrow> u32 \<Rightarrow> u32 \<Rightarrow> old_log \<Rightarrow> old_log res" where
  "old_log_before regs m pc instr l =
     (if \<not> od_logging l then Inr l
      else
        let l = l\<lparr>od_prev_pc := pc, od_prev_reg := regs, od_prev_mem := map m [0..<MEM_LOG_SIZE]\<rparr> in
        if \<not> od_verbose_logging l then
          (if od_instruction_count l mod 100 = 0 then
             bindR (string_arg (old_opcode_name (OPC instr))) (\<lambda>name.
             Inr (old_print (''[#'' @ show_nat (unat (od_instruction_count l)) @ ''] PC=0x'' @ hex4 pc @ '' '' @ name @ nl) l))
           else Inr l)
        else
          bindR (old_log_instruction pc instr l) (\<lambda>l.
          Inr (old_print (bar @ nl @ bar @ '' Operands BEFORE:'' @ nl @
            old_operand regs (RA instr) ''A'' @ old_operand regs (RB instr) ''B'' @
            old_operand regs (ucast (RC instr)) ''C'') l)))"

definition old_log_after :: "(u8 \<Rightarrow> u32) \<Rightarrow> (nat \<Rightarrow> u8) \<Rightarrow> u32 \<Rightarrow> old_log \<Rightarrow> old_log" where
  "old_log_after regs m pc l =
     (if \<not> od_logging l \<or> \<not> od_verbose_logging l then l
      else
        let changed = filter (\<lambda>i. od_prev_reg l (of_nat i) \<noteq> regs (of_nat i)) [0..<REG_COUNT];
            bytes = filter (\<lambda>i. od_prev_mem l ! i \<noteq> m i) [0..<MEM_LOG_SIZE]
        in old_print (bar @ nl @
          (if changed = [] then bar @ '' Register changes: (none)'' @ nl
           else bar @ '' Register CHANGES:'' @ nl @
             concat (map (\<lambda>i. bar @ ''   R'' @ pad_left CHR ''0'' 3 (show_nat i) @ '': 0x'' @
               hex8 (od_prev_reg l (of_nat i)) @ '' ('' @ pad_left CHR '' '' 10 (show_nat (unat (od_prev_reg l (of_nat i)))) @
               '') -> 0x'' @ hex8 (regs (of_nat i)) @ '' ('' @ pad_left CHR '' '' 10 (show_nat (unat (regs (of_nat i)))) @
               '')'' @ nl) changed)) @
          bar @ nl @
          (if bytes = [] then bar @ '' Memory changes: (none)'' @ nl
           else bar @ '' Memory CHANGES (first '' @ show_nat MEM_LOG_SIZE @ '' bytes):'' @ nl @
             concat (map (\<lambda>i. bar @ ''   [0x'' @ hex4 (of_nat i) @ '']: 0x'' @ hex2 (od_prev_mem l ! i) @
               '' ('' @ pad_left CHR '' '' 3 (show_nat (unat (od_prev_mem l ! i))) @ '') -> 0x'' @ hex2 (m i) @
               '' ('' @ pad_left CHR '' '' 3 (show_nat (unat (m i))) @ '') '' @
               [CHR 0x27, old_printable (m i), CHR 0x27] @ nl) bytes)) @
          bar @ nl @
          (if od_prev_pc l \<noteq> pc then bar @ '' PC changed: 0x'' @ hex4 (od_prev_pc l) @ '' -> 0x'' @ hex4 pc @ nl
           else bar @ '' PC: 0x'' @ hex4 pc @ nl) @
          utf8 [0xE2, 0x94, 0x94] @ rule_line 62 @ nl @ nl) l)"

definition old_close_logging :: "u32 \<Rightarrow> old_log \<Rightarrow> old_log" where
  "old_close_logging pc l =
     (if \<not> od_log_file l then l
      else
        let l = vm32_call_cb VM32_LOG_INFO (''VM32 logging closed. Total instructions: '' @
              show_nat (unat (od_instruction_count l))) l;
            l = old_print (nl @ double_line 0x94 0x97 @
              dbar @ '' Execution Summary'' @ nl @
              double_line 0xA0 0xA3 @
              dbar @ '' Total instructions executed: '' @ show_nat (unat (od_instruction_count l)) @ nl @
              dbar @ '' Final PC: 0x'' @ hex4 pc @ nl @
              double_line 0x9A 0x9D) l
        in l\<lparr>od_log_file := False\<rparr>)"

section \<open>Names\<close>

lemma old_names_new: "old_opcode_names = take 56 opcode_names @ map ((!) opcode_names) [62, 63, 64, 66, 65]"
  by (simp add: old_opcode_names_def opcode_names_def)

lemma length_old_names [simp]: "length old_opcode_names = 61"
  by (simp add: old_opcode_names_def)

lemma old_name_nth:
  assumes "k < 61"
  shows "old_opcode_names ! k = opcode_names ! (if k < 56 then k else [62, 63, 64, 66, 65] ! (k - 56))"
  using assms by (simp add: old_names_new nth_append nth_map del: list.map)

definition old_name_meaning :: "nat \<Rightarrow> nat" where
  "old_name_meaning k = (if k < 56 then k else [62, 63, 64, 66, 65] ! (k - 56))"

lemma old_name_meaning_bounds: "k < 61 \<Longrightarrow> old_name_meaning k < 68" "k < 61 \<Longrightarrow> old_name_meaning k = k \<longleftrightarrow> k < 56"
proof -
  assume k: "k < 61"
  then consider "k < 56" | "k = 56" | "k = 57" | "k = 58" | "k = 59" | "k = 60" by linarith
  then show "old_name_meaning k < 68" "old_name_meaning k = k \<longleftrightarrow> k < 56"
    by (cases; simp add: old_name_meaning_def)+
qed

lemma old_name_opcode: "k < 61 \<Longrightarrow> opcode_from_name (old_opcode_names ! k) = Some (old_name_meaning k)"
  using old_name_meaning_bounds(1) by (simp only: old_name_nth old_name_meaning_def opcode_from_opcode_names)

text \<open>
  The names of the older debugger fit the machine only below 56: there an opcode is printed by the name that the
  assembler translates to it; the five opcodes behind (edge detectors and latches of the machine) are printed by the names of
  other ones, and to print any further one is undefined.
\<close>

theorem old_names_shifted:
  "case string_arg (old_opcode_name opcode) of
     Inl f \<Rightarrow> f = Null_Pointer \<and> 61 \<le> unat opcode \<and> unat opcode < 128
   | Inr name \<Rightarrow> opcode_from_name name = Some (unat opcode) \<longleftrightarrow> unat opcode < 56"
proof -
  have unknown: "opcode_from_name ''UNKNOWN'' = None"
    by (simp add: opcode_from_name_def op_table_def strcasecmp_eq_def)
  consider "128 \<le> unat opcode" | "unat opcode < 61" | "61 \<le> unat opcode" "unat opcode < 128" by linarith
  then show ?thesis
  proof cases
    case 2
    then show ?thesis by (simp add: old_opcode_name_def string_arg_def old_name_opcode old_name_meaning_bounds)
  qed (simp_all add: old_opcode_name_def string_arg_def unknown)
qed

section \<open>The log in its short form\<close>

text \<open>
  Without the verbose form the log should show every hundredth instruction; but only the verbose form counts
  instructions, so the counter stays at 0 and every instruction is shown.
\<close>

theorem old_brief_log_shows_all:
  assumes "od_logging l" "\<not> od_verbose_logging l" "od_instruction_count l = 0"
    and "old_log_before regs m pc instr l = Inr l'"
  shows "od_instruction_count l' = 0 \<and> (\<exists>name. old_opcode_name (OPC instr) = Some name \<and>
    od_text l' = od_text l @ ''[#0] PC=0x'' @ hex4 pc @ '' '' @ name @ nl)"
proof -
  obtain name where name: "old_opcode_name (OPC instr) = Some name"
    using assms by (cases "old_opcode_name (OPC instr)") (simp_all add: old_log_before_def string_arg_def)
  moreover have "show_nat 0 = ''0''" by code_simp
  ultimately show ?thesis using assms by (auto simp: old_log_before_def string_arg_def old_print_def)
qed

text \<open>The verbose log counts the instructions it shows.\<close>

theorem old_verbose_log_counts:
  assumes "od_logging l" "od_verbose_logging l" "old_log_before regs m pc instr l = Inr l'"
  shows "od_instruction_count l' = od_instruction_count l + 1 \<and> od_prev_reg l' = regs \<and>
    od_prev_mem l' = map m [0..<MEM_LOG_SIZE] \<and> od_prev_pc l' = pc \<and> od_logging l' \<and> od_verbose_logging l'"
  using assms by (auto simp: old_log_before_def old_log_instruction_def old_print_def vm32_call_cb_def bindR_Inr_iff Let_def
      split: if_splits)

text \<open>A message for the callback is cut after 4095 characters.\<close>

lemma vm32_call_cb_short: "\<forall>(level, s) \<in> set (od_calls l). length s \<le> 4095 \<Longrightarrow>
    \<forall>(level, s) \<in> set (od_calls (vm32_call_cb level msg l)). length s \<le> 4095"
  by (auto simp: vm32_call_cb_def)

end
