(* ===== verification/PerfSummary.thy ===== *)
theory PerfSummary
  imports Debug
begin

text \<open>
  The performance summary (\<open>vm_print_perf_summary\<close> of \<open>debug.c\<close>): the counters of a machine, and times and averages in
  double arithmetic.  The conversions, the division and the formatting of a \<open>double\<close> are parameters; the lemma
  instantiates them by fractions with an explicit division by zero.
\<close>

record 'd floats =
  fl_u64 :: "u64 \<Rightarrow> 'd"
  fl_num :: "nat \<Rightarrow> 'd"
  fl_div :: "'d \<Rightarrow> 'd \<Rightarrow> 'd"
  fl_positive :: "'d \<Rightarrow> bool"
  fl_show3 :: "'d \<Rightarrow> string"

definition total_instr :: "'d floats \<Rightarrow> vm_perf_stats \<Rightarrow> 'd" where
  "total_instr fl p = fl_u64 fl (instructions_total p)"

text \<open>The average over the instructions, guarded by their number.\<close>

definition avg_ns :: "'d floats \<Rightarrow> vm_perf_stats \<Rightarrow> u64 \<Rightarrow> 'd" where
  "avg_ns fl p t = (if fl_positive fl (total_instr fl p) then fl_div fl (fl_u64 fl t) (total_instr fl p) else fl_num fl 0)"

definition avg_cycle_ms :: "'d floats \<Rightarrow> vm_perf_stats \<Rightarrow> 'd" where
  "avg_cycle_ms fl p =
     (if 0 < cycles_total p
      then fl_div fl (fl_div fl (fl_u64 fl (cycle_exec_ns_total p)) (fl_u64 fl (cycles_total p))) (fl_num fl 1000000)
      else fl_num fl 0)"

definition vm_print_perf_summary :: "'d floats \<Rightarrow> vm_state option \<Rightarrow> string" where
  "vm_print_perf_summary fl vm = (case vm of None \<Rightarrow> [] | Some vm \<Rightarrow>
     let p = perf vm; us = (\<lambda>d. fl_show3 fl (fl_div fl d (fl_num fl 1000))) in
     nl @ ''=== VM32 Performance Summary ==='' @ nl @
     ''Cycles: '' @ show_nat (unat (cycles_total p)) @ nl @
     ''Instructions: '' @ show_nat (unat (instructions_total p)) @ nl @
     ''Cycle execution time total: '' @ fl_show3 fl (fl_div fl (fl_u64 fl (cycle_exec_ns_total p)) (fl_num fl 1000000)) @ '' ms'' @ nl @
     ''Average cycle execution time: '' @ fl_show3 fl (avg_cycle_ms fl p) @ '' ms'' @ nl @
     ''Average instruction time: '' @ us (avg_ns fl p (instr_exec_ns_total p)) @ '' us'' @ nl @
     ''Min instruction time: '' @ us (fl_u64 fl (min_instr_ns p)) @ '' us'' @ nl @
     ''Max instruction time: '' @ us (fl_u64 fl (max_instr_ns p)) @ '' us'' @ nl @
     ''Average fetch time: '' @ us (avg_ns fl p (fetch_ns_total p)) @ '' us'' @ nl @
     ''Average decode time: '' @ us (avg_ns fl p (decode_ns_total p)) @ '' us'' @ nl @
     ''Average dispatch time: '' @ us (avg_ns fl p (dispatch_ns_total p)) @ '' us'' @ nl @
     ''Cycle overruns: '' @ show_nat (unat (overrun_cycles p)) @ nl @
     ''================================'' @ nl)"

section \<open>No division by zero\<close>

text \<open>Fractions; \<open>None\<close> is the result of a division by zero.\<close>

definition fractions :: "(rat option \<Rightarrow> string) \<Rightarrow> rat option floats" where
  "fractions show3 = \<lparr>fl_u64 = (\<lambda>w. Some (of_nat (unat w))), fl_num = (\<lambda>n. Some (of_nat n)),
     fl_div = (\<lambda>a b. case a of None \<Rightarrow> None | Some x \<Rightarrow> (case b of None \<Rightarrow> None | Some y \<Rightarrow> if y = 0 then None else Some (x / y))),
     fl_positive = (\<lambda>a. case a of None \<Rightarrow> False | Some x \<Rightarrow> 0 < x), fl_show3 = show3\<rparr>"

lemma averages_defined: "\<exists>x. avg_ns (fractions s) p t = Some x" "\<exists>x. avg_cycle_ms (fractions s) p = Some x"
proof -
  have "unat w \<noteq> 0 \<Longrightarrow> (of_nat (unat w) :: rat) \<noteq> 0" for w :: u64 by (simp only: of_nat_eq_0_iff not_False_eq_True)
  then show "\<exists>x. avg_ns (fractions s) p t = Some x" "\<exists>x. avg_cycle_ms (fractions s) p = Some x"
    unfolding avg_ns_def avg_cycle_ms_def total_instr_def fractions_def floats.simps
    by (auto simp: word_less_nat_alt simp del: of_nat_unat)
qed

text \<open>What is printed does not depend on how the result of a division by zero would be shown, also before the first instruction.\<close>

lemma perf_summary_no_division_by_zero:
  assumes "\<And>x. s (Some x) = s' (Some x)"
  shows "vm_print_perf_summary (fractions s) vm = vm_print_perf_summary (fractions s') vm"
proof (cases vm)
  case (Some m)
  have avg: "avg_ns (fractions s') p t = avg_ns (fractions s) p t" "avg_cycle_ms (fractions s') p = avg_cycle_ms (fractions s) p" for p t
    by (simp_all add: avg_ns_def avg_cycle_ms_def total_instr_def fractions_def)
  define p where "p = perf m"
  obtain a b c d e where "avg_ns (fractions s) p (instr_exec_ns_total p) = Some a" "avg_ns (fractions s) p (fetch_ns_total p) = Some b"
      "avg_ns (fractions s) p (decode_ns_total p) = Some c" "avg_ns (fractions s) p (dispatch_ns_total p) = Some d"
      "avg_cycle_ms (fractions s) p = Some e"
    using averages_defined by meson
  then show ?thesis
    unfolding vm_print_perf_summary_def Some option.case p_def [symmetric] avg Let_def by (simp add: fractions_def assms)
qed (simp add: vm_print_perf_summary_def)

end
