(* ===== verification/TestHarness.thy ===== *)
theory TestHarness
  imports Lifecycle Helpers
begin

text \<open>
  The harness of the repository's tests (\<open>tests/test_common.h\<close>,
  \<open>tests/instruction/execution_test_helpers.h\<close> and the helpers at the start of \<open>tests/unit/funcs_test.c\<close>): the
  assertions, the packing of instruction words, and the small interpreter that the instruction tests use in place of
  the runtime.

  A test returns an \<open>int\<close>: 0 if it passes, 1 from the first assertion that fails; a test that goes wrong in the code under
  test, by an access outside of the memory for example, is a fault.  An assertion takes the rest of the
  test as its last argument.  \<open>ok\<close> tells whether the allocations of \<open>vm_create\<close> succeed.
\<close>

section \<open>Assertions\<close>

definition ASSERT_TRUE :: "bool \<Rightarrow> int res \<Rightarrow> int res" where
  "ASSERT_TRUE expr rest = (if \<not> expr then Inr 1 else rest)"

definition ASSERT_FALSE :: "bool \<Rightarrow> int res \<Rightarrow> int res" where
  "ASSERT_FALSE expr rest = ASSERT_TRUE (\<not> expr) rest"

definition ASSERT_EQ_U32 :: "u32 \<Rightarrow> u32 \<Rightarrow> int res \<Rightarrow> int res" where
  "ASSERT_EQ_U32 expected actual rest = (if expected \<noteq> actual then Inr 1 else rest)"

definition ASSERT_NEQ_U32 :: "u32 \<Rightarrow> u32 \<Rightarrow> int res \<Rightarrow> int res" where
  "ASSERT_NEQ_U32 a b rest = (if a = b then Inr 1 else rest)"

definition ASSERT_NOT_NULL :: "'a option \<Rightarrow> ('a \<Rightarrow> int res) \<Rightarrow> int res" where
  "ASSERT_NOT_NULL p rest = (case p of None \<Rightarrow> Inr 1 | Some x \<Rightarrow> rest x)"

text \<open>\<open>memcmp\<close> of a buffer with the memory at an address.\<close>

definition ASSERT_MEM_EQ :: "u8 list \<Rightarrow> vm_state \<Rightarrow> nat \<Rightarrow> int res \<Rightarrow> int res" where
  "ASSERT_MEM_EQ expected vm addr rest =
     bindR (mem_slice (mem vm) addr (length expected)) (\<lambda>actual. if expected \<noteq> actual then Inr 1 else rest)"

lemmas assert_simps = ASSERT_TRUE_def ASSERT_FALSE_def ASSERT_EQ_U32_def ASSERT_NEQ_U32_def ASSERT_NOT_NULL_def

text \<open>To run a test step by step: an assertion is decided before the rest is looked at, a step before the next one.\<close>

lemma assert_run:
  "ASSERT_TRUE True rest = rest" "ASSERT_TRUE False rest = Inr 1" "ASSERT_FALSE False rest = rest" "ASSERT_FALSE True rest = Inr 1"
  "ASSERT_EQ_U32 a b rest = (if a \<noteq> b then Inr 1 else rest)" "ASSERT_NEQ_U32 a b rest = (if a = b then Inr 1 else rest)"
  "ASSERT_NOT_NULL (Some x) f = f x" "ASSERT_NOT_NULL None f = Inr 1"
  by (simp_all add: assert_simps)

lemma assert_cong:
  "b = b' \<Longrightarrow> ASSERT_TRUE b rest = ASSERT_TRUE b' rest" "b = b' \<Longrightarrow> ASSERT_FALSE b rest = ASSERT_FALSE b' rest"
  "a = a' \<Longrightarrow> c = c' \<Longrightarrow> ASSERT_EQ_U32 a c rest = ASSERT_EQ_U32 a' c' rest"
  "a = a' \<Longrightarrow> c = c' \<Longrightarrow> ASSERT_NEQ_U32 a c rest = ASSERT_NEQ_U32 a' c' rest"
  "p = p' \<Longrightarrow> ASSERT_NOT_NULL p f = ASSERT_NOT_NULL p' f"
  by simp_all

lemma bindR_weak_cong: "r = r' \<Longrightarrow> bindR r f = bindR r' f"
  by simp

lemmas step_cong = assert_cong bindR_weak_cong let_weak_cong

text \<open>The \<open>main\<close> of a test file: every test has to return 0.\<close>

fun run_tests :: "int res list \<Rightarrow> int res" where
  "run_tests [] = Inr 0"
| "run_tests (t # ts) = bindR t (\<lambda>rc. ASSERT_EQ_U32 0 (word_of_int rc) (run_tests ts))"

lemma run_tests_pass: "\<forall>t \<in> set ts. t = Inr 0 \<Longrightarrow> run_tests ts = Inr 0"
  by (induction ts) (simp_all add: ASSERT_EQ_U32_def)

lemma run_tests_first_failure: "\<forall>t \<in> set ts. t = Inr 0 \<Longrightarrow> run_tests (ts @ Inr 1 # us) = Inr 1"
  by (induction ts) (simp_all add: ASSERT_EQ_U32_def)

section \<open>Instruction words\<close>

definition pack_rrr :: "u32 \<Rightarrow> u32 \<Rightarrow> u32 \<Rightarrow> u32" where
  "pack_rrr a b c = push_bit 17 (a AND 0xFF) OR push_bit 9 (b AND 0xFF) OR (c AND 0xFF)"

definition pack_rri :: "u32 \<Rightarrow> u32 \<Rightarrow> u32 \<Rightarrow> u32" where
  "pack_rri a b imm8 = push_bit 17 (a AND 0xFF) OR push_bit 9 (b AND 0xFF) OR push_bit 8 1 OR ucast (ucast imm8 :: u8)"

definition ENC_RRR :: "u32 \<Rightarrow> u32 \<Rightarrow> u32 \<Rightarrow> u32 \<Rightarrow> u32" where
  "ENC_RRR op a b c = push_bit 25 (op AND 0x7F) OR push_bit 17 (a AND 0xFF) OR push_bit 9 (b AND 0xFF) OR (c AND 0xFF)"

definition ENC_RRI :: "u32 \<Rightarrow> u32 \<Rightarrow> u32 \<Rightarrow> u32 \<Rightarrow> u32" where
  "ENC_RRI op a b imm8 = push_bit 25 (op AND 0x7F) OR push_bit 17 (a AND 0xFF) OR push_bit 9 (b AND 0xFF) OR
     push_bit 8 1 OR ucast (ucast imm8 :: u8)"

text \<open>The constants of the tests, which have to be the numbers of the handlers in the table.\<close>

definition op_enum :: "handler list" where
  "op_enum = [
     OP_ADD, OP_SUB, OP_MUL, OP_DIV, OP_MOD, OP_EXPT, OP_ABS, OP_SQRT, OP_LN, OP_LOG, OP_EXP, OP_SIN, OP_COS, OP_TAN,
     OP_ASIN, OP_ACOS, OP_ATAN, OP_AND, OP_OR, OP_XOR, OP_NOT, OP_EQ, OP_NE, OP_GT, OP_GE, OP_LT, OP_LE, OP_TIME,
     OP_DATE, OP_TOD, OP_DT, OP_ADD_TIME, OP_SUB_TIME, OP_YEAR, OP_MONTH, OP_DAY, OP_HOUR, OP_MINUTE, OP_SECOND, OP_LEN,
     OP_CONCAT, OP_LEFT, OP_RIGHT, OP_MID, OP_INSERT, OP_DELETE, OP_REPLACE, OP_TON, OP_TOF, OP_TP, OP_CTU, OP_CTD,
     OP_CTUD, OP_LIMIT, OP_SEL, OP_MUX, OP_RISING_EDGE, OP_FALLING_EDGE, OP_EDGE_BOTH, OP_RS_LATCH, OP_SR_LATCH,
     OP_DEMUX, OP_JMP, OP_JMP_IF, OP_JMP_IF_NOT, OP_EXIT, OP_HALT, OP_NOP]"

definition op_number :: "handler \<Rightarrow> u32" where
  "op_number h = of_nat (length (takeWhile (\<lambda>g. g \<noteq> h) op_enum))"

lemma op_enum_table: "op_enum = default_op_ex"
  by (simp add: op_enum_def default_op_ex_def)

lemma op_number_index: "op_number h = of_nat (handler_index h)"
  by (simp add: op_number_def handler_index_def op_enum_table)

section \<open>Memory\<close>

definition write_cstr :: "u32 \<Rightarrow> string \<Rightarrow> vm_state \<Rightarrow> vm_state res" where
  "write_cstr addr s vm =
     (if unat addr + length s + 1 \<le> VM_MEM_BYTES
      then Inr (vm\<lparr>mem := write_bytes (mem vm) (unat addr) (cstr_of s @ [0])\<rparr>)
      else Inl Out_Of_Bounds)"

text \<open>\<open>strcmp\<close> compares up to the first difference or the end of both.\<close>

fun cstr_eq_bytes :: "(nat \<Rightarrow> u8) \<Rightarrow> nat \<Rightarrow> u8 list \<Rightarrow> bool res" where
  "cstr_eq_bytes m a [] = bindR (load8 m a) (\<lambda>b. Inr (b = 0))"
| "cstr_eq_bytes m a (c # cs) = bindR (load8 m a) (\<lambda>b. if b = c then cstr_eq_bytes m (a + 1) cs else Inr False)"

definition cstr_eq_at :: "vm_state \<Rightarrow> u32 \<Rightarrow> string \<Rightarrow> bool res" where
  "cstr_eq_at vm addr expected = cstr_eq_bytes (mem vm) (unat addr) (cstr_of expected)"

definition set_reg :: "u8 \<Rightarrow> u32 \<Rightarrow> vm_state \<Rightarrow> vm_state" where
  "set_reg k v vm = vm\<lparr>reg := (reg vm)(k := v)\<rparr>"

section \<open>The interpreter of the tests\<close>

fun load_words :: "u32 \<Rightarrow> u32 list \<Rightarrow> vm_state \<Rightarrow> vm_state res" where
  "load_words a [] vm = Inr vm"
| "load_words a (w # ws) vm = bindR (vm_mw32 vm a w) (load_words (a + 4) ws)"

definition load_program_words :: "u32 \<Rightarrow> u32 list \<Rightarrow> vm_state \<Rightarrow> vm_state res" where
  "load_program_words start_addr words vm =
     bindR (load_words start_addr words vm) (\<lambda>vm. Inr (vm\<lparr>PC_START := start_addr, PC := start_addr\<rparr>))"

text \<open>The call of a handler through the table.\<close>

definition call_op :: "op_env \<Rightarrow> nat \<Rightarrow> u32 \<Rightarrow> vm_state \<Rightarrow> vm_state res" where
  "call_op env op instr vm =
     (case op_ex vm ! op of None \<Rightarrow> Inl Null_Pointer | Some h \<Rightarrow> exec_op env h vm instr)"

definition vm_step_for_test :: "op_env \<Rightarrow> u32 \<Rightarrow> u32 \<Rightarrow> vm_state \<Rightarrow> (vm_state \<times> int) res" where
  "vm_step_for_test env start_addr end_addr vm =
     (if PC vm < start_addr \<or> end_addr \<le> PC vm then Inr (vm, 1) else
      bindR (vm_mr32 vm (PC vm)) (\<lambda>instr.
      if instr = 0 then Inr (vm, 1) else
      let opcode = OPC instr in
      if OPCODE_COUNT \<le> unat opcode \<or> op_ex vm ! unat opcode = None then Inr (vm\<lparr>running := False\<rparr>, -1) else
      let old_pc = PC vm in
      bindR (call_op env (unat opcode) instr vm) (\<lambda>vm.
      let vm = (if PC vm = old_pc then vm\<lparr>PC := PC vm + 4\<rparr> else vm) in
      Inr (vm, 0))))"

text \<open>The loop; \<open>n\<close> is the number of steps that are left, \<open>env\<close> what the handlers read in each step.\<close>

fun test_loop :: "(nat \<Rightarrow> op_env) \<Rightarrow> u32 \<Rightarrow> u32 \<Rightarrow> nat \<Rightarrow> u32 \<Rightarrow> vm_state \<Rightarrow> (vm_state \<times> u32 \<times> int) res" where
  "test_loop env start_addr end_addr 0 steps vm = Inr (vm, steps, if running vm then 2 else 0)"
| "test_loop env start_addr end_addr (Suc n) steps vm =
     (if \<not> running vm then Inr (vm, steps, 0)
      else bindR (vm_step_for_test (env (unat steps)) start_addr end_addr vm) (\<lambda>(vm, rc).
        if rc \<noteq> 0 then Inr (vm, steps, if rc = 1 then 0 else rc)
        else test_loop env start_addr end_addr n (steps + 1) vm))"

definition vm_run_for_test ::
  "(nat \<Rightarrow> op_env) \<Rightarrow> u32 \<Rightarrow> nat \<Rightarrow> u32 \<Rightarrow> vm_state \<Rightarrow> (vm_state \<times> u32 \<times> int) res" where
  "vm_run_for_test env start_addr instr_words max_steps vm =
     (let end_addr = start_addr + of_nat (instr_words * 4) in
      test_loop env start_addr end_addr (unat max_steps) 0 (vm\<lparr>running := True\<rparr>))"

section \<open>Fields of the packed words\<close>

lemma and_7F_less: "unat (w AND 0x7F :: u32) < 128"
  using take_bit_nat_less_exp [of 7 "unat w"] by (simp only: and_masks unsigned_take_bit_eq) simp

lemma ucast_u8_FF: "ucast (ucast w :: u8) = (w AND 0xFF :: u32)"
  unfolding and_masks by (rule bit_word_eqI) (auto simp: bit_simps)

lemma imm_bits: "(256 OR (c AND 0xFF)) AND 0xFF = (c AND 0xFF :: u32)" "bit (256 OR (c AND 0xFF) :: u32) 8"
  "\<not> bit (c AND 0xFF :: u32) 8" "take_bit 9 (256 OR (c AND 0xFF)) = (256 OR (c AND 0xFF) :: u32)"
proof -
  have p: "(256 :: u32) = push_bit 8 1" by simp
  show "(256 OR (c AND 0xFF)) AND 0xFF = (c AND 0xFF :: u32)" "bit (256 OR (c AND 0xFF) :: u32) 8" "\<not> bit (c AND 0xFF :: u32) 8"
    "take_bit 9 (256 OR (c AND 0xFF)) = (256 OR (c AND 0xFF) :: u32)"
    unfolding and_masks p by (simp_all add: bit_simps)
qed

lemma imm_field: "unat (256 OR (w AND 0xFF) :: u32) < 512"
proof -
  have "unat (take_bit 9 (256 OR (w AND 0xFF) :: u32)) < 2 ^ 9"
    using take_bit_nat_less_exp [of 9 "unat (256 OR (w AND 0xFF) :: u32)"] by (simp only: unsigned_take_bit_eq)
  then have "unat (256 OR (w AND 0xFF) :: u32) < 2 ^ 9" by (simp only: imm_bits(4))
  then show ?thesis by simp
qed

lemma packed_words:
  "pack_rrr a b c = instr_word 0 (a AND 0xFF) (b AND 0xFF) (c AND 0xFF)"
  "pack_rri a b c = instr_word 0 (a AND 0xFF) (b AND 0xFF) (256 OR (c AND 0xFF))"
  "ENC_RRR op a b c = instr_word (op AND 0x7F) (a AND 0xFF) (b AND 0xFF) (c AND 0xFF)"
  "ENC_RRI op a b c = instr_word (op AND 0x7F) (a AND 0xFF) (b AND 0xFF) (256 OR (c AND 0xFF))"
  by (simp_all add: pack_rrr_def pack_rri_def ENC_RRR_def ENC_RRI_def instr_word_def ucast_u8_FF or.assoc)

lemma and_FF_less_512: "unat (w AND 0xFF :: u32) < 512"
  using and_FF_less [of w] by simp

lemmas packed_calc = packed_words OPC_instr_word RA_instr_word RB_instr_word RC_instr_word FIMM_instr_word IMM8_instr_word
  and_FF_less and_FF_less_512 and_7F_less imm_field imm_bits ucast_and_FF

lemma packed_fields [simp]:
  "RA (pack_rrr a b c) = ucast a" "RB (pack_rrr a b c) = ucast b" "RC (pack_rrr a b c) = c AND 0xFF" "\<not> FIMM (pack_rrr a b c)"
  "RA (pack_rri a b c) = ucast a" "RB (pack_rri a b c) = ucast b" "RC (pack_rri a b c) = c AND 0xFF" "FIMM (pack_rri a b c)"
  "OPC (ENC_RRR op a b c) = ucast (op AND 0x7F)" "RA (ENC_RRR op a b c) = ucast a" "RB (ENC_RRR op a b c) = ucast b"
  "RC (ENC_RRR op a b c) = c AND 0xFF" "\<not> FIMM (ENC_RRR op a b c)"
  "OPC (ENC_RRI op a b c) = ucast (op AND 0x7F)" "RA (ENC_RRI op a b c) = ucast a" "RB (ENC_RRI op a b c) = ucast b"
  "RC (ENC_RRI op a b c) = c AND 0xFF" "FIMM (ENC_RRI op a b c)"
  by (simp_all add: packed_calc)

lemma packed_imm [simp]:
  "IMM8 (pack_rrr a b c) = c AND 0xFF" "IMM8 (pack_rri a b c) = c AND 0xFF"
  "IMM8 (ENC_RRR op a b c) = c AND 0xFF" "IMM8 (ENC_RRI op a b c) = c AND 0xFF"
  by (simp_all add: packed_calc)

lemma SEXTIMM8_IMM8: "SEXTIMM8 i = scast (ucast (IMM8 i) :: u8)"
  by (simp add: SEXTIMM8_scast IMM8_def ucast_and_FF)

lemma packed_sext [simp]:
  "SEXTIMM8 (pack_rri a b c) = scast (ucast c :: u8)" "SEXTIMM8 (ENC_RRI op a b c) = scast (ucast c :: u8)"
  by (simp_all add: SEXTIMM8_IMM8 ucast_and_FF)

end
