(* ===== verification/UnitTests.thy ===== *)
theory UnitTests
  imports TestHarness
begin

text \<open>
  The unit tests of the handlers (\<open>tests/unit/funcs_test.c\<close>), of the timers, the life cycle and the decoding of
  opcodes (\<open>timers_test.c\<close>, \<open>vm_lifecycle_test.c\<close>, \<open>opcode_decode_test.c\<close>), as the sources write them, and what
  each of them returns.  A test makes a machine of its own and gives it back at the end; \<open>now\<close> is the reading of
  the clock at the creation.
\<close>

section \<open>The machine of a test\<close>

definition new_vm :: "timespec \<Rightarrow> vm_state" where
  "new_vm now = vm_state_init_common now vm_zero"

lemma vm_create_new: "vm_create ok ok now = (if ok then Some (new_vm now) else None)"
proof -
  have "vm_zero\<lparr>program_dir := None, program_dir_signature := 0, modules := None, log_file := False,
      stop_requested := False, reload_pending := False\<rparr> = vm_zero"
    by (simp add: vm_zero_def)
  then show ?thesis by (simp add: vm_create_def new_vm_def)
qed

lemma new_vm_fields [simp]:
  "reg (new_vm now) = (\<lambda>_. 0)" "mem (new_vm now) = (\<lambda>_. 0)" "PC (new_vm now) = 0" "PC_START (new_vm now) = 0x3000"
  "running (new_vm now)" "\<not> stop_requested (new_vm now)" "\<not> reload_pending (new_vm now)" "exit_code (new_vm now) = 0"
  "time_ms (new_vm now) = 0" "modules (new_vm now) = None" "program_dir (new_vm now) = None" "program_size (new_vm now) = 0"
  "decoded_cache (new_vm now) = None"
  "ton_timers (new_vm now) = replicate 16 zero_timer" "tof_timers (new_vm now) = replicate 16 zero_timer"
  "tp_timers (new_vm now) = replicate 16 zero_timer" "ctu_counters (new_vm now) = replicate 16 zero_counter"
  "ctd_counters (new_vm now) = replicate 16 zero_counter" "ctud_counters (new_vm now) = replicate 16 zero_counter"
  "ctu_prev_input (new_vm now) = replicate 16 False" "ctd_prev_input (new_vm now) = replicate 16 False"
  "ctud_prev_up (new_vm now) = replicate 16 False" "ctud_prev_down (new_vm now) = replicate 16 False"
  "edge_prev_rising (new_vm now) = replicate 16 False" "edge_prev_falling (new_vm now) = replicate 16 False"
  "edge_prev_both (new_vm now) = replicate 16 False" "rs_latches (new_vm now) = replicate 16 False"
  "sr_latches (new_vm now) = replicate 16 False" "cycle_time_ms (config (new_vm now)) = 1000"
  unfolding new_vm_def init_common_eq [OF vm_wf_zero] vm_state_init_opcode_table_def
  by (simp_all add: vm_zero_def clear_counter_def zero_counter_def)

lemma new_vm_op_ex: "op_ex (new_vm now) = map Some default_op_ex @ replicate 60 None"
  using vm_create_ready [of now] by (auto simp: vm_create_new)

lemma new_vm_wf [simp]: "vm_wf (new_vm now)"
  by (simp add: new_vm_def)

section \<open>Arithmetic, logic, calendar\<close>

definition test_arithmetic_ops :: "bool \<Rightarrow> timespec \<Rightarrow> libm \<Rightarrow> int res" where
  "test_arithmetic_ops ok now lm =
     ASSERT_NOT_NULL (vm_create ok ok now) (\<lambda>vm.
     let vm = set_reg 2 5 (set_reg 1 12 vm); vm = op_add vm (pack_rrr 10 1 2) in
     ASSERT_EQ_U32 17 (reg vm 10) (
     let vm = op_sub vm (pack_rrr 11 1 2) in
     ASSERT_EQ_U32 7 (reg vm 11) (
     let vm = op_mul vm (pack_rrr 12 1 2) in
     ASSERT_EQ_U32 60 (reg vm 12) (
     let vm = op_div vm (pack_rrr 13 1 2) in
     ASSERT_EQ_U32 2 (reg vm 13) (
     let vm = op_mod vm (pack_rrr 14 1 2) in
     ASSERT_EQ_U32 2 (reg vm 14) (
     let vm = set_reg 2 10 (set_reg 1 2 vm) in
     bindR (op_expt lm vm (pack_rrr 15 1 2)) (\<lambda>vm.
     ASSERT_EQ_U32 1024 (reg vm 15) (Inr 0))))))))"

definition test_div_and_mod_by_zero :: "bool \<Rightarrow> timespec \<Rightarrow> int res" where
  "test_div_and_mod_by_zero ok now =
     ASSERT_NOT_NULL (vm_create ok ok now) (\<lambda>vm.
     let vm = set_reg 2 0 (set_reg 1 123 vm); vm = op_div vm (pack_rrr 3 1 2) in
     ASSERT_EQ_U32 0 (reg vm 3) (
     let vm = op_mod vm (pack_rrr 4 1 2) in
     ASSERT_EQ_U32 0 (reg vm 4) (Inr 0)))"

definition test_math_ops_exact_values :: "bool \<Rightarrow> timespec \<Rightarrow> libm \<Rightarrow> int res" where
  "test_math_ops_exact_values ok now lm =
     ASSERT_NOT_NULL (vm_create ok ok now) (\<lambda>vm.
     bindR (op_abs (set_reg 1 (- 123) vm) (pack_rrr 2 1 0)) (\<lambda>vm. ASSERT_EQ_U32 123 (reg vm 2) (
     bindR (op_sqrt lm (set_reg 1 9 vm) (pack_rrr 3 1 0)) (\<lambda>vm. ASSERT_EQ_U32 3 (reg vm 3) (
     bindR (op_ln lm (set_reg 1 1 vm) (pack_rrr 4 1 0)) (\<lambda>vm. ASSERT_EQ_U32 0 (reg vm 4) (
     bindR (op_log lm (set_reg 1 1 vm) (pack_rrr 5 1 0)) (\<lambda>vm. ASSERT_EQ_U32 0 (reg vm 5) (
     bindR (op_exp lm (set_reg 1 0 vm) (pack_rrr 6 1 0)) (\<lambda>vm. ASSERT_EQ_U32 1 (reg vm 6) (
     bindR (op_sin lm (set_reg 1 0 vm) (pack_rrr 7 1 0)) (\<lambda>vm. ASSERT_EQ_U32 0 (reg vm 7) (
     bindR (op_cos lm (set_reg 1 0 vm) (pack_rrr 8 1 0)) (\<lambda>vm. ASSERT_EQ_U32 1 (reg vm 8) (
     bindR (op_tan lm (set_reg 1 0 vm) (pack_rrr 9 1 0)) (\<lambda>vm. ASSERT_EQ_U32 0 (reg vm 9) (
     bindR (op_asin lm (set_reg 1 0 vm) (pack_rrr 10 1 0)) (\<lambda>vm. ASSERT_EQ_U32 0 (reg vm 10) (
     bindR (op_acos lm (set_reg 1 1 vm) (pack_rrr 11 1 0)) (\<lambda>vm. ASSERT_EQ_U32 0 (reg vm 11) (
     bindR (op_atan lm (set_reg 1 0 vm) (pack_rrr 12 1 0)) (\<lambda>vm. ASSERT_EQ_U32 0 (reg vm 12) (
     Inr 0)))))))))))))))))))))))"

definition test_logic_ops :: "bool \<Rightarrow> timespec \<Rightarrow> int res" where
  "test_logic_ops ok now =
     ASSERT_NOT_NULL (vm_create ok ok now) (\<lambda>vm.
     let vm = set_reg 2 0x0FF00FF0 (set_reg 1 0xF0F0F0F0 vm); vm = op_and vm (pack_rrr 3 1 2) in
     ASSERT_EQ_U32 0x00F000F0 (reg vm 3) (
     let vm = op_or vm (pack_rrr 4 1 2) in
     ASSERT_EQ_U32 0xFFF0FFF0 (reg vm 4) (
     let vm = op_xor vm (pack_rrr 5 1 2) in
     ASSERT_EQ_U32 0xFF00FF00 (reg vm 5) (
     let vm = op_not (set_reg 1 0 vm) (pack_rrr 6 1 0) in
     ASSERT_EQ_U32 0xFFFFFFFF (reg vm 6) (Inr 0)))))"

definition test_compare_ops :: "bool \<Rightarrow> timespec \<Rightarrow> int res" where
  "test_compare_ops ok now =
     ASSERT_NOT_NULL (vm_create ok ok now) (\<lambda>vm.
     let vm = set_reg 2 20 (set_reg 1 10 vm); vm = op_eq vm (pack_rrr 3 1 2) in
     ASSERT_EQ_U32 0 (reg vm 3) (
     let vm = op_ne vm (pack_rrr 4 1 2) in
     ASSERT_EQ_U32 1 (reg vm 4) (
     let vm = op_gt vm (pack_rrr 5 1 2) in
     ASSERT_EQ_U32 0 (reg vm 5) (
     let vm = op_ge vm (pack_rrr 6 1 2) in
     ASSERT_EQ_U32 0 (reg vm 6) (
     let vm = op_lt vm (pack_rrr 7 1 2) in
     ASSERT_EQ_U32 1 (reg vm 7) (
     let vm = op_le vm (pack_rrr 8 1 2) in
     ASSERT_EQ_U32 1 (reg vm 8) (
     let vm = set_reg 2 20 (set_reg 1 20 vm); vm = op_eq vm (pack_rrr 9 1 2) in
     ASSERT_EQ_U32 1 (reg vm 9) (
     let vm = op_ge vm (pack_rrr 10 1 2) in
     ASSERT_EQ_U32 1 (reg vm 10) (
     let vm = op_le vm (pack_rrr 11 1 2) in
     ASSERT_EQ_U32 1 (reg vm 11) (Inr 0))))))))))"

text \<open>Documented values of the math library: they are exact where the tests need them.\<close>

definition exact_libm :: "libm \<Rightarrow> bool" where
  "exact_libm lm \<longleftrightarrow> lm_pow lm (Fin 2) (Fin 10) = Fin 1024 \<and> lm_sqrt lm (Fin 9) = Fin 3 \<and> lm_log lm (Fin 1) = Fin 0 \<and>
     lm_log10 lm (Fin 1) = Fin 0 \<and> lm_exp lm (Fin 0) = Fin 1 \<and> lm_sin lm (Fin 0) = Fin 0 \<and> lm_cos lm (Fin 0) = Fin 1 \<and>
     lm_tan lm (Fin 0) = Fin 0 \<and> lm_asin lm (Fin 0) = Fin 0 \<and> lm_acos lm (Fin 1) = Fin 0 \<and> lm_atan lm (Fin 0) = Fin 0"

lemmas test_simps = assert_simps vm_create_new set_reg_def SetA_val_def Av_def Bv_def Cv_def Cv_or_imm_def Let_def

lemmas test_steps = assert_run vm_create_new set_reg_def SetA_val_def Av_def Bv_def Cv_def Cv_or_imm_def Let_def

lemma test_arithmetic_passes: "exact_libm lm \<Longrightarrow> test_arithmetic_ops True now lm = Inr 0"
  by (simp add: test_arithmetic_ops_def test_steps op_add_def op_sub_def op_mul_def op_div_def op_mod_def op_expt_def
      SetA_res_def double_of_u32_def exact_libm_def u32_of_double_def trunc_rat_def cong: step_cong)

lemma test_div_and_mod_passes: "test_div_and_mod_by_zero True now = Inr 0"
  by (simp add: test_div_and_mod_by_zero_def test_steps op_div_def op_mod_def cong: step_cong)

lemma test_math_passes: "exact_libm lm \<Longrightarrow> test_math_ops_exact_values True now lm = Inr 0"
  by (simp add: test_math_ops_exact_values_def test_steps op_abs_def op_sqrt_def op_ln_def op_log_def op_exp_def op_sin_def
      op_cos_def op_tan_def op_asin_def op_acos_def op_atan_def SetA_res_def double_of_u32_def exact_libm_def u32_of_double_def
      trunc_rat_def cabs_def cint_def cong: step_cong)

lemma test_logic_passes: "test_logic_ops True now = Inr 0"
  by (simp add: test_logic_ops_def test_steps op_and_def op_or_def op_xor_def op_not_def cong: step_cong)

lemma test_compare_passes: "test_compare_ops True now = Inr 0"
  by (simp add: test_compare_ops_def test_steps op_eq_def op_ne_def op_gt_def op_ge_def op_lt_def op_le_def cong: step_cong)

section \<open>Strings\<close>

definition ASSERT_CSTR :: "u32 \<Rightarrow> string \<Rightarrow> vm_state \<Rightarrow> int res \<Rightarrow> int res" where
  "ASSERT_CSTR addr expected vm rest = bindR (cstr_eq_at vm addr expected) (\<lambda>eq. ASSERT_TRUE eq rest)"

definition test_string_ops :: "bool \<Rightarrow> timespec \<Rightarrow> int res" where
  "test_string_ops ok now =
     ASSERT_NOT_NULL (vm_create ok ok now) (\<lambda>vm.
     bindR (write_cstr 0x0100 ''hello'' vm) (\<lambda>vm.
     bindR (write_cstr 0x0120 ''world'' vm) (\<lambda>vm.
     let vm = op_len (set_reg 1 0x0100 vm) (pack_rrr 2 1 0) in
     ASSERT_EQ_U32 5 (reg vm 2) (
     bindR (op_concat (set_reg 2 0x0120 (set_reg 1 0x0100 vm)) (pack_rrr 0 1 2)) (\<lambda>vm.
     ASSERT_CSTR 0x0100 ''helloworld'' vm (
     bindR (write_cstr 0x0200 ''abcdef'' vm) (\<lambda>vm.
     bindR (op_left (set_reg 1 0x0200 vm) (pack_rri 0 1 3)) (\<lambda>vm.
     ASSERT_CSTR 0x0200 ''abc'' vm (
     bindR (write_cstr 0x0210 ''abcdef'' vm) (\<lambda>vm.
     bindR (op_right (set_reg 1 0x0210 vm) (pack_rri 0 1 3)) (\<lambda>vm.
     ASSERT_CSTR 0x0210 ''def'' vm (
     bindR (write_cstr 0x0220 ''abcdef'' vm) (\<lambda>vm.
     bindR (op_mid (set_reg 1 0x0220 vm) (pack_rri 0 1 2)) (\<lambda>vm.
     ASSERT_CSTR 0x0220 ''cdef'' vm (
     bindR (write_cstr 0x0300 ''abcd'' vm) (\<lambda>vm.
     bindR (write_cstr 0x0310 ''XY'' vm) (\<lambda>vm.
     bindR (op_insert (set_reg 2 0x0310 (set_reg 1 0x0300 vm)) (pack_rri 1 2 2)) (\<lambda>vm.
     ASSERT_CSTR 0x0300 ''abXYcd'' vm (
     bindR (write_cstr 0x0320 ''abcd'' vm) (\<lambda>vm.
     bindR (op_delete (set_reg 2 1 (set_reg 1 0x0320 vm)) (pack_rri 1 2 1)) (\<lambda>vm.
     ASSERT_CSTR 0x0320 ''acd'' vm (
     bindR (write_cstr 0x0330 ''abcdef'' vm) (\<lambda>vm.
     bindR (write_cstr 0x0340 ''Z'' vm) (\<lambda>vm.
     bindR (op_replace (set_reg 2 0x0340 (set_reg 1 0x0330 vm)) (pack_rri 1 2 2)) (\<lambda>vm.
     ASSERT_CSTR 0x0330 ''abZdef'' vm (
     Inr 0))))))))))))))))))))))))))"

definition test_string_bounds_and_noop_paths :: "bool \<Rightarrow> timespec \<Rightarrow> int res" where
  "test_string_bounds_and_noop_paths ok now =
     ASSERT_NOT_NULL (vm_create ok ok now) (\<lambda>vm.
     let vm = op_len (set_reg 1 (of_nat VM_MEM_BYTES) vm) (pack_rrr 2 1 0) in
     ASSERT_EQ_U32 0 (reg vm 2) (
     let vm = vm\<lparr>mem := (mem vm)(VM_MEM_BYTES - 1 := 0xAA, VM_MEM_BYTES - 2 := 0xBB)\<rparr>;
         vm = set_reg 2 (of_nat VM_MEM_BYTES) (set_reg 1 (of_nat VM_MEM_BYTES) vm) in
     bindR (op_concat vm (pack_rrr 0 1 2)) (\<lambda>vm.
     ASSERT_EQ_U32 0xAA (ucast (mem vm (VM_MEM_BYTES - 1))) (
     ASSERT_EQ_U32 0xBB (ucast (mem vm (VM_MEM_BYTES - 2))) (
     bindR (write_cstr 0x0100 ''abc'' vm) (\<lambda>vm.
     bindR (op_right (set_reg 1 0x0100 vm) (pack_rri 0 1 3)) (\<lambda>vm.
     ASSERT_CSTR 0x0100 ''abc'' vm (
     Inr 0))))))))"

lemma of_char_zero: "(of_char c :: u8) = 0 \<longleftrightarrow> c = CHR 0x00"
proof -
  have "(of_char c :: u8) = of_nat (of_char c)" by (rule of_nat_of_char [symmetric])
  moreover have "(of_char c :: nat) < 256" by (cases c) (simp add: of_char_def horner_sum_simps)
  ultimately have "(of_char c :: u8) = 0 \<longleftrightarrow> (of_char c :: nat) = 0" by (simp add: word_unat_eq_iff unsigned_of_nat take_bit_eq_mod)
  also have "\<dots> \<longleftrightarrow> c = CHR 0x00" by (cases c) (simp add: of_char_def)
  finally show ?thesis .
qed

lemma cstr_of_calc [simp]:
  "length (cstr_of s) = length s" "take n (cstr_of s) = cstr_of (take n s)" "drop n (cstr_of s) = cstr_of (drop n s)"
  "cstr_of s @ cstr_of t = cstr_of (s @ t)"
  by (simp_all add: cstr_of_def take_map drop_map)

lemma write_cstr_stores:
  assumes "unat addr + length s < VM_MEM_BYTES" "CHR 0x00 \<notin> set s"
  shows "\<exists>m. write_cstr addr s vm = Inr (vm\<lparr>mem := m\<rparr>) \<and> has_str m (unat addr) (cstr_of s) \<and>
    (\<forall>b. b < unat addr \<or> unat addr + length s < b \<longrightarrow> m b = mem vm b)"
proof -
  have nz: "of_char (s ! k) \<noteq> (0 :: u8)" if "k < length s" for k
    using assms(2) nth_mem [OF that] unfolding of_char_zero by metis
  have "has_str (write_bytes (mem vm) (unat addr) (cstr_of s @ [0])) (unat addr) (cstr_of s)"
    by (rule has_strI) (use assms(1) nz in \<open>simp_all add: write_bytes_def nth_append cstr_of_def\<close>)
  then show ?thesis
    using assms(1) by (simp add: write_cstr_def) (auto simp: write_bytes_def)
qed

lemma cstr_eq_bytes_str: "has_str m a s \<Longrightarrow> cstr_eq_bytes m a s = Inr True"
proof (induction s arbitrary: a)
  case Nil
  then show ?case by (simp add: has_str_Nil load8_def)
next
  case (Cons c s)
  then have "m a = c" "has_str m (a + 1) s" "a < VM_MEM_BYTES" by (simp_all add: has_str_Cons) (simp add: has_str_def)
  with Cons.IH show ?case by (simp add: load8_def)
qed

lemma ASSERT_CSTR_holds: "has_str (mem vm) (unat addr) (cstr_of s) \<Longrightarrow> ASSERT_CSTR addr s vm rest = rest"
  by (simp add: ASSERT_CSTR_def cstr_eq_at_def cstr_eq_bytes_str ASSERT_TRUE_def)

text \<open>One step of a test that changes only the memory.\<close>

lemma bind_mem:
  assumes "\<exists>m. r = Inr (vm\<lparr>mem := m\<rparr>) \<and> P m" and "\<And>m. P m \<Longrightarrow> k (vm\<lparr>mem := m\<rparr>) = Inr 0"
  shows "bindR r k = Inr 0"
  using assms by auto

lemma second_cstr:
  assumes "has_str (mem vm) a (cstr_of t)" "unat addr + length s < VM_MEM_BYTES" "CHR 0x00 \<notin> set s"
    and "a + length t < unat addr \<or> unat addr + length s < a"
  shows "\<exists>m. write_cstr addr s vm = Inr (vm\<lparr>mem := m\<rparr>) \<and> has_str m (unat addr) (cstr_of s) \<and> has_str m a (cstr_of t)"
proof -
  obtain m where m: "write_cstr addr s vm = Inr (vm\<lparr>mem := m\<rparr>)" "has_str m (unat addr) (cstr_of s)"
      "\<forall>b. b < unat addr \<or> unat addr + length s < b \<longrightarrow> m b = mem vm b"
    using write_cstr_stores [OF assms(2,3)] by blast
  have "has_str m a (cstr_of t)" by (rule has_str_cong [OF assms(1)]) (use assms(4) m(3) in auto)
  with m show ?thesis by blast
qed

text \<open>The shape of a test of a handler that edits strings: write them, set the operands, run it, compare.\<close>

context in_place_edit
begin

lemma edit_tested:
  assumes "has_str (mem vm) (unat addr) s" "target vm i = addr" "pre vm i s t" "edit vm i s t = cstr_of expected"
    and "\<And>m. rest (vm\<lparr>mem := m\<rparr>) = Inr 0"
  shows "bindR (handler vm i) (\<lambda>vm. ASSERT_CSTR addr expected vm (rest vm)) = Inr 0"
proof -
  have "has_str (mem vm) (unat (target vm i)) s" using assms(1,2) by simp
  from edits [OF this assms(3)] assms(2,4) obtain m where
    "handler vm i = Inr (vm\<lparr>mem := m\<rparr>)" "has_str m (unat addr) (cstr_of expected)" by auto
  with assms(5) show ?thesis by (simp add: ASSERT_CSTR_holds)
qed

lemma one_string_tested:
  assumes "unat addr + length s < VM_MEM_BYTES" "CHR 0x00 \<notin> set s" "\<And>m. upd (vm\<lparr>mem := m\<rparr>) = (upd vm)\<lparr>mem := m\<rparr>"
    and "\<And>m. target ((upd vm)\<lparr>mem := m\<rparr>) i = addr" "\<And>m. pre ((upd vm)\<lparr>mem := m\<rparr>) i (cstr_of s) []"
    and "\<And>m. edit ((upd vm)\<lparr>mem := m\<rparr>) i (cstr_of s) [] = cstr_of expected" "\<And>m. rest ((upd vm)\<lparr>mem := m\<rparr>) = Inr 0"
  shows "bindR (write_cstr addr s vm) (\<lambda>vm. bindR (handler (upd vm) i) (\<lambda>vm. ASSERT_CSTR addr expected vm (rest vm))) = Inr 0"
proof (rule bind_mem [OF write_cstr_stores [OF assms(1,2)]])
  fix m assume "has_str m (unat addr) (cstr_of s) \<and> (\<forall>b. b < unat addr \<or> unat addr + length s < b \<longrightarrow> m b = mem vm b)"
  then show "bindR (handler (upd (vm\<lparr>mem := m\<rparr>)) i) (\<lambda>vm. ASSERT_CSTR addr expected vm (rest vm)) = Inr 0"
    unfolding assms(3) by (intro edit_tested) (use assms(4-7) in auto)
qed

lemma two_strings_tested:
  assumes "unat addr + length s < VM_MEM_BYTES" "CHR 0x00 \<notin> set s" "unat addr2 + length t < VM_MEM_BYTES" "CHR 0x00 \<notin> set t"
    and "unat addr + length s < unat addr2" "\<And>m. upd (vm\<lparr>mem := m\<rparr>) = (upd vm)\<lparr>mem := m\<rparr>"
    and "\<And>m. target ((upd vm)\<lparr>mem := m\<rparr>) i = addr"
    and "\<And>m. has_str m (unat addr2) (cstr_of t) \<Longrightarrow> pre ((upd vm)\<lparr>mem := m\<rparr>) i (cstr_of s) (cstr_of t)"
    and "\<And>m. edit ((upd vm)\<lparr>mem := m\<rparr>) i (cstr_of s) (cstr_of t) = cstr_of expected"
    and "\<And>m. rest ((upd vm)\<lparr>mem := m\<rparr>) = Inr 0"
  shows "bindR (write_cstr addr s vm) (\<lambda>vm. bindR (write_cstr addr2 t vm) (\<lambda>vm.
    bindR (handler (upd vm) i) (\<lambda>vm. ASSERT_CSTR addr expected vm (rest vm)))) = Inr 0"
proof (rule bind_mem [OF write_cstr_stores [OF assms(1,2)]])
  fix m assume m: "has_str m (unat addr) (cstr_of s) \<and> (\<forall>b. b < unat addr \<or> unat addr + length s < b \<longrightarrow> m b = mem vm b)"
  have "has_str (mem (vm\<lparr>mem := m\<rparr>)) (unat addr) (cstr_of s)" using m by simp
  note second = second_cstr [OF this assms(3,4)]
  show "bindR (write_cstr addr2 t (vm\<lparr>mem := m\<rparr>)) (\<lambda>vm.
    bindR (handler (upd vm) i) (\<lambda>vm. ASSERT_CSTR addr expected vm (rest vm))) = Inr 0"
  proof (rule bind_mem [OF second])
    show "unat addr + length s < unat addr2 \<or> unat addr2 + length t < unat addr" using assms(5) by simp
    fix m2 assume m2: "has_str m2 (unat addr2) (cstr_of t) \<and> has_str m2 (unat addr) (cstr_of s)"
    have u: "upd ((vm\<lparr>mem := m\<rparr>)\<lparr>mem := m2\<rparr>) = (upd vm)\<lparr>mem := m2\<rparr>" using assms(6) [of m2] by simp
    show "bindR (handler (upd ((vm\<lparr>mem := m\<rparr>)\<lparr>mem := m2\<rparr>)) i) (\<lambda>vm. ASSERT_CSTR addr expected vm (rest vm)) = Inr 0"
      unfolding u by (intro edit_tested) (use m2 assms(7-10) in auto)
  qed
qed

end

lemma second_strI:
  "has_str (mem vm) (unat (src vm i)) t \<Longrightarrow> unat (tgt vm i) + length s + length t < unat (src vm i) \<Longrightarrow> second_str tgt src vm i s t"
  by (simp add: second_str_def apart_def)

lemma ASSERT_EQ_U32_I: "expected = actual \<Longrightarrow> rest = Inr 0 \<Longrightarrow> ASSERT_EQ_U32 expected actual rest = Inr 0"
  by (simp add: ASSERT_EQ_U32_def)

lemma test_string_passes: "test_string_ops True now = Inr 0"
  unfolding test_string_ops_def vm_create_new if_True ASSERT_NOT_NULL_def option.case Let_def
  apply (rule bind_mem [OF write_cstr_stores], simp, simp)
  apply (rule bind_mem [OF second_cstr [of _ "unat (0x100 :: u32)" "''hello''"]], simp, simp, simp, simp)
  apply (elim conjE)
  subgoal premises prems for m m2
  apply (rule ASSERT_EQ_U32_I)
  apply (use strlen_has_str [of "set_reg 1 0x100 ((new_vm now)\<lparr>mem := m, mem := m2\<rparr>)" "0x100" "cstr_of ''hello''"] prems in \<open>simp add: op_len_def test_simps\<close>)
  apply (rule concat_edit.edit_tested)
  apply (use prems in \<open>simp add: test_simps op_len_def\<close>)
  apply (simp add: test_simps op_len_def)
  apply (rule second_strI)
  apply (use prems in \<open>simp add: test_simps op_len_def\<close>)
  apply (simp add: test_simps op_len_def)
  apply (simp add: test_simps op_len_def fitting_def)
  apply (rule left_edit.one_string_tested; simp add: test_simps)
  apply (rule right_edit.one_string_tested; simp add: test_simps)
  apply (rule mid_edit.one_string_tested; simp add: test_simps)
  apply (rule insert_edit.two_strings_tested; simp add: test_simps second_strI fitting_def)
  apply (rule delete_edit.one_string_tested; simp add: test_simps)
  apply (rule replace_edit.two_strings_tested; simp add: test_simps second_strI)
  done
  done

lemma test_string_bounds_passes: "test_string_bounds_and_noop_paths True now = Inr 0"
  unfolding test_string_bounds_and_noop_paths_def vm_create_new if_True ASSERT_NOT_NULL_def option.case Let_def
  apply (rule ASSERT_EQ_U32_I)
  apply (simp add: test_simps op_len_def)
  apply (simp add: test_simps op_len_def op_concat_def)
  apply (rule right_edit.one_string_tested; simp add: test_simps)
  done
end
