(* ===== verification/InstructionTests.thy ===== *)
theory InstructionTests
  imports UnitTests VMHash
begin

text \<open>
  The tests of whole programs (\<open>tests/instruction/*.c\<close>) and the stress test with random programs
  (\<open>tests/stress/vm_random_program_stress_test.c\<close>).  The lemmas describe a run of the tests' interpreter over straight-line
  code: it is the composition of the effects of the words on the registers, whatever the rest of the machine is.
\<close>

section \<open>Programs of the instruction tests\<close>

definition test_arithmetic_and_div_by_zero :: "bool \<Rightarrow> timespec \<Rightarrow> (nat \<Rightarrow> op_env) \<Rightarrow> int res" where
  "test_arithmetic_and_div_by_zero ok now env =
     ASSERT_NOT_NULL (vm_create ok ok now) (\<lambda>vm.
     let vm = set_reg 2 5 (set_reg 1 12 vm);
         program = [ENC_RRR (op_number OP_ADD) 10 1 2, ENC_RRI (op_number OP_SUB) 11 1 2, ENC_RRR (op_number OP_MUL) 12 1 2,
           ENC_RRI (op_number OP_DIV) 13 1 3, ENC_RRI (op_number OP_DIV) 14 1 0, ENC_RRR (op_number OP_NOP) 0 0 0] in
     bindR (load_program_words 0x2000 program vm) (\<lambda>vm.
     bindR (vm_run_for_test env 0x2000 (length program) 32 vm) (\<lambda>(vm, steps, rc).
     ASSERT_EQ_U32 0 (word_of_int rc) (ASSERT_EQ_U32 6 steps (ASSERT_EQ_U32 17 (reg vm 10) (ASSERT_EQ_U32 10 (reg vm 11) (
     ASSERT_EQ_U32 60 (reg vm 12) (ASSERT_EQ_U32 4 (reg vm 13) (ASSERT_EQ_U32 0 (reg vm 14) (Inr 0))))))))))"

definition test_and_or_xor :: "bool \<Rightarrow> timespec \<Rightarrow> (nat \<Rightarrow> op_env) \<Rightarrow> int res" where
  "test_and_or_xor ok now env =
     ASSERT_NOT_NULL (vm_create ok ok now) (\<lambda>vm.
     let vm = set_reg 2 0x0FF00FF0 (set_reg 1 0xF0F0F0F0 vm);
         program = [ENC_RRR (op_number OP_AND) 3 1 2, ENC_RRR (op_number OP_OR) 4 1 2, ENC_RRR (op_number OP_XOR) 5 1 2,
           ENC_RRR (op_number OP_HALT) 0 0 0] in
     bindR (load_program_words 0x3000 program vm) (\<lambda>vm.
     bindR (vm_run_for_test env 0x3000 4 16 vm) (\<lambda>(vm, steps, rc).
     ASSERT_EQ_U32 0 (word_of_int rc) (ASSERT_EQ_U32 4 steps (ASSERT_EQ_U32 0x00F000F0 (reg vm 3) (
     ASSERT_EQ_U32 0xFFF0FFF0 (reg vm 4) (ASSERT_EQ_U32 0xFF00FF00 (reg vm 5) (Inr 0))))))))"

definition test_not_operation :: "bool \<Rightarrow> timespec \<Rightarrow> (nat \<Rightarrow> op_env) \<Rightarrow> int res" where
  "test_not_operation ok now env =
     ASSERT_NOT_NULL (vm_create ok ok now) (\<lambda>vm.
     let vm = set_reg 1 0 vm;
         program = [ENC_RRR (op_number OP_NOT) 2 1 0, ENC_RRR (op_number OP_HALT) 0 0 0] in
     bindR (load_program_words 0x3000 program vm) (\<lambda>vm.
     bindR (vm_run_for_test env 0x3000 2 16 vm) (\<lambda>(vm, steps, rc).
     ASSERT_EQ_U32 0 (word_of_int rc) (ASSERT_EQ_U32 2 steps (ASSERT_EQ_U32 0xFFFFFFFF (reg vm 2) (Inr 0))))))"

text \<open>\<open>run_deterministic_program\<close>: its result and what it leaves in \<open>*out_hash\<close> and \<open>*out_steps\<close> on success; the
  rest of the calling test is the last argument.\<close>

definition run_deterministic_program ::
  "bool \<Rightarrow> timespec \<Rightarrow> (nat \<Rightarrow> op_env) \<Rightarrow> (u32 \<Rightarrow> u32 \<Rightarrow> int res) \<Rightarrow> int res" where
  "run_deterministic_program ok now env rest =
     ASSERT_NOT_NULL (vm_create ok ok now) (\<lambda>vm.
     let base = 0x3000; halt_addr = base + 16;
         vm = set_reg 21 1 (set_reg 20 halt_addr vm);
         program = [ENC_RRI (op_number OP_ADD) 5 0 7, ENC_RRR (op_number OP_JMP_IF) 0 20 21, ENC_RRI (op_number OP_ADD) 6 0 99,
           ENC_RRR (op_number OP_NOP) 0 0 0, ENC_RRR (op_number OP_HALT) 0 0 0] in
     bindR (load_program_words base program vm) (\<lambda>vm.
     bindR (vm_run_for_test env base (length program) 16 vm) (\<lambda>(vm, steps, rc).
     ASSERT_EQ_U32 0 (word_of_int rc) (ASSERT_FALSE (running vm) (ASSERT_EQ_U32 3 steps (ASSERT_EQ_U32 12 (reg vm 5) (
     ASSERT_EQ_U32 0 (reg vm 6) (rest (calculate_registers_hash_ex (reg vm) REG_COUNT HASH_CRC32) steps))))))))"

definition test_control_flow_and_halt_step_count :: "bool \<Rightarrow> timespec \<Rightarrow> (nat \<Rightarrow> op_env) \<Rightarrow> int res" where
  "test_control_flow_and_halt_step_count ok now env =
     run_deterministic_program ok now env (\<lambda>hash1 steps1. ASSERT_EQ_U32 3 steps1 (ASSERT_NEQ_U32 0 hash1 (Inr 0)))"

definition test_deterministic_repeatability :: "bool \<Rightarrow> timespec \<Rightarrow> (nat \<Rightarrow> op_env) \<Rightarrow> int res" where
  "test_deterministic_repeatability ok now env =
     run_deterministic_program ok now env (\<lambda>hash1 steps1. run_deterministic_program ok now env (\<lambda>hash2 steps2.
     ASSERT_EQ_U32 steps1 steps2 (ASSERT_EQ_U32 hash1 hash2 (Inr 0))))"

definition control_flow_test_main :: "(nat \<Rightarrow> bool) \<Rightarrow> (nat \<Rightarrow> timespec) \<Rightarrow> (nat \<Rightarrow> op_env) \<Rightarrow> int res" where
  "control_flow_test_main ok now env = run_tests [test_control_flow_and_halt_step_count (ok 0) (now 0) env,
     test_deterministic_repeatability (ok 1) (now 1) env]"

definition arithmetic_test_main :: "bool \<Rightarrow> timespec \<Rightarrow> (nat \<Rightarrow> op_env) \<Rightarrow> int res" where
  "arithmetic_test_main ok now env = run_tests [test_arithmetic_and_div_by_zero ok now env]"

definition bitwise_test_main :: "(nat \<Rightarrow> bool) \<Rightarrow> (nat \<Rightarrow> timespec) \<Rightarrow> (nat \<Rightarrow> op_env) \<Rightarrow> int res" where
  "bitwise_test_main ok now env = run_tests [test_and_or_xor (ok 0) (now 0) env, test_not_operation (ok 1) (now 1) env]"

section \<open>Memory accesses\<close>

definition test_vm_memory_roundtrip :: "bool \<Rightarrow> timespec \<Rightarrow> int res" where
  "test_vm_memory_roundtrip ok now =
     ASSERT_NOT_NULL (vm_create ok ok now) (\<lambda>vm.
     bindR (vm_mw32 vm 0x200 0xDEADBEEF) (\<lambda>vm. bindR (vm_mr32 vm 0x200) (\<lambda>v. ASSERT_EQ_U32 0xDEADBEEF v (Inr 0))))"

definition test_memory_endianness_consistency :: "bool \<Rightarrow> timespec \<Rightarrow> int res" where
  "test_memory_endianness_consistency ok now =
     ASSERT_NOT_NULL (vm_create ok ok now) (\<lambda>vm.
     bindR (vm_mw32 vm 0x100 0x11223344) (\<lambda>vm.
     ASSERT_EQ_U32 0x44 (ucast (mem vm 0x100)) (ASSERT_EQ_U32 0x33 (ucast (mem vm 0x101)) (
     ASSERT_EQ_U32 0x22 (ucast (mem vm 0x102)) (ASSERT_EQ_U32 0x11 (ucast (mem vm 0x103)) (
     bindR (vm_mr32 vm 0x100) (\<lambda>v. ASSERT_EQ_U32 0x11223344 v (Inr 0))))))))"

definition test_vm_memory_write_out_of_bounds_safe :: "bool \<Rightarrow> timespec \<Rightarrow> int res" where
  "test_vm_memory_write_out_of_bounds_safe ok now =
     ASSERT_NOT_NULL (vm_create ok ok now) (\<lambda>vm.
     let addr = of_nat (VM_MEM_BYTES - 2) in bindR (vm_mw32 vm addr 0xAAAAAAAA) (\<lambda>vm. ASSERT_TRUE True (Inr 0)))"

definition test_vm_memory_read_out_of_bounds_safe :: "bool \<Rightarrow> timespec \<Rightarrow> int res" where
  "test_vm_memory_read_out_of_bounds_safe ok now =
     ASSERT_NOT_NULL (vm_create ok ok now) (\<lambda>vm.
     let addr = of_nat (VM_MEM_BYTES - 2) in bindR (vm_mr32 vm addr) (\<lambda>v. ASSERT_EQ_U32 0 v (Inr 0)))"

definition test_demux_writes_inside_bounds :: "bool \<Rightarrow> timespec \<Rightarrow> op_env \<Rightarrow> int res" where
  "test_demux_writes_inside_bounds ok now env =
     ASSERT_NOT_NULL (vm_create ok ok now) (\<lambda>vm.
     let vm = set_reg 3 0 (set_reg 2 0x100 (set_reg 1 0xAABBCCDD vm)) in
     bindR (call_op env (unat (op_number OP_DEMUX)) (ENC_RRR (op_number OP_DEMUX) 1 2 3) vm) (\<lambda>vm.
     bindR (vm_mr32 vm 0x100) (\<lambda>v. ASSERT_EQ_U32 0xAABBCCDD v (Inr 0))))"

definition test_demux_out_of_bounds_safe :: "bool \<Rightarrow> timespec \<Rightarrow> op_env \<Rightarrow> int res" where
  "test_demux_out_of_bounds_safe ok now env =
     ASSERT_NOT_NULL (vm_create ok ok now) (\<lambda>vm.
     let vm = set_reg 3 1 (set_reg 2 (of_nat (VM_MEM_BYTES - 2)) (set_reg 1 0xFFFFFFFF vm)); before = mem vm (VM_MEM_BYTES - 1) in
     bindR (call_op env (unat (op_number OP_DEMUX)) (ENC_RRR (op_number OP_DEMUX) 1 2 3) vm) (\<lambda>vm.
     ASSERT_EQ_U32 (ucast before) (ucast (mem vm (VM_MEM_BYTES - 1))) (Inr 0)))"

definition memory_load_store_test_main :: "(nat \<Rightarrow> bool) \<Rightarrow> (nat \<Rightarrow> timespec) \<Rightarrow> op_env \<Rightarrow> int res" where
  "memory_load_store_test_main ok now env = run_tests [test_vm_memory_roundtrip (ok 0) (now 0),
     test_memory_endianness_consistency (ok 1) (now 1), test_vm_memory_write_out_of_bounds_safe (ok 2) (now 2),
     test_vm_memory_read_out_of_bounds_safe (ok 3) (now 3), test_demux_writes_inside_bounds (ok 4) (now 4) env,
     test_demux_out_of_bounds_safe (ok 5) (now 5) env]"

definition test_invalid_opcode_stops_execution :: "bool \<Rightarrow> timespec \<Rightarrow> op_env \<Rightarrow> int res" where
  "test_invalid_opcode_stops_execution ok now env =
     ASSERT_NOT_NULL (vm_create ok ok now) (\<lambda>vm.
     bindR (load_program_words 0x2200 [ENC_RRR 100 1 2 3] vm) (\<lambda>vm.
     bindR (vm_step_for_test env 0x2200 0x2204 vm) (\<lambda>(vm, rc).
     ASSERT_EQ_U32 (word_of_int (-1)) (word_of_int rc) (ASSERT_FALSE (running vm) (Inr 0)))))"

definition test_demux_out_of_bounds_is_ignored :: "bool \<Rightarrow> timespec \<Rightarrow> op_env \<Rightarrow> int res" where
  "test_demux_out_of_bounds_is_ignored ok now env =
     ASSERT_NOT_NULL (vm_create ok ok now) (\<lambda>vm.
     let vm = set_reg 9 1 (set_reg 8 (of_nat (VM_MEM_BYTES - 2)) (set_reg 7 0xAABBCCDD vm));
         before0 = mem vm (VM_MEM_BYTES - 1); before1 = mem vm (VM_MEM_BYTES - 2) in
     bindR (call_op env (unat (op_number OP_DEMUX)) (ENC_RRR (op_number OP_DEMUX) 7 8 9) vm) (\<lambda>vm.
     ASSERT_EQ_U32 (ucast before0) (ucast (mem vm (VM_MEM_BYTES - 1))) (
     ASSERT_EQ_U32 (ucast before1) (ucast (mem vm (VM_MEM_BYTES - 2))) (Inr 0))))"

definition test_vm_memory_little_endian_roundtrip :: "bool \<Rightarrow> timespec \<Rightarrow> int res" where
  "test_vm_memory_little_endian_roundtrip ok now =
     ASSERT_NOT_NULL (vm_create ok ok now) (\<lambda>vm.
     bindR (vm_mw32 vm 0x100 0x11223344) (\<lambda>vm.
     ASSERT_EQ_U32 0x44 (ucast (mem vm 0x100)) (ASSERT_EQ_U32 0x33 (ucast (mem vm 0x101)) (
     ASSERT_EQ_U32 0x22 (ucast (mem vm 0x102)) (ASSERT_EQ_U32 0x11 (ucast (mem vm 0x103)) (
     bindR (vm_mr32 vm 0x100) (\<lambda>v. ASSERT_EQ_U32 0x11223344 v (Inr 0))))))))"

definition safety_memory_test_main :: "(nat \<Rightarrow> bool) \<Rightarrow> (nat \<Rightarrow> timespec) \<Rightarrow> op_env \<Rightarrow> int res" where
  "safety_memory_test_main ok now env = run_tests [test_invalid_opcode_stops_execution (ok 0) (now 0) env,
     test_demux_out_of_bounds_is_ignored (ok 1) (now 1) env, test_vm_memory_little_endian_roundtrip (ok 2) (now 2)]"

section \<open>Random programs\<close>

text \<open>\<open>rnd seed i\<close> is the result of the \<open>i\<close>-th \<open>rand()\<close> after \<open>srand(seed)\<close>, whatever the C library returns.\<close>

definition rand_u32 :: "(nat \<Rightarrow> u32) \<Rightarrow> nat \<Rightarrow> u32 \<times> nat" where
  "rand_u32 r i = (push_bit 16 (r i) XOR r (i + 1), i + 2)"

definition safe_ops :: "handler list" where
  "safe_ops = [OP_ADD, OP_SUB, OP_MUL, OP_DIV, OP_MOD, OP_AND, OP_OR, OP_XOR, OP_NOT, OP_EQ, OP_NE, OP_GT, OP_GE, OP_LT, OP_LE, OP_NOP]"

definition random_safe_opcode :: "(nat \<Rightarrow> u32) \<Rightarrow> nat \<Rightarrow> u32 \<times> nat" where
  "random_safe_opcode r i = (op_number (safe_ops ! (unat (r i) mod length safe_ops)), i + 1)"

definition random_instr_word :: "(nat \<Rightarrow> u32) \<Rightarrow> nat \<Rightarrow> u32 \<times> nat" where
  "random_instr_word r i =
     (let (op, i) = random_safe_opcode r i;
          a = of_nat (unat (r i) mod REG_COUNT); i = i + 1;
          b = of_nat (unat (r i) mod REG_COUNT); i = i + 1 in
      if op = op_number OP_NOT \<or> op = op_number OP_NOP then (ENC_RRR op a b 0, i) else
      if r i AND 1 \<noteq> 0 then
        (let i = i + 1; c = of_nat (unat (r i) mod REG_COUNT); i = i + 1 in (ENC_RRR op a b c, i))
      else (let i = i + 1; (c, i) = rand_u32 r i in (ENC_RRI op a b (ucast (ucast c :: u8)), i)))"

fun random_words :: "(nat \<Rightarrow> u32) \<Rightarrow> nat \<Rightarrow> nat \<Rightarrow> u32 list" where
  "random_words r 0 i = []"
| "random_words r (Suc n) i = (let (w, i) = random_instr_word r i in w # random_words r n i)"

definition fill_random_regs :: "(u32 \<Rightarrow> nat \<Rightarrow> u32) \<Rightarrow> vm_state \<Rightarrow> u32 \<Rightarrow> vm_state" where
  "fill_random_regs rnd vm seed = vm\<lparr>reg := \<lambda>k. fst (rand_u32 (rnd seed) (2 * unat k))\<rparr>"

definition random_body :: "(u32 \<Rightarrow> nat \<Rightarrow> u32) \<Rightarrow> u32 \<Rightarrow> u32 list" where
  "random_body rnd seed =
     (let body_len = 8 + unat (rnd seed 0) mod 24 in random_words (rnd seed) body_len 1)"

text \<open>The allocations succeed if \<open>ok\<close>; \<open>now1\<close> and \<open>now2\<close> are the readings of the clock for the two machines, \<open>env1\<close> and
  \<open>env2\<close> what their handlers read.\<close>

definition run_case ::
  "(u32 \<Rightarrow> nat \<Rightarrow> u32) \<Rightarrow> bool \<Rightarrow> timespec \<Rightarrow> timespec \<Rightarrow> (nat \<Rightarrow> op_env) \<Rightarrow> (nat \<Rightarrow> op_env) \<Rightarrow> u32 \<Rightarrow> int res" where
  "run_case rnd ok now1 now2 env1 env2 seed =
     (let body = random_body rnd seed; total_len = length body + 1 in
      ASSERT_NOT_NULL (if ok then Some (body @ [ENC_RRR (op_number OP_HALT) 0 0 0]) else None) (\<lambda>program.
      ASSERT_NOT_NULL (vm_create ok ok now1) (\<lambda>vm1. ASSERT_NOT_NULL (vm_create ok ok now2) (\<lambda>vm2.
      let vm1 = fill_random_regs rnd vm1 (seed XOR 0xA5A5A5A5); vm2 = vm2\<lparr>reg := reg vm1\<rparr> in
      bindR (load_program_words 0x3000 program vm1) (\<lambda>vm1.
      bindR (load_program_words 0x3000 program vm2) (\<lambda>vm2.
      bindR (vm_run_for_test env1 0x3000 total_len (of_nat (total_len + 4)) vm1) (\<lambda>(vm1, steps1, rc1).
      bindR (vm_run_for_test env2 0x3000 total_len (of_nat (total_len + 4)) vm2) (\<lambda>(vm2, steps2, rc2).
      ASSERT_EQ_U32 0 (word_of_int rc1) (ASSERT_EQ_U32 0 (word_of_int rc2) (
      ASSERT_EQ_U32 (of_nat total_len) steps1 (ASSERT_EQ_U32 steps1 steps2 (
      let h1 = calculate_registers_hash_ex (reg vm1) REG_COUNT HASH_CRC32;
          h2 = calculate_registers_hash_ex (reg vm2) REG_COUNT HASH_CRC32 in
      ASSERT_EQ_U32 h1 h2 (Inr 0)))))))))))))"

definition test_random_program_stress ::
  "(u32 \<Rightarrow> nat \<Rightarrow> u32) \<Rightarrow> bool \<Rightarrow> timespec \<Rightarrow> timespec \<Rightarrow> (nat \<Rightarrow> op_env) \<Rightarrow> (nat \<Rightarrow> op_env) \<Rightarrow> int res" where
  "test_random_program_stress rnd ok now1 now2 env1 env2 =
     run_tests (map (\<lambda>i. run_case rnd ok now1 now2 env1 env2 (0xC0FFEE + of_nat i * 17)) [0..<200])"

section \<open>Words in memory\<close>

text \<open>The words \<open>ws\<close> are in the memory from address \<open>a\<close> on.\<close>

fun words_at :: "(nat \<Rightarrow> u8) \<Rightarrow> nat \<Rightarrow> u32 list \<Rightarrow> bool" where
  "words_at m a [] \<longleftrightarrow> True"
| "words_at m a (w # ws) \<longleftrightarrow> word_at m a = w \<and> words_at m (a + 4) ws"

lemma word_at_agree:
  assumes "\<And>i. i < 4 \<Longrightarrow> m (a + i) = m' (a + i)"
  shows "word_at m a = word_at m' a"
  using assms [of 0] assms [of 1] assms [of 2] assms [of 3] by (simp add: word_at_def)

lemma load_words_ok:
  assumes "unat a + 4 * length ws \<le> VM_MEM_BYTES"
  shows "\<exists>m. load_words a ws vm = Inr (vm\<lparr>mem := m\<rparr>) \<and> words_at m (unat a) ws \<and> (\<forall>b < unat a. m b = mem vm b)"
  using assms
proof (induction ws arbitrary: a vm)
  case (Cons w ws)
  let ?vm = "vm\<lparr>mem := put_word (mem vm) (unat a) w\<rparr>"
  have a4: "unat (a + 4) = unat a + 4" using Cons.prems unat_add_small [of a 4] by simp
  have "unat (a + 4) + 4 * length ws \<le> VM_MEM_BYTES" using Cons.prems a4 by simp
  from Cons.IH [OF this, of ?vm] obtain m where m: "load_words (a + 4) ws ?vm = Inr (?vm\<lparr>mem := m\<rparr>)"
    "words_at m (unat a + 4) ws" "\<forall>b < unat a + 4. m b = put_word (mem vm) (unat a) w b"
    by (auto simp: a4)
  have "word_at m (unat a) = word_at (put_word (mem vm) (unat a) w) (unat a)"
    using m(3) by (intro word_at_agree) simp
  then show ?case
    using m Cons.prems by (auto simp: vm_mw32_ok put_word_other)
next
  case Nil
  show ?case by (rule exI [of _ "mem vm"]) simp
qed

lemma load_program_ok:
  assumes "unat a + 4 * length ws \<le> VM_MEM_BYTES"
  obtains m where "load_program_words a ws vm = Inr (vm\<lparr>mem := m, PC_START := a, PC := a\<rparr>)" "words_at m (unat a) ws"
  using load_words_ok [OF assms, of vm] by (auto simp: load_program_words_def)

lemma u32_of_nat_inject': "i < 4294967296 \<Longrightarrow> j < 4294967296 \<Longrightarrow> (of_nat i :: u32) = of_nat j \<Longrightarrow> i = j"
  using unat_of_nat_u32 [of i] unat_of_nat_u32 [of j] by argo

lemma words_at_append: "words_at m a (ws @ us) \<longleftrightarrow> words_at m a ws \<and> words_at m (a + 4 * length ws) us"
  by (induction ws arbitrary: a) (auto simp: add_ac)

section \<open>Straight-line code\<close>

text \<open>The effect of a word on the registers: every handler of \<open>safe_ops\<close> changes nothing else and reads nothing else.\<close>

definition safe_word :: "u32 \<Rightarrow> bool" where
  "safe_word w \<longleftrightarrow> (\<exists>h \<in> set safe_ops. unat (OPC w) = handler_index h)"

definition effect :: "u32 \<Rightarrow> (u8 \<Rightarrow> u32) \<Rightarrow> u8 \<Rightarrow> u32" where
  "effect w rg = (case exec_op undefined (default_op_ex ! unat (OPC w)) (vm_zero\<lparr>reg := rg\<rparr>) w of Inr vm \<Rightarrow> reg vm | Inl _ \<Rightarrow> rg)"

lemma safe_handler_effect:
  assumes "h \<in> set safe_ops" "unat (OPC w) = handler_index h"
  shows "exec_op env h vm w = Inr (vm\<lparr>reg := effect w (reg vm)\<rparr>)"
  using assms handler_index_nth(1) [of h]
  by (auto simp: safe_ops_def effect_def op_add_def op_sub_def op_mul_def op_div_def op_mod_def op_and_def op_or_def op_xor_def
      op_not_def op_eq_def op_ne_def op_gt_def op_ge_def op_lt_def op_le_def op_nop_def SetA_val_def Bv_def Cv_or_imm_def Let_def)

lemma test_step:
  assumes "start \<le> PC vm" "PC vm < end_addr" "unat (PC vm) + 4 \<le> VM_MEM_BYTES"
    and "word_at (mem vm) (unat (PC vm)) = w" "w \<noteq> 0" "unat (OPC w) = handler_index h"
    and "op_ex vm = map Some default_op_ex @ replicate 60 None"
  shows "vm_step_for_test env start end_addr vm =
    bindR (exec_op env h vm w) (\<lambda>vm'. Inr (if PC vm' = PC vm then vm'\<lparr>PC := PC vm' + 4\<rparr> else vm', 0))"
proof -
  have "op_ex vm ! unat (OPC w) = Some h"
    using assms(6,7) handler_index_nth [of h] by (simp add: nth_append)
  moreover have "\<not> PC vm < start" "\<not> end_addr \<le> PC vm" using assms(1,2) by (simp_all only: not_less not_le)
  ultimately show ?thesis
    using assms(3-6) handler_index_nth(2) [of h]
    by (simp add: vm_step_for_test_def vm_mr32_ok call_op_def OPCODE_COUNT_def Let_def)
qed

lemma safe_prefix:
  assumes "words_at (mem vm) (unat (PC vm)) ws" "\<forall>w \<in> set ws. safe_word w \<and> w \<noteq> 0" "running vm"
    and "start \<le> PC vm" "unat (PC vm) + 4 * length ws \<le> unat end_addr" "unat end_addr \<le> VM_MEM_BYTES"
    and "op_ex vm = map Some default_op_ex @ replicate 60 None"
  shows "test_loop env start end_addr (length ws + n) steps vm =
    test_loop env start end_addr n (steps + of_nat (length ws))
      (vm\<lparr>reg := fold effect ws (reg vm), PC := PC vm + of_nat (4 * length ws)\<rparr>)"
  using assms
proof (induction ws arbitrary: vm steps)
  case (Cons w ws)
  obtain h where h: "h \<in> set safe_ops" "unat (OPC w) = handler_index h" "w \<noteq> 0"
    using Cons.prems(2) by (auto simp: safe_word_def)
  let ?vm = "vm\<lparr>reg := effect w (reg vm), PC := PC vm + 4\<rparr>"
  have pc: "PC vm < end_addr" "unat (PC vm) + 4 \<le> VM_MEM_BYTES" "unat (PC vm + 4) = unat (PC vm) + 4"
    using Cons.prems(5,6) unat_add_small [of "PC vm" 4] by (simp_all add: word_less_nat_alt)
  then have "start \<le> PC vm + 4" using Cons.prems(4) by (simp add: word_le_nat_alt)
  moreover have "vm_step_for_test (env (unat steps)) start end_addr vm = Inr (?vm, 0)"
    using Cons.prems(1,4,7) pc h by (simp add: test_step [where h = h and w = w] safe_handler_effect)
  ultimately show ?case
    using Cons.prems pc Cons.IH [of ?vm "steps + 1"] by (simp add: algebra_simps)
qed simp

text \<open>How the loop ends: at \<open>HALT\<close>, at a word 0, which the interpreter takes for the end of the program, or behind the last word.\<close>

lemma test_halt:
  assumes "start \<le> PC vm" "PC vm < end_addr" "unat (PC vm) + 4 \<le> VM_MEM_BYTES" "running vm"
    and "word_at (mem vm) (unat (PC vm)) = w" "unat (OPC w) = handler_index OP_HALT" "w \<noteq> 0"
    and "op_ex vm = map Some default_op_ex @ replicate 60 None"
  shows "test_loop env start end_addr (Suc n) steps vm =
    Inr (vm\<lparr>running := False, stop_requested := True, PC := PC vm + 4\<rparr>, steps + 1, 0)"
proof -
  have "test_loop env start end_addr n s (vm\<lparr>running := False, stop_requested := True, PC := PC vm + 4\<rparr>) =
      Inr (vm\<lparr>running := False, stop_requested := True, PC := PC vm + 4\<rparr>, s, 0)" for s
    by (cases n) simp_all
  then show ?thesis
    using assms by (simp add: test_step [where h = OP_HALT and w = w] op_halt_def)
qed

lemma test_zero_word:
  assumes "start \<le> PC vm" "PC vm < end_addr" "unat (PC vm) + 4 \<le> VM_MEM_BYTES" "running vm" "word_at (mem vm) (unat (PC vm)) = 0"
  shows "test_loop env start end_addr (Suc n) steps vm = Inr (vm, steps, 0)"
proof -
  have "\<not> PC vm < start" "\<not> end_addr \<le> PC vm" using assms(1,2) by (simp_all only: not_less not_le)
  then show ?thesis using assms(3-5) by (simp add: vm_step_for_test_def vm_mr32_ok)
qed

lemma test_end:
  assumes "end_addr \<le> PC vm" "running vm"
  shows "test_loop env start end_addr (Suc n) steps vm = Inr (vm, steps, 0)"
  using assms by (simp add: vm_step_for_test_def)

section \<open>Runs of loaded programs\<close>

lemma op_number_field [simp]: "unat (ucast (op_number h AND 0x7F) :: u8) = handler_index h"
proof -
  have "unat (op_number h AND 0x7F) = take_bit 7 (take_bit 32 (handler_index h))"
    unfolding and_masks by (simp add: op_number_index unsigned_take_bit_eq unsigned_of_nat)
  moreover have "handler_index h < 128" using handler_index_nth(2) [of h] by simp
  ultimately show ?thesis
    by (simp add: unsigned_ucast_eq take_bit_nat_eq_self)
qed

lemma safe_words [simp]:
  "h \<in> set safe_ops \<Longrightarrow> safe_word (ENC_RRR (op_number h) a b c)" "h \<in> set safe_ops \<Longrightarrow> safe_word (ENC_RRI (op_number h) a b c)"
  by (auto simp: safe_word_def)

text \<open>A run over the safe words \<open>us\<close> of a loaded program, up to what follows them.\<close>

lemma run_to:
  assumes "unat a + 4 * length (us @ vs) \<le> VM_MEM_BYTES" "\<forall>w \<in> set us. safe_word w \<and> w \<noteq> 0" "length us < unat max_steps"
    and "op_ex vm = map Some default_op_ex @ replicate 60 None"
  obtains m vm' where "load_program_words a (us @ vs) vm = Inr (vm\<lparr>mem := m, PC_START := a, PC := a\<rparr>)"
    "vm_run_for_test env a (length (us @ vs)) max_steps (vm\<lparr>mem := m, PC_START := a, PC := a\<rparr>) =
      test_loop env a (a + of_nat (4 * length (us @ vs))) (Suc (unat max_steps - length us - 1)) (of_nat (length us)) vm'"
    "vm' = vm\<lparr>mem := m, PC_START := a, running := True, reg := fold effect us (reg vm), PC := a + of_nat (4 * length us)\<rparr>"
    "words_at m (unat a + 4 * length us) vs" "unat (a + of_nat (4 * length us)) = unat a + 4 * length us"
    "unat (a + of_nat (4 * length (us @ vs))) = unat a + 4 * length (us @ vs)"
proof -
  obtain m where m: "load_program_words a (us @ vs) vm = Inr (vm\<lparr>mem := m, PC_START := a, PC := a\<rparr>)" "words_at m (unat a) (us @ vs)"
    by (rule load_program_ok [OF assms(1)])
  have a: "unat (a + of_nat (4 * length (us @ vs))) = unat a + 4 * length (us @ vs)"
      "unat (a + of_nat (4 * length us)) = unat a + 4 * length us"
    using assms(1) by (intro unat_add_small; simp)+
  have split: "unat max_steps = length us + Suc (unat max_steps - length us - 1)" using assms(3) by simp
  let ?vm = "vm\<lparr>mem := m, PC_START := a, PC := a, running := True\<rparr>"
  have "test_loop env a (a + of_nat (4 * length (us @ vs))) (length us + Suc (unat max_steps - length us - 1)) 0 ?vm =
      test_loop env a (a + of_nat (4 * length (us @ vs))) (Suc (unat max_steps - length us - 1)) (0 + of_nat (length us))
        (?vm\<lparr>reg := fold effect us (reg ?vm), PC := PC ?vm + of_nat (4 * length us)\<rparr>)"
    using assms(1,2,4) m(2) a by (intro safe_prefix) (simp_all add: words_at_append del: of_nat_mult of_nat_add)
  moreover have "vm_run_for_test env a (length (us @ vs)) max_steps (vm\<lparr>mem := m, PC_START := a, PC := a\<rparr>) =
      test_loop env a (a + of_nat (4 * length (us @ vs))) (length us + Suc (unat max_steps - length us - 1)) 0 ?vm"
    unfolding vm_run_for_test_def Let_def split [symmetric] mult.commute [of _ "4 :: nat"] by simp
  ultimately show thesis
    using m a by (intro that [OF m(1) _ refl]) (simp_all add: words_at_append del: test_loop.simps)
qed

abbreviation halt_word :: u32 where
  "halt_word \<equiv> ENC_RRR (op_number OP_HALT) 0 0 0"

lemma halt_word_nonzero: "halt_word \<noteq> 0"
  by (simp add: op_number_index handler_index_def default_op_ex_def ENC_RRR_def)

lemma halting_run:
  assumes "unat a + 4 * (length us + 1) \<le> VM_MEM_BYTES" "\<forall>w \<in> set us. safe_word w \<and> w \<noteq> 0" "length us < unat max_steps"
    and "op_ex vm = map Some default_op_ex @ replicate 60 None"
  shows "\<exists>vm1 vm'. load_program_words a (us @ [halt_word]) vm = Inr vm1 \<and>
    vm_run_for_test env a (length us + 1) max_steps vm1 = Inr (vm', of_nat (length us + 1), 0) \<and>
    \<not> running vm' \<and> reg vm' = fold effect us (reg vm)"
proof -
  have len: "unat a + 4 * length (us @ [halt_word]) \<le> VM_MEM_BYTES" using assms(1) by simp
  obtain m vm' where r: "load_program_words a (us @ [halt_word]) vm = Inr (vm\<lparr>mem := m, PC_START := a, PC := a\<rparr>)"
    "vm_run_for_test env a (length (us @ [halt_word])) max_steps (vm\<lparr>mem := m, PC_START := a, PC := a\<rparr>) =
      test_loop env a (a + of_nat (4 * length (us @ [halt_word]))) (Suc (unat max_steps - length us - 1)) (of_nat (length us)) vm'"
    "vm' = vm\<lparr>mem := m, PC_START := a, running := True, reg := fold effect us (reg vm), PC := a + of_nat (4 * length us)\<rparr>"
    "words_at m (unat a + 4 * length us) [halt_word]" "unat (a + of_nat (4 * length us)) = unat a + 4 * length us"
    "unat (a + of_nat (4 * length (us @ [halt_word]))) = unat a + 4 * length (us @ [halt_word])"
    by (rule run_to [OF len assms(2-4)])
  have "test_loop env a (a + of_nat (4 * length (us @ [halt_word]))) (Suc (unat max_steps - length us - 1)) (of_nat (length us)) vm' =
      Inr (vm'\<lparr>running := False, stop_requested := True, PC := PC vm' + 4\<rparr>, of_nat (length us) + 1, 0)"
    using r(4-6) assms halt_word_nonzero unfolding r(3)
    by (intro test_halt [where w = halt_word]) (simp_all add: word_le_nat_alt word_less_nat_alt del: of_nat_mult of_nat_add)
  then show ?thesis using r(1-3) by (simp add: add.commute)
qed

lemma zero_word_run:
  assumes "unat a + 4 * length (us @ 0 # vs) \<le> VM_MEM_BYTES" "\<forall>w \<in> set us. safe_word w \<and> w \<noteq> 0" "length us < unat max_steps"
    and "op_ex vm = map Some default_op_ex @ replicate 60 None"
  shows "\<exists>vm1 vm'. load_program_words a (us @ 0 # vs) vm = Inr vm1 \<and>
    vm_run_for_test env a (length (us @ 0 # vs)) max_steps vm1 = Inr (vm', of_nat (length us), 0)"
proof -
  obtain m vm' where r: "load_program_words a (us @ 0 # vs) vm = Inr (vm\<lparr>mem := m, PC_START := a, PC := a\<rparr>)"
    "vm_run_for_test env a (length (us @ 0 # vs)) max_steps (vm\<lparr>mem := m, PC_START := a, PC := a\<rparr>) =
      test_loop env a (a + of_nat (4 * length (us @ 0 # vs))) (Suc (unat max_steps - length us - 1)) (of_nat (length us)) vm'"
    "vm' = vm\<lparr>mem := m, PC_START := a, running := True, reg := fold effect us (reg vm), PC := a + of_nat (4 * length us)\<rparr>"
    "words_at m (unat a + 4 * length us) (0 # vs)" "unat (a + of_nat (4 * length us)) = unat a + 4 * length us"
    "unat (a + of_nat (4 * length (us @ 0 # vs))) = unat a + 4 * length (us @ 0 # vs)"
    by (rule run_to [OF assms])
  have "test_loop env a (a + of_nat (4 * length (us @ 0 # vs))) (Suc (unat max_steps - length us - 1)) (of_nat (length us)) vm' =
      Inr (vm', of_nat (length us), 0)"
    using r(4-6) assms unfolding r(3)
    by (intro test_zero_word) (simp_all add: word_le_nat_alt word_less_nat_alt del: of_nat_mult of_nat_add)
  then show ?thesis using r(1,2) by simp
qed

lemma finished_run:
  assumes "unat a + 4 * length us \<le> VM_MEM_BYTES" "\<forall>w \<in> set us. safe_word w \<and> w \<noteq> 0" "length us < unat max_steps"
    and "op_ex vm = map Some default_op_ex @ replicate 60 None"
  shows "\<exists>vm1 vm'. load_program_words a us vm = Inr vm1 \<and>
    vm_run_for_test env a (length us) max_steps vm1 = Inr (vm', of_nat (length us), 0) \<and> reg vm' = fold effect us (reg vm)"
proof -
  have len: "unat a + 4 * length (us @ []) \<le> VM_MEM_BYTES" using assms(1) by simp
  obtain m vm' where r: "load_program_words a (us @ []) vm = Inr (vm\<lparr>mem := m, PC_START := a, PC := a\<rparr>)"
    "vm_run_for_test env a (length (us @ [])) max_steps (vm\<lparr>mem := m, PC_START := a, PC := a\<rparr>) =
      test_loop env a (a + of_nat (4 * length (us @ []))) (Suc (unat max_steps - length us - 1)) (of_nat (length us)) vm'"
    "vm' = vm\<lparr>mem := m, PC_START := a, running := True, reg := fold effect us (reg vm), PC := a + of_nat (4 * length us)\<rparr>"
    by (rule run_to [OF len assms(2-4)])
  have "test_loop env a (a + of_nat (4 * length (us @ []))) (Suc (unat max_steps - length us - 1)) (of_nat (length us)) vm' =
      Inr (vm', of_nat (length us), 0)"
    unfolding r(3) by (intro test_end) simp_all
  then show ?thesis using r by simp
qed

section \<open>What the tests return\<close>

lemma effect_safe:
  "h \<in> set safe_ops \<Longrightarrow> unat (OPC w) = handler_index h \<Longrightarrow> effect w rg = reg (projr (exec_op undefined h (vm_zero\<lparr>reg := rg\<rparr>) w))"
  using handler_index_nth(1) [of h] safe_handler_effect [of h w undefined "vm_zero\<lparr>reg := rg\<rparr>"] by simp

lemma random_word_safe: "safe_word (fst (random_instr_word r i))"
proof -
  have "0 < length safe_ops" by (simp add: safe_ops_def)
  then have "safe_ops ! (unat (r i) mod length safe_ops) \<in> set safe_ops" by (intro nth_mem) simp
  then have "\<exists>h \<in> set safe_ops. fst (random_safe_opcode r i) = op_number h"
    unfolding random_safe_opcode_def by auto
  then show ?thesis
    by (auto simp: random_instr_word_def rand_u32_def Let_def split: prod.splits)
qed

lemma random_words_safe: "\<forall>w \<in> set (random_words r n i). safe_word w"
proof (induction n arbitrary: i)
  case (Suc n)
  then show ?case using random_word_safe [of r i] by (auto simp: split_def Let_def)
qed simp

lemma length_random_words: "length (random_words r n i) = n"
  by (induction n arbitrary: i) (simp_all add: split_def Let_def)

lemma random_body_facts: "\<forall>w \<in> set (random_body rnd seed). safe_word w" "length (random_body rnd seed) \<le> 31"
    "unat (of_nat (length (random_body rnd seed) + 1 + 4) :: u32) = length (random_body rnd seed) + 5"
proof -
  show safe: "\<forall>w \<in> set (random_body rnd seed). safe_word w" using random_words_safe by (simp add: random_body_def Let_def)
  show len: "length (random_body rnd seed) \<le> 31"
    using mod_less_divisor [of 24 "unat (rnd seed 0)"] by (simp add: random_body_def Let_def length_random_words)
  show "unat (of_nat (length (random_body rnd seed) + 1 + 4) :: u32) = length (random_body rnd seed) + 5"
    using len by (simp add: unat_of_nat_u32 del: of_nat_add of_nat_Suc)
qed

lemma random_vms: "op_ex (fill_random_regs rnd (new_vm now) seed) = map Some default_op_ex @ replicate 60 None"
  "op_ex ((new_vm now)\<lparr>reg := rg\<rparr>) = map Some default_op_ex @ replicate 60 None"
  by (simp_all add: fill_random_regs_def new_vm_op_ex)

lemma random_case_passes:
  assumes "0 \<notin> set (random_body rnd seed)" (is "0 \<notin> set ?body")
  shows "run_case rnd True now1 now2 env1 env2 seed = Inr 0"
proof -
  define vm1 where "vm1 = fill_random_regs rnd (new_vm now1) (seed XOR 0xA5A5A5A5)"
  define vm2 where "vm2 = (new_vm now2)\<lparr>reg := reg vm1\<rparr>"
  have ok: "\<forall>w \<in> set ?body. safe_word w \<and> w \<noteq> 0" using assms random_body_facts(1) by metis
  have "\<exists>vmL vm'. load_program_words 0x3000 (?body @ [halt_word]) vm = Inr vmL \<and>
      vm_run_for_test env 0x3000 (length ?body + 1) (of_nat (length ?body + 1 + 4)) vmL = Inr (vm', of_nat (length ?body + 1), 0) \<and>
      \<not> running vm' \<and> reg vm' = fold effect ?body (reg vm)"
    if "op_ex vm = map Some default_op_ex @ replicate 60 None" for vm env
    using ok random_body_facts(2,3) [of rnd seed] that by (intro halting_run) simp_all
  from this [of vm1 env1] this [of vm2 env2] obtain vmL1 vmR1 vmL2 vmR2 where
    "load_program_words 0x3000 (?body @ [halt_word]) vm1 = Inr vmL1" "load_program_words 0x3000 (?body @ [halt_word]) vm2 = Inr vmL2"
    "vm_run_for_test env1 0x3000 (length ?body + 1) (of_nat (length ?body + 1 + 4)) vmL1 = Inr (vmR1, of_nat (length ?body + 1), 0)"
    "vm_run_for_test env2 0x3000 (length ?body + 1) (of_nat (length ?body + 1 + 4)) vmL2 = Inr (vmR2, of_nat (length ?body + 1), 0)"
    "reg vmR1 = fold effect ?body (reg vm1)" "reg vmR2 = fold effect ?body (reg vm2)"
    unfolding vm1_def vm2_def using random_vms by blast
  moreover have "reg vm2 = reg vm1" by (simp add: vm2_def)
  ultimately show ?thesis
    unfolding run_case_def vm_create_new Let_def assert_run if_True vm1_def [symmetric] vm2_def [symmetric]
    by (simp add: assert_run del: of_nat_add of_nat_Suc)
qed

lemma random_case_fails:
  assumes "0 \<in> set (random_body rnd seed)" (is "0 \<in> set ?body")
  shows "run_case rnd True now1 now2 env1 env2 seed = Inr 1"
proof -
  define vm1 where "vm1 = fill_random_regs rnd (new_vm now1) (seed XOR 0xA5A5A5A5)"
  define vm2 where "vm2 = (new_vm now2)\<lparr>reg := reg vm1\<rparr>"
  obtain us vs where split: "?body = us @ 0 # vs" "0 \<notin> set us" using assms split_list_first [of 0 ?body] by blast
  with random_body_facts(1) [of rnd seed] have ok: "\<forall>w \<in> set us. safe_word w \<and> w \<noteq> 0" by (metis Un_iff set_append)
  note len = random_body_facts(2,3) [of rnd seed]
  let ?p = "us @ 0 # vs @ [halt_word]"
  have p: "?body @ [halt_word] = ?p" "length ?body + 1 = length ?p" by (simp_all add: split)
  have "\<exists>vmL vm'. load_program_words 0x3000 ?p vm = Inr vmL \<and>
      vm_run_for_test env 0x3000 (length ?p) (of_nat (length ?p + 4)) vmL = Inr (vm', of_nat (length us), 0)"
    if "op_ex vm = map Some default_op_ex @ replicate 60 None" for vm env
    using ok len that split(1) by (intro zero_word_run) (simp_all del: of_nat_add of_nat_Suc)
  from this [of vm1 env1] this [of vm2 env2] obtain vmL1 vmR1 vmL2 vmR2 where
    "load_program_words 0x3000 ?p vm1 = Inr vmL1" "load_program_words 0x3000 ?p vm2 = Inr vmL2"
    "vm_run_for_test env1 0x3000 (length ?p) (of_nat (length ?p + 4)) vmL1 = Inr (vmR1, of_nat (length us), 0)"
    "vm_run_for_test env2 0x3000 (length ?p) (of_nat (length ?p + 4)) vmL2 = Inr (vmR2, of_nat (length us), 0)"
    unfolding vm1_def vm2_def using random_vms by blast
  moreover have "of_nat (length ?p) \<noteq> (of_nat (length us) :: u32)"
    using len(1) split(1) u32_of_nat_inject' [of "length ?p" "length us"] by auto
  ultimately show ?thesis
    unfolding run_case_def vm_create_new Let_def assert_run if_True vm1_def [symmetric] vm2_def [symmetric] p
    by (simp add: assert_run del: of_nat_add of_nat_Suc)
qed

text \<open>
  C31 (equivalence).  The stress test with a random program, for every sequence of numbers that \<open>rand()\<close> may return: two fresh machines with
  the same registers execute every word of the program and end with the same checksum of the registers, so the case passes, unless
  the program has the word 0.  The generator can produce that word, the encoding of \<open>ADD R0, R0, R0\<close>, and the
  interpreter takes it for the end of the program: then the number of steps is too small and the case fails.
\<close>

theorem random_program_case:
  "run_case rnd True now1 now2 env1 env2 seed = Inr (if 0 \<in> set (random_body rnd seed) then 1 else 0)"
  using random_case_passes random_case_fails by simp

text \<open>The tests of single programs.\<close>

lemma effect_word [simp]:
  "effect (ENC_RRR (op_number h) a b c) rg =
     (case exec_op undefined h (vm_zero\<lparr>reg := rg\<rparr>) (ENC_RRR (op_number h) a b c) of Inr vm \<Rightarrow> reg vm | Inl _ \<Rightarrow> rg)"
  "effect (ENC_RRI (op_number h) a b c) rg =
     (case exec_op undefined h (vm_zero\<lparr>reg := rg\<rparr>) (ENC_RRI (op_number h) a b c) of Inr vm \<Rightarrow> reg vm | Inl _ \<Rightarrow> rg)"
  by (simp_all add: effect_def handler_index_nth(1))

lemma arithmetic_test_passes: "test_arithmetic_and_div_by_zero True now env = Inr 0"
proof -
  let ?p = "[ENC_RRR (op_number OP_ADD) 10 1 2, ENC_RRI (op_number OP_SUB) 11 1 2, ENC_RRR (op_number OP_MUL) 12 1 2,
           ENC_RRI (op_number OP_DIV) 13 1 3, ENC_RRI (op_number OP_DIV) 14 1 0, ENC_RRR (op_number OP_NOP) 0 0 0]"
  let ?vm = "set_reg 2 5 (set_reg 1 12 (new_vm now))"
  have ok: "\<forall>w \<in> set ?p. safe_word w \<and> w \<noteq> 0"
    by (simp add: safe_ops_def) (simp add: op_number_index handler_index_def default_op_ex_def ENC_RRR_def ENC_RRI_def)
  obtain vm1 vm' where r: "load_program_words 0x2000 ?p ?vm = Inr vm1" "reg vm' = fold effect ?p (reg ?vm)"
    "vm_run_for_test env 0x2000 (length ?p) 32 vm1 = Inr (vm', of_nat (length ?p), 0)"
    using finished_run [OF _ ok, of "0x2000" 32 ?vm env] by (auto simp: set_reg_def new_vm_op_ex)
  then show ?thesis
    unfolding test_arithmetic_and_div_by_zero_def vm_create_new if_True assert_run Let_def
    by (simp add: assert_run set_reg_def op_add_def op_sub_def op_mul_def op_div_def op_nop_def SetA_val_def Bv_def Cv_or_imm_def)
qed

lemma bitwise_tests_pass: "test_and_or_xor True now env = Inr 0" "test_not_operation True now env = Inr 0"
proof -
  let ?p = "[ENC_RRR (op_number OP_AND) 3 1 2, ENC_RRR (op_number OP_OR) 4 1 2, ENC_RRR (op_number OP_XOR) 5 1 2]"
  let ?vm = "set_reg 2 0x0FF00FF0 (set_reg 1 0xF0F0F0F0 (new_vm now))"
  have ok: "\<forall>w \<in> set ?p. safe_word w \<and> w \<noteq> 0"
    by (simp add: safe_ops_def) (simp add: op_number_index handler_index_def default_op_ex_def ENC_RRR_def)
  obtain vm1 vm' where r: "load_program_words 0x3000 (?p @ [halt_word]) ?vm = Inr vm1" "reg vm' = fold effect ?p (reg ?vm)"
    "vm_run_for_test env 0x3000 (length ?p + 1) 16 vm1 = Inr (vm', of_nat (length ?p + 1), 0)"
    using halting_run [OF _ ok, of "0x3000" 16 ?vm env] by (auto simp: set_reg_def new_vm_op_ex)
  then show "test_and_or_xor True now env = Inr 0"
    unfolding test_and_or_xor_def vm_create_new if_True assert_run Let_def
    by (simp add: assert_run set_reg_def op_and_def op_or_def op_xor_def SetA_val_def Bv_def Cv_or_imm_def numeral_2_eq_2 [symmetric])
next
  let ?p = "[ENC_RRR (op_number OP_NOT) 2 1 0]" and ?vm = "set_reg 1 0 (new_vm now)"
  have ok: "\<forall>w \<in> set ?p. safe_word w \<and> w \<noteq> 0"
    by (simp add: safe_ops_def) (simp add: op_number_index handler_index_def default_op_ex_def ENC_RRR_def)
  obtain vm1 vm' where r: "load_program_words 0x3000 (?p @ [halt_word]) ?vm = Inr vm1" "reg vm' = fold effect ?p (reg ?vm)"
    "vm_run_for_test env 0x3000 (length ?p + 1) 16 vm1 = Inr (vm', of_nat (length ?p + 1), 0)"
    using halting_run [OF _ ok, of "0x3000" 16 ?vm env] by (auto simp: set_reg_def new_vm_op_ex)
  then show "test_not_operation True now env = Inr 0"
    unfolding test_not_operation_def vm_create_new if_True assert_run Let_def
    by (simp add: assert_run set_reg_def op_not_def SetA_val_def Bv_def Cv_or_imm_def numeral_2_eq_2 [symmetric])
qed

text \<open>The program of the control flow test does what its comments say except that the registers of a new machine are 0: register 5 ends as 7.\<close>

lemma deterministic_program_fails: "run_deterministic_program True now env rest = Inr 1"
proof -
  let ?add = "ENC_RRI (op_number OP_ADD) 5 0 7" and ?jmp = "ENC_RRR (op_number OP_JMP_IF) 0 20 21"
  let ?vs = "[?jmp, ENC_RRI (op_number OP_ADD) 6 0 99, ENC_RRR (op_number OP_NOP) 0 0 0, halt_word]"
  let ?vm = "set_reg 21 1 (set_reg 20 0x3010 (new_vm now))"
  have nz: "?add \<noteq> 0" "?jmp \<noteq> 0"
    by (simp_all add: op_number_index handler_index_def default_op_ex_def ENC_RRR_def ENC_RRI_def)
  have ok: "\<forall>w \<in> set [?add]. safe_word w \<and> w \<noteq> 0" using nz(1) by (simp add: safe_ops_def)
  have table: "op_ex ?vm = map Some default_op_ex @ replicate 60 None" by (simp add: set_reg_def new_vm_op_ex)
  have len: "unat (0x3000 :: u32) + 4 * length ([?add] @ ?vs) \<le> VM_MEM_BYTES" "length [?add] < unat (16 :: u32)" by simp_all
  obtain m vm' where r: "load_program_words 0x3000 ([?add] @ ?vs) ?vm = Inr (?vm\<lparr>mem := m, PC_START := 0x3000, PC := 0x3000\<rparr>)"
    "vm_run_for_test env 0x3000 (length ([?add] @ ?vs)) 16 (?vm\<lparr>mem := m, PC_START := 0x3000, PC := 0x3000\<rparr>) =
      test_loop env 0x3000 (0x3000 + of_nat (4 * length ([?add] @ ?vs))) (Suc (unat (16 :: u32) - length [?add] - 1)) (of_nat (length [?add])) vm'"
    "vm' = ?vm\<lparr>mem := m, PC_START := 0x3000, running := True, reg := fold effect [?add] (reg ?vm), PC := 0x3000 + of_nat (4 * length [?add])\<rparr>"
    "words_at m (unat (0x3000 :: u32) + 4 * length [?add]) ?vs"
    by (rule run_to [OF len(1) ok len(2) table])
  have l5: "length ([?add] @ ?vs) = 5" by simp
  have regs: "reg vm' 5 = 7" "reg vm' 20 = 0x3010" "reg vm' 21 = 1"
    by (simp_all add: r(3) set_reg_def op_add_def SetA_val_def Bv_def Cv_or_imm_def)
  let ?vm1 = "vm'\<lparr>PC := 0x3010\<rparr>"
  have "vm_step_for_test (env 1) 0x3000 0x3014 vm' = Inr (?vm1, 0)"
    using r(3,4) nz table regs
    by (subst test_step [where h = OP_JMP_IF and w = ?jmp]) (simp_all add: op_jmp_if_def jump_target_def Bv_def Cv_def)
  moreover have "test_loop env 0x3000 0x3014 (Suc n) 2 ?vm1 =
      Inr (?vm1\<lparr>running := False, stop_requested := True, PC := 0x3014\<rparr>, 3, 0)" for n
    using r(3,4) halt_word_nonzero table by (subst test_halt [where w = halt_word]) simp_all
  ultimately have "test_loop env 0x3000 0x3014 (Suc (Suc n)) 1 vm' =
      Inr (?vm1\<lparr>running := False, stop_requested := True, PC := 0x3014\<rparr>, 3, 0)" for n
    using r(3) by simp
  from this [of 13] have "vm_run_for_test env 0x3000 5 16 (?vm\<lparr>mem := m, PC_START := 0x3000, PC := 0x3000\<rparr>) =
      Inr (?vm1\<lparr>running := False, stop_requested := True, PC := 0x3014\<rparr>, 3, 0)"
    using r(2) unfolding l5 by (simp del: test_loop.simps)
  then show ?thesis
    using r(1) regs(1) unfolding run_deterministic_program_def vm_create_new if_True assert_run Let_def
    by (simp add: assert_run numeral_2_eq_2 [symmetric])
qed

lemma memory_tests_pass: "test_vm_memory_roundtrip True now = Inr 0" "test_memory_endianness_consistency True now = Inr 0"
  "test_demux_writes_inside_bounds True now env1 = Inr 0" "test_demux_out_of_bounds_safe True now env1 = Inr 0"
  "test_demux_out_of_bounds_is_ignored True now env1 = Inr 0" "test_vm_memory_little_endian_roundtrip True now = Inr 0"
proof -
  have le: "put_word m 0x100 0x11223344 0x100 = 0x44" "put_word m 0x100 0x11223344 0x101 = 0x33"
    "put_word m 0x100 0x11223344 0x102 = 0x22" "put_word m 0x100 0x11223344 0x103 = 0x11" for m
    by (simp_all add: put_word_def)
  show "test_vm_memory_roundtrip True now = Inr 0"
    by (simp add: test_vm_memory_roundtrip_def test_steps vm_mw32_ok vm_mr32_ok cong: step_cong)
  show "test_memory_endianness_consistency True now = Inr 0" "test_vm_memory_little_endian_roundtrip True now = Inr 0"
    by (simp_all add: test_memory_endianness_consistency_def test_vm_memory_little_endian_roundtrip_def test_steps vm_mw32_ok vm_mr32_ok le
        cong: step_cong)
  have demux: "call_op env1 (unat (op_number OP_DEMUX)) w vm = op_demux vm w"
    if "op_ex vm = map Some default_op_ex @ replicate 60 None" for vm w
    using that by (simp add: call_op_def op_number_index handler_index_def default_op_ex_def nth_append)
  show "test_demux_writes_inside_bounds True now env1 = Inr 0" "test_demux_out_of_bounds_safe True now env1 = Inr 0"
    "test_demux_out_of_bounds_is_ignored True now env1 = Inr 0"
    by (simp_all add: test_demux_writes_inside_bounds_def test_demux_out_of_bounds_safe_def test_demux_out_of_bounds_is_ignored_def
        test_steps demux new_vm_op_ex op_demux_def element_addr_def vm_mw32_ok vm_mr32_ok cong: step_cong)
qed

text \<open>The accesses across the end of the memory, which the test expects to be harmless, go past the array.\<close>

lemma memory_bounds_tests_fault:
  "test_vm_memory_write_out_of_bounds_safe True now = Inl Out_Of_Bounds" "test_vm_memory_read_out_of_bounds_safe True now = Inl Out_Of_Bounds"
  by (simp_all add: test_vm_memory_write_out_of_bounds_safe_def test_vm_memory_read_out_of_bounds_safe_def test_steps vm_mw32_def vm_mr32_def
      store8_def load8_def cong: step_cong)

lemma invalid_opcode_test_passes: "test_invalid_opcode_stops_execution True now env1 = Inr 0"
proof -
  have "OPC (ENC_RRR 100 1 2 3) = 100" by simp
  moreover have "ENC_RRR 100 1 2 3 \<noteq> 0" by (simp add: ENC_RRR_def)
  ultimately show ?thesis
    by (simp add: test_invalid_opcode_stops_execution_def test_steps load_program_words_def vm_mw32_ok vm_mr32_ok vm_step_for_test_def
        new_vm_op_ex nth_append default_op_ex_def OPCODE_COUNT_def cong: step_cong)
qed

lemma instruction_test_mains:
  assumes "\<And>i. ok i"
  shows "arithmetic_test_main True now0 env = Inr 0" "bitwise_test_main ok now env = Inr 0" "safety_memory_test_main ok now env1 = Inr 0"
    and "control_flow_test_main ok now env = Inr 1" "memory_load_store_test_main ok now env1 = Inl Out_Of_Bounds"
  using assms
  by (simp_all add: arithmetic_test_main_def bitwise_test_main_def safety_memory_test_main_def control_flow_test_main_def
      memory_load_store_test_main_def arithmetic_test_passes bitwise_tests_pass invalid_opcode_test_passes memory_tests_pass
      memory_bounds_tests_fault test_control_flow_and_halt_step_count_def deterministic_program_fails assert_run)

end
