(* ===== verification/StraightLine.thy ===== *)
theory StraightLine
  imports InstructionTests Control
begin

text \<open>
  Straight-line code in the runtime: a module of register operations, without a jump, a memory access or a block, computes the
  composition of the effects of its words, in every state of the decode cache, the log, the clock and the statistics.  So the
  small interpreter of the tests and the runtime compute the same registers.
\<close>

section \<open>One instruction\<close>

lemma log_before_fields:
  "reg (fst (log_before vm pc w)) = reg vm" "PC (fst (log_before vm pc w)) = PC vm" "config (fst (log_before vm pc w)) = config vm"
  "mem (fst (log_before vm pc w)) = mem vm" "running (fst (log_before vm pc w)) = running vm"
  "decoded_cache (fst (log_before vm pc w)) = decoded_cache vm"
  by (simp_all add: fst_log_before)

lemma execute_returns:
  assumes "exec_op (ie_op e) h (fst (log_before vm (PC vm) w)) w = Inr vm1" "PC vm1 = PC vm" "\<not> enable_tick_timing (config vm1)"
  shows "\<exists>vm'. execute e h vm w (decode w) = Inr vm' \<and> reg vm' = reg vm1 \<and> PC vm' = PC vm + 4 \<and>
    mem vm' = mem vm1 \<and> running vm' = running vm1 \<and> decoded_cache vm' = decoded_cache vm1"
proof -
  let ?vm = "vm1\<lparr>PC := PC vm + 4, perf := add_perf e (perf vm1)\<rparr>"
  obtain t n where u: "vm_update_time_after_instruction (ie_now e) ?vm = ?vm\<lparr>time_ms := t, instr_ns_accum := n\<rparr>"
    using update_time_frame by blast
  have "execute e h vm w (decode w) = Inr (vm_update_time_after_instruction (ie_now e) ?vm)"
    using assms by (simp add: execute_def vm_wait_for_tick_def decode_def Let_def)
  then show ?thesis unfolding u by (intro exI [of _ "?vm\<lparr>time_ms := t, instr_ns_accum := n\<rparr>"]) simp
qed

lemma execute_safe:
  assumes "h \<in> set safe_ops" "unat (OPC w) = handler_index h" "\<not> enable_tick_timing (config vm)"
  shows "\<exists>vm'. execute e h vm w (decode w) = Inr vm' \<and> reg vm' = effect w (reg vm) \<and> PC vm' = PC vm + 4 \<and>
    mem vm' = mem vm \<and> running vm' = running vm \<and> decoded_cache vm' = decoded_cache vm"
  using execute_returns [OF safe_handler_effect [OF assms(1,2)], of vm e] assms(3) by (simp add: log_before_fields)

lemma execute_halt:
  assumes "\<not> enable_tick_timing (config vm)"
  shows "\<exists>vm'. execute e OP_HALT vm w (decode w) = Inr vm' \<and> reg vm' = reg vm \<and> \<not> running vm'"
proof -
  have "exec_op (ie_op e) OP_HALT (fst (log_before vm (PC vm) w)) w =
      Inr ((fst (log_before vm (PC vm) w))\<lparr>running := False, stop_requested := True\<rparr>)"
    by (simp add: op_halt_def)
  from execute_returns [OF this] assms show ?thesis by (auto simp: log_before_fields)
qed

lemma handler_of_safe:
  assumes "unat (OPC w) = handler_index h" "op_ex vm = map Some default_op_ex @ replicate 60 None"
  shows "handler_of vm w = Some h"
  using assms handler_index_nth [of h] by (simp add: nth_append OPCODE_COUNT_def)

text \<open>What the step keeps.\<close>

definition plain_step :: "vm_state \<Rightarrow> vm_state \<Rightarrow> bool" where
  "plain_step vm vm' \<longleftrightarrow> vm_ok vm' \<and> cache_current vm' \<and> mem vm' = mem vm \<and> running vm' = running vm \<and> run_frame vm vm'"

lemma safe_instruction:
  assumes "vm_ok (r_vm r)" "cache_current (r_vm r)" "env_ok e" "ie_malloc e" "\<not> enable_tick_timing (config (r_vm r))"
    and "module_inside m" "\<not> outside m (mod_addr m + mod_size m) (r_vm r)"
    and "word_at (mem (r_vm r)) (unat (PC (r_vm r))) = w" "w \<noteq> 0" "safe_word w"
    and "op_ex (r_vm r) = map Some default_op_ex @ replicate 60 None"
  shows "\<exists>vm'. vm_run_instruction e m (mod_addr m + mod_size m) r = Inr (r\<lparr>r_vm := vm', r_count := r_count r + 1, r_total := r_total r + 1\<rparr>, 0) \<and>
    plain_step (r_vm r) vm' \<and> reg vm' = effect w (reg (r_vm r)) \<and> PC vm' = PC (r_vm r) + 4"
proof -
  obtain h where h: "h \<in> set safe_ops" "unat (OPC w) = handler_index h" using assms(10) by (auto simp: safe_word_def)
  have pc: "unat (PC (r_vm r)) + 4 \<le> VM_MEM_BYTES" by (rule module_end_inside [OF assms(6)]) (use assms(7) in \<open>simp add: not_le\<close>)
  have room: "cache_room (r_vm r)" using cache_sane_room assms(1) by (auto simp: cache_room_def vm_ok_def)
  have hd: "handler_of (r_vm r) w = Some h" by (rule handler_of_safe [OF h(2) assms(11)])
  obtain c where c: "cache_current ((r_vm r)\<lparr>decoded_cache := c\<rparr>)"
    "vm_run_instruction e m (mod_addr m + mod_size m) r = bindR (execute e h ((r_vm r)\<lparr>decoded_cache := c\<rparr>) w (decode w))
       (\<lambda>vm. Inr (r\<lparr>r_vm := vm, r_count := r_count r + 1, r_total := r_total r + 1\<rparr>, 0))"
    using run_instruction_step [OF assms(7) pc assms(8,9,2) room assms(3,4) hd] by blast
  let ?vm = "(r_vm r)\<lparr>decoded_cache := c\<rparr>"
  have "\<not> enable_tick_timing (config ?vm)" using assms(5) by simp
  from execute_safe [OF h this, of e] obtain vm' where x: "execute e h ?vm w (decode w) = Inr vm'"
      "reg vm' = effect w (reg (r_vm r))" "PC vm' = PC (r_vm r) + 4" "mem vm' = mem (r_vm r)" "running vm' = running (r_vm r)"
      "decoded_cache vm' = c"
    by auto
  then have run: "vm_run_instruction e m (mod_addr m + mod_size m) r = Inr (r\<lparr>r_vm := vm', r_count := r_count r + 1, r_total := r_total r + 1\<rparr>, 0)"
    using c(2) by simp
  have "cache_current vm'" using c(1) x(4,6) by (simp add: cache_current_def)
  then show ?thesis
    using run x run_instruction_ok [OF run assms(1,3)] by (auto simp: plain_step_def)
qed

section \<open>A module\<close>

lemma run_loop_step:
  assumes "running (r_vm r)" "r_count r < MAX_INSTRUCTIONS"
    and "vm_run_instruction (env (unat (r_count r))) m fin r = Inr (r', 0)"
  shows "run_loop env m fin r = run_loop env m fin r'"
  using assms by (simp add: run_loop.simps [of env m fin r])

lemma run_loop_prefix:
  assumes "vm_ok (r_vm r)" "cache_current (r_vm r)" "\<forall>k. env_ok (env k) \<and> ie_malloc (env k)" "\<not> enable_tick_timing (config (r_vm r))"
    and "module_inside m" "mod_addr m \<le> PC (r_vm r)" "unat (PC (r_vm r)) + 4 * length ws \<le> unat (mod_addr m) + unat (mod_size m)"
    and "words_at (mem (r_vm r)) (unat (PC (r_vm r))) ws" "\<forall>w \<in> set ws. safe_word w \<and> w \<noteq> 0" "running (r_vm r)"
    and "op_ex (r_vm r) = map Some default_op_ex @ replicate 60 None" "unat (r_count r) + length ws \<le> 100000"
  shows "\<exists>r'. run_loop env m (mod_addr m + mod_size m) r = run_loop env m (mod_addr m + mod_size m) r' \<and>
    plain_step (r_vm r) (r_vm r') \<and> reg (r_vm r') = fold effect ws (reg (r_vm r)) \<and>
    unat (PC (r_vm r')) = unat (PC (r_vm r)) + 4 * length ws \<and> unat (r_count r') = unat (r_count r) + length ws \<and> r_out r' = r_out r"
  using assms
proof (induction ws arbitrary: r)
  case Nil
  then show ?case by (intro exI [of _ r]) (simp add: plain_step_def)
next
  case (Cons w ws)
  let ?fin = "mod_addr m + mod_size m"
  have fin: "unat ?fin = unat (mod_addr m) + unat (mod_size m)"
    using Cons.prems(5) by (simp add: module_inside_def unat_word_ariths)
  then have inside: "\<not> outside m ?fin (r_vm r)"
    using Cons.prems(6,7) by (simp add: word_le_nat_alt word_less_nat_alt)
  have word: "word_at (mem (r_vm r)) (unat (PC (r_vm r))) = w" "w \<noteq> 0" "safe_word w" using Cons.prems(8,9) by simp_all
  obtain vm' where step: "vm_run_instruction (env (unat (r_count r))) m ?fin r =
      Inr (r\<lparr>r_vm := vm', r_count := r_count r + 1, r_total := r_total r + 1\<rparr>, 0)"
    "plain_step (r_vm r) vm'" "reg vm' = effect w (reg (r_vm r))" "PC vm' = PC (r_vm r) + 4"
    using safe_instruction [OF Cons.prems(1,2) _ _ Cons.prems(4,5) inside word Cons.prems(11)] Cons.prems(3) by blast
  let ?r = "r\<lparr>r_vm := vm', r_count := r_count r + 1, r_total := r_total r + 1\<rparr>"
  have count: "r_count r < MAX_INSTRUCTIONS" "unat (r_count r + 1) = unat (r_count r) + 1"
    using Cons.prems(12) by (simp_all add: MAX_INSTRUCTIONS_def word_less_nat_alt unat_word_ariths)
  have pc: "unat (PC (r_vm r) + 4) = unat (PC (r_vm r)) + 4"
    using Cons.prems(5,7) unat_add_small [of "PC (r_vm r)" 4] by (simp add: module_inside_def)
  have kept: "vm_ok vm'" "cache_current vm'" "mem vm' = mem (r_vm r)" "running vm' = running (r_vm r)" "config vm' = config (r_vm r)"
      "op_ex vm' = op_ex (r_vm r)" "run_frame (r_vm r) vm'"
    using step(2) by (simp_all add: plain_step_def run_frame_def)
  have "\<exists>r'. run_loop env m ?fin ?r = run_loop env m ?fin r' \<and>
    plain_step (r_vm ?r) (r_vm r') \<and> reg (r_vm r') = fold effect ws (reg (r_vm ?r)) \<and>
    unat (PC (r_vm r')) = unat (PC (r_vm ?r)) + 4 * length ws \<and> unat (r_count r') = unat (r_count ?r) + length ws \<and> r_out r' = r_out ?r"
    using Cons.prems kept step(4) pc count by (intro Cons.IH) (simp_all add: word_le_nat_alt)
  moreover have "run_loop env m ?fin r = run_loop env m ?fin ?r"
    by (rule run_loop_step [where env = env, OF Cons.prems(10) count(1) step(1)])
  ultimately show ?case
    using kept step(3,4) pc count(2) by (auto simp: plain_step_def intro: run_frame_trans)
qed

text \<open>The last step: a HALT at the program counter ends the loop.\<close>

lemma halting_loop:
  assumes "vm_ok (r_vm r)" "cache_current (r_vm r)" "\<forall>k. env_ok (env k) \<and> ie_malloc (env k)" "\<not> enable_tick_timing (config (r_vm r))"
    and "running (r_vm r)" "r_count r < MAX_INSTRUCTIONS" "op_ex (r_vm r) = map Some default_op_ex @ replicate 60 None"
    and "\<not> outside m fin (r_vm r)" "unat (PC (r_vm r)) + 4 \<le> VM_MEM_BYTES"
    and "word_at (mem (r_vm r)) (unat (PC (r_vm r))) = halt_word"
  shows "\<exists>vm'. run_loop env m fin r = Inr (r\<lparr>r_vm := vm', r_count := r_count r + 1, r_total := r_total r + 1\<rparr>) \<and>
    reg vm' = reg (r_vm r) \<and> \<not> running vm'"
proof -
  have room: "cache_room (r_vm r)" using cache_sane_room assms(1) by (auto simp: cache_room_def vm_ok_def)
  have hd: "handler_of (r_vm r) halt_word = Some OP_HALT" using assms(7) by (intro handler_of_safe) simp_all
  obtain c where c: "vm_run_instruction (env (unat (r_count r))) m fin r =
      bindR (execute (env (unat (r_count r))) OP_HALT ((r_vm r)\<lparr>decoded_cache := c\<rparr>) halt_word (decode halt_word))
       (\<lambda>vm. Inr (r\<lparr>r_vm := vm, r_count := r_count r + 1, r_total := r_total r + 1\<rparr>, 0))"
    using run_instruction_step [OF assms(8-10) halt_word_nonzero assms(2) room _ _ hd, of "env (unat (r_count r))"] assms(3) by blast
  have "\<not> enable_tick_timing (config ((r_vm r)\<lparr>decoded_cache := c\<rparr>))" using assms(4) by simp
  from execute_halt [OF this, of "env (unat (r_count r))" halt_word] obtain vm' where x:
    "vm_run_instruction (env (unat (r_count r))) m fin r = Inr (r\<lparr>r_vm := vm', r_count := r_count r + 1, r_total := r_total r + 1\<rparr>, 0)"
    "reg vm' = reg (r_vm r)" "\<not> running vm'"
    using c by auto
  let ?r' = "r\<lparr>r_vm := vm', r_count := r_count r + 1, r_total := r_total r + 1\<rparr>"
  have "run_loop env m fin r = run_loop env m fin ?r'" by (rule run_loop_step [where env = env, OF assms(5,6) x(1)])
  also have "\<dots> = Inr ?r'" using x(3) by (simp add: run_loop.simps [of env m fin ?r'])
  finally show ?thesis using x(2,3) by blast
qed

lemma halting_module:
  assumes "vm_ok (r_vm r)" "cache_current (r_vm r)" "\<forall>k. env_ok (env k) \<and> ie_malloc (env k)" "\<not> enable_tick_timing (config (r_vm r))"
    and "modules (r_vm r) \<noteq> None" "modules (r_vm r) \<noteq> Some []"
    and "module_inside m" "unat (mod_size m) = 4 * (length ws + 1)" "words_at (mem (r_vm r)) (unat (mod_addr m)) (ws @ [halt_word])"
    and "\<forall>w \<in> set ws. safe_word w \<and> w \<noteq> 0" "op_ex (r_vm r) = map Some default_op_ex @ replicate 60 None" "length ws < 100000"
  shows "\<exists>r'. vm_run_module env m r = Inr r' \<and> reg (r_vm r') = fold effect ws (reg (r_vm r)) \<and>
    unat (r_count r') = length ws + 1 \<and> \<not> running (r_vm r') \<and> r_out r' = r_out r"
proof -
  let ?fin = "mod_addr m + mod_size m"
  let ?r = "r\<lparr>r_vm := (r_vm r)\<lparr>running := True, PC := mod_addr m\<rparr>, r_count := 0\<rparr>"
  have "\<not> (modules (r_vm r) = None \<or> modules (r_vm r) = Some [])" using assms(5,6) by blast
  then have run: "vm_run_module env m r = run_loop env m ?fin ?r" unfolding vm_run_module_def Let_def by (simp only: if_False)
  have start: "vm_ok (r_vm ?r)" "cache_current (r_vm ?r)" using assms(1,2) by (simp_all add: cache_current_def)
  have words: "words_at (mem (r_vm r)) (unat (mod_addr m)) ws" "word_at (mem (r_vm r)) (unat (mod_addr m) + 4 * length ws) = halt_word"
    using assms(9) by (simp_all add: words_at_append)
  have "\<exists>r1. run_loop env m ?fin ?r = run_loop env m ?fin r1 \<and>
    plain_step (r_vm ?r) (r_vm r1) \<and> reg (r_vm r1) = fold effect ws (reg (r_vm ?r)) \<and>
    unat (PC (r_vm r1)) = unat (PC (r_vm ?r)) + 4 * length ws \<and> unat (r_count r1) = unat (r_count ?r) + length ws \<and> r_out r1 = r_out ?r"
    using assms(3,4,7,8,10-12) start words(1) by (intro run_loop_prefix) simp_all
  then obtain r1 where r1: "run_loop env m ?fin ?r = run_loop env m ?fin r1" "plain_step (r_vm ?r) (r_vm r1)"
    "reg (r_vm r1) = fold effect ws (reg (r_vm r))" "unat (PC (r_vm r1)) = unat (mod_addr m) + 4 * length ws"
    "unat (r_count r1) = length ws" "r_out r1 = r_out r"
    by auto
  have kept: "vm_ok (r_vm r1)" "cache_current (r_vm r1)" "mem (r_vm r1) = mem (r_vm r)" "running (r_vm r1)"
      "config (r_vm r1) = config (r_vm r)" "op_ex (r_vm r1) = op_ex (r_vm r)"
    using r1(2) by (simp_all add: plain_step_def run_frame_def)
  have "unat ?fin = unat (mod_addr m) + unat (mod_size m)" using assms(7) by (simp add: module_inside_def unat_word_ariths)
  then have inside: "\<not> outside m ?fin (r_vm r1)" using r1(4) assms(8) by (simp add: word_le_nat_alt word_less_nat_alt)
  have pc: "unat (PC (r_vm r1)) + 4 \<le> VM_MEM_BYTES" using r1(4) assms(7,8) by (simp add: module_inside_def)
  have word: "word_at (mem (r_vm r1)) (unat (PC (r_vm r1))) = halt_word" using r1(4) kept(3) words(2) by simp
  have count: "r_count r1 < MAX_INSTRUCTIONS" "unat (r_count r1 + 1) = length ws + 1"
    using r1(5) assms(12) by (simp_all add: MAX_INSTRUCTIONS_def word_less_nat_alt unat_word_ariths)
  obtain vm' where "run_loop env m ?fin r1 = Inr (r1\<lparr>r_vm := vm', r_count := r_count r1 + 1, r_total := r_total r1 + 1\<rparr>)"
    "reg vm' = reg (r_vm r1)" "\<not> running vm'"
    using halting_loop [OF kept(1,2) assms(3) _ kept(4) count(1) _ inside pc word] kept(5,6) assms(4,11) by auto
  then show ?thesis using run r1(1,3,6) count(2) by simp
qed

text \<open>
  C30 (equivalence).  On straight-line code the interpreter of the tests and the runtime agree: a program of register operations that ends
  with HALT, loaded at any place for the tests and at any place in a module of a machine in order, leaves the same registers in both, namely the
  composition of the effects of its words, and takes the same number of instructions; the decode cache, the log, the statistics, the
  virtual clock and the readings of the clock play no part.
\<close>

theorem harness_agrees_with_runtime:
  assumes "\<forall>w \<in> set ws. safe_word w \<and> w \<noteq> 0" "length ws < 100000"
    and "unat a + 4 * (length ws + 1) \<le> VM_MEM_BYTES" "length ws < unat max_steps"
    and "op_ex vm = map Some default_op_ex @ replicate 60 None" "reg vm = reg (r_vm r)"
    and "vm_ok (r_vm r)" "cache_current (r_vm r)" "\<forall>k. env_ok (env k) \<and> ie_malloc (env k)" "\<not> enable_tick_timing (config (r_vm r))"
    and "modules (r_vm r) = Some ms" "m \<in> set ms" "op_ex (r_vm r) = map Some default_op_ex @ replicate 60 None"
    and "unat (mod_size m) = 4 * (length ws + 1)" "words_at (mem (r_vm r)) (unat (mod_addr m)) (ws @ [ENC_RRR (op_number OP_HALT) 0 0 0])"
  shows "\<exists>vm1 vm' r'. load_program_words a (ws @ [ENC_RRR (op_number OP_HALT) 0 0 0]) vm = Inr vm1 \<and>
    vm_run_for_test test_env a (length ws + 1) max_steps vm1 = Inr (vm', of_nat (length ws + 1), 0) \<and>
    vm_run_module env m r = Inr r' \<and> reg vm' = reg (r_vm r') \<and> reg vm' = fold effect ws (reg vm) \<and>
    unat (r_count r') = length ws + 1 \<and> \<not> running vm' \<and> \<not> running (r_vm r')"
proof -
  obtain vm1 vm' where t: "load_program_words a (ws @ [halt_word]) vm = Inr vm1"
    "vm_run_for_test test_env a (length ws + 1) max_steps vm1 = Inr (vm', of_nat (length ws + 1), 0)" "\<not> running vm'"
    "reg vm' = fold effect ws (reg vm)"
    using halting_run [OF assms(3,1,4,5), of test_env] by blast
  have "module_inside m" using assms(7,11,12) by (auto simp: vm_ok_def modules_inside_def module_inside_def)
  then obtain r' where r: "vm_run_module env m r = Inr r'" "reg (r_vm r') = fold effect ws (reg (r_vm r))"
    "unat (r_count r') = length ws + 1" "\<not> running (r_vm r')"
    using halting_module [OF assms(7-10) _ _ _ assms(14,15,1,13,2)] assms(11,12) by fastforce
  with t r assms(6) show ?thesis by auto
qed

section \<open>A machine with a small program\<close>

definition square_word :: u32 where
  "square_word = ENC_RRR (op_number OP_MUL) 5 1 1"

definition square_module :: module_info where
  "square_module = \<lparr>mod_name = [], mod_addr = 0x3000, mod_size = 8\<rparr>"

definition square_vm :: vm_state where
  "square_vm = vm_zero\<lparr>op_ex := map Some default_op_ex @ replicate 60 None, PC_START := 0x3000, modules := Some [square_module],
     mem := put_word (put_word (\<lambda>_. 0) 0x3000 square_word) 0x3004 halt_word, decoded_cache := Some empty_cache,
     reg := (\<lambda>_. 0)(1 := 12)\<rparr>"

lemma square_vm_ok: "vm_ok square_vm" "cache_current square_vm"
proof -
  have "length (map Some default_op_ex @ replicate 60 None) = OPCODE_COUNT" by (simp add: default_op_ex_def)
  then have "vm_wf square_vm" unfolding square_vm_def by (simp add: wf_intros)
  then show "vm_ok square_vm"
    using empty_cache_ok by (simp add: vm_ok_def cache_sane_def modules_inside_def program_inside_def square_vm_def square_module_def)
      (simp add: vm_zero_def)
  show "cache_current square_vm" using empty_cache_ok by (simp add: cache_current_def square_vm_def)
qed

lemma square_words: "words_at (mem square_vm) 0x3000 [square_word, halt_word]"
proof -
  have "word_at (put_word (put_word m 0x3000 v) 0x3004 w) 0x3000 = word_at (put_word m 0x3000 v) 0x3000" for m v w
    by (rule word_at_agree) (simp add: put_word_other)
  then show ?thesis by (simp add: square_vm_def)
qed

lemma square_vm_fields: "modules square_vm = Some [square_module]" "op_ex square_vm = map Some default_op_ex @ replicate 60 None"
  "reg square_vm = (\<lambda>_. 0)(1 := 12)" "\<not> enable_tick_timing (config square_vm)"
  by (simp_all add: square_vm_def) (simp add: vm_zero_def zero_config_def)

lemma square_word_safe: "\<forall>w \<in> set [square_word]. safe_word w \<and> w \<noteq> 0"
  by (simp add: square_word_def safe_ops_def) (simp add: op_number_index handler_index_def default_op_ex_def ENC_RRR_def)

lemma square_test_vm: "op_ex (set_reg 1 12 (new_vm now)) = map Some default_op_ex @ replicate 60 None"
  "reg (set_reg 1 12 (new_vm now)) = (\<lambda>_. 0)(1 := 12)"
  by (simp_all add: set_reg_def new_vm_op_ex)

theorem harness_agrees_with_runtime_witness:
  "\<exists>vm1 vm' r'. load_program_words 0x2000 ([square_word] @ [ENC_RRR (op_number OP_HALT) 0 0 0]) (set_reg 1 12 (new_vm zero_timespec)) = Inr vm1 \<and>
    vm_run_for_test (\<lambda>_. sample_env) 0x2000 (length [square_word] + 1) 16 vm1 = Inr (vm', of_nat (length [square_word] + 1), 0) \<and>
    vm_run_module (\<lambda>_. sample_instr_env) square_module \<lparr>r_vm = square_vm, r_count = 0, r_total = 0, r_out = []\<rparr> = Inr r' \<and>
    reg vm' = reg (r_vm r') \<and> reg vm' = fold effect [square_word] (reg (set_reg 1 12 (new_vm zero_timespec))) \<and>
    unat (r_count r') = length [square_word] + 1 \<and> \<not> running vm' \<and> \<not> running (r_vm r')"
proof (rule harness_agrees_with_runtime [where ms = "[square_module]", OF square_word_safe])
  show "\<forall>k. env_ok sample_instr_env \<and> ie_malloc sample_instr_env" using sample_env_ok by blast
  show "words_at (mem (r_vm \<lparr>r_vm = square_vm, r_count = 0, r_total = 0, r_out = []\<rparr>)) (unat (mod_addr square_module))
      ([square_word] @ [ENC_RRR (op_number OP_HALT) 0 0 0])"
    using square_words by (simp add: square_module_def del: words_at.simps)
qed (simp_all add: square_vm_ok square_vm_fields square_test_vm, simp add: square_module_def)

end
