(* ===== verification/UnitTests2.thy ===== *)
theory UnitTests2
  imports UnitTests
begin

text \<open>The second half of \<open>tests/unit/funcs_test.c\<close>, and its \<open>main\<close>.\<close>

section \<open>Time and date\<close>

definition ASSERT_EQ_INT :: "int res \<Rightarrow> u32 \<Rightarrow> int res \<Rightarrow> int res" where
  "ASSERT_EQ_INT expected actual rest = bindR expected (\<lambda>n. ASSERT_EQ_U32 (word_of_int n) actual rest)"

text \<open>\<open>t k\<close>: the k-th reading of the local time, the first one by \<open>capture_tm\<close>.\<close>

definition test_time_date_ops :: "bool \<Rightarrow> timespec \<Rightarrow> (nat \<Rightarrow> tm) \<Rightarrow> int res" where
  "test_time_date_ops ok now t =
     ASSERT_NOT_NULL (vm_create ok ok now) (\<lambda>vm.
     let tm_now = t 0; full_year = cadd (Inr (tm_year tm_now)) (Inr 1900); full_month = cadd (Inr (tm_mon tm_now)) (Inr 1) in
     bindR (op_year (t 1) vm (pack_rrr 1 0 0)) (\<lambda>vm. ASSERT_EQ_INT full_year (reg vm 1) (
     bindR (op_month (t 2) vm (pack_rrr 2 0 0)) (\<lambda>vm. ASSERT_EQ_INT full_month (reg vm 2) (
     bindR (op_day (t 3) vm (pack_rrr 3 0 0)) (\<lambda>vm. ASSERT_EQ_INT (Inr (tm_mday tm_now)) (reg vm 3) (
     bindR (op_hour (t 4) vm (pack_rrr 4 0 0)) (\<lambda>vm. ASSERT_EQ_INT (Inr (tm_hour tm_now)) (reg vm 4) (
     bindR (op_minute (t 5) vm (pack_rrr 5 0 0)) (\<lambda>vm. ASSERT_EQ_INT (Inr (tm_min tm_now)) (reg vm 5) (
     bindR (op_second (t 6) vm (pack_rrr 6 0 0)) (\<lambda>vm. ASSERT_EQ_INT (Inr (tm_sec tm_now)) (reg vm 6) (
     bindR (op_time (t 7) vm (pack_rrr 7 0 0)) (\<lambda>vm. ASSERT_EQ_INT
       (cadd (cadd (cmul (Inr (tm_hour tm_now)) 3600) (cmul (Inr (tm_min tm_now)) 60)) (Inr (tm_sec tm_now))) (reg vm 7) (
     bindR (op_date (t 8) vm (pack_rrr 8 0 0)) (\<lambda>vm. ASSERT_EQ_INT
       (cadd (cadd (cmul full_year 10000) (cmul full_month 100)) (Inr (tm_mday tm_now))) (reg vm 8) (
     bindR (op_tod (t 9) vm (pack_rrr 9 0 0)) (\<lambda>vm. ASSERT_EQ_INT
       (cadd (cadd (cmul (Inr (tm_hour tm_now)) 10000) (cmul (Inr (tm_min tm_now)) 100)) (Inr (tm_sec tm_now))) (reg vm 9) (
     bindR (op_dt (t 10) vm (pack_rrr 10 0 0)) (\<lambda>vm. ASSERT_EQ_INT
       (cadd (cadd (cadd (cmul full_year 1000000) (cmul full_month 10000)) (cmul (Inr (tm_mday tm_now)) 100))
         (Inr (tm_hour tm_now))) (reg vm 10) (
     let vm = op_add_time (set_reg 2 250 (set_reg 1 1000 vm)) (pack_rrr 11 1 2) in
     ASSERT_EQ_U32 1250 (reg vm 11) (
     let vm = op_sub_time vm (pack_rrr 12 1 2) in
     ASSERT_EQ_U32 750 (reg vm 12) (Inr 0)))))))))))))))))))))))"

definition sane_tm :: "tm \<Rightarrow> bool" where
  "sane_tm t \<longleftrightarrow> 0 \<le> tm_sec t \<and> tm_sec t \<le> 60 \<and> 0 \<le> tm_min t \<and> tm_min t < 60 \<and> 0 \<le> tm_hour t \<and> tm_hour t < 24 \<and>
     1 \<le> tm_mday t \<and> tm_mday t \<le> 31 \<and> 0 \<le> tm_mon t \<and> tm_mon t < 12 \<and> 0 \<le> tm_year t \<and> tm_year t \<le> 246"

lemma test_time_date_passes:
  assumes "sane_tm (t 0)" "\<forall>k. t k = t 0"
  shows "test_time_date_ops True now t = Inr 0"
proof -
  have same: "t k = t 0" for k using assms(2) by blast
  define Y M D h m s where "Y = tm_year (t 0)" and "M = tm_mon (t 0)" and "D = tm_mday (t 0)"
    and "h = tm_hour (t 0)" and "m = tm_min (t 0)" and "s = tm_sec (t 0)"
  note abbr = Y_def [symmetric] M_def [symmetric] D_def [symmetric] h_def [symmetric] m_def [symmetric] s_def [symmetric]
  have "0 \<le> s" "s \<le> 60" "0 \<le> m" "m < 60" "0 \<le> h" "h < 24" "1 \<le> D" "D \<le> 31" "0 \<le> M" "M < 12" "0 \<le> Y" "Y \<le> 246"
    using assms(1) by (simp_all add: sane_tm_def Y_def M_def D_def h_def m_def s_def)
  then show ?thesis
    unfolding test_time_date_ops_def same [of 1] same [of 2] same [of 3] same [of 4] same [of 5] same [of 6] same [of 7]
      same [of 8] same [of 9] same [of 10]
    by (simp add: test_simps ASSERT_EQ_INT_def op_year_def op_month_def op_day_def op_hour_def op_minute_def op_second_def
        op_time_def op_date_def op_tod_def op_dt_def tm_to_date_def tm_to_tod_def tm_to_dt_def tod_to_seconds_def cadd_def cmul_def
        cint_Inr SetA_int_def op_add_time_def op_sub_time_def abbr)
qed

section \<open>Timers\<close>

definition set_time :: "u64 \<Rightarrow> vm_state \<Rightarrow> vm_state" where
  "set_time t vm = vm\<lparr>time_ms := t\<rparr>"

definition test_ton_tof_tp_ops :: "bool \<Rightarrow> timespec \<Rightarrow> int res" where
  "test_ton_tof_tp_ops ok now =
     ASSERT_NOT_NULL (vm_create ok ok now) (\<lambda>vm.
     let vm = op_ton (set_time 1000 (set_reg 1 1 (set_reg 7 100 vm))) (pack_rri 2 1 7) in
     ASSERT_EQ_U32 0 (reg vm 2) (
     let vm = op_ton (set_reg 2 0 (set_time 1099 vm)) (pack_rri 2 1 7) in
     ASSERT_EQ_U32 0 (reg vm 2) (
     let vm = op_ton (set_reg 2 0 (set_time 1100 vm)) (pack_rri 2 1 7) in
     ASSERT_EQ_U32 1 (reg vm 2) (
     let vm = op_tof (set_reg 1 1 (set_time 2000 (set_reg 8 50 vm))) (pack_rri 3 1 8) in
     ASSERT_EQ_U32 1 (reg vm 3) (
     let vm = op_tof (set_reg 3 0 (set_reg 1 0 (set_time 2010 vm))) (pack_rri 3 1 8) in
     ASSERT_EQ_U32 1 (reg vm 3) (
     let vm = op_tof (set_reg 3 0 (set_time 2060 vm)) (pack_rri 3 1 8) in
     ASSERT_EQ_U32 0 (reg vm 3) (
     let vm = op_tp (set_reg 1 1 (set_time 3000 (set_reg 9 50 vm))) (pack_rri 4 1 9) in
     ASSERT_EQ_U32 1 (reg vm 4) (
     let vm = op_tp (set_reg 4 0 (set_time 3020 vm)) (pack_rri 4 1 9) in
     ASSERT_EQ_U32 1 (reg vm 4) (
     let vm = op_tp (set_reg 4 0 (set_time 3051 vm)) (pack_rri 4 1 9) in
     ASSERT_EQ_U32 0 (reg vm 4) (Inr 0))))))))))"

definition test_timer_invalid_ids_are_safe :: "bool \<Rightarrow> timespec \<Rightarrow> int res" where
  "test_timer_invalid_ids_are_safe ok now =
     ASSERT_NOT_NULL (vm_create ok ok now) (\<lambda>vm.
     let vm = op_ton (set_reg 2 1234 (set_reg 7 100 (set_reg 1 1 vm))) (pack_rri 2 1 255) in
     ASSERT_EQ_U32 1234 (reg vm 2) (
     let vm = op_tof (set_reg 3 5678 vm) (pack_rri 3 1 255) in
     ASSERT_EQ_U32 5678 (reg vm 3) (
     let vm = op_tp (set_reg 4 9999 vm) (pack_rri 4 1 255) in
     ASSERT_EQ_U32 9999 (reg vm 4) (Inr 0))))"

lemma test_timer_invalid_passes: "test_timer_invalid_ids_are_safe True now = Inr 0"
  by (simp add: test_timer_invalid_ids_are_safe_def test_simps op_ton_def op_tof_def op_tp_def)

text \<open>The timers in the course of the test.\<close>

lemma scan_ops:
  "id_ok (ucast c) \<Longrightarrow> length (ton_timers vm) = 16 \<Longrightarrow> op_ton vm (pack_rri a b c) =
    (let k = unat (ucast c :: u8); t = update_ton (time_ms vm) (set_timer (reg vm (ucast b) \<noteq> 0) (reg vm (ucast c)) (ton_timers vm ! k))
     in vm\<lparr>ton_timers := (ton_timers vm)[k := t], reg := (reg vm)(ucast a := if tm_output t then 1 else 0)\<rparr>)"
  "id_ok (ucast c) \<Longrightarrow> length (tof_timers vm) = 16 \<Longrightarrow> op_tof vm (pack_rri a b c) =
    (let k = unat (ucast c :: u8); t = update_tof (time_ms vm) (set_timer (reg vm (ucast b) \<noteq> 0) (reg vm (ucast c)) (tof_timers vm ! k))
     in vm\<lparr>tof_timers := (tof_timers vm)[k := t], reg := (reg vm)(ucast a := if tm_output t then 1 else 0)\<rparr>)"
  "id_ok (ucast c) \<Longrightarrow> length (tp_timers vm) = 16 \<Longrightarrow> op_tp vm (pack_rri a b c) =
    (let k = unat (ucast c :: u8); t = update_tp (time_ms vm) (set_timer (reg vm (ucast b) \<noteq> 0) (reg vm (ucast c)) (tp_timers vm ! k))
     in vm\<lparr>tp_timers := (tp_timers vm)[k := t], reg := (reg vm)(ucast a := if tm_output t then 1 else 0)\<rparr>)"
  by (simp_all add: op_ton_def op_tof_def op_tp_def ton_set_def tof_set_def tp_set_def ton_Q_def tof_Q_def tp_Q_def
      id_ok_def ucast_and_FF Let_def)

definition timing :: "u32 \<Rightarrow> u64 \<Rightarrow> IEC_Timer" where
  "timing pt start = zero_timer\<lparr>tm_enabled := True, tm_input := True, tm_prev_input := True, tm_timing := True, preset_ms := pt,
     tm_start := \<lparr>tv_sec = start, tv_nsec = 0\<rparr>\<rparr>"

definition falling :: IEC_Timer where
  "falling = zero_timer\<lparr>tm_enabled := True, tm_output := True, tm_timing := True, preset_ms := 50,
     tm_start := \<lparr>tv_sec = 2, tv_nsec = 10000000\<rparr>\<rparr>"

lemmas timer_calc = set_timer_def zero_timer_def timing_def falling_def timespec_of_ms_def ms_diff_def update_ton_def update_tof_def
  update_tp_def

lemma ton_course:
  "update_ton 1000 (set_timer True 100 zero_timer) = timing 100 1"
  "update_ton 1099 (set_timer True 100 (timing 100 1)) = (timing 100 1)\<lparr>ET := 99\<rparr>"
  "update_ton 1100 (set_timer True 100 ((timing 100 1)\<lparr>ET := 99\<rparr>)) = (timing 100 1)\<lparr>ET := 100, tm_output := True, tm_timing := False\<rparr>"
  by (simp_all add: timer_calc)

lemma tof_course:
  "update_tof 2000 (set_timer True 50 zero_timer) =
    zero_timer\<lparr>tm_enabled := True, tm_input := True, tm_prev_input := True, tm_output := True, preset_ms := 50\<rparr>"
  "update_tof 2010 (set_timer False 50 (zero_timer\<lparr>tm_enabled := True, tm_input := True, tm_prev_input := True, tm_output := True,
    preset_ms := 50\<rparr>)) = falling"
  "update_tof 2060 (set_timer False 50 falling) = falling\<lparr>ET := 50, tm_output := False, tm_timing := False\<rparr>"
  by (simp_all add: timer_calc)

lemma tp_course:
  "update_tp 3000 (set_timer True 50 zero_timer) = (timing 50 3)\<lparr>tm_output := True\<rparr>"
  "update_tp 3020 (set_timer True 50 ((timing 50 3)\<lparr>tm_output := True\<rparr>)) = (timing 50 3)\<lparr>tm_output := True, ET := 20\<rparr>"
  "update_tp 3051 (set_timer True 50 ((timing 50 3)\<lparr>tm_output := True, ET := 20\<rparr>)) = (timing 50 3)\<lparr>ET := 51, tm_timing := False\<rparr>"
  by (simp_all add: timer_calc)

lemma course_outputs:
  "\<not> tm_output zero_timer" "\<not> tm_output (timing pt s)" "tm_output falling"
  by (simp_all add: timer_calc)

lemma test_ton_passes: "test_ton_tof_tp_ops True now = Inr 0"
  by (simp add: test_ton_tof_tp_ops_def test_steps set_time_def scan_ops id_ok_def ton_course tof_course tp_course course_outputs
      cong: step_cong)

section \<open>Counters\<close>

definition test_ctu_ctd_ctud_ops :: "bool \<Rightarrow> timespec \<Rightarrow> int res" where
  "test_ctu_ctd_ctud_ops ok now =
     ASSERT_NOT_NULL (vm_create ok ok now) (\<lambda>vm.
     let vm = op_ctu (set_reg 3 0 (set_reg 2 0 vm)) (pack_rri 2 3 2) in
     ASSERT_EQ_U32 0 (ct_value (ctu_counters vm ! 0)) (ASSERT_EQ_U32 0 (reg vm 2) (
     let vm = op_ctu (set_reg 3 1 (set_reg 2 0 vm)) (pack_rri 2 3 2) in
     ASSERT_EQ_U32 1 (ct_value (ctu_counters vm ! 0)) (ASSERT_EQ_U32 0 (reg vm 2) (
     let vm = op_ctu (set_reg 3 0 (set_reg 2 0 vm)) (pack_rri 2 3 2) in
     ASSERT_EQ_U32 1 (ct_value (ctu_counters vm ! 0)) (
     let vm = op_ctu (set_reg 3 1 (set_reg 2 0 vm)) (pack_rri 2 3 2) in
     ASSERT_EQ_U32 2 (ct_value (ctu_counters vm ! 0)) (ASSERT_EQ_U32 1 (reg vm 2) (
     let vm = vm\<lparr>ctd_counters := (ctd_counters vm)[1 := (ctd_counters vm ! 1)\<lparr>ct_value := 3\<rparr>]\<rparr>;
         vm = op_ctd (set_reg 3 0 (set_reg 2 1 vm)) (pack_rri 2 3 1) in
     ASSERT_EQ_U32 3 (ct_value (ctd_counters vm ! 1)) (
     let vm = op_ctd (set_reg 3 1 (set_reg 2 1 vm)) (pack_rri 2 3 1) in
     ASSERT_EQ_U32 2 (ct_value (ctd_counters vm ! 1)) (ASSERT_EQ_U32 0 (reg vm 2) (
     let vm = op_ctd (set_reg 3 0 (set_reg 2 1 vm)) (pack_rri 2 3 1);
         vm = op_ctd (set_reg 3 1 (set_reg 2 1 vm)) (pack_rri 2 3 1) in
     ASSERT_EQ_U32 1 (ct_value (ctd_counters vm ! 1)) (ASSERT_EQ_U32 1 (reg vm 2) (
     let vm = vm\<lparr>ctud_counters := (ctud_counters vm)[2 := (ctud_counters vm ! 2)\<lparr>ct_value := 1\<rparr>]\<rparr>;
         vm = op_ctud (set_reg 4 0 (set_reg 3 1 (set_reg 2 2 vm))) (pack_rrr 2 3 4) in
     ASSERT_EQ_U32 2 (ct_value (ctud_counters vm ! 2)) (ASSERT_EQ_U32 2 (reg vm 2) (
     let vm = op_ctud (set_reg 4 1 (set_reg 3 0 (set_reg 2 2 vm))) (pack_rrr 2 3 4) in
     ASSERT_EQ_U32 1 (ct_value (ctud_counters vm ! 2)) (ASSERT_EQ_U32 1 (reg vm 2) (Inr 0)))))))))))))))))"

definition test_counter_invalid_ids_are_safe :: "bool \<Rightarrow> timespec \<Rightarrow> int res" where
  "test_counter_invalid_ids_are_safe ok now =
     ASSERT_NOT_NULL (vm_create ok ok now) (\<lambda>vm.
     let bad = of_nat (MAX_TIMERS + 1) in
     let vm = op_ctu (set_reg 3 1 (set_reg 2 bad vm)) (pack_rri 2 3 1) in
     ASSERT_EQ_U32 bad (reg vm 2) (
     let vm = op_ctd (set_reg 3 1 (set_reg 2 bad vm)) (pack_rri 2 3 1) in
     ASSERT_EQ_U32 bad (reg vm 2) (
     let vm = op_ctud (set_reg 4 0 (set_reg 3 1 (set_reg 2 bad vm))) (pack_rrr 2 3 4) in
     ASSERT_EQ_U32 bad (reg vm 2) (Inr 0))))"

lemma test_counter_invalid_passes: "test_counter_invalid_ids_are_safe True now = Inr 0"
  by (simp add: test_counter_invalid_ids_are_safe_def test_simps op_ctu_def op_ctd_def op_ctud_def bad_id_iff)

lemma test_counters_passes: "test_ctu_ctd_ctud_ops True now = Inr 0"
  by (simp add: test_ctu_ctd_ctud_ops_def test_steps op_ctu_def op_ctd_def op_ctud_def bad_id_iff zero_counter_def cong: step_cong)
    (simp add: word_le_nat_alt)

section \<open>Selection\<close>

definition test_limit_sel_mux_ops :: "bool \<Rightarrow> timespec \<Rightarrow> int res" where
  "test_limit_sel_mux_ops ok now =
     ASSERT_NOT_NULL (vm_create ok ok now) (\<lambda>vm.
     let vm = op_limit (set_reg 2 50 (set_reg 1 10 (set_reg 3 100 vm))) (pack_rrr 3 1 2) in
     ASSERT_EQ_U32 50 (reg vm 3) (
     let vm = op_limit (set_reg 3 5 vm) (pack_rrr 3 1 2) in
     ASSERT_EQ_U32 10 (reg vm 3) (
     let vm = op_limit (set_reg 3 20 vm) (pack_rrr 3 1 2) in
     ASSERT_EQ_U32 20 (reg vm 3) (
     bindR (vm_mw32 vm 0x0400 111) (\<lambda>vm. bindR (vm_mw32 vm 0x0404 222) (\<lambda>vm.
     bindR (op_sel (set_reg 2 0x0400 (set_reg 1 1 vm)) (pack_rrr 4 1 2)) (\<lambda>vm.
     ASSERT_EQ_U32 111 (reg vm 4) (
     bindR (op_sel (set_reg 1 0 vm) (pack_rrr 5 1 2)) (\<lambda>vm.
     ASSERT_EQ_U32 222 (reg vm 5) (
     bindR (vm_mw32 vm 0x0500 10) (\<lambda>vm. bindR (vm_mw32 vm 0x0504 20) (\<lambda>vm. bindR (vm_mw32 vm 0x0508 30) (\<lambda>vm.
     bindR (op_mux (set_reg 1 0x0500 vm) (pack_rri 6 1 2)) (\<lambda>vm.
     ASSERT_EQ_U32 30 (reg vm 6) (
     bindR (op_mux (set_reg 1 (of_nat (VM_MEM_BYTES - 4)) vm) (pack_rri 7 1 1000)) (\<lambda>vm.
     ASSERT_EQ_U32 0 (reg vm 7) (Inr 0)))))))))))))))))"

definition test_sel_mux_bounds_are_safe :: "bool \<Rightarrow> timespec \<Rightarrow> int res" where
  "test_sel_mux_bounds_are_safe ok now =
     ASSERT_NOT_NULL (vm_create ok ok now) (\<lambda>vm.
     bindR (op_sel (set_reg 3 777 (set_reg 2 (of_nat VM_MEM_BYTES) (set_reg 1 1 vm))) (pack_rrr 3 1 2)) (\<lambda>vm.
     ASSERT_EQ_U32 0 (reg vm 3) (
     bindR (op_mux (set_reg 4 888 (set_reg 1 (of_nat VM_MEM_BYTES) vm)) (pack_rri 4 1 0)) (\<lambda>vm.
     ASSERT_EQ_U32 0 (reg vm 4) (Inr 0)))))"

section \<open>Edge detectors, latches, demultiplexer\<close>

definition test_edge_ops :: "bool \<Rightarrow> timespec \<Rightarrow> int res" where
  "test_edge_ops ok now =
     ASSERT_NOT_NULL (vm_create ok ok now) (\<lambda>vm.
     let vm = op_rising_edge (set_reg 1 0 vm) (pack_rri 2 1 0) in
     ASSERT_EQ_U32 0 (reg vm 2) (
     let vm = op_rising_edge (set_reg 1 1 vm) (pack_rri 2 1 0) in
     ASSERT_EQ_U32 1 (reg vm 2) (
     let vm = op_rising_edge (set_reg 1 1 vm) (pack_rri 2 1 0) in
     ASSERT_EQ_U32 0 (reg vm 2) (
     let vm = op_falling_edge (set_reg 1 1 vm) (pack_rri 3 1 1) in
     ASSERT_EQ_U32 0 (reg vm 3) (
     let vm = op_falling_edge (set_reg 1 0 vm) (pack_rri 3 1 1) in
     ASSERT_EQ_U32 1 (reg vm 3) (
     let vm = op_edge_both (set_reg 1 0 vm) (pack_rri 4 1 2) in
     ASSERT_EQ_U32 0 (reg vm 4) (
     let vm = op_edge_both (set_reg 1 1 vm) (pack_rri 4 1 2) in
     ASSERT_EQ_U32 1 (reg vm 4) (
     let vm = op_edge_both (set_reg 1 0 vm) (pack_rri 4 1 2) in
     ASSERT_EQ_U32 1 (reg vm 4) (Inr 0)))))))))"

definition test_latch_ops :: "bool \<Rightarrow> timespec \<Rightarrow> int res" where
  "test_latch_ops ok now =
     ASSERT_NOT_NULL (vm_create ok ok now) (\<lambda>vm.
     let vm = op_rs_latch (set_reg 2 0 (set_reg 1 1 vm)) (pack_rrr 3 1 2) in
     ASSERT_EQ_U32 1 (reg vm 3) (
     let vm = op_rs_latch (set_reg 2 0 (set_reg 1 0 vm)) (pack_rrr 3 1 2) in
     ASSERT_EQ_U32 1 (reg vm 3) (
     let vm = op_rs_latch (set_reg 2 1 (set_reg 1 0 vm)) (pack_rrr 3 1 2) in
     ASSERT_EQ_U32 0 (reg vm 3) (
     let vm = op_sr_latch (set_reg 2 1 (set_reg 1 1 vm)) (pack_rrr 4 1 2) in
     ASSERT_EQ_U32 1 (reg vm 4) (
     let vm = op_sr_latch (set_reg 2 1 (set_reg 1 0 vm)) (pack_rrr 4 1 2) in
     ASSERT_EQ_U32 0 (reg vm 4) (Inr 0))))))"

definition test_demux_ops :: "bool \<Rightarrow> timespec \<Rightarrow> int res" where
  "test_demux_ops ok now =
     ASSERT_NOT_NULL (vm_create ok ok now) (\<lambda>vm.
     bindR (op_demux (set_reg 1 0x0600 (set_reg 3 0xAABBCCDD vm)) (pack_rri 3 1 2)) (\<lambda>vm.
     bindR (vm_mr32 vm 0x0608) (\<lambda>v.
     ASSERT_EQ_U32 0xAABBCCDD v (
     let before = mem vm (VM_MEM_BYTES - 1) in
     bindR (op_demux (set_reg 1 (of_nat (VM_MEM_BYTES - 2)) (set_reg 3 0x11223344 vm)) (pack_rri 3 1 1)) (\<lambda>vm.
     ASSERT_EQ_U32 (ucast before) (ucast (mem vm (VM_MEM_BYTES - 1))) (Inr 0))))))"

section \<open>Control\<close>

definition set_pc :: "u32 \<Rightarrow> vm_state \<Rightarrow> vm_state" where
  "set_pc p vm = vm\<lparr>PC := p\<rparr>"

definition test_control_ops :: "bool \<Rightarrow> timespec \<Rightarrow> int res" where
  "test_control_ops ok now =
     ASSERT_NOT_NULL (vm_create ok ok now) (\<lambda>vm.
     let vm = op_jmp (set_reg 1 0x3456 (set_pc 0x3000 vm)) (pack_rrr 0 1 0) in
     ASSERT_EQ_U32 0x3456 (PC vm) (
     let vm = op_jmp_if (set_reg 2 1 (set_reg 1 0x5000 (set_pc 0x4000 vm))) (pack_rrr 0 1 2) in
     ASSERT_EQ_U32 0x5000 (PC vm) (
     let vm = op_jmp_if (set_reg 2 0 (set_reg 1 0x7000 (set_pc 0x6000 vm))) (pack_rrr 0 1 2) in
     ASSERT_EQ_U32 0x6000 (PC vm) (
     let vm = op_jmp_if_not (set_reg 2 0 (set_reg 1 0x9000 (set_pc 0x8000 vm))) (pack_rrr 0 1 2) in
     ASSERT_EQ_U32 0x9000 (PC vm) (
     let vm = op_jmp_if_not (set_reg 2 1 (set_reg 1 0xB000 (set_pc 0xA000 vm))) (pack_rrr 0 1 2) in
     ASSERT_EQ_U32 0xA000 (PC vm) (
     let vm = op_halt (vm\<lparr>running := True, stop_requested := False\<rparr>) (pack_rrr 0 0 0) in
     ASSERT_FALSE (running vm) (ASSERT_TRUE (stop_requested vm) (
     let vm = op_exit (vm\<lparr>running := True, stop_requested := False, exit_code := 0\<rparr>) (pack_rri 0 0 42) in
     ASSERT_FALSE (running vm) (ASSERT_TRUE (stop_requested vm) (ASSERT_EQ_U32 42 (exit_code vm) (
     let pc_before = 0x1234; vm = op_nop (set_reg 1 77 (set_pc pc_before vm)) (pack_rrr 0 0 0) in
     ASSERT_EQ_U32 pc_before (PC vm) (ASSERT_EQ_U32 77 (reg vm 1) (Inr 0)))))))))))))"

lemma test_sel_mux_bounds_passes: "test_sel_mux_bounds_are_safe True now = Inr 0"
  by (simp add: test_sel_mux_bounds_are_safe_def test_steps op_sel_def op_mux_def element_addr_def cong: step_cong)

lemma test_limit_sel_mux_passes: "test_limit_sel_mux_ops True now = Inr 0"
  by (simp add: test_limit_sel_mux_ops_def test_steps op_limit_def op_sel_def op_mux_def element_addr_def vm_mr32_ok vm_mw32_ok
      word_at_put_other cong: step_cong)

lemma test_edge_passes: "test_edge_ops True now = Inr 0"
  by (simp add: test_edge_ops_def test_steps op_rising_edge_def op_falling_edge_def op_edge_both_def edge_id_def bad_id_iff cong: step_cong)

lemma test_latch_passes: "test_latch_ops True now = Inr 0"
  by (simp add: test_latch_ops_def test_steps op_rs_latch_def op_sr_latch_def latch_id_def bad_id_iff cong: step_cong)

lemma test_demux_passes: "test_demux_ops True now = Inr 0"
  by (simp add: test_demux_ops_def test_steps op_demux_def element_addr_def vm_mr32_ok vm_mw32_ok cong: step_cong)

lemma test_control_passes: "test_control_ops True now = Inr 0"
  by (simp add: test_control_ops_def test_steps set_pc_def op_jmp_def op_jmp_if_def op_jmp_if_not_def jump_target_def op_halt_def
      op_exit_def op_nop_def cong: step_cong)

section \<open>All tests of the file\<close>

text \<open>\<open>ok k\<close> and \<open>now k\<close>: whether the allocations of the k-th test succeed, and its reading of the clock.\<close>

definition funcs_test_main :: "(nat \<Rightarrow> bool) \<Rightarrow> (nat \<Rightarrow> timespec) \<Rightarrow> libm \<Rightarrow> (nat \<Rightarrow> tm) \<Rightarrow> int res" where
  "funcs_test_main ok now lm t = run_tests [
     test_arithmetic_ops (ok 0) (now 0) lm,
     test_div_and_mod_by_zero (ok 1) (now 1),
     test_math_ops_exact_values (ok 2) (now 2) lm,
     test_logic_ops (ok 3) (now 3),
     test_compare_ops (ok 4) (now 4),
     test_time_date_ops (ok 5) (now 5) t,
     test_string_ops (ok 6) (now 6),
     test_string_bounds_and_noop_paths (ok 7) (now 7),
     test_ton_tof_tp_ops (ok 8) (now 8),
     test_timer_invalid_ids_are_safe (ok 9) (now 9),
     test_ctu_ctd_ctud_ops (ok 10) (now 10),
     test_counter_invalid_ids_are_safe (ok 11) (now 11),
     test_limit_sel_mux_ops (ok 12) (now 12),
     test_sel_mux_bounds_are_safe (ok 13) (now 13),
     test_edge_ops (ok 14) (now 14),
     test_latch_ops (ok 15) (now 15),
     test_demux_ops (ok 16) (now 16),
     test_control_ops (ok 17) (now 17)]"

lemmas funcs_tests_pass = test_div_and_mod_passes test_logic_passes test_compare_passes test_string_passes
  test_string_bounds_passes test_ton_passes test_timer_invalid_passes test_counters_passes test_counter_invalid_passes
  test_limit_sel_mux_passes test_sel_mux_bounds_passes test_edge_passes test_latch_passes test_demux_passes test_control_passes

text \<open>
  The model of the handlers passes the repository's own tests of all of them: every assertion of the 18 tests
  holds, no access leaves the memory and nothing is undefined on the way, given a math library that is exact on the values
  used, memory for the machines, and a clock that does not move between the readings of one test.
\<close>

theorem funcs_test_passes:
  assumes "\<forall>k. ok k" "exact_libm lm" "sane_tm (t 0)" "\<forall>k. t k = t 0"
  shows "funcs_test_main ok now lm t = Inr 0"
proof -
  have ok: "ok k = True" for k using assms(1) by simp
  show ?thesis
    unfolding funcs_test_main_def ok
    by (rule run_tests_pass) (simp add: funcs_tests_pass test_arithmetic_passes test_math_passes assms(2)
        test_time_date_passes [OF assms(3,4)])
qed

text \<open>A math library that is right at least on these values.\<close>

definition unit_libm :: libm where
  "unit_libm = \<lparr>lm_pow = (\<lambda>x y. if x = Fin 2 \<and> y = Fin 10 then Fin 1024 else NaN), lm_sqrt = (\<lambda>x. if x = Fin 9 then Fin 3 else NaN),
     lm_log = (\<lambda>x. if x = Fin 1 then Fin 0 else NaN), lm_log10 = (\<lambda>x. if x = Fin 1 then Fin 0 else NaN),
     lm_exp = (\<lambda>x. if x = Fin 0 then Fin 1 else NaN), lm_sin = (\<lambda>x. if x = Fin 0 then Fin 0 else NaN),
     lm_cos = (\<lambda>x. if x = Fin 0 then Fin 1 else NaN), lm_tan = (\<lambda>x. if x = Fin 0 then Fin 0 else NaN),
     lm_asin = (\<lambda>x. if x = Fin 0 then Fin 0 else NaN), lm_acos = (\<lambda>x. if x = Fin 1 then Fin 0 else NaN),
     lm_atan = (\<lambda>x. if x = Fin 0 then Fin 0 else NaN)\<rparr>"

theorem funcs_test_passes_witness:
  "funcs_test_main (\<lambda>_. True) (\<lambda>_. zero_timespec) unit_libm
     (\<lambda>_. \<lparr>tm_sec = 30, tm_min = 15, tm_hour = 23, tm_mday = 31, tm_mon = 11, tm_year = 125\<rparr>) = Inr 0"
  by (rule funcs_test_passes) (simp_all add: exact_libm_def unit_libm_def sane_tm_def)

end
