(* ===== verification/CoreTests.thy ===== *)
theory CoreTests
  imports UnitTests VMHash
begin

text \<open>
  The unit tests of the timers, the life cycle, the decoding and the checksums
  (\<open>tests/unit/timers_test.c\<close>, \<open>vm_lifecycle_test.c\<close>, \<open>opcode_decode_test.c\<close>, \<open>hashing_test.c\<close>), and the regression test
  of the checksums of memory (\<open>tests/regression/hash_bounds_regression_test.c\<close>).
\<close>

section \<open>Timers\<close>

definition test_ton_basic_delay :: "bool \<Rightarrow> timespec \<Rightarrow> int res" where
  "test_ton_basic_delay ok now =
     ASSERT_NOT_NULL (vm_create ok ok now) (\<lambda>vm.
     let vm = ton_set (vm\<lparr>time_ms := 1000\<rparr>) 0 True 100 in
     ASSERT_FALSE (ton_Q vm 0) (
     let vm = ton_set (vm\<lparr>time_ms := 1090\<rparr>) 0 True 100 in
     ASSERT_FALSE (ton_Q vm 0) (
     let vm = ton_set (vm\<lparr>time_ms := 1100\<rparr>) 0 True 100 in
     ASSERT_TRUE (ton_Q vm 0) (
     let vm = ton_set (vm\<lparr>time_ms := 1110\<rparr>) 0 False 100 in
     ASSERT_FALSE (ton_Q vm 0) (Inr 0)))))"

definition test_tp_generates_pulse :: "bool \<Rightarrow> timespec \<Rightarrow> int res" where
  "test_tp_generates_pulse ok now =
     ASSERT_NOT_NULL (vm_create ok ok now) (\<lambda>vm.
     let vm = tp_set (vm\<lparr>time_ms := 2000\<rparr>) 1 True 50 in
     ASSERT_TRUE (tp_Q vm 1) (
     let vm = tp_set (vm\<lparr>time_ms := 2020\<rparr>) 1 True 50 in
     ASSERT_TRUE (tp_Q vm 1) (
     let vm = tp_set (vm\<lparr>time_ms := 2051\<rparr>) 1 True 50 in
     ASSERT_FALSE (tp_Q vm 1) (Inr 0))))"

definition test_invalid_id_is_safe :: "bool \<Rightarrow> timespec \<Rightarrow> int res" where
  "test_invalid_id_is_safe ok now =
     ASSERT_NOT_NULL (vm_create ok ok now) (\<lambda>vm.
     let vm = ton_set (vm\<lparr>time_ms := 3000\<rparr>) 99 True 1 in
     ASSERT_FALSE (ton_Q vm 99) (Inr 0))"

definition timers_test_main :: "(nat \<Rightarrow> bool) \<Rightarrow> (nat \<Rightarrow> timespec) \<Rightarrow> int res" where
  "timers_test_main ok now = run_tests [test_ton_basic_delay (ok 0) (now 0), test_tp_generates_pulse (ok 1) (now 1),
     test_invalid_id_is_safe (ok 2) (now 2)]"

section \<open>Life cycle\<close>

definition test_create_and_destroy :: "bool \<Rightarrow> timespec \<Rightarrow> int res" where
  "test_create_and_destroy ok now =
     ASSERT_NOT_NULL (vm_create ok ok now) (\<lambda>vm.
     ASSERT_TRUE (running vm) (ASSERT_EQ_U32 0 (PC vm) (ASSERT_FALSE (stop_requested vm) (ASSERT_FALSE (reload_pending vm) (
     ASSERT_TRUE (vm_destroy (Some vm) = None) (Inr 0))))))"

text \<open>\<open>later\<close>: the reading of the clock in the second initialisation.\<close>

definition test_init_defaults :: "bool \<Rightarrow> timespec \<Rightarrow> timespec \<Rightarrow> int res" where
  "test_init_defaults ok now later =
     ASSERT_NOT_NULL (vm_create ok ok now) (\<lambda>vm.
     let vm = set_reg 1 888 (set_reg 0 999 (vm\<lparr>running := False, PC := 0x1234, config := (config vm)\<lparr>cycle_time_ms := 0\<rparr>\<rparr>));
         (vm', rc) = vm_init_defaults later (Some vm) in
     ASSERT_EQ_U32 0 (word_of_int rc) (ASSERT_NOT_NULL vm' (\<lambda>vm.
     ASSERT_TRUE (running vm) (ASSERT_EQ_U32 0 (PC vm) (ASSERT_TRUE (0 < cycle_time_ms (config vm)) (
     ASSERT_EQ_U32 5 (reg vm 0) (ASSERT_EQ_U32 3 (reg vm 1) (Inr 0))))))))"

definition test_reset_runtime :: "bool \<Rightarrow> timespec \<Rightarrow> timespec \<Rightarrow> int res" where
  "test_reset_runtime ok now later =
     ASSERT_NOT_NULL (vm_create ok ok now) (\<lambda>vm.
     let vm = set_reg 1 200 (set_reg 0 100 (vm\<lparr>running := False, PC := 0x5555, time_ms := 77, exit_code := 9,
           stop_requested := True, reload_pending := True\<rparr>));
         (vm', rc) = vm_reset later (Some vm) in
     ASSERT_EQ_U32 0 (word_of_int rc) (ASSERT_NOT_NULL vm' (\<lambda>vm.
     ASSERT_TRUE (running vm) (ASSERT_EQ_U32 (PC_START vm) (PC vm) (ASSERT_EQ_U32 0 (ucast (time_ms vm)) (
     ASSERT_EQ_U32 0 (exit_code vm) (ASSERT_FALSE (stop_requested vm) (ASSERT_FALSE (reload_pending vm) (
     ASSERT_EQ_U32 5 (reg vm 0) (ASSERT_EQ_U32 3 (reg vm 1) (Inr 0)))))))))))"

definition test_start_stop_flags :: "bool \<Rightarrow> timespec \<Rightarrow> int res" where
  "test_start_stop_flags ok now =
     ASSERT_NOT_NULL (vm_create ok ok now) (\<lambda>vm.
     ASSERT_TRUE (running vm) (
     let vm = vm\<lparr>running := False\<rparr> in ASSERT_FALSE (running vm) (
     let vm = vm\<lparr>running := True\<rparr> in ASSERT_TRUE (running vm) (Inr 0))))"

definition lifecycle_test_main :: "(nat \<Rightarrow> bool) \<Rightarrow> (nat \<Rightarrow> timespec) \<Rightarrow> (nat \<Rightarrow> timespec) \<Rightarrow> int res" where
  "lifecycle_test_main ok now later = run_tests [test_create_and_destroy (ok 0) (now 0), test_init_defaults (ok 1) (now 1) (later 1),
     test_reset_runtime (ok 2) (now 2) (later 2), test_start_stop_flags (ok 3) (now 3)]"

section \<open>Decoding\<close>

fun each_entry_not_null :: "handler option list \<Rightarrow> int res" where
  "each_entry_not_null [] = Inr 0"
| "each_entry_not_null (h # hs) =
     (if h \<noteq> None then ASSERT_NOT_NULL h (\<lambda>_. each_entry_not_null hs) else each_entry_not_null hs)"

definition test_valid_opcode_dispatch :: "bool \<Rightarrow> timespec \<Rightarrow> int res" where
  "test_valid_opcode_dispatch ok now =
     ASSERT_NOT_NULL (vm_create ok ok now) (\<lambda>vm. each_entry_not_null (take 32 (op_ex vm)))"

definition test_invalid_opcode_fails :: "bool \<Rightarrow> timespec \<Rightarrow> op_env \<Rightarrow> int res" where
  "test_invalid_opcode_fails ok now env =
     ASSERT_NOT_NULL (vm_create ok ok now) (\<lambda>vm.
     bindR (load_program_words 0x1000 [ENC_RRR 255 1 2 3] vm) (\<lambda>vm.
     bindR (vm_step_for_test env 0x1000 0x1004 vm) (\<lambda>(vm, rc).
     ASSERT_EQ_U32 (word_of_int (-1)) (word_of_int rc) (ASSERT_FALSE (running vm) (Inr 0)))))"

definition test_opcode_does_not_corrupt_registers_on_fail :: "bool \<Rightarrow> timespec \<Rightarrow> op_env \<Rightarrow> int res" where
  "test_opcode_does_not_corrupt_registers_on_fail ok now env =
     ASSERT_NOT_NULL (vm_create ok ok now) (\<lambda>vm.
     bindR (load_program_words 0x1000 [ENC_RRR 255 2 1 1] (set_reg 1 123 vm)) (\<lambda>vm.
     bindR (vm_step_for_test env 0x1000 0x1004 vm) (\<lambda>(vm, rc).
     ASSERT_EQ_U32 123 (reg vm 1) (Inr 0))))"

definition opcode_decode_test_main :: "(nat \<Rightarrow> bool) \<Rightarrow> (nat \<Rightarrow> timespec) \<Rightarrow> op_env \<Rightarrow> int res" where
  "opcode_decode_test_main ok now env = run_tests [test_valid_opcode_dispatch (ok 0) (now 0),
     test_invalid_opcode_fails (ok 1) (now 1) env, test_opcode_does_not_corrupt_registers_on_fail (ok 2) (now 2) env]"

section \<open>Checksums\<close>

definition test_crc32_known_vector :: "int res" where
  "test_crc32_known_vector = ASSERT_EQ_U32 0xCBF43926 (crc32 (cstr_of ''123456789'')) (Inr 0)"

definition test_fnv1a_known_vector :: "int res" where
  "test_fnv1a_known_vector = ASSERT_EQ_U32 0x4F9F2CAB (fnv1a32 (cstr_of ''hello'')) (Inr 0)"

definition test_incremental_crc_matches_full :: "int res" where
  "test_incremental_crc_matches_full =
     (let full = crc32 (cstr_of ''bytecode-engine'');
          inc = crc32_begin;
          inc = crc32_update inc (cstr_of ''bytecode'');
          inc = crc32_update inc (cstr_of ''-engine'');
          inc = crc32_finalize inc
      in ASSERT_EQ_U32 full inc (Inr 0))"

definition test_hash_buffer_selection :: "int res" where
  "test_hash_buffer_selection =
     (let buf = [1, 2, 3, 4, 5]; c = hash_buffer buf HASH_CRC32; f = hash_buffer buf HASH_SIMPLE_FNV1A in
      ASSERT_EQ_U32 (crc32 buf) c (ASSERT_EQ_U32 (fnv1a32 buf) f (ASSERT_NEQ_U32 c f (Inr 0))))"

definition hashing_test_main :: "int res" where
  "hashing_test_main = run_tests [test_crc32_known_vector, test_fnv1a_known_vector, test_incremental_crc_matches_full,
     test_hash_buffer_selection]"

definition test_memory_hash_bounds_clamped :: "bool \<Rightarrow> timespec \<Rightarrow> int res" where
  "test_memory_hash_bounds_clamped ok now =
     ASSERT_NOT_NULL (vm_create ok ok now) (\<lambda>vm.
     let vm = vm\<lparr>PC_START := of_nat (VM_MEM_BYTES - 4), program_size := 16, mem := (mem vm)(VM_MEM_BYTES - 4 := 0xDE,
           VM_MEM_BYTES - 3 := 0xAD, VM_MEM_BYTES - 2 := 0xBE, VM_MEM_BYTES - 1 := 0xEF)\<rparr> in
     bindR (vm_calculate_memory_hash_ex vm (of_nat (VM_MEM_BYTES - 4)) 16 HASH_CRC32) (\<lambda>got.
     bindR (mem_slice (mem vm) (VM_MEM_BYTES - 4) 4) (\<lambda>bytes.
     ASSERT_EQ_U32 (crc32 bytes) got (
     bindR (vm_calculate_program_hash_ex vm HASH_CRC32) (\<lambda>prog_hash.
     ASSERT_EQ_U32 (crc32 bytes) prog_hash (Inr 0))))))"

text \<open>The checksums return 0 for a null pointer; \<open>VMHash\<close> models what they do behind this guard.\<close>

definition unless_null :: "('a \<Rightarrow> u32 res) \<Rightarrow> 'a option \<Rightarrow> u32 res" where
  "unless_null f p = (case p of None \<Rightarrow> Inr 0 | Some x \<Rightarrow> f x)"

definition test_null_input_returns_zero :: "int res" where
  "test_null_input_returns_zero =
     bindR (unless_null (\<lambda>vm. vm_calculate_memory_hash_ex vm 0 16 HASH_CRC32) None) (\<lambda>got.
     ASSERT_EQ_U32 0 got (
     bindR (unless_null (\<lambda>vm. Inr (vm_calculate_registers_hash_ex vm HASH_CRC32)) None) (\<lambda>got.
     ASSERT_EQ_U32 0 got (
     bindR (unless_null (\<lambda>m. calculate_memory_hash_ex m 0 10 HASH_CRC32) None) (\<lambda>got.
     ASSERT_EQ_U32 0 got (Inr 0))))))"

definition hash_bounds_regression_test_main :: "bool \<Rightarrow> timespec \<Rightarrow> int res" where
  "hash_bounds_regression_test_main ok now = run_tests [test_memory_hash_bounds_clamped ok now, test_null_input_returns_zero]"

section \<open>What they return\<close>

lemma timers_tests_pass: "test_ton_basic_delay True now = Inr 0" "test_tp_generates_pulse True now = Inr 0"
  "test_invalid_id_is_safe True now = Inr 0"
  by (simp_all add: test_ton_basic_delay_def test_tp_generates_pulse_def test_invalid_id_is_safe_def test_steps ton_set_def ton_Q_def
      tp_set_def tp_Q_def id_ok_def set_timer_def update_ton_def update_tp_def zero_timer_def timespec_of_ms_def ms_diff_def
      cong: step_cong)

lemma lifecycle_tests_pass: "test_create_and_destroy True now = Inr 0" "test_start_stop_flags True now = Inr 0"
  by (simp_all add: test_create_and_destroy_def test_start_stop_flags_def test_steps vm_destroy_def cong: step_cong)

text \<open>The defaults and a reset zero every register; the test expects 5 and 3 in the first two.\<close>

lemma lifecycle_tests_fail: "test_init_defaults True now later = Inr 1" "test_reset_runtime True now later = Inr 1"
proof -
  show "test_init_defaults True now later = Inr 1"
  proof -
    define vm where "vm = set_reg 1 888 (set_reg 0 999 ((new_vm now)\<lparr>running := False, PC := 0x1234,
        config := (config (new_vm now))\<lparr>cycle_time_ms := 0\<rparr>\<rparr>))"
    have "vm_wf vm" using new_vm_wf [of now] unfolding vm_wf_def by (simp add: vm_def set_reg_def)
    then show ?thesis
      unfolding test_init_defaults_def vm_create_new if_True assert_run Let_def vm_def [symmetric]
      by (simp add: vm_init_defaults_def init_common_eq assert_run)
  qed
  show "test_reset_runtime True now later = Inr 1"
  proof -
    define vm where "vm = set_reg 1 200 (set_reg 0 100 ((new_vm now)\<lparr>running := False, PC := 0x5555, time_ms := 77,
        exit_code := 9, stop_requested := True, reload_pending := True\<rparr>))"
    have "vm_wf vm" using new_vm_wf [of now] unfolding vm_wf_def by (simp add: vm_def set_reg_def)
    then show ?thesis
      unfolding test_reset_runtime_def vm_create_new if_True assert_run Let_def vm_def [symmetric]
      by (simp add: vm_reset_def reset_runtime_eq assert_run)
  qed
qed

lemma each_entry_passes: "each_entry_not_null hs = Inr 0"
  by (induction hs) (auto simp: assert_simps)

lemma load_one_word:
  "load_program_words 0x1000 [w] vm = Inr (vm\<lparr>mem := put_word (mem vm) 0x1000 w, PC_START := 0x1000, PC := 0x1000\<rparr>)"
  by (simp add: load_program_words_def vm_mw32_ok)

lemma invalid_word:
  assumes "PC vm = 0x1000" "OPC (word_at (mem vm) 0x1000) = 127" "word_at (mem vm) 0x1000 \<noteq> 0"
    and "op_ex vm = map Some default_op_ex @ replicate 60 None"
  shows "vm_step_for_test env 0x1000 0x1004 vm = Inr (vm\<lparr>running := False\<rparr>, -1)"
  using assms by (simp add: vm_mr32_ok vm_step_for_test_def nth_append default_op_ex_def OPCODE_COUNT_def)

lemma opcode_tests_pass: "test_valid_opcode_dispatch True now = Inr 0" "test_invalid_opcode_fails True now env = Inr 0"
  "test_opcode_does_not_corrupt_registers_on_fail True now env = Inr 0"
proof -
  have "OPC (ENC_RRR 255 1 2 3) = 127" "OPC (ENC_RRR 255 2 1 1) = 127" by simp_all
  moreover have "ENC_RRR 255 1 2 3 \<noteq> 0" "ENC_RRR 255 2 1 1 \<noteq> 0" by (simp_all add: ENC_RRR_def)
  ultimately have w: "OPC (ENC_RRR 255 1 2 3) = 127" "ENC_RRR 255 1 2 3 \<noteq> 0" "OPC (ENC_RRR 255 2 1 1) = 127" "ENC_RRR 255 2 1 1 \<noteq> 0"
    by blast+
  show "test_valid_opcode_dispatch True now = Inr 0"
    by (simp add: test_valid_opcode_dispatch_def test_steps each_entry_passes)
  show "test_invalid_opcode_fails True now env = Inr 0"
    by (simp add: test_invalid_opcode_fails_def test_steps load_one_word invalid_word w new_vm_op_ex cong: step_cong)
  show "test_opcode_does_not_corrupt_registers_on_fail True now env = Inr 0"
    by (simp add: test_opcode_does_not_corrupt_registers_on_fail_def test_steps load_one_word invalid_word w new_vm_op_ex cong: step_cong)
qed

lemma hashing_tests_pass: "test_crc32_known_vector = Inr 0" "test_fnv1a_known_vector = Inr 0"
  "test_incremental_crc_matches_full = Inr 0" "test_hash_buffer_selection = Inr 0"
proof -
  show "test_crc32_known_vector = Inr 0"
    using crc32_check_value by (simp add: test_crc32_known_vector_def assert_run cstr_of_def)
  show "test_fnv1a_known_vector = Inr 0"
    by (simp add: test_fnv1a_known_vector_def assert_run cstr_of_def fnv1a32_def fnv1a32_update_def fnv1a32_begin_def
        fnv1a32_finalize_def fnv1a32_step_def)
  show "test_incremental_crc_matches_full = Inr 0"
    using crc32_streaming [of "[cstr_of ''bytecode'', cstr_of ''-engine'']"]
    by (simp add: test_incremental_crc_matches_full_def assert_run cstr_of_def)
  show "test_hash_buffer_selection = Inr 0"
    by (simp add: test_hash_buffer_selection_def assert_run hash_buffer_def crc32_def crc32_eval fnv1a32_def fnv1a32_update_def
        fnv1a32_begin_def fnv1a32_finalize_def fnv1a32_step_def)
qed

lemma hash_bounds_test_passes: "test_memory_hash_bounds_clamped True now = Inr 0"
proof -
  have "VM_MEM_BYTES - 4 + 4 = VM_MEM_BYTES" "VM_MEM_BYTES - (VM_MEM_BYTES - 4) = 4" by (simp_all add: VM_MEM_BYTES_def)
  moreover have "unat (of_nat (VM_MEM_BYTES - 4) :: u32) = VM_MEM_BYTES - 4"
    "VM_MEM_BYTES < unat (ucast (of_nat (VM_MEM_BYTES - 4) :: u32) + 16 :: u64)" "\<not> VM_MEM_BYTES \<le> VM_MEM_BYTES - 4"
    by (simp_all add: VM_MEM_BYTES_def)
  ultimately show ?thesis
    by (simp add: test_memory_hash_bounds_clamped_def vm_create_new assert_run Let_def vm_calculate_memory_hash_ex_def
        vm_calculate_program_hash_ex_def mem_slice_def hash_buffer_def cong: step_cong)
qed

lemma null_input_test_passes: "test_null_input_returns_zero = Inr 0"
  by (simp add: test_null_input_returns_zero_def unless_null_def assert_run)

section \<open>What the programs return\<close>

lemmas core_tests_return = timers_tests_pass lifecycle_tests_pass lifecycle_tests_fail opcode_tests_pass hashing_tests_pass

lemma core_test_mains:
  assumes "\<And>i. ok i"
  shows "timers_test_main ok now = Inr 0" "opcode_decode_test_main ok now env = Inr 0" "hashing_test_main = Inr 0"
    and "lifecycle_test_main ok now later = Inr 1"
  using assms run_tests_first_failure [of "[Inr 0]"]
  by (simp_all add: timers_test_main_def opcode_decode_test_main_def hashing_test_main_def lifecycle_test_main_def
      core_tests_return assert_run)

end
