(* ===== verification/TableCount.thy ===== *)
theory TableCount
  imports HashTable
begin

text \<open>
  The element counter of the hash table (\<open>active\<close>, read by \<open>hash_table_size\<close>).  It is exact, the number of
  keys, as long as no insertion overwrites a key that is present: an insertion of a new key, a deletion, growing and shrinking keep
  it exact.  A resize counts the keys anew, so it even repairs a counter that an overwrite spoilt.
\<close>

section \<open>Counted tables\<close>

definition counted :: "('k, 'v) hash_table \<Rightarrow> bool" where
  "counted t \<longleftrightarrow> unat (active t) = card (dom (ht_map t))"

lemma finite_dom_ht_map [simp]: "finite (dom (ht_map t))"
  by (simp add: ht_map_def finite_dom_map_of)

lemma card_dom_ht_map: "ht_core t \<Longrightarrow> card (dom (ht_map t)) = length (entries (bins t))"
  using distinct_card [OF distinct_keys [of t]] by (simp add: ht_map_def dom_map_of_conv_image_fst)

lemma card_dom_le_used: "ht_core t \<Longrightarrow> card (dom (ht_map t)) \<le> unat (used t)"
  using entries_le_probed [of t] ht_coreD(7) [of t] by (simp add: card_dom_ht_map)

lemma unat_Suc: "unat (w :: u32) < 2 ^ 31 \<Longrightarrow> unat (w + 1) = unat w + 1"
  by (simp add: unat_word_ariths)

lemma unat_sub_1: "0 < unat (w :: u32) \<Longrightarrow> unat (w - 1) = unat w - 1"
  by (simp add: unat_sub word_le_nat_alt)

lemma tbl_size_bound:
  assumes "ht_core t"
  shows "unat (tbl_size t) \<le> 2 ^ 31"
proof -
  obtain e where "e \<le> 31" "unat (tbl_size t) = 2 ^ e" by (rule size_power [OF assms])
  then show ?thesis using power_increasing [of e 31 "2 :: nat"] by simp
qed

text \<open>A store for a new key counts it.\<close>

lemma counted_put:
  assumes "ht_core t" "unat (used t) < unat (tbl_size t)" "counted t" "ht_map t k = None"
    and "ht_map t' = (ht_map t)(k \<mapsto> v)" "active t' = active t + 1"
  shows "counted t'"
proof -
  have "card (dom (ht_map t')) = card (dom (ht_map t)) + 1"
    using assms(4,5) by (simp add: domIff)
  moreover have "unat (active t) < 2 ^ 31"
    using card_dom_le_used [OF assms(1)] tbl_size_bound [OF assms(1)] assms(2,3) by (simp add: counted_def)
  ultimately show ?thesis
    using assms(3,6) by (simp add: counted_def unat_Suc)
qed

section \<open>Moving the bins\<close>

lemma reinsert_counts:
  assumes "ht_core t" and "\<forall>b \<in> set bs. bin_ok (tbl_key_type t) b"
    and "2 * (unat (used t) + length (entries bs)) \<le> unat (tbl_size t)"
    and "counted t" and "distinct (map fst (entries bs))" and "\<forall>k \<in> fst ` set (entries bs). ht_map t k = None"
    and "reinsert (insert_internal ca (Suc n)) t bs = Inr t'"
  shows "counted t'"
  using assms
proof (induction bs arbitrary: t)
  case (Cons b bs)
  show ?case
  proof (cases "is_empty b")
    case True
    with Cons show ?thesis by (simp add: bin_entry_empty)
  next
    case False
    with Cons.prems(2) obtain k v where kv: "bin_entry b = Some (k, v)" "bin_data b = Some (k, v)"
      "bin_hash_key b = kt_hash (tbl_key_type t) k"
      by (auto elim: bin_ok_entry)
    with Cons.prems(3,5,6) have le: "2 * (unat (used t) + 1 + length (entries bs)) \<le> unat (tbl_size t)"
      and new: "ht_map t k = None" and rest: "k \<notin> fst ` set (entries bs)" "distinct (map fst (entries bs))"
        "\<forall>k \<in> fst ` set (entries bs). ht_map t k = None"
      by auto
    then have less: "unat (used t) < unat (tbl_size t)" by simp
    from insert_internal_store [OF Cons.prems(1) this, of k v] obtain t1 where t1:
      "insert_internal ca (Suc n) t (kt_hash (tbl_key_type t) k) k v =
        (if above_load_max t1 then resize ca (insert_internal ca n) t1 (tbl_size t1 * 2) else Inr t1)"
      "ht_core t1" "ht_map t1 = (ht_map t)(k \<mapsto> v)" "tbl_size t1 = tbl_size t"
      "tbl_key_type t1 = tbl_key_type t" "unat (used t1) \<le> unat (used t) + 1" "active t1 = active t + 1"
      using new by metis
    from le t1(4,6) have ins: "insert_internal ca (Suc n) t (kt_hash (tbl_key_type t) k) k v = Inr t1"
      unfolding t1(1) by (simp add: above_load_max_def)
    have "reinsert (insert_internal ca (Suc n)) t1 bs = Inr t'"
      using Cons.prems(7) False kv ins by (simp del: insert_internal.simps)
    then show ?thesis
      using Cons.prems(2) le rest t1 counted_put [OF Cons.prems(1) less Cons.prems(4) new t1(3,7)]
      by (intro Cons.IH [of t1]) auto
  qed
qed simp

lemma fresh_counted: "ht_map (fresh t n) = Map.empty \<Longrightarrow> counted (fresh t n)"
  by (simp add: counted_def)

text \<open>Growing counts the keys anew.\<close>

lemma resize_grow_counts:
  assumes core: "ht_core t" and ca: "\<forall>m. ca m" and room: "ht_room t" and used: "unat (used t) \<le> unat (tbl_size t)"
    and eq: "resize ca (insert_internal ca (Suc n)) t (tbl_size t * 2) = Inr t'"
  shows "counted t'"
proof -
  obtain e where e: "3 \<le> e" "unat (tbl_size t) = 2 ^ e" by (rule size_power [OF core])
  have size: "unat (tbl_size t * 2) = 2 * unat (tbl_size t)"
    using room by (intro unat_mult_2) (simp add: ht_room_def)
  have "(2 :: nat) ^ e < 2 ^ 31" using e room by (simp add: ht_room_def)
  then have "e < 31" by (metis power_strict_increasing_iff one_less_numeral_iff semiring_norm(76))
  let ?f = "fresh t (tbl_size t * 2)"
  have f: "ht_core ?f" "ht_map ?f = Map.empty"
    using e \<open>e < 31\<close> size ht_coreD(3) [OF core] by (auto intro!: fresh_ok [of _ "Suc e"])
  have len: "length (entries (bins t)) \<le> unat (used t)"
    using entries_le_probed [of t] ht_coreD(7) [OF core] by simp
  have eq': "reinsert (insert_internal ca (Suc n)) ?f (bins t) = Inr t'"
    using eq ca by (simp only: resize_fresh)
  show ?thesis
  proof (rule reinsert_counts [OF f(1) _ _ _ distinct_keys [OF core] _ eq'])
    show "\<forall>b \<in> set (bins t). bin_ok (tbl_key_type ?f) b" using ht_core_bins_ok [OF core] by simp
    show "2 * (unat (used ?f) + length (entries (bins t))) \<le> unat (tbl_size ?f)" using len used size by simp
    show "counted ?f" using f(2) by (rule fresh_counted)
  qed (simp add: f(2))
qed

section \<open>Insertion and deletion\<close>

lemma insert_internal_counts:
  assumes inv: "ht_inv t" and ca: "\<forall>m. ca m" and room: "ht_room t" and count: "counted t" and new: "ht_map t k = None"
    and eq: "insert_internal ca (Suc (Suc n)) t (kt_hash (tbl_key_type t) k) k v = Inr t'"
  shows "counted t'"
proof -
  from ht_inv_free [OF inv] have core: "ht_core t" and less: "unat (used t) < unat (tbl_size t)" by simp_all
  from insert_internal_store [OF core less, of k v] obtain t1 where t1:
    "insert_internal ca (Suc (Suc n)) t (kt_hash (tbl_key_type t) k) k v =
      (if above_load_max t1 then resize ca (insert_internal ca (Suc n)) t1 (tbl_size t1 * 2) else Inr t1)"
    "ht_core t1" "ht_map t1 = (ht_map t)(k \<mapsto> v)" "tbl_size t1 = tbl_size t" "unat (used t1) \<le> unat (used t) + 1"
    "active t1 = active t + 1"
    using new by metis
  show ?thesis
  proof (cases "above_load_max t1")
    case True
    then have eq: "resize ca (insert_internal ca (Suc n)) t1 (tbl_size t1 * 2) = Inr t'"
      using eq unfolding t1(1) by (simp only: if_True)
    have "ht_room t1" "unat (used t1) \<le> unat (tbl_size t1)" using room t1(4,5) less by (simp_all add: ht_room_def)
    then show ?thesis by (rule resize_grow_counts [OF t1(2) ca _ _ eq])
  next
    case False
    then have "t' = t1" using eq unfolding t1(1) by (simp only: if_False sum.inject)
    then show ?thesis using counted_put [OF core less count new t1(3,6)] by (simp only:)
  qed
qed

lemma reinsert_grows_counts:
  assumes "ht_inv t" and "\<forall>b \<in> set bs. bin_ok (tbl_key_type t) b"
    and "unat (used t) + length (entries bs) \<le> h" and "\<forall>m. ca m"
    and "unat (tbl_size t) = h \<or> unat (tbl_size t) = 2 * h" and "h < 2 ^ 31"
    and "counted t" and "distinct (map fst (entries bs))" and "\<forall>k \<in> fst ` set (entries bs). ht_map t k = None"
    and "reinsert (insert_internal ca (Suc (Suc n))) t bs = Inr t'"
  shows "counted t'"
  using assms
proof (induction bs arbitrary: t)
  case (Cons b bs)
  show ?case
  proof (cases "unat (tbl_size t) = 2 * h \<or> is_empty b")
    case True
    then show ?thesis
    proof
      assume size: "unat (tbl_size t) = 2 * h"
      have "2 * (unat (used t) + length (entries (b # bs))) \<le> unat (tbl_size t)"
        unfolding size by (rule mult_le_mono2 [OF Cons.prems(3)])
      moreover have "ht_core t" using Cons.prems(1) by (simp add: ht_inv_def)
      ultimately show ?thesis by (intro reinsert_counts [OF _ Cons.prems(2) _ Cons.prems(7-10)])
    next
      assume "is_empty b"
      with Cons show ?thesis by (simp add: bin_entry_empty del: insert_internal.simps)
    qed
  next
    case False
    then have ne: "\<not> is_empty b" and size: "unat (tbl_size t) = h" using Cons.prems(5) by auto
    from ne Cons.prems(2) obtain k v where kv: "bin_entry b = Some (k, v)" "bin_data b = Some (k, v)"
      "bin_hash_key b = kt_hash (tbl_key_type t) k"
      by (auto elim: bin_ok_entry)
    with Cons.prems(8,9) have new: "ht_map t k = None" and rest: "k \<notin> fst ` set (entries bs)"
        "distinct (map fst (entries bs))" "\<forall>k \<in> fst ` set (entries bs). ht_map t k = None"
      by auto
    from size have room: "ht_room t" using Cons.prems(6) by (simp add: ht_room_def)
    from insert_internal_ok [OF Cons.prems(1,4) room, of n k v] obtain t1 where t1:
      "insert_internal ca (Suc (Suc n)) t (kt_hash (tbl_key_type t) k) k v = Inr t1"
      "ht_inv t1" "ht_map t1 = (ht_map t)(k \<mapsto> v)" "tbl_key_type t1 = tbl_key_type t"
      "unat (used t1) \<le> unat (used t) + 1"
      "tbl_size t1 = tbl_size t \<or> unat (tbl_size t1) = 2 * unat (tbl_size t)"
      by blast
    note count = insert_internal_counts [OF Cons.prems(1,4) room Cons.prems(7) new t1(1)]
    have run: "reinsert (insert_internal ca (Suc (Suc n))) t1 bs = Inr t'"
      using Cons.prems(10) ne kv t1(1) by (simp del: insert_internal.simps)
    show ?thesis
      using Cons.prems(2,3) t1(3-6) kv size rest
      by (intro Cons.IH [OF t1(2) _ _ Cons.prems(4) _ Cons.prems(6) count _ _ run]) auto
  qed
qed simp

lemma resize_shrink_counts:
  assumes inv: "ht_inv t" and ca: "\<forall>m. ca m" and big: "MIN_TABLE_SIZE < tbl_size t"
    and eq: "resize ca (insert_internal ca (Suc (Suc n))) t (tbl_size t div 2) = Inr t'"
  shows "counted t'"
proof -
  from inv have core: "ht_core t" and load: "2 * unat (used t) \<le> unat (tbl_size t)"
    by (simp_all add: ht_inv_def)
  obtain e where e: "3 \<le> e" "e \<le> 31" "unat (tbl_size t) = 2 ^ e" by (rule size_power [OF core])
  have "8 < unat (tbl_size t)" using big by (simp add: MIN_TABLE_SIZE_def word_less_nat_alt)
  with e have "e \<noteq> 3" by auto
  with e obtain e' where e': "e = Suc e'" "3 \<le> e'" by (cases e) auto
  have half: "unat (tbl_size t div 2) = 2 ^ e'"
    using e(3) e'(1) by (simp add: unat_div_distrib)
  let ?f = "fresh t (tbl_size t div 2)"
  have f: "ht_core ?f" "ht_map ?f = Map.empty"
    using e(2) e' half ht_coreD(3) [OF core] by (auto intro!: fresh_ok [of _ e'])
  have len: "length (entries (bins t)) \<le> 2 ^ e'"
    using entries_le_probed [of t] ht_coreD(7) [OF core] load e(3) e'(1) by simp
  have small: "(2 :: nat) ^ e' < 2 ^ 31"
    using e(2) e'(1) by (intro power_strict_increasing) auto
  have eq': "reinsert (insert_internal ca (Suc (Suc n))) ?f (bins t) = Inr t'"
    using eq ca by (simp only: resize_fresh)
  show ?thesis
  proof (rule reinsert_grows_counts [OF _ _ _ ca _ small _ distinct_keys [OF core] _ eq'])
    show "ht_inv ?f" using f(1) by (simp add: ht_inv_def)
    show "\<forall>b \<in> set (bins t). bin_ok (tbl_key_type ?f) b" using ht_core_bins_ok [OF core] by simp
    show "counted ?f" using f(2) by (rule fresh_counted)
  qed (simp_all add: f(2) len half)
qed

lemma hash_table_insert_counts:
  assumes "ht_inv t" "\<forall>m. ca m" "ht_room t" "counted t" "ht_map t k = None" "hash_table_insert ca t k v = Inr t'"
  shows "counted t'"
  using insert_internal_counts [OF assms(1-5), of 0 v t'] assms(6)
  by (simp only: hash_table_insert_def resize_depth_def numeral_2_eq_2)

text \<open>A deletion keeps the counter exact, whether the key is present or not.\<close>

lemma free_bin_counts:
  assumes "ht_core t" "j < length (bins t)" "holds t j k" "counted t" "ht_map (free_bin t j) = (ht_map t)(k := None)"
  shows "counted (free_bin t j)"
proof -
  have "is_active_bin (bins t ! j)" "k \<in> dom (ht_map t)"
    using assms(3) ht_map_None [OF assms(1), of k] assms(2) by (auto simp: holds_def bin_entry_def split: if_splits)
  moreover from this have "0 < card (dom (ht_map t))" by (auto simp: card_gt_0_iff)
  ultimately show ?thesis
    using assms(4,5) by (simp add: counted_def free_bin_def Let_def unat_sub_1)
qed

lemma hash_table_delete_counts:
  assumes inv: "ht_inv t" and ca: "\<forall>m. ca m" and count: "counted t" and eq: "hash_table_delete ca t k = Inr t'"
  shows "counted t'"
proof -
  from ht_inv_free [OF inv] have core: "ht_core t" and less: "unat (used t) < unat (tbl_size t)" by simp_all
  have freed: ?thesis if j: "find_key t (kt_hash (tbl_key_type t) k) k = Some j" "j < length (bins t)"
    and count': "counted (free_bin t j)" for j
  proof (cases "MIN_TABLE_SIZE < tbl_size (free_bin t j) \<and> below_load_min (free_bin t j)")
    case True
    have inv': "ht_inv (free_bin t j)" using inv free_bin_core [OF core j(2)] by (simp add: ht_inv_def)
    have "resize ca (insert_internal ca (Suc (Suc 0))) (free_bin t j) (tbl_size (free_bin t j) div 2) = Inr t'"
      using eq True j(1) unfolding hash_table_delete_def resize_depth_def numeral_2_eq_2
      by (simp only: option.case Let_def if_True simp_thms)
    then show ?thesis using True by (intro resize_shrink_counts [OF inv' ca]) auto
  next
    case False
    then have "t' = free_bin t j"
      using eq j(1) unfolding hash_table_delete_def by (simp only: option.case Let_def if_False sum.inject)
    then show ?thesis using count' by simp
  qed
  show ?thesis
  proof (rule find_key_cases [OF core less, of k])
    fix j assume j: "find_key t (kt_hash (tbl_key_type t) k) k = Some j" "j < length (bins t)"
      "holds t j k"
    have "ht_map (free_bin t j) = (ht_map t)(k := None)"
      using j(3) ht_coreD(5) [OF core] j(2)
      by (intro free_bin_map [OF core j(2)]) (auto simp: holds_def)
    then show ?thesis using j count by (intro freed [OF j(1,2)] free_bin_counts [OF core j(2,3)])
  next
    fix j assume j: "find_key t (kt_hash (tbl_key_type t) k) k = Some j" "j < length (bins t)"
      "\<not> in_probe (bins t ! j)" "\<forall>j < length (bins t). \<not> holds t j k"
    have "free_bin t j = t" using j(3) by (simp add: free_bin_def is_active_bin_def)
    then show ?thesis using count by (intro freed [OF j(1,2)]) simp
  qed
qed

section \<open>Sequences of operations\<close>

text \<open>No insertion of the sequence overwrites a key that is present.\<close>

fun no_overwrite :: "('k \<Rightarrow> 'v option) \<Rightarrow> ('k, 'v) table_op list \<Rightarrow> bool" where
  "no_overwrite m [] \<longleftrightarrow> True"
| "no_overwrite m (Put k v # ops) \<longleftrightarrow> m k = None \<and> no_overwrite (m(k \<mapsto> v)) ops"
| "no_overwrite m (Del k # ops) \<longleftrightarrow> no_overwrite (m(k := None)) ops"

lemma run_table_counts:
  assumes "ht_inv t" and "\<forall>m. ca m" and "unat (used t) \<le> n"
    and "unat (tbl_size t) \<le> max 8 (4 * n)" and "n + length ops \<le> 2 ^ 28"
    and "counted t" and "no_overwrite (ht_map t) ops" and "run_table ca t ops = Inr t'"
  shows "counted t'"
  using assms
proof (induction ops arbitrary: t n)
  case (Cons op ops)
  show ?case
  proof (cases op)
    case (Put k v)
    have room: "ht_room t" using Cons.prems(4,5) by (auto simp: ht_room_def)
    from hash_table_insert_map [OF Cons.prems(1,2) this, of k v] obtain t1 where t1:
      "hash_table_insert ca t k v = Inr t1" "ht_inv t1" "ht_map t1 = (ht_map t)(k \<mapsto> v)"
      "unat (used t1) \<le> unat (used t) + 1"
      "tbl_size t1 = tbl_size t \<or>
        unat (tbl_size t1) = 2 * unat (tbl_size t) \<and> unat (tbl_size t) < 2 * (unat (used t) + 1)"
      by blast
    have "counted t1"
      using Cons.prems(7) Put by (intro hash_table_insert_counts [OF Cons.prems(1,2) room Cons.prems(6) _ t1(1)]) simp
    have run: "run_table ca t1 ops = Inr t'" using Cons.prems(8) Put t1(1) by simp
    show ?thesis
    proof (rule Cons.IH [OF t1(2) Cons.prems(2) _ _ _ \<open>counted t1\<close> _ run])
      show "unat (used t1) \<le> n + 1" "unat (tbl_size t1) \<le> max 8 (4 * (n + 1))" using Cons.prems(3,4) t1(4,5) by auto
      show "n + 1 + length ops \<le> 2 ^ 28" using Cons.prems(5) by simp
      show "no_overwrite (ht_map t1) ops" using Cons.prems(7) Put t1(3) by (simp del: fun_upd_apply)
    qed
  next
    case (Del k)
    from hash_table_delete_map [OF Cons.prems(1,2), of k] obtain t1 where t1:
      "hash_table_delete ca t k = Inr t1" "ht_inv t1" "ht_map t1 = (ht_map t)(k := None)"
      "unat (tbl_size t1) \<le> unat (tbl_size t)" "unat (used t1) \<le> unat (used t)"
      by blast
    have "counted t1" by (rule hash_table_delete_counts [OF Cons.prems(1,2,6) t1(1)])
    have run: "run_table ca t1 ops = Inr t'" using Cons.prems(8) Del t1(1) by simp
    show ?thesis
    proof (rule Cons.IH [OF t1(2) Cons.prems(2) _ _ _ \<open>counted t1\<close> _ run])
      show "unat (used t1) \<le> n" "unat (tbl_size t1) \<le> max 8 (4 * n)" using Cons.prems(3,4) t1(4,5) by auto
      show "n + length ops \<le> 2 ^ 28" using Cons.prems(5) by simp
      show "no_overwrite (ht_map t1) ops" using Cons.prems(7) Del t1(3) by (simp del: fun_upd_apply)
    qed
  qed
qed simp

lemma size_exact:
  assumes "length ops \<le> 2 ^ 28" and "no_overwrite Map.empty ops"
  shows "\<exists>t. run_table (\<lambda>_. True) empty_u32_table ops = Inr t \<and>
    unat (hash_table_size t) = card (dom (run_map Map.empty ops))"
proof -
  have "\<exists>t. run_table (\<lambda>_. True) empty_u32_table ops = Inr t \<and> ht_inv t \<and>
      ht_map t = run_map (ht_map empty_u32_table) ops"
    using assms by (intro run_table_map [of _ _ 0]) (simp_all add: empty_u32_table_ok)
  then obtain t where t: "run_table (\<lambda>_. True) empty_u32_table ops = Inr t" "ht_map t = run_map Map.empty ops"
    using empty_u32_table_ok by auto
  have "counted t"
    using assms empty_u32_table_ok by (intro run_table_counts [where n = 0, OF _ _ _ _ _ _ _ t(1)]) (simp_all add: counted_def)
  then show ?thesis using t by (simp add: counted_def hash_table_size_def)
qed

text \<open>
  C29 (invariant).  After any sequence of insertions and deletions in which no insertion overwrites a key that is present,
  also across the resizes, \<open>hash_table_size\<close> is the number of keys of the finite map the sequence stands for.
\<close>

theorem hash_table_size_exact:
  assumes "length ops \<le> 2 ^ 28" and "no_overwrite Map.empty ops"
  shows "\<exists>t. run_table (\<lambda>_. True) empty_u32_table ops = Inr t \<and>
    unat (hash_table_size t) = card (dom (run_map Map.empty ops))"
  using assms by (rule size_exact)

theorem hash_table_size_exact_witness:
  "\<exists>t. run_table (\<lambda>_. True) empty_u32_table [Put 1 2, Put 9 4, Del 1, Put 1 3, Del 7] = Inr t \<and>
    unat (hash_table_size t) = card (dom (run_map Map.empty [Put 1 2, Put 9 4, Del 1, Put (1 :: u32) (3 :: u32), Del 7]))"
  by (rule hash_table_size_exact) simp_all

end
