(* ===== verification/TableTests.thy ===== *)
theory TableTests
  imports TableCount TestHarness
begin

text \<open>
  The tests of the hash table (\<open>tests/unit/hash_table_test.c\<close>, \<open>tests/stress/hash_table_test.c\<close>), with the
  number of keys as an argument: 200 in the unit test and 10000 in the stress test.  \<open>ok\<close> tells whether the
  table header can be allocated; the arrays of bins always can.
\<close>

section \<open>The loops\<close>

text \<open>The values of \<open>i\<close> in \<open>for (i = start; i < n; i += step)\<close>.\<close>

definition indices :: "nat \<Rightarrow> nat \<Rightarrow> nat \<Rightarrow> nat list" where
  "indices start step n = filter (\<lambda>i. (i - start) mod step = 0) [start..<n]"

fun insert_each :: "(u32 \<Rightarrow> u32) \<Rightarrow> u32 list \<Rightarrow> (u32, u32) hash_table \<Rightarrow> (u32, u32) hash_table res" where
  "insert_each f [] t = Inr t"
| "insert_each f (i # is) t = bindR (hash_table_insert (\<lambda>_. True) t i (f i)) (insert_each f is)"

fun delete_each :: "u32 list \<Rightarrow> (u32, u32) hash_table \<Rightarrow> (u32, u32) hash_table res" where
  "delete_each [] t = Inr t"
| "delete_each (i # is) t = bindR (hash_table_delete (\<lambda>_. True) t i) (delete_each is)"

fun check_each :: "(u32 \<Rightarrow> u32) \<Rightarrow> u32 list \<Rightarrow> (u32, u32) hash_table \<Rightarrow> int res \<Rightarrow> int res" where
  "check_each f [] t rest = rest"
| "check_each f (i # is) t rest =
     bindR (hash_table_lookup t i) (\<lambda>out. ASSERT_NOT_NULL out (\<lambda>out. ASSERT_EQ_U32 (f i) out (check_each f is t rest)))"

section \<open>The tests\<close>

definition test_insert_lookup_update_delete :: "bool \<Rightarrow> int res" where
  "test_insert_lookup_update_delete ok =
     bindR (hash_table_create (\<lambda>_. True) ok uint32_key_type) (\<lambda>t. ASSERT_NOT_NULL t (\<lambda>t.
     let k = 42; v1 = 10; v2 = 99 in
     bindR (hash_table_insert (\<lambda>_. True) t k v1) (\<lambda>t.
     bindR (hash_table_contains t k) (\<lambda>c. ASSERT_TRUE c (
     bindR (hash_table_lookup t k) (\<lambda>out. ASSERT_NOT_NULL out (\<lambda>out. ASSERT_EQ_U32 v1 out (
     bindR (hash_table_insert (\<lambda>_. True) t k v2) (\<lambda>t.
     bindR (hash_table_lookup t k) (\<lambda>out. ASSERT_NOT_NULL out (\<lambda>out. ASSERT_EQ_U32 v2 out (
     bindR (hash_table_delete (\<lambda>_. True) t k) (\<lambda>t.
     bindR (hash_table_contains t k) (\<lambda>c. ASSERT_FALSE c (Inr 0)))))))))))))))"

text \<open>\<open>n\<close> keys, of which the first \<open>d\<close> are deleted.\<close>

definition test_resize_and_data_survival :: "nat \<Rightarrow> nat \<Rightarrow> bool \<Rightarrow> int res" where
  "test_resize_and_data_survival n d ok =
     bindR (hash_table_create (\<lambda>_. True) ok uint32_key_type) (\<lambda>t. ASSERT_NOT_NULL t (\<lambda>t.
     bindR (insert_each (\<lambda>i. i * 3) (map of_nat (indices 0 1 n)) t) (\<lambda>t.
     ASSERT_TRUE (of_nat n \<le> hash_table_size t) (
     check_each (\<lambda>i. i * 3) (map of_nat (indices 0 1 n)) t (
     bindR (delete_each (map of_nat (indices 0 1 d)) t) (\<lambda>t.
     check_each (\<lambda>i. i * 3) (map of_nat (indices d 1 n)) t (Inr 0)))))))"

definition hash_table_unit_test_main :: "bool \<Rightarrow> bool \<Rightarrow> int res" where
  "hash_table_unit_test_main ok1 ok2 =
     run_tests [test_insert_lookup_update_delete ok1, test_resize_and_data_survival 200 150 ok2]"

definition hash_table_stress_test_main :: "nat \<Rightarrow> bool \<Rightarrow> int res" where
  "hash_table_stress_test_main n ok =
     bindR (hash_table_create (\<lambda>_. True) ok uint32_key_type) (\<lambda>t. ASSERT_NOT_NULL t (\<lambda>t.
     bindR (insert_each (\<lambda>i. i XOR 0xA5A5A5A5) (map of_nat (indices 0 1 n)) t) (\<lambda>t.
     check_each (\<lambda>i. i XOR 0xA5A5A5A5) (map of_nat (indices 0 7 n)) t (
     bindR (delete_each (map of_nat (indices 0 2 n)) t) (\<lambda>t.
     check_each (\<lambda>i. i XOR 0xA5A5A5A5) (map of_nat (indices 1 2 n)) t (Inr 0))))))"

section \<open>The loops as operations on a finite map\<close>

lemma run_table_append: "run_table ca t (xs @ ys) = bindR (run_table ca t xs) (\<lambda>t. run_table ca t ys)"
proof (induction xs arbitrary: t)
  case (Cons op xs)
  then show ?case by (cases op) (simp_all add: bindR_def split: sum.split)
qed simp

lemma insert_each_run: "insert_each f is t = run_table (\<lambda>_. True) t (map (\<lambda>i. Put i (f i)) is)"
  by (induction "is" arbitrary: t) (simp_all add: bindR_def split: sum.split)

lemma delete_each_run: "delete_each is t = run_table (\<lambda>_. True) t (map Del is)"
  by (induction "is" arbitrary: t) (simp_all add: bindR_def split: sum.split)

lemma run_map_append: "run_map m (xs @ ys) = run_map (run_map m xs) ys"
proof (induction xs arbitrary: m)
  case (Cons op xs)
  then show ?case by (cases op) (simp_all del: fun_upd_apply)
qed simp

lemma run_map_puts: "run_map m (map (\<lambda>i. Put i (f i)) is) k = (if k \<in> set is then Some (f k) else m k)"
  by (induction "is" arbitrary: m) auto

lemma run_map_dels: "run_map m (map Del is) k = (if k \<in> set is then None else m k)"
  by (induction "is" arbitrary: m) auto

lemma no_overwrite_puts: "distinct is \<Longrightarrow> \<forall>i \<in> set is. m i = None \<Longrightarrow> no_overwrite m (map (\<lambda>i. Put i (f i)) is)"
proof (induction "is" arbitrary: m)
  case (Cons i "is")
  then have "no_overwrite (m(i \<mapsto> f i)) (map (\<lambda>i. Put i (f i)) is)" by (intro Cons.IH) auto
  then show ?case using Cons.prems(2) by simp
qed simp

lemma check_each_passes: "\<forall>i \<in> set is. hash_table_lookup t i = Inr (Some (f i)) \<Longrightarrow> check_each f is t rest = rest"
  by (induction "is") (simp_all add: assert_run)

lemma set_indices: "set (indices start step n) = {i. start \<le> i \<and> i < n \<and> (i - start) mod step = 0}"
  by (auto simp: indices_def)

lemma length_indices: "length (indices start step n) \<le> n"
  using length_filter_le [of "\<lambda>i. (i - start) mod step = 0" "[start..<n]"] by (simp add: indices_def)

lemma u32_of_nat_inject: "i < 4294967296 \<Longrightarrow> j < 4294967296 \<Longrightarrow> (of_nat i :: u32) = of_nat j \<Longrightarrow> i = j"
  using unat_of_nat_u32 [of i] unat_of_nat_u32 [of j] by argo

lemma of_nat_mem_indices:
  assumes "i < 4294967296" "n < 4294967296"
  shows "(of_nat i :: u32) \<in> of_nat ` set (indices start step n) \<longleftrightarrow> start \<le> i \<and> i < n \<and> (i - start) mod step = 0"
proof
  assume "(of_nat i :: u32) \<in> of_nat ` set (indices start step n)"
  then obtain j where j: "(of_nat i :: u32) = of_nat j" "start \<le> j" "j < n" "(j - start) mod step = 0"
    by (auto simp: set_indices)
  moreover have "i = j" using j(1,3) assms by (intro u32_of_nat_inject) simp_all
  ultimately show "start \<le> i \<and> i < n \<and> (i - start) mod step = 0" by simp
qed (auto simp: set_indices)

lemma distinct_of_nat_indices: "n < 4294967296 \<Longrightarrow> distinct (map (of_nat :: nat \<Rightarrow> u32) (indices start step n))"
  by (auto simp: distinct_map inj_on_def set_indices indices_def intro: u32_of_nat_inject)

text \<open>The state of the table after the insertions, and after the deletions that follow.\<close>

lemma inserted:
  fixes n :: nat
  defines "keys \<equiv> map (of_nat :: nat \<Rightarrow> u32) (indices 0 1 n)"
  assumes "n \<le> 2 ^ 27"
  obtains t where "insert_each f keys empty_u32_table = Inr t" "hash_table_size t = of_nat n"
    "\<And>i. i < n \<Longrightarrow> hash_table_lookup t (of_nat i) = Inr (Some (f (of_nat i)))"
    "\<And>js. length js \<le> 2 ^ 27 \<Longrightarrow> \<exists>t'. delete_each js t = Inr t' \<and>
      (\<forall>i < n. hash_table_lookup t' (of_nat i) = Inr (if of_nat i \<in> set js then None else Some (f (of_nat i))))"
proof -
  let ?puts = "map (\<lambda>i. Put i (f i)) keys"
  have len: "length keys \<le> 2 ^ 27" using assms length_indices [of 0 1 n] by simp
  have keys: "of_nat i \<in> set keys" if "i < n" for i
    using that assms(2) by (simp add: keys_def set_indices)
  have dist: "distinct keys" unfolding keys_def using assms(2) by (intro distinct_of_nat_indices) simp
  obtain t where t: "run_table (\<lambda>_. True) empty_u32_table ?puts = Inr t"
      "\<And>k. hash_table_lookup t k = Inr (run_map Map.empty ?puts k)"
    using run_table_refines [of ?puts] len by auto
  have "dom (run_map Map.empty ?puts) = set keys"
    by (auto simp: run_map_puts split: if_splits)
  moreover have "card (set keys) = n"
    using distinct_card [OF dist] by (simp add: keys_def indices_def)
  moreover have "\<exists>t. run_table (\<lambda>_. True) empty_u32_table ?puts = Inr t \<and>
      unat (hash_table_size t) = card (dom (run_map Map.empty ?puts))"
    using len dist by (intro size_exact) (simp_all add: no_overwrite_puts)
  ultimately have "unat (hash_table_size t) = n" using t(1) by simp
  then have size: "hash_table_size t = of_nat n" by (metis of_nat_unat ucast_id)
  have "\<exists>t'. delete_each js t = Inr t' \<and>
      (\<forall>i < n. hash_table_lookup t' (of_nat i) = Inr (if of_nat i \<in> set js then None else Some (f (of_nat i))))"
    if js: "length js \<le> 2 ^ 27" for js
  proof -
    obtain t' where "run_table (\<lambda>_. True) empty_u32_table (?puts @ map Del js) = Inr t'"
        "\<And>k. hash_table_lookup t' k = Inr (run_map Map.empty (?puts @ map Del js) k)"
      using run_table_refines [of "?puts @ map Del js"] len js by auto
    then show ?thesis
      using t(1) keys by (auto simp: delete_each_run run_table_append run_map_append run_map_dels run_map_puts)
  qed
  then show thesis
    using that [of t] t size keys by (simp add: insert_each_run run_map_puts)
qed

section \<open>What they return\<close>

lemma update_test_passes: "test_insert_lookup_update_delete True = Inr 0"
proof -
  obtain t1 t2 t3 where run: "hash_table_insert (\<lambda>_. True) empty_u32_table 42 10 = Inr t1"
      "hash_table_insert (\<lambda>_. True) t1 42 99 = Inr t2" "hash_table_delete (\<lambda>_. True) t2 42 = Inr t3"
    using run_table_refines [of "[Put 42 10, Put 42 99, Del 42]"] by (auto simp: bindR_Inr_iff)
  have "hash_table_lookup t1 42 = Inr (Some 10)" "hash_table_lookup t2 42 = Inr (Some 99)" "hash_table_lookup t3 42 = Inr None"
    using run_table_refines [of "[Put 42 10]"] run_table_refines [of "[Put 42 10, Put 42 99]"]
      run_table_refines [of "[Put 42 10, Put 42 99, Del 42]"] run by simp_all
  then show ?thesis
    by (simp add: test_insert_lookup_update_delete_def empty_u32_table_create assert_run hash_table_contains_def run cong: step_cong)
qed

lemma survival_test_passes:
  assumes "n \<le> 2 ^ 27" "d \<le> n"
  shows "test_resize_and_data_survival n d True = Inr 0"
proof -
  obtain t where t: "insert_each (\<lambda>i. i * 3) (map of_nat (indices 0 1 n)) empty_u32_table = Inr t" "hash_table_size t = of_nat n"
    "\<And>i. i < n \<Longrightarrow> hash_table_lookup t (of_nat i) = Inr (Some (of_nat i * 3))"
    "\<And>js. length js \<le> 2 ^ 27 \<Longrightarrow> \<exists>t'. delete_each js t = Inr t' \<and>
      (\<forall>i < n. hash_table_lookup t' (of_nat i) = Inr (if of_nat i \<in> set js then None else Some (of_nat i * 3)))"
    using inserted [OF assms(1), of "\<lambda>i. i * 3"] by blast
  have "length (map of_nat (indices 0 1 d) :: u32 list) \<le> 2 ^ 27" using length_indices [of 0 1 d] assms by simp
  from t(4) [OF this] obtain t' where t': "delete_each (map of_nat (indices 0 1 d)) t = Inr t'"
    "\<And>i. i < n \<Longrightarrow> hash_table_lookup t' (of_nat i) =
      Inr (if of_nat i \<in> set (map of_nat (indices 0 1 d) :: u32 list) then None else Some (of_nat i * 3))"
    by auto
  have "hash_table_lookup t' (of_nat i) = Inr (Some (of_nat i * 3))" if "d \<le> i" "i < n" for i
    using that assms t'(2) [of i] by (simp add: of_nat_mem_indices)
  then show ?thesis
    using t(1-3) t'(1) by (simp add: test_resize_and_data_survival_def empty_u32_table_create assert_run check_each_passes set_indices cong: step_cong)
qed

text \<open>
  The stress test of the hash table passes with any number of keys up to \<open>2 ^ 27\<close>, not only with its 10000: all
  the insertions and deletions return, across the growing and shrinking of the table, and every lookup finds
  the value that was stored.
\<close>

theorem hash_table_stress_passes:
  assumes "n \<le> 2 ^ 27"
  shows "hash_table_stress_test_main n True = Inr 0"
proof -
  let ?f = "\<lambda>i :: u32. i XOR 0xA5A5A5A5"
  obtain t where t: "insert_each ?f (map of_nat (indices 0 1 n)) empty_u32_table = Inr t" "hash_table_size t = of_nat n"
    "\<And>i. i < n \<Longrightarrow> hash_table_lookup t (of_nat i) = Inr (Some (?f (of_nat i)))"
    "\<And>js. length js \<le> 2 ^ 27 \<Longrightarrow> \<exists>t'. delete_each js t = Inr t' \<and>
      (\<forall>i < n. hash_table_lookup t' (of_nat i) = Inr (if of_nat i \<in> set js then None else Some (?f (of_nat i))))"
    using inserted [OF assms, of ?f] by blast
  have "length (map of_nat (indices 0 2 n) :: u32 list) \<le> 2 ^ 27" using length_indices [of 0 2 n] assms by simp
  from t(4) [OF this] obtain t' where t': "delete_each (map of_nat (indices 0 2 n)) t = Inr t'"
    "\<And>i. i < n \<Longrightarrow> hash_table_lookup t' (of_nat i) =
      Inr (if of_nat i \<in> set (map of_nat (indices 0 2 n) :: u32 list) then None else Some (?f (of_nat i)))"
    by auto
  have "hash_table_lookup t' (of_nat i) = Inr (Some (?f (of_nat i)))" if "1 \<le> i" "i < n" "(i - 1) mod 2 = 0" for i
  proof -
    have "i mod 2 \<noteq> 0" using that(1,3) by presburger
    then show ?thesis using that assms t'(2) [of i] by (simp add: of_nat_mem_indices)
  qed
  then show ?thesis
    using t(1,3) t'(1)
    by (simp add: hash_table_stress_test_main_def empty_u32_table_create assert_run check_each_passes set_indices cong: step_cong)
qed

theorem hash_table_stress_passes_witness: "hash_table_stress_test_main 10000 True = Inr 0"
  by (rule hash_table_stress_passes) simp

lemma hash_table_unit_test_passes: "hash_table_unit_test_main True True = Inr 0"
  by (simp add: hash_table_unit_test_main_def update_test_passes survival_test_passes assert_run)

end
