(* ===== verification/FileTests.thy ===== *)
theory FileTests
  imports UnitTests HotReload "HOL-Library.Sublist" "HOL-Library.AList"
begin

text \<open>
  The integration tests that work on files (\<open>tests/integration/*.c\<close>, \<open>tests/fixtures/fixture_programs.h\<close>): a load of two modules, the
  program files of a directory, a reload from an empty directory, and a reload behind a changed file.  The tests write to a disk that is
  empty at the start; the order in which a directory is read, the times of modification, and whether files can be written are parameters.
\<close>

section \<open>The disk\<close>

text \<open>A path names a file with its contents, or a directory (\<open>None\<close>).\<close>

type_synonym disk = "(cstr \<times> u8 list option) list"

definition mkdir :: "cstr \<Rightarrow> disk \<Rightarrow> disk" where
  "mkdir path d = (if map_of d path = None then (path, None) # d else d)"

text \<open>\<open>write_bytes\<close> of the tests; it returns 0 if the whole file was written.\<close>

definition write_file :: "bool \<Rightarrow> cstr \<Rightarrow> u8 list \<Rightarrow> disk \<Rightarrow> disk \<times> int" where
  "write_file can_write path data d = (if can_write then (AList.update path (Some data) d, 0) else (d, -1))"

text \<open>The names in a directory.\<close>

definition children :: "disk \<Rightarrow> cstr \<Rightarrow> cstr list" where
  "children d dir = map (\<lambda>p. drop (length dir + 1) p) (filter (\<lambda>p. prefix (dir @ [47]) p \<and> 47 \<notin> set (drop (length dir + 1) p)) (map fst d))"

definition disk_fs :: "(cstr list \<Rightarrow> cstr list) \<Rightarrow> (cstr \<Rightarrow> u64) \<Rightarrow> disk \<Rightarrow> file_system" where
  "disk_fs order mtime d =
     \<lparr>fs_open = (\<lambda>p. case map_of d p of Some (Some data) \<Rightarrow> Some (whole_file data) | _ \<Rightarrow> None),
      fs_readdir = (\<lambda>p. if map_of d p = Some None then Some (order ([46] # [46, 46] # children d p)) else None),
      fs_stat = (\<lambda>p. map_option (\<lambda>n. \<lparr>st_regular = n \<noteq> None, st_directory = n = None,
          st_size = of_nat (case n of None \<Rightarrow> 4096 | Some data \<Rightarrow> length data), st_mtime = mtime p\<rparr>) (map_of d p))\<rparr>"

section \<open>Fixtures\<close>

definition fixture_module_a :: "u8 list" where
  "fixture_module_a = [0x11, 0x22, 0x33, 0x44, 0xAA, 0xBB, 0xCC, 0xDD]"

definition fixture_module_b :: "u8 list" where
  "fixture_module_b = [0x01, 0x00, 0x00, 0x00, 0xEF, 0xBE, 0xAD, 0xDE]"

definition fixture_module_b_v2 :: "u8 list" where
  "fixture_module_b_v2 = [0x02, 0x00, 0x00, 0x00, 0xFE, 0xCA, 0xAD, 0x0B]"

section \<open>The tests\<close>

text \<open>Element \<open>k\<close> of the module table.\<close>

definition with_module :: "vm_state \<Rightarrow> nat \<Rightarrow> (module_info \<Rightarrow> int res) \<Rightarrow> int res" where
  "with_module vm k rest = (case modules vm of None \<Rightarrow> Inl Null_Pointer
     | Some ms \<Rightarrow> if k < length ms then rest (ms ! k) else Inl Out_Of_Bounds)"

definition module_count :: "vm_state \<Rightarrow> nat" where
  "module_count vm = (case modules vm of None \<Rightarrow> 0 | Some ms \<Rightarrow> length ms)"

definition test_load_two_modules_and_hash ::
  "bool \<Rightarrow> bool \<Rightarrow> (cstr list \<Rightarrow> cstr list) \<Rightarrow> (cstr \<Rightarrow> u64) \<Rightarrow> timespec \<Rightarrow> int res" where
  "test_load_two_modules_and_hash can_write ok order mtime now =
     (let dir = cstr_of ''build/test_loader_dir'';
          d = mkdir dir (mkdir (cstr_of ''build'') []);
          path_a = cstr_of ''build/test_loader_dir/module_a.bin''; path_b = cstr_of ''build/test_loader_dir/module_b.bin'';
          (d, rc_a) = write_file can_write path_a fixture_module_a d in
     ASSERT_EQ_U32 0 (word_of_int rc_a) (
     let (d, rc_b) = write_file can_write path_b fixture_module_b d in
     ASSERT_EQ_U32 0 (word_of_int rc_b) (
     ASSERT_NOT_NULL (vm_create ok ok now) (\<lambda>vm.
     bindR (load_programs ok (disk_fs order mtime d) vm [path_a, path_b]) (\<lambda>(vm, rc).
     ASSERT_EQ_U32 0 (word_of_int rc) (ASSERT_EQ_U32 2 (of_nat (module_count vm)) (ASSERT_EQ_U32 16 (ucast (program_size vm)) (
     with_module vm 0 (\<lambda>m0. with_module vm 1 (\<lambda>m1.
     ASSERT_EQ_U32 (PC_START vm) (mod_addr m0) (ASSERT_EQ_U32 (PC_START vm + 8) (mod_addr m1) (
     ASSERT_MEM_EQ fixture_module_a vm (unat (PC_START vm)) (
     ASSERT_MEM_EQ fixture_module_b vm (unat (PC_START vm) + 8) (
     bindR (calculate_memory_hash (mem vm) (PC_START vm) (program_size vm)) (\<lambda>expected_hash.
     ASSERT_EQ_U32 expected_hash (program_hash vm) (Inr 0))))))))))))))))"

definition test_reload_failure_keeps_previous_state ::
  "bool \<Rightarrow> bool \<Rightarrow> heap_env \<Rightarrow> (cstr list \<Rightarrow> cstr list) \<Rightarrow> (cstr \<Rightarrow> u64) \<Rightarrow> timespec \<Rightarrow> int res" where
  "test_reload_failure_keeps_previous_state can_write ok h order mtime now =
     (let ok_dir = cstr_of ''build/test_reload_failure_ok''; bad_dir = cstr_of ''build/test_reload_failure_empty'';
          d = mkdir bad_dir (mkdir ok_dir (mkdir (cstr_of ''build'') []));
          path_a = cstr_of ''build/test_reload_failure_ok/module_a.bin'';
          (d, rc_a) = write_file can_write path_a fixture_module_a d;
          fs = disk_fs order mtime d in
     ASSERT_EQ_U32 0 (word_of_int rc_a) (
     ASSERT_NOT_NULL (vm_create ok ok now) (\<lambda>vm.
     bindR (load_programs ok fs vm [path_a]) (\<lambda>(vm, rc).
     ASSERT_EQ_U32 0 (word_of_int rc) (
     let old_hash = program_hash vm; old_module_count = module_count vm; old_size = ucast (program_size vm) in
     ASSERT_NOT_NULL (if ok then Some bad_dir else None) (\<lambda>dir.
     let vm = vm\<lparr>program_dir := Some dir, reload_pending := True\<rparr> in
     bindR (apply_pending_reload h fs vm) (\<lambda>vm.
     ASSERT_TRUE (reload_pending vm) (ASSERT_EQ_U32 old_hash (program_hash vm) (
     ASSERT_EQ_U32 (of_nat old_module_count) (of_nat (module_count vm)) (ASSERT_EQ_U32 old_size (ucast (program_size vm)) (
     with_module vm 0 (\<lambda>m0.
     ASSERT_EQ_U32 (PC_START vm) (mod_addr m0) (ASSERT_EQ_U32 8 (mod_size m0) (
     ASSERT_MEM_EQ fixture_module_a vm (unat (mod_addr m0)) (Inr 0)))))))))))))))"

text \<open>The reading of a directory of the tests behind a write of file \<open>b\<close>: \<open>mtime1\<close> and \<open>mtime2\<close> are the times before and behind it.\<close>

definition test_reload_and_signature_change ::
  "bool \<Rightarrow> bool \<Rightarrow> heap_env \<Rightarrow> (cstr list \<Rightarrow> cstr list) \<Rightarrow> (cstr \<Rightarrow> u64) \<Rightarrow> (cstr \<Rightarrow> u64) \<Rightarrow> timespec \<Rightarrow> int res" where
  "test_reload_and_signature_change can_write ok h order mtime1 mtime2 now =
     (let dir = cstr_of ''build/test_reload_dir'';
          d = mkdir dir (mkdir (cstr_of ''build'') []);
          path_a = cstr_of ''build/test_reload_dir/a.bin''; path_b = cstr_of ''build/test_reload_dir/b.bin'';
          (d, rc_a) = write_file can_write path_a fixture_module_a d in
     ASSERT_EQ_U32 0 (word_of_int rc_a) (
     let (d, rc_b) = write_file can_write path_b fixture_module_b d; fs = disk_fs order mtime1 d in
     ASSERT_EQ_U32 0 (word_of_int rc_b) (
     ASSERT_NOT_NULL (vm_create ok ok now) (\<lambda>vm.
     let (sig, changed) = directory_changed h fs dir 0 in
     ASSERT_EQ_U32 0 (word_of_int changed) (ASSERT_TRUE (sig \<noteq> 0) (
     bindR (reload_programs_from_directory h fs vm dir) (\<lambda>(vm, rc).
     ASSERT_EQ_U32 0 (word_of_int rc) (
     let old_hash = program_hash vm;
         (d, rc_b) = write_file can_write path_b fixture_module_b_v2 d; fs = disk_fs order mtime2 d in
     ASSERT_EQ_U32 0 (word_of_int rc_b) (
     let (sig, changed) = directory_changed h fs dir sig in
     ASSERT_EQ_U32 1 (word_of_int changed) (
     ASSERT_NOT_NULL (if ok then Some dir else None) (\<lambda>dir.
     let vm = vm\<lparr>program_dir := Some dir, reload_pending := True\<rparr> in
     bindR (apply_pending_reload h fs vm) (\<lambda>vm.
     ASSERT_NEQ_U32 old_hash (program_hash vm) (ASSERT_FALSE (reload_pending vm) (Inr 0))))))))))))))"

definition test_collect_and_map_modules ::
  "bool \<Rightarrow> bool \<Rightarrow> heap_env \<Rightarrow> (cstr list \<Rightarrow> cstr list) \<Rightarrow> (cstr \<Rightarrow> u64) \<Rightarrow> timespec \<Rightarrow> int res" where
  "test_collect_and_map_modules can_write ok h order mtime now =
     (let dir = cstr_of ''build/test_io_module_mapping_dir'';
          d = mkdir dir (mkdir (cstr_of ''build'') []);
          a_bin = [0x11, 0x11, 0x11, 0x11, 0x22, 0x22, 0x22, 0x22];
          m_bin = [0x33, 0x33, 0x33, 0x33, 0x44, 0x44, 0x44, 0x44];
          z_bin = [0x55, 0x55, 0x55, 0x55, 0x66, 0x66, 0x66, 0x66];
          txt_bin = [0xAA, 0xBB, 0xCC, 0xDD];
          (d, rc) = write_file can_write (cstr_of ''build/test_io_module_mapping_dir/z.bin'') z_bin d in
     ASSERT_EQ_U32 0 (word_of_int rc) (
     let (d, rc) = write_file can_write (cstr_of ''build/test_io_module_mapping_dir/a.bin'') a_bin d in
     ASSERT_EQ_U32 0 (word_of_int rc) (
     let (d, rc) = write_file can_write (cstr_of ''build/test_io_module_mapping_dir/m.bin'') m_bin d in
     ASSERT_EQ_U32 0 (word_of_int rc) (
     let (d, rc) = write_file can_write (cstr_of ''build/test_io_module_mapping_dir/ignore.txt'') txt_bin d in
     ASSERT_EQ_U32 0 (word_of_int rc) (
     let d = mkdir (cstr_of ''build/test_io_module_mapping_dir/subdir.bin'') d; fs = disk_fs order mtime d in
     (case collect_bin_files h fs dir of None \<Rightarrow> Inr 1 | Some files \<Rightarrow>
     ASSERT_EQ_U32 3 (of_nat (length files)) (
     ASSERT_TRUE (sublist (cstr_of ''a.bin'') (files ! 0)) (ASSERT_TRUE (sublist (cstr_of ''m.bin'') (files ! 1)) (
     ASSERT_TRUE (sublist (cstr_of ''z.bin'') (files ! 2)) (
     ASSERT_NOT_NULL (vm_create ok ok now) (\<lambda>vm.
     bindR (load_programs ok fs vm files) (\<lambda>(vm, rc).
     ASSERT_EQ_U32 0 (word_of_int rc) (ASSERT_EQ_U32 3 (of_nat (module_count vm)) (ASSERT_EQ_U32 24 (ucast (program_size vm)) (
     with_module vm 0 (\<lambda>m0. with_module vm 1 (\<lambda>m1. with_module vm 2 (\<lambda>m2.
     ASSERT_EQ_U32 (PC_START vm) (mod_addr m0) (ASSERT_EQ_U32 (PC_START vm + 8) (mod_addr m1) (ASSERT_EQ_U32 (PC_START vm + 16) (mod_addr m2) (
     ASSERT_EQ_U32 8 (mod_size m0) (ASSERT_EQ_U32 8 (mod_size m1) (ASSERT_EQ_U32 8 (mod_size m2) (
     ASSERT_MEM_EQ a_bin vm (unat (mod_addr m0)) (ASSERT_MEM_EQ m_bin vm (unat (mod_addr m1)) (ASSERT_MEM_EQ z_bin vm (unat (mod_addr m2)) (
     bindR (calculate_memory_hash (mem vm) (PC_START vm) (program_size vm)) (\<lambda>expected_hash.
     ASSERT_EQ_U32 expected_hash (program_hash vm) (Inr 0)))))))))))))))))))))))))))))"

definition loader_integration_test_main :: "bool \<Rightarrow> bool \<Rightarrow> (cstr list \<Rightarrow> cstr list) \<Rightarrow> (cstr \<Rightarrow> u64) \<Rightarrow> timespec \<Rightarrow> int res" where
  "loader_integration_test_main can_write ok order mtime now = run_tests [test_load_two_modules_and_hash can_write ok order mtime now]"

definition reload_failure_test_main :: "bool \<Rightarrow> bool \<Rightarrow> heap_env \<Rightarrow> (cstr list \<Rightarrow> cstr list) \<Rightarrow> (cstr \<Rightarrow> u64) \<Rightarrow> timespec \<Rightarrow> int res" where
  "reload_failure_test_main can_write ok h order mtime now = run_tests [test_reload_failure_keeps_previous_state can_write ok h order mtime now]"

definition io_module_mapping_test_main :: "bool \<Rightarrow> bool \<Rightarrow> heap_env \<Rightarrow> (cstr list \<Rightarrow> cstr list) \<Rightarrow> (cstr \<Rightarrow> u64) \<Rightarrow> timespec \<Rightarrow> int res" where
  "io_module_mapping_test_main can_write ok h order mtime now = run_tests [test_collect_and_map_modules can_write ok h order mtime now]"

definition hot_reload_integration_test_main :: "bool \<Rightarrow> bool \<Rightarrow> heap_env \<Rightarrow> (cstr list \<Rightarrow> cstr list) \<Rightarrow> (cstr \<Rightarrow> u64) \<Rightarrow> (cstr \<Rightarrow> u64) \<Rightarrow> timespec \<Rightarrow> int res" where
  "hot_reload_integration_test_main can_write ok h order mtime1 mtime2 now = run_tests [test_reload_and_signature_change can_write ok h order mtime1 mtime2 now]"

section \<open>What they return\<close>

lemma with_module_loaded [simp]:
  "k < length files \<Longrightarrow> with_module (loaded vm files) k rest = rest (layout (PC_START vm) files ! k)"
  "module_count (loaded vm files) = length files"
  by (simp_all add: with_module_def module_count_def loaded_def)

lemma loaded_fields [simp]:
  "PC_START (loaded vm files) = PC_START vm" "program_hash (loaded vm files) = crc32 (program_image files)"
  "program_size (loaded vm files) = of_nat (length (program_image files))" "modules (loaded vm files) = Some (layout (PC_START vm) files)"
  by (simp_all add: loaded_def)

lemma loaded_slice:
  assumes "a = unat (PC_START vm) + k" "k + n \<le> length (program_image files)" "unat (PC_START vm) + length (program_image files) \<le> VM_MEM_BYTES"
  shows "mem_slice (mem (loaded vm files)) a n = Inr (take n (drop k (program_image files)))"
proof -
  have "map (write_bytes (mem vm) (unat (PC_START vm)) (program_image files)) [a..<a + n] = take n (drop k (program_image files))"
    using assms(1,2) by (intro nth_equalityI) (simp_all add: write_bytes_def add.commute)
  then show ?thesis using assms by (simp add: mem_slice_def loaded_def)
qed

lemma loaded_hashes:
  assumes "unat (PC_START vm) + length (program_image files) \<le> VM_MEM_BYTES"
  shows "calculate_memory_hash (mem (loaded vm files)) (PC_START vm) (of_nat (length (program_image files))) = Inr (crc32 (program_image files))"
    and "program_image files \<noteq> [] \<Longrightarrow> vm_calculate_program_hash (loaded vm files) = Inr (crc32 (program_image files))"
proof -
  have "unat (of_nat (length (program_image files)) :: u64) = length (program_image files)"
    using assms by (simp add: unsigned_of_nat take_bit_nat_eq_self)
  moreover have "mem_slice (mem (loaded vm files)) (unat (PC_START vm)) (length (program_image files)) = Inr (program_image files)"
    using loaded_slice [of _ vm 0 "length (program_image files)" files] assms by simp
  ultimately show "calculate_memory_hash (mem (loaded vm files)) (PC_START vm) (of_nat (length (program_image files))) = Inr (crc32 (program_image files))"
    and "program_image files \<noteq> [] \<Longrightarrow> vm_calculate_program_hash (loaded vm files) = Inr (crc32 (program_image files))"
    using assms by (auto simp: calculate_memory_hash_def vm_calculate_program_hash_def Let_def unat_eq_0 [symmetric])
qed

text \<open>A load in a machine of a test.\<close>

lemma test_load:
  assumes "program_files fs files" "files \<noteq> []" "length (program_image files) \<le> 1000"
  shows "load_programs True fs (new_vm now) (map fst files) = Inr (loaded (new_vm now) files, 0)"
  using assms by (intro load_programs_ok) simp_all

lemma load_test_passes: "test_load_two_modules_and_hash True True order mtime now = Inr 0"
proof -
  let ?a = "cstr_of ''build/test_loader_dir/module_a.bin''" and ?b = "cstr_of ''build/test_loader_dir/module_b.bin''"
  let ?dir = "cstr_of ''build/test_loader_dir''" and ?build = "cstr_of ''build''"
  let ?d = "[(?dir, None), (?build, None), (?a, Some fixture_module_a), (?b, Some fixture_module_b)]"
  let ?files = "[(?a, fixture_module_a), (?b, fixture_module_b)]"
  have ne: "?a \<noteq> ?b" "?dir \<noteq> ?a" "?build \<noteq> ?a" "?dir \<noteq> ?b" "?build \<noteq> ?b" "?dir \<noteq> ?build" by (simp_all add: cstr_of_def)
  have len: "length fixture_module_a = 8" "length fixture_module_b = 8" by (simp_all add: fixture_module_a_def fixture_module_b_def)
  have "program_files (disk_fs order mtime ?d) ?files" using ne by (simp add: program_files_def disk_fs_def)
  from test_load [OF this, of now] len have load: "load_programs True (disk_fs order mtime ?d) (new_vm now) [?a, ?b] =
      Inr (loaded (new_vm now) ?files, 0)" by simp
  have slices: "mem_slice (mem (loaded (new_vm now) ?files)) 0x3000 8 = Inr fixture_module_a"
    "mem_slice (mem (loaded (new_vm now) ?files)) 0x3008 8 = Inr fixture_module_b"
    using loaded_slice [of _ "new_vm now" 0 8 ?files] loaded_slice [of _ "new_vm now" 8 8 ?files] len by simp_all
  show ?thesis
    using ne len load slices loaded_hashes(1) [of "new_vm now" ?files]
    by (simp add: test_load_two_modules_and_hash_def Let_def mkdir_def write_file_def assert_run vm_create_new ASSERT_MEM_EQ_def)
qed

text \<open>The program files of a directory on the disk, in whatever order it is read.\<close>

lemma collect_disk:
  assumes "heap_ok h" "\<And>xs. mset (order xs) = mset xs" "map_of d dir = Some None"
  shows "collect_bin_files h (disk_fs order mtime d) dir =
    Some (sort (map (\<lambda>n. dir @ [47] @ n) (filter (is_program (disk_fs order mtime d) dir) (children d dir))))"
proof -
  let ?P = "is_program (disk_fs order mtime d) dir" and ?f = "\<lambda>n. dir @ [47] @ n" and ?names = "[46] # [46, 46] # children d dir"
  have dots: "\<not> ?P [46]" "\<not> ?P [46, 46]" by (simp_all add: is_program_def)
  have "mset (map ?f (filter ?P (order ?names))) = mset (map ?f (filter ?P ?names))"
    using assms(2) [of ?names] by (simp only: mset_map mset_filter)
  then have "sort (map ?f (filter ?P (order ?names))) = sort (map ?f (filter ?P ?names))"
    by (intro properties_for_sort) simp_all
  moreover have "fs_readdir (disk_fs order mtime d) dir = Some (order ?names)" using assms(3) by (simp add: disk_fs_def)
  ultimately show ?thesis
    using collect_bin_files_ok [OF assms(1), of "disk_fs order mtime d" dir] dots by simp
qed

lemma reload_failure_test_passes:
  assumes "heap_ok h" "\<And>xs. mset (order xs) = mset xs"
  shows "test_reload_failure_keeps_previous_state True True h order mtime now = Inr 0"
proof -
  let ?ok = "cstr_of ''build/test_reload_failure_ok''" and ?bad = "cstr_of ''build/test_reload_failure_empty''"
  let ?a = "cstr_of ''build/test_reload_failure_ok/module_a.bin''" and ?build = "cstr_of ''build''"
  let ?d = "[(?bad, None), (?ok, None), (?build, None), (?a, Some fixture_module_a)]" and ?files = "[(?a, fixture_module_a)]"
  let ?fs = "disk_fs order mtime ?d"
  have ne: "?bad \<noteq> ?a" "?ok \<noteq> ?a" "?build \<noteq> ?a" "?bad \<noteq> ?ok" "?bad \<noteq> ?build" "?ok \<noteq> ?build" by (simp_all add: cstr_of_def)
  have len: "length fixture_module_a = 8" by (simp add: fixture_module_a_def)
  have "program_files ?fs ?files" using ne by (simp add: program_files_def disk_fs_def)
  from test_load [OF this, of now] len have load: "load_programs True ?fs (new_vm now) [?a] = Inr (loaded (new_vm now) ?files, 0)" by simp
  have "children ?d ?bad = []" by (simp add: children_def cstr_of_def)
  then have none: "collect_bin_files h ?fs ?bad = Some []" using collect_disk [OF assms, of ?d ?bad mtime] by simp
  let ?vm = "(loaded (new_vm now) ?files)\<lparr>program_dir := Some ?bad, reload_pending := True\<rparr>"
  have reload: "apply_pending_reload h ?fs ?vm = Inr ?vm"
    by (simp add: apply_pending_reload_def Let_def reload_programs_from_directory_def none)
  have slice: "mem_slice (mem (loaded (new_vm now) ?files)) 0x3000 8 = Inr fixture_module_a"
    using loaded_slice [of _ "new_vm now" 0 8 ?files] len by simp
  have counts: "module_count ?vm = 1" "\<And>rest. with_module ?vm 0 rest = rest (layout 0x3000 ?files ! 0)"
    by (simp_all add: module_count_def with_module_def)
  show ?thesis
    using ne len load slice reload counts
    by (simp add: test_reload_failure_keeps_previous_state_def Let_def mkdir_def write_file_def assert_run vm_create_new ASSERT_MEM_EQ_def)
qed

lemma append_le_append [simp]: "p @ xs \<le> p @ ys \<longleftrightarrow> xs \<le> (ys :: cstr)"
  by (induction p) simp_all

lemma sort_map_append: "sort (map (\<lambda>n. p @ n) xs) = map (\<lambda>n. p @ n :: cstr) (sort xs)"
proof (rule properties_for_sort)
  show "sorted (map (\<lambda>n. p @ n) (sort xs))" by (simp add: sorted_map)
qed simp

lemma mapping_test_passes:
  assumes "heap_ok h" "\<And>xs. mset (order xs) = mset xs"
  shows "test_collect_and_map_modules True True h order mtime now = Inr 0"
proof -
  let ?dir = "cstr_of ''build/test_io_module_mapping_dir''" and ?build = "cstr_of ''build''"
  let ?sub = "cstr_of ''build/test_io_module_mapping_dir/subdir.bin''" and ?txt = "cstr_of ''build/test_io_module_mapping_dir/ignore.txt''"
  let ?z = "cstr_of ''build/test_io_module_mapping_dir/z.bin''" and ?a = "cstr_of ''build/test_io_module_mapping_dir/a.bin''"
  let ?m = "cstr_of ''build/test_io_module_mapping_dir/m.bin''"
  let ?za = "[0x55, 0x55, 0x55, 0x55, 0x66, 0x66, 0x66, 0x66] :: u8 list" and ?aa = "[0x11, 0x11, 0x11, 0x11, 0x22, 0x22, 0x22, 0x22] :: u8 list"
  let ?ma = "[0x33, 0x33, 0x33, 0x33, 0x44, 0x44, 0x44, 0x44] :: u8 list"
  let ?d = "[(?sub, None), (?dir, None), (?build, None), (?z, Some ?za), (?a, Some ?aa), (?m, Some ?ma), (?txt, Some [0xAA, 0xBB, 0xCC, 0xDD])]"
  let ?fs = "disk_fs order mtime ?d" and ?files = "[(?a, ?aa), (?m, ?ma), (?z, ?za)]"
  have neq: "?sub \<noteq> ?dir" "?sub \<noteq> ?build" "?sub \<noteq> ?z" "?sub \<noteq> ?a" "?sub \<noteq> ?m" "?sub \<noteq> ?txt" "?dir \<noteq> ?build" "?dir \<noteq> ?z" "?dir \<noteq> ?a" "?dir \<noteq> ?m" "?dir \<noteq> ?txt" "?build \<noteq> ?z" "?build \<noteq> ?a" "?build \<noteq> ?m" "?build \<noteq> ?txt" "?z \<noteq> ?a" "?z \<noteq> ?m" "?z \<noteq> ?txt" "?a \<noteq> ?m" "?a \<noteq> ?txt" "?m \<noteq> ?txt"
    by (simp_all add: cstr_of_def)
  note ne = neq neq [symmetric]
  have children: "children ?d ?dir = map cstr_of [''subdir.bin'', ''z.bin'', ''a.bin'', ''m.bin'', ''ignore.txt'']"
    by (simp add: children_def cstr_of_def)
  have paths: "?dir @ [47] @ cstr_of ''subdir.bin'' = ?sub" "?dir @ [47] @ cstr_of ''z.bin'' = ?z" "?dir @ [47] @ cstr_of ''a.bin'' = ?a"
    "?dir @ [47] @ cstr_of ''m.bin'' = ?m" by (simp_all add: cstr_of_def)
  have ext: "has_bin_extension (cstr_of ''subdir.bin'')" "has_bin_extension (cstr_of ''z.bin'')" "has_bin_extension (cstr_of ''a.bin'')"
    "has_bin_extension (cstr_of ''m.bin'')" "\<not> has_bin_extension (cstr_of ''ignore.txt'')"
    by (simp_all add: has_bin_extension_def strrchr_def cstr_of_def)
  have progs: "filter (is_program ?fs ?dir) (children ?d ?dir) = map cstr_of [''z.bin'', ''a.bin'', ''m.bin'']"
    using ne unfolding children is_program_def list.map filter.simps paths by (simp add: ext file_is_regular_def disk_fs_def)
  have sorted: "sort (map cstr_of [''z.bin'', ''a.bin'', ''m.bin'']) = map cstr_of [''a.bin'', ''m.bin'', ''z.bin'']"
    by (simp add: cstr_of_def)
  have "map_of ?d ?dir = Some None" using ne by simp
  from collect_disk [OF assms this, of mtime]
  have "collect_bin_files h ?fs ?dir = Some (sort (map (\<lambda>n. (?dir @ [47]) @ n) (map cstr_of [''z.bin'', ''a.bin'', ''m.bin''])))"
    unfolding progs append_assoc .
  also have "\<dots> = Some (map (\<lambda>n. (?dir @ [47]) @ n) (map cstr_of [''a.bin'', ''m.bin'', ''z.bin'']))"
    unfolding sort_map_append sorted ..
  also have "\<dots> = Some [?a, ?m, ?z]" unfolding list.map append_assoc paths ..
  finally have files: "collect_bin_files h ?fs ?dir = Some [?a, ?m, ?z]" .
  have "program_files ?fs ?files" using ne by (simp add: program_files_def disk_fs_def)
  from test_load [OF this, of now] have load: "load_programs True ?fs (new_vm now) [?a, ?m, ?z] = Inr (loaded (new_vm now) ?files, 0)" by simp
  have slices: "mem_slice (mem (loaded (new_vm now) ?files)) 0x3000 8 = Inr ?aa" "mem_slice (mem (loaded (new_vm now) ?files)) 0x3008 8 = Inr ?ma"
    "mem_slice (mem (loaded (new_vm now) ?files)) 0x3010 8 = Inr ?za"
    using loaded_slice [of _ "new_vm now" 0 8 ?files] loaded_slice [of _ "new_vm now" 8 8 ?files] loaded_slice [of _ "new_vm now" 16 8 ?files] by simp_all
  have sub: "sublist (cstr_of ''a.bin'') ?a" "sublist (cstr_of ''m.bin'') ?m" "sublist (cstr_of ''z.bin'') ?z"
    unfolding paths [symmetric] by (simp_all only: append_assoc [symmetric] sublist_append_leftI)
  show ?thesis
    using ne files load slices sub loaded_hashes(1) [of "new_vm now" ?files]
    by (simp add: test_collect_and_map_modules_def Let_def mkdir_def write_file_def assert_run vm_create_new ASSERT_MEM_EQ_def
        numeral_2_eq_2 [symmetric] cong: step_cong)
qed

text \<open>
  The reload behind a change: the test passes exactly if the two signatures it compares differ and the first one is not 0.  The signatures
  cover the times of modification, so both are up to the clock of the file system; the checksums of the two programs differ in any case.
\<close>

definition reload_disk :: "u8 list \<Rightarrow> disk" where
  "reload_disk b = [(cstr_of ''build/test_reload_dir'', None), (cstr_of ''build'', None),
     (cstr_of ''build/test_reload_dir/a.bin'', Some fixture_module_a), (cstr_of ''build/test_reload_dir/b.bin'', Some b)]"

lemma reload_crcs: "crc32 (fixture_module_a @ fixture_module_b) \<noteq> crc32 (fixture_module_a @ fixture_module_b_v2)"
  by (simp add: fixture_module_a_def fixture_module_b_def fixture_module_b_v2_def crc32_def crc32_eval)

lemma reload_disk_loads:
  assumes "heap_ok h" "\<And>xs. mset (order xs) = mset xs" "length b = 8" "PC_START vm = 0x3000"
  shows "reload_programs_from_directory h (disk_fs order mtime (reload_disk b)) vm (cstr_of ''build/test_reload_dir'') =
    Inr (loaded vm [(cstr_of ''build/test_reload_dir/a.bin'', fixture_module_a), (cstr_of ''build/test_reload_dir/b.bin'', b)], 0)"
proof -
  let ?dir = "cstr_of ''build/test_reload_dir''" and ?a = "cstr_of ''build/test_reload_dir/a.bin''" and ?b = "cstr_of ''build/test_reload_dir/b.bin''"
  let ?fs = "disk_fs order mtime (reload_disk b)" and ?files = "[(?a, fixture_module_a), (?b, b)]"
  have neq: "?dir \<noteq> ?a" "?dir \<noteq> ?b" "?a \<noteq> ?b" "cstr_of ''build'' \<noteq> ?a" "cstr_of ''build'' \<noteq> ?b" "cstr_of ''build'' \<noteq> ?dir" by (simp_all add: cstr_of_def)
  note ne = neq neq [symmetric]
  have paths: "?dir @ [47] @ cstr_of ''a.bin'' = ?a" "?dir @ [47] @ cstr_of ''b.bin'' = ?b" by (simp_all add: cstr_of_def)
  have children: "children (reload_disk b) ?dir = map cstr_of [''a.bin'', ''b.bin'']" by (simp add: children_def reload_disk_def cstr_of_def)
  have ext: "has_bin_extension (cstr_of ''a.bin'')" "has_bin_extension (cstr_of ''b.bin'')"
    by (simp_all add: has_bin_extension_def strrchr_def cstr_of_def)
  have progs: "filter (is_program ?fs ?dir) (children (reload_disk b) ?dir) = map cstr_of [''a.bin'', ''b.bin'']"
    using ne unfolding children is_program_def list.map filter.simps paths by (simp add: ext file_is_regular_def disk_fs_def reload_disk_def)
  have sorted: "sort (map cstr_of [''a.bin'', ''b.bin'']) = map cstr_of [''a.bin'', ''b.bin'']" by (simp add: cstr_of_def)
  have "map_of (reload_disk b) ?dir = Some None" by (simp add: reload_disk_def)
  from collect_disk [OF assms(1,2) this, of mtime]
  have "collect_bin_files h ?fs ?dir = Some (sort (map (\<lambda>n. (?dir @ [47]) @ n) (map cstr_of [''a.bin'', ''b.bin''])))"
    unfolding progs append_assoc .
  also have "\<dots> = Some (map (\<lambda>n. (?dir @ [47]) @ n) (map cstr_of [''a.bin'', ''b.bin'']))" unfolding sort_map_append sorted ..
  also have "\<dots> = Some [?a, ?b]" unfolding list.map append_assoc paths ..
  finally have files: "collect_bin_files h ?fs ?dir = Some [?a, ?b]" .
  have a: "length fixture_module_a = 8" by (simp add: fixture_module_a_def)
  have "program_files ?fs ?files" using ne by (simp add: program_files_def disk_fs_def reload_disk_def)
  from load_programs_ok [OF this, of vm] have load: "load_programs True ?fs vm [?a, ?b] = Inr (loaded vm ?files, 0)"
    using assms(3,4) a by simp
  have "vm_calculate_program_hash (loaded vm ?files) = Inr (crc32 (program_image ?files))"
    using assms(3,4) a by (intro loaded_hashes(2)) (auto simp: program_image_def)
  moreover have "(loaded vm ?files)\<lparr>program_hash := crc32 (program_image ?files)\<rparr> = loaded vm ?files" by (simp add: loaded_def)
  ultimately show ?thesis
    using assms(1) by (simp add: reload_programs_from_directory_def files heap_ok_def load)
qed

lemma reload_test_result:
  fixes mtime1 mtime2 :: "cstr \<Rightarrow> u64"
  assumes "heap_ok h" "\<And>xs. mset (order xs) = mset xs"
  defines "dir \<equiv> cstr_of ''build/test_reload_dir''"
  defines "sig1 \<equiv> calc_dir_signature h (disk_fs order mtime1 (reload_disk fixture_module_b)) dir"
    and "sig2 \<equiv> calc_dir_signature h (disk_fs order mtime2 (reload_disk fixture_module_b_v2)) dir"
  shows "test_reload_and_signature_change True True h order mtime1 mtime2 now = Inr (if sig1 \<noteq> 0 \<and> sig2 \<noteq> sig1 then 0 else 1)"
proof -
  let ?a = "cstr_of ''build/test_reload_dir/a.bin''" and ?b = "cstr_of ''build/test_reload_dir/b.bin''"
  have neq: "dir \<noteq> ?a" "dir \<noteq> ?b" "?a \<noteq> ?b" "cstr_of ''build'' \<noteq> ?a" "cstr_of ''build'' \<noteq> ?b" "cstr_of ''build'' \<noteq> dir"
    by (simp_all add: dir_def cstr_of_def)
  note ne = neq neq [symmetric]
  let ?vm1 = "loaded (new_vm now) [(?a, fixture_module_a), (?b, fixture_module_b)]"
  have len: "length fixture_module_b = 8" "length fixture_module_b_v2 = 8" by (simp_all add: fixture_module_b_def fixture_module_b_v2_def)
  have first: "reload_programs_from_directory h (disk_fs order mtime1 (reload_disk fixture_module_b)) (new_vm now) dir = Inr (?vm1, 0)"
    unfolding dir_def by (rule reload_disk_loads [OF assms(1,2) len(1)]) simp
  let ?vm = "?vm1\<lparr>program_dir := Some dir, reload_pending := False\<rparr>"
  have "reload_programs_from_directory h (disk_fs order mtime2 (reload_disk fixture_module_b_v2)) ?vm dir =
      Inr (loaded ?vm [(?a, fixture_module_a), (?b, fixture_module_b_v2)], 0)"
    unfolding dir_def by (rule reload_disk_loads [OF assms(1,2) len(2)]) simp
  then have second: "apply_pending_reload h (disk_fs order mtime2 (reload_disk fixture_module_b_v2)) (?vm1\<lparr>program_dir := Some dir, reload_pending := True\<rparr>) =
      Inr (loaded ?vm [(?a, fixture_module_a), (?b, fixture_module_b_v2)])"
    by (simp add: apply_pending_reload_def)
  have disk1: "AList.update ?b (Some fixture_module_b) (AList.update ?a (Some fixture_module_a) (mkdir dir (mkdir (cstr_of ''build'') []))) =
      reload_disk fixture_module_b"
    and disk2: "AList.update ?b (Some fixture_module_b_v2) (reload_disk fixture_module_b) = reload_disk fixture_module_b_v2"
    using ne by (simp_all add: mkdir_def reload_disk_def dir_def)
  have pending: "\<not> reload_pending (loaded ?vm fs)" for fs by (simp add: loaded_def)
  show ?thesis
    using first second disk1 disk2 pending reload_crcs unfolding test_reload_and_signature_change_def dir_def [symmetric]
    by (cases "sig1 = 0"; cases "sig2 = sig1")
      (simp_all add: Let_def write_file_def assert_run vm_create_new directory_changed_def sig1_def [symmetric] sig2_def [symmetric]
        cong: step_cong)
qed

end
