(* ===== verification/TestVerdicts.thy ===== *)
theory TestVerdicts
  imports UnitTests2 CoreTests TableTests InstructionTests FileTests
begin

text \<open>
  What each program of the repository's test suite returns (\<open>tests/unit\<close>, \<open>tests/instruction\<close>, \<open>tests/integration\<close>,
  \<open>tests/regression\<close>, \<open>tests/stress\<close>): the results of the test theories in one statement.
\<close>

text \<open>
  C32 (error).  The verdict of the test suite, with allocations that succeed, a local time that stands still during the test that reads it, and a math
  library that is exact at the values tested, whatever the monotonic clock, the order and times of the files, and the environment of the handlers: of
  the deterministic programs, those of the handlers, the timers, the decoding, the checksums, the hash table, the loader, the mapping of modules and the failed reload pass;
  those of the life cycle and of the control flow fail, since they expect 5 and 3 in the first registers of a new machine, which are
  0; that of loads and stores accesses the memory behind its end, which it expects to be harmless.
\<close>

theorem test_programs_verdict:
  assumes "exact_libm lm" "sane_tm t" "heap_ok h" "\<And>xs. mset (order xs) = mset xs"
  shows "funcs_test_main (\<lambda>_. True) now lm (\<lambda>_. t) = Inr 0 \<and> timers_test_main (\<lambda>_. True) now = Inr 0 \<and>
    opcode_decode_test_main (\<lambda>_. True) now env = Inr 0 \<and> hashing_test_main = Inr 0 \<and>
    hash_bounds_regression_test_main True now0 = Inr 0 \<and> hash_table_unit_test_main True True = Inr 0 \<and>
    hash_table_stress_test_main 10000 True = Inr 0 \<and> arithmetic_test_main True now0 envs = Inr 0 \<and>
    bitwise_test_main (\<lambda>_. True) now envs = Inr 0 \<and> safety_memory_test_main (\<lambda>_. True) now env = Inr 0 \<and>
    loader_integration_test_main True True order mtime now0 = Inr 0 \<and>
    io_module_mapping_test_main True True h order mtime now0 = Inr 0 \<and>
    reload_failure_test_main True True h order mtime now0 = Inr 0 \<and>
    lifecycle_test_main (\<lambda>_. True) now later = Inr 1 \<and> control_flow_test_main (\<lambda>_. True) now envs = Inr 1 \<and>
    memory_load_store_test_main (\<lambda>_. True) now env = Inl Out_Of_Bounds"
proof -
  have funcs: "funcs_test_main (\<lambda>_. True) now lm (\<lambda>_. t) = Inr 0" using assms(1,2) by (intro funcs_test_passes) simp_all
  have stress: "hash_table_stress_test_main 10000 True = Inr 0" by (rule hash_table_stress_passes) simp
  show ?thesis
    using assms(3,4)
    by (simp add: funcs stress core_test_mains instruction_test_mains hash_table_unit_test_passes hash_bounds_regression_test_main_def
        hash_bounds_test_passes null_input_test_passes loader_integration_test_main_def load_test_passes io_module_mapping_test_main_def mapping_test_passes
        reload_failure_test_main_def reload_failure_test_passes assert_run)
qed

text \<open>A math library, a time, and a directory order.\<close>

definition unit_tm :: tm where
  "unit_tm = \<lparr>tm_sec = 30, tm_min = 15, tm_hour = 23, tm_mday = 31, tm_mon = 11, tm_year = 125\<rparr>"

theorem test_programs_verdict_witness:
  "funcs_test_main (\<lambda>_. True) (\<lambda>_. zero_timespec) unit_libm (\<lambda>_. unit_tm) = Inr 0 \<and>
   io_module_mapping_test_main True True sample_heap rev (\<lambda>_. 0) zero_timespec = Inr 0 \<and>
   lifecycle_test_main (\<lambda>_. True) (\<lambda>_. zero_timespec) (\<lambda>_. zero_timespec) = Inr 1 \<and>
   memory_load_store_test_main (\<lambda>_. True) (\<lambda>_. zero_timespec) sample_env = Inl Out_Of_Bounds"
proof -
  have "exact_libm unit_libm" "sane_tm unit_tm" by (simp_all add: exact_libm_def unit_libm_def sane_tm_def unit_tm_def)
  from test_programs_verdict [OF this sample_heap_ok, of rev "\<lambda>_. zero_timespec" sample_env zero_timespec _ "\<lambda>_. 0" "\<lambda>_. zero_timespec"]
  show ?thesis by simp
qed

end
