(* ===== verification/HotReloadTest.thy ===== *)
theory HotReloadTest
  imports Control
begin

text \<open>
  The interactive test of the reload (\<open>tests/hot_reload_test.c\<close>): a program with signal handlers of its own, which runs
  one of two files and is asked by SIGUSR1 to load the other one.  \<open>hot_step\<close> is what one pass of its loop meets; the loop
  runs over a list of passes.  A request is looked at when \<open>run_program\<close> returns, hence when the
  program in the machine has stopped; the theorem says what a pass with a stopped machine does.
\<close>

section \<open>Signals\<close>

datatype signal = SIGUSR1 | SIGINT | SIGTERM

record hot_flags =
  reload_requested :: bool
  hot_running :: bool

definition sigusr1 :: "hot_flags \<Rightarrow> hot_flags" where
  "sigusr1 fl = fl\<lparr>reload_requested := True\<rparr>"

definition sigint :: "hot_flags \<Rightarrow> hot_flags" where
  "sigint fl = fl\<lparr>hot_running := False\<rparr>"

definition deliver :: "signal list \<Rightarrow> hot_flags \<Rightarrow> hot_flags" where
  "deliver sigs fl = fold (\<lambda>s. case s of SIGUSR1 \<Rightarrow> sigusr1 | SIGINT \<Rightarrow> sigint | SIGTERM \<Rightarrow> sigint) sigs fl"

section \<open>The program\<close>

definition hot_load :: "bool \<Rightarrow> file_system \<Rightarrow> vm_state \<Rightarrow> cstr \<Rightarrow> (vm_state \<times> int) res" where
  "hot_load alloc fs vm file =
     bindR (load_programs alloc fs vm [file]) (\<lambda>(vm, rc).
     if rc \<noteq> 0 then Inr (vm, -1)
     else Inr (vm\<lparr>PC := PC_START vm, stop_requested := False\<rparr>, 0))"

text \<open>The log file, its date and the clock in \<open>run_program\<close>, its cycles, the signals by the time it returns, the files and
  allocations of the load, and the signals before the next test of \<open>running\<close>.\<close>

record hot_step =
  hs_opened :: bool
  hs_date :: string
  hs_tick :: timespec
  hs_now :: timespec
  hs_cycles :: "cycle_env list"
  hs_signals :: "signal list"
  hs_alloc :: bool
  hs_fs :: file_system
  hs_sleep_signals :: "signal list"

datatype hot_result =
    Hot_Exited int
  | Hot_In_Program vm_state
  | Hot_Looping vm_state cstr hot_flags

text \<open>\<open>Hot_In_Program\<close>: \<open>run_program\<close> goes on behind the given cycles; \<open>Hot_Looping\<close>: the passes are used up.\<close>

fun hot_loop :: "cstr \<Rightarrow> cstr \<Rightarrow> hot_step list \<Rightarrow> cstr \<Rightarrow> hot_flags \<Rightarrow> vm_state \<Rightarrow> hot_result res" where
  "hot_loop v1 v2 [] current fl vm = Inr (if hot_running fl then Hot_Looping vm current fl else Hot_Exited 0)"
| "hot_loop v1 v2 (st # sts) current fl vm =
     (if \<not> hot_running fl then Inr (Hot_Exited 0) else
      bindR (run_program (hs_opened st) (hs_date st) (hs_tick st) (hs_now st) (hs_cycles st) vm) (\<lambda>(vm, out, go).
      if go then Inr (Hot_In_Program vm) else
      let fl = deliver (hs_signals st) fl in
      if reload_requested fl then
        let fl = fl\<lparr>reload_requested := False\<rparr>; current = (if current = v1 then v2 else v1) in
        bindR (hot_load (hs_alloc st) (hs_fs st) vm current) (\<lambda>(vm, _).
        hot_loop v1 v2 sts current (deliver (hs_sleep_signals st) fl) vm)
      else hot_loop v1 v2 sts current (deliver (hs_sleep_signals st) fl) vm))"

text \<open>\<open>args\<close> are the arguments behind the name of the program, \<open>sigs\<close> the signals before the first pass.\<close>

definition hot_reload_test_main ::
  "cstr list \<Rightarrow> bool \<Rightarrow> timespec \<Rightarrow> timespec \<Rightarrow> bool \<Rightarrow> file_system \<Rightarrow> signal list \<Rightarrow> hot_step list \<Rightarrow> hot_result res" where
  "hot_reload_test_main args ok now later alloc fs sigs sts =
     (let v1 = (if 1 \<le> length args then args ! 0 else cstr_of ''build/bin/program_v1.bin'');
          v2 = (if 2 \<le> length args then args ! 1 else cstr_of ''build/bin/program_v2.bin'') in
      case vm_create ok ok now of
        None \<Rightarrow> Inr (Hot_Exited 1)
      | Some vm \<Rightarrow>
          let vm = (case fst (vm_init_defaults later (Some vm)) of None \<Rightarrow> vm | Some vm \<Rightarrow> vm);
              vm = vm\<lparr>config := (config vm)\<lparr>cycle_time_ms := 100\<rparr>\<rparr>;
              current = v1 in
          bindR (hot_load alloc fs vm current) (\<lambda>(vm, rc).
          if rc \<noteq> 0 then Inr (Hot_Exited 1)
          else hot_loop v1 v2 sts current (deliver sigs \<lparr>reload_requested = False, hot_running = True\<rparr>) vm))"

section \<open>When a request is served\<close>

lemma deliver_simps [simp]:
  "reload_requested (deliver sigs fl) \<longleftrightarrow> reload_requested fl \<or> SIGUSR1 \<in> set sigs"
  "hot_running (deliver sigs fl) \<longleftrightarrow> hot_running fl \<and> SIGINT \<notin> set sigs \<and> SIGTERM \<notin> set sigs"
  by (induction sigs arbitrary: fl) (auto simp: deliver_def sigusr1_def sigint_def split: signal.split)

text \<open>A load of a file that is there makes it the only module and clears the stop.\<close>

lemma hot_load_ok:
  assumes "fs_open fs file = Some (whole_file d)" "unat (PC_START vm) + length d + 3 \<le> VM_MEM_BYTES"
  shows "hot_load True fs vm file = Inr ((loaded vm [(file, d)])\<lparr>PC := PC_START vm, stop_requested := False\<rparr>, 0)"
proof -
  have "load_programs True fs vm (map fst [(file, d)]) = Inr (loaded vm [(file, d)], 0)"
    using assms by (intro load_programs_ok) (simp_all add: program_files_def)
  then show ?thesis by (simp add: hot_load_def) (simp add: loaded_def)
qed

text \<open>A machine that has stopped executes nothing in a further call of \<open>run_program\<close>.\<close>

lemma stopped_run:
  assumes "stop_requested vm" "program_dir vm = None"
  obtains vm' where "run_program opened date tick now (ce # ces) vm = Inr (vm', [Cleanups_Run], False)"
    "reg vm' = reg vm" "mem vm' = mem vm" "modules vm' = modules vm" "PC_START vm' = PC_START vm" "stop_requested vm'" "program_dir vm' = None"
proof -
  define vm1 where "vm1 = fst (init_logging opened date (vm_init_timer tick vm))"
  define vm0 where "vm0 = vm1\<lparr>time_ms := ms_of_timespec now, config := (config vm1)\<lparr>hash_algo := HASH_CRC32\<rparr>\<rparr>"
  define vm2 where "vm2 = (if ce_stop ce then vm0\<lparr>stop_requested := True\<rparr> else vm0)\<lparr>cycle_count := cycle_count vm1 + 1\<rparr>"
  have same: "reg vm1 = reg vm" "mem vm1 = mem vm" "modules vm1 = modules vm" "PC_START vm1 = PC_START vm" "stop_requested vm1"
    "program_dir vm1 = None"
    using assms by (simp_all add: vm1_def init_logging_def snapshot_def vm_init_timer_def)
  then have "run_program opened date tick now (ce # ces) vm = Inr (fst (close_logging vm2), [Cleanups_Run], False)"
    by (simp add: run_program_def run_cycle_def reload_phase_def apply_pending_reload_def Let_def vm2_def vm0_def flip: vm1_def)
  moreover have "reg (fst (close_logging vm2)) = reg vm" "mem (fst (close_logging vm2)) = mem vm" "modules (fst (close_logging vm2)) = modules vm"
    "PC_START (fst (close_logging vm2)) = PC_START vm" "stop_requested (fst (close_logging vm2))" "program_dir (fst (close_logging vm2)) = None"
    using same by (simp_all add: close_logging_def vm2_def vm0_def)
  ultimately show thesis by (rule that)
qed

text \<open>
  A pass of the loop with a machine that has stopped: it runs nothing; without SIGUSR1 the machine stays stopped, with it the
  other file is loaded, whose run begins at its start in the next pass.
\<close>

theorem stopped_pass:
  assumes "stop_requested vm" "program_dir vm = None" "hot_running fl" "\<not> reload_requested fl" "hs_cycles st = ce # ces"
    and "other = (if current = v1 then v2 else v1)" "hs_alloc st" "fs_open (hs_fs st) other = Some (whole_file d)"
    and "unat (PC_START vm) + length d + 3 \<le> VM_MEM_BYTES"
  shows "\<exists>vm' fl'. hot_loop v1 v2 (st # sts) current fl vm =
      hot_loop v1 v2 sts (if SIGUSR1 \<in> set (hs_signals st) then other else current) fl' vm' \<and>
    reg vm' = reg vm \<and> PC_START vm' = PC_START vm \<and>
    (if SIGUSR1 \<in> set (hs_signals st)
     then \<not> stop_requested vm' \<and> PC vm' = PC_START vm \<and> mem vm' = write_bytes (mem vm) (unat (PC_START vm)) d \<and>
       modules vm' = Some [\<lparr>mod_name = other, mod_addr = PC_START vm, mod_size = of_nat (length d)\<rparr>]
     else stop_requested vm' \<and> mem vm' = mem vm \<and> modules vm' = modules vm)"
proof -
  obtain vm1 where r: "run_program (hs_opened st) (hs_date st) (hs_tick st) (hs_now st) (hs_cycles st) vm = Inr (vm1, [Cleanups_Run], False)"
    "reg vm1 = reg vm" "mem vm1 = mem vm" "modules vm1 = modules vm" "PC_START vm1 = PC_START vm" "stop_requested vm1"
    unfolding assms(5) using stopped_run [OF assms(1,2)] by metis
  show ?thesis
  proof (cases "SIGUSR1 \<in> set (hs_signals st)")
    case True
    have "hot_load (hs_alloc st) (hs_fs st) vm1 other = Inr ((loaded vm1 [(other, d)])\<lparr>PC := PC_START vm1, stop_requested := False\<rparr>, 0)"
      using assms(7-9) r(5) by (simp add: hot_load_ok)
    with True r assms(3,6) show ?thesis by (simp add: Let_def) (auto simp: loaded_def program_image_simps)
  next
    case False
    with r assms(3,4) show ?thesis by (simp add: Let_def) blast
  qed
qed

end
