(* ===== verification/Spec2Isabelle.thy ===== *)
theory Spec2Isabelle
  imports Dispatch Tables VMHash Lifecycle Loader HotReload Text Debug Helpers Runtime Execution Cycles Control
    Converter VM_Main Toolchain Legacy LegacyRun HostedEquiv HostApi System SystemRun Iec Mvp
    OldDebug PerfSummary StraightLine TestVerdicts HotReloadTest
begin

text \<open>
  VM32, the virtual machine of a programmable logic controller: a model of the C sources under
  \<open>src/prototype-integrator\<close>, of the C++ system under \<open>src/system-master\<close> that hosts a copy of the machine, and of the
  first prototype \<open>src/code\<close>, with the theorems that make them correct.

  \<^bold>\<open>The program.\<close>  The assembler \<open>tools/converter.c\<close> turns lines of text into 32-bit instruction
  words.  The machine (\<open>src/main.c\<close>) loads all \<open>.bin\<close> files of a directory behind each other into
  a memory block of 64 MiB, and runs them in cycles: at the start of a cycle it looks for a change of the
  directory and reloads, then every file is run as a module, then the timers are updated, the
  checksums compared and the rest of the cycle time slept.  The instructions work on 256 registers and the
  memory: arithmetic, logic, calendar, null terminated strings, IEC timers and counters, edge
  detectors, latches, multiplexers and jumps.

  The system \<open>system-master\<close> wraps a copy of the machine (\<open>iec/runtime/legacy\<close>), one cycle at a time, in an interface
  of C functions and a component; a service bus, a logger, a scheduler with tasks and a component manager put the
  components together, and \<open>main.cpp\<close> starts and stops them.  Apart from it stands a layer of IEC
  programs that tick.

  \<^bold>\<open>The theories\<close>, each importing those of the components it calls:

  \<^item> \<open>Prelude\<close>: types (\<open>u8\<close>, \<open>u32\<close>, \<open>u64\<close>), \<open>fault\<close> and the result type \<open>res\<close> (\<open>Inl\<close> a fault
    such as an access out of bounds or a failed assertion, \<open>Inr\<close> a value) with its composition \<open>bindR\<close>, generic
    lemmas and the collections \<open>vm_frame\<close>, \<open>wf_intros\<close>, \<open>res_simps\<close>.
  \<^item> \<open>Hashing\<close> (\<open>hashing.c\<close>, first part): CRC32, table driven, and FNV-1a; locale \<open>byte_checksum\<close>.
  \<^item> \<open>HashTable\<close> (\<open>hashing.c\<close>, second part): the open addressing table with its states of bins, growing and
    shrinking; the abstract map \<open>ht_map\<close>, the invariant \<open>ht_inv\<close>, and the locale \<open>map_table\<close> its clients use.  \<open>TableCount\<close>:
    when its counter of elements is the number of keys.
  \<^item> \<open>VMState\<close> (\<open>main.h\<close>, \<open>timers.h\<close>, \<open>vm_tables.h\<close>): the machine as the record \<open>vm_state\<close>, the checked
    accesses to memory, and the well-formedness \<open>vm_wf\<close>.
  \<^item> \<open>Instr\<close> (\<open>funcs.h\<close>): the fields of an instruction word and the operand macros.
  \<^item> \<open>Ops_Arith\<close>, \<open>Ops_Strings\<close>, \<open>Ops_IEC\<close> (\<open>funcs.c\<close>): the 68 handlers; \<open>Timers\<close> (\<open>timers.c\<close>): the five
    kinds of timers; locales \<open>in_place_edit\<close>, \<open>edge_counter\<close>, \<open>edge_detector\<close>, \<open>delay_timer\<close>.
  \<^item> \<open>Dispatch\<close> (\<open>vm_lifecycle.c\<close>): the table of handlers and \<open>exec_op\<close>, what all handlers keep; the table of the documents,
    which numbers the operations from 56 on otherwise (\<open>documented_op_ex\<close>).
  \<^item> \<open>Tables\<close> (\<open>vm_tables.c\<close>): labels, breakpoints (locale \<open>flag_set\<close>) and the cache of decoded instructions.
  \<^item> \<open>VMHash\<close> (\<open>hashing.c\<close>, last part): checksums of registers, memory, program and state.
  \<^item> \<open>Lifecycle\<close> (\<open>vm_lifecycle.c\<close>): creation, reset, destruction.
  \<^item> \<open>Loader\<close> (\<open>loader.c\<close>), \<open>HotReload\<close> (\<open>hot_reload.c\<close>): loading files, collecting them from the directory, its
    signature, the protocol of a pending reload (\<open>reload_step\<close>).
  \<^item> \<open>Text\<close>: the functions of the C library on strings and numbers; \<open>Debug\<close> (\<open>debug.c\<close>): the text of the log, \<open>PerfSummary\<close> that of the statistics;
    \<open>Helpers\<close> (\<open>vm_helpers.c\<close>): the tick, the command line and the configuration.
  \<^item> \<open>Runtime\<close> (\<open>vm_runtime.c\<close>): an instruction, a module, a cycle and the main loop.  \<open>Execution\<close>, \<open>Cycles\<close>
    and \<open>Control\<close> hold the proofs about it, with the invariant \<open>vm_ok\<close> of the running machine.
  \<^item> \<open>Converter\<close> (\<open>tools/converter.c\<close>): the assembler.
  \<^item> \<open>VM_Main\<close> (\<open>cleanup.c\<close>, \<open>main.c\<close>): the cleanups and the program from its command line to its exit code.

  \<^item> \<open>Toolchain\<close>: theorems that join assembler, loader, runtime and checksums.
  \<^item> \<open>Legacy\<close> (\<open>system-master/iec/runtime/legacy/src\<close>: \<open>funcs.c\<close>, \<open>vm_lifecycle.c\<close>, \<open>vm_runtime.c\<close>): what the hosted copy
    does otherwise than the machine above, with the prefix \<open>legacy_\<close>; its other files are the same text, so the definitions above
    model them too.  \<open>LegacyRun\<close> holds the proofs about it; the loop over instructions is the locale
    \<open>instruction_loop\<close>, which both machines interpret.  \<open>HostedEquiv\<close> compares a cycle of the two machines.
  \<^item> \<open>HostApi\<close> (\<open>vm_api.c\<close>): the calls a host makes on the one global machine, in any order (\<open>api_step\<close>).
  \<^item> \<open>System\<close> (\<open>bus\<close>, \<open>core\<close>, \<open>iec/runtime\<close>, \<open>main.cpp\<close>): the components and the program; \<open>SystemRun\<close>: the proofs, with the
    locale \<open>component_contract\<close> of what an init, a start and a stop keep.
  \<^item> \<open>Iec\<close> (\<open>core/iec\<close>, \<open>core/runtime\<close>, \<open>core/logging\<close>, \<open>core/metrics\<close>): IEC programs and their cycle, structured log lines.
  \<^item> \<open>OldDebug\<close> (\<open>legacy/debug.c\<close>): the older debugger beside the sources of the copy, with the prefix \<open>old_\<close>.
  \<^item> \<open>Mvp\<close> (\<open>code/mvp.c\<close>): the first prototype.

  \<^item> The test suite (\<open>prototype-integrator/tests\<close>): \<open>TestHarness\<close>, the assertions and the small interpreter of the tests;
    \<open>UnitTests\<close>, \<open>UnitTests2\<close>, \<open>CoreTests\<close>, \<open>TableTests\<close>, the unit tests with the stress test of the table;
    \<open>InstructionTests\<close>, the tests of whole programs and of random ones; \<open>FileTests\<close>, those that write files, with a model of the
    disk; \<open>TestVerdicts\<close>, the result of each program; \<open>StraightLine\<close>, the interpreter of the tests against the runtime;
    \<open>HotReloadTest\<close>, the interactive program that exchanges two files on a signal.

  \<^bold>\<open>Correspondence.\<close>  A definition has the name of the C function, macro or structure it models; a definition
  for a part of one (the body of a loop, a test) says so in the manifest.  C integers are words of their width,
  so additions wrap as in C; where C leaves a result undefined (signed overflow, overlapping
  \<open>memcpy\<close>, conversion of a floating point value that does not fit) the model gives a fault.  Null pointers are \<open>None\<close>.
  The memory is a function on natural numbers, and every access checks the 64 MiB and gives \<open>Out_Of_Bounds\<close> behind
  them, whether the code checks or not; so a theorem that excludes this fault is about the
  code's own checks.  Strings of the host are lists of bytes (\<open>cstr\<close>) or of characters.  Outside of the sources, hence
  arguments, are: the floating point library and the local time (\<open>op_env\<close>), the clock, the outcome of allocations,
  the file system (\<open>file_system\<close>), \<open>getopt_long\<close>, the double arithmetic of the statistics (\<open>floats\<close>), and the signals (\<open>instr_env\<close>, \<open>cycle_env\<close>, \<open>main_env\<close>); and, for the system,
  the function \<open>vm_load_programs\<close>, which is missing, of which the properties that need it assume no more than \<open>vm_api.h\<close> documents,
  that it calls \<open>load_programs\<close> (\<open>calls_load_programs\<close>), the life cycle controller, and the endpoints and expressions of IEC programs.

  \<^bold>\<open>What is shown.\<close>  Safety: no handler leaves the memory (\<open>exec_op_safe\<close>), hence no module, cycle or
  run of the program does, from the command line on (\<open>run_program_safe\<close>, \<open>main_end_to_end\<close>).
  Termination: a module ends after at most \<open>MAX_INSTRUCTIONS\<close> instructions (\<open>run_module_ends\<close>).  Refinement: the
  hash table is a finite map (\<open>hash_table_run_refines\<close>) and a current decode cache is transparent.  Liveness: the reload
  protocol always recovers (\<open>reload_recovers\<close>).  Behaviour of the timers, counters, edge detectors, multiplexers, strings,
  jumps and the virtual time.  Equivalence of the table driven CRC32 with polynomial division, and what the checksums detect.
  Round trips between the assembler, the disassembly and the instruction word; from text to execution
  (\<open>assembled_programs_execute\<close>).  For the hosted machine: its agreement with the current one
  (\<open>hosted_cycle_agrees\<close>), the invariant under any calls of a host (\<open>hosted_machine_safe\<close>), the finality of a
  stop (\<open>stop_is_final\<close>), ticks of the scheduler as traversals of the tasks (\<open>scheduler_tick_traverses\<close>), the run of the
  system (\<open>system_main_lifecycle\<close>), structured log lines that can be read back (\<open>log_line_reads_back\<close>).  The first prototype ends on every memory
  and does what its words mean (\<open>mvp_runs_program\<close>).  The test suite: which of its programs pass
  (\<open>test_programs_verdict\<close>), what the random programs test (\<open>random_program_case\<close>), and that the interpreter of the tests
  stands for the runtime on straight-line code (\<open>harness_agrees_with_runtime\<close>).  And the flaws found, as theorems: timers that fire early, stale
  operands behind a reload, false checksum alarms, reads of the loader behind the memory, registers numbered modulo \<open>2 ^ 32\<close>, the
  instruction that is the end of a module, the memory edge detectors share, the clock that runs late, the machine that is never ticked.

  \<^bold>\<open>Bounds.\<close>  Numbers of the sources are kept: 64 MiB of memory, 256 registers, 16 instances of each function block,
  100000 instructions per module and cycle, tables of at least 8 bins.  Two functions run on fuel: an insertion may
  resize the table, which inserts again; depth 2 suffices since the inner insertions meet a table at most half full
  (\<open>hash_table_insert_refines\<close> shows that the fuel never runs out).  The main loop may run for ever; it is run over a list
  of cycles, of any length.  Tasks may hold tasks, so a tick has a depth of calls, which is enough when it exceeds the rank of the
  tasks (\<open>scheduler_tick_traverses\<close>).  The loop of the first prototype is a partial function that is shown to
  return on a memory below 4 GB.  The cache of decoded instructions holds at most one entry for each of the
  addresses, so its size stays below \<open>2 ^ 28\<close> and its growth never overflows (\<open>cache_sane\<close>).

  \<^bold>\<open>Not modelled.\<close>  Messages on the standard output and
  error are left out or are events (\<open>event\<close>); the lines the runtime itself writes to the log are left out, those of
  \<open>debug.c\<close> are modelled as text.  Sleeping has no effect but on the clock, which is an argument.  Threads: the only other thread
  of control is the signal handler, which sets a flag the loop reads once in a cycle.  Of \<open>system-master\<close>: accessors that only return a
  field; messages on the standard error.  In the tests the random numbers of the C library, the disk, the signals and the clock are arguments.
\<close>

end
